(* ===== verification/Prelude.thy ===== *)
theory Prelude
  imports Main "HOL-Library.Monad_Syntax" "HOL-Library.Sublist" "HOL-Library.Code_Target_Nat"
begin

text \<open>
  The vocabulary every component shares: the machine integers of the program, the few
  operations of Rust's slices, options and iterators the code uses, and the generic lemmas
  about them.

  \<^item> Integers. \<open>u8\<close>, \<open>u16\<close>, \<open>u32\<close>, \<open>u64\<close> and \<open>usize\<close> (64 bits) are natural numbers
    with the bound written out. The release profile of \<open>Cargo.toml\<close> leaves overflow checks
    off, so a plain \<open>+\<close> that can leave the type is \<open>wrap_add\<close>; \<open>saturating_add\<close> is
    \<open>sat_add\<close>; \<open>saturating_sub\<close> is subtraction on \<^typ>\<open>nat\<close>.
  \<^item> Panics. A function of the code that can panic returns an \<^typ>\<open>'a option\<close>, and \<open>None\<close>
    is the panic; \<open>do\<close> notation (\<open>Monad_Syntax\<close>) sequences such calls.
  \<^item> Collections. \<open>HashMap\<close> is a partial map, \<open>HashSet\<close> a set or a list read as a set.
\<close>

section \<open>Machine integers\<close>

type_synonym u8 = nat
type_synonym u16 = nat
type_synonym u32 = nat
type_synonym u64 = nat
type_synonym usize = nat

definition u32_max :: nat where "u32_max = 4294967295"
definition usize_max :: nat where "usize_max = 18446744073709551615"
definition u64_max :: nat where "u64_max = 18446744073709551615"

text \<open>\<open>a + b\<close> on a type whose greatest value is \<open>m\<close>, overflow checks off.\<close>

definition wrap_add :: "nat \<Rightarrow> nat \<Rightarrow> nat \<Rightarrow> nat" where
  "wrap_add m a b = (a + b) mod Suc m"

text \<open>\<open>a - b\<close> likewise: it wraps below zero.\<close>

definition wrap_sub :: "nat \<Rightarrow> nat \<Rightarrow> nat \<Rightarrow> nat" where
  "wrap_sub m a b = (if b \<le> a then a - b else Suc m - (b - a) mod Suc m) mod Suc m"

definition sat_add :: "nat \<Rightarrow> nat \<Rightarrow> nat \<Rightarrow> nat" where
  "sat_add m a b = min m (a + b)"

definition sat_mul :: "nat \<Rightarrow> nat \<Rightarrow> nat \<Rightarrow> nat" where
  "sat_mul m a b = min m (a * b)"

lemma wrap_add_small [simp]: "a + b \<le> m \<Longrightarrow> wrap_add m a b = a + b"
  by (simp add: wrap_add_def)

lemma wrap_add_bound: "wrap_add m a b \<le> m"
  by (simp add: wrap_add_def less_Suc_eq_le [symmetric])

lemma wrap_sub_small [simp]: "b \<le> a \<Longrightarrow> a \<le> m \<Longrightarrow> wrap_sub m a b = a - b"
  by (simp add: wrap_sub_def)

lemma wrap_add_assoc: "wrap_add m (wrap_add m a b) c = wrap_add m a (b + c)"
  by (simp add: wrap_add_def mod_add_left_eq add.assoc)

lemma wrap_add_0 [simp]: "a \<le> m \<Longrightarrow> wrap_add m a 0 = a"
  by (simp add: wrap_add_def)

lemma sat_add_small [simp]: "a + b \<le> m \<Longrightarrow> sat_add m a b = a + b"
  by (simp add: sat_add_def)

lemma sat_add_bound: "sat_add m a b \<le> m"
  by (simp add: sat_add_def)

lemma sat_add_mono: "a \<le> a' \<Longrightarrow> b \<le> b' \<Longrightarrow> sat_add m a b \<le> sat_add m a' b'"
  by (auto simp: sat_add_def)

lemma sat_add_ge: "a \<le> m \<Longrightarrow> a \<le> sat_add m a b"
  by (simp add: sat_add_def)

lemma sat_add_0 [simp]: "a \<le> m \<Longrightarrow> sat_add m a 0 = a"
  by (simp add: sat_add_def)

lemma sat_add_assoc: "sat_add m (sat_add m a b) c = sat_add m a (sat_add m b c)"
  by (simp add: sat_add_def)

text \<open>A percentage of a part that is at most the whole.\<close>

lemma percent_full:
  assumes "r \<le> (t :: nat)" and "t \<noteq> 0"
  shows "r * 100 div t = 100 \<longleftrightarrow> r = t"
proof
  assume "r * 100 div t = 100"
  then have "100 * t \<le> r * 100" by (metis div_times_less_eq_dividend)
  with assms(1) show "r = t" by simp
qed (use assms(2) in simp)

section \<open>Slices and iterators\<close>

text \<open>\<open>slice.get(i)\<close>\<close>

definition get :: "'a list \<Rightarrow> nat \<Rightarrow> 'a option" where
  "get xs i = (if i < length xs then Some (xs ! i) else None)"

text \<open>\<open>slice.get(i..j)\<close>: \<open>None\<close> when the range is reversed or runs past the end.\<close>

definition get_range :: "'a list \<Rightarrow> nat \<Rightarrow> nat \<Rightarrow> 'a list option" where
  "get_range xs i j = (if i \<le> j \<and> j \<le> length xs then Some (take (j - i) (drop i xs)) else None)"

text \<open>\<open>Iterator::position\<close>\<close>

fun position :: "('a \<Rightarrow> bool) \<Rightarrow> 'a list \<Rightarrow> nat option" where
  "position p [] = None"
| "position p (x # xs) = (if p x then Some 0 else map_option Suc (position p xs))"

text \<open>\<open>Iterator::rposition\<close>\<close>

definition rposition :: "('a \<Rightarrow> bool) \<Rightarrow> 'a list \<Rightarrow> nat option" where
  "rposition p xs = map_option (\<lambda>k. length xs - 1 - k) (position p (rev xs))"

text \<open>\<open>Iterator::find\<close> is \<^const>\<open>List.find\<close>. \<open>filter_map\<close> is \<^const>\<open>List.map_filter\<close>.\<close>

text \<open>\<open>Option::or_else\<close>\<close>

definition or_else :: "'a option \<Rightarrow> 'a option \<Rightarrow> 'a option" where
  "or_else a b = (case a of None \<Rightarrow> b | Some x \<Rightarrow> Some x)"

lemma or_else_simps [simp]: "or_else None b = b" "or_else (Some x) b = Some x"
  by (simp_all add: or_else_def)

lemma get_Some_iff: "get xs i = Some x \<longleftrightarrow> i < length xs \<and> xs ! i = x"
  by (auto simp: get_def)

lemma get_None_iff [simp]: "get xs i = None \<longleftrightarrow> length xs \<le> i"
  by (auto simp: get_def)

lemma get_in_set: "get xs i = Some x \<Longrightarrow> x \<in> set xs"
  by (auto simp: get_Some_iff)

lemma get_Cons: "get (x # xs) i = (case i of 0 \<Rightarrow> Some x | Suc j \<Rightarrow> get xs j)"
  by (auto simp: get_def split: nat.splits)

lemma get_append1: "i < length xs \<Longrightarrow> get (xs @ ys) i = get xs i"
  by (simp add: get_def nth_append)

lemma drop_Cons_get:
  assumes "drop n xs = y # ys"
  shows "n < length xs" and "get xs n = Some y" and "drop (Suc n) xs = ys"
proof -
  show lt: "n < length xs" using assms by (metis drop_all leI list.distinct(1))
  then show "get xs n = Some y" using assms by (simp add: get_def nth_via_drop)
  show "drop (Suc n) xs = ys" using assms Cons_nth_drop_Suc [OF lt] by simp
qed

lemma position_None_iff: "position p xs = None \<longleftrightarrow> (\<forall>x \<in> set xs. \<not> p x)"
  by (induction xs) auto

lemma position_SomeD:
  "position p xs = Some i \<Longrightarrow> i < length xs \<and> p (xs ! i) \<and> (\<forall>j < i. \<not> p (xs ! j))"
proof (induction xs arbitrary: i)
  case Nil
  then show ?case by simp
next
  case (Cons x xs)
  then show ?case
    by (auto split: if_splits simp: nth_Cons' less_Suc_eq_0_disj)
qed

lemma position_Some_iff:
  "position p xs = Some i \<longleftrightarrow> i < length xs \<and> p (xs ! i) \<and> (\<forall>j < i. \<not> p (xs ! j))"
proof
  assume "position p xs = Some i"
  then show "i < length xs \<and> p (xs ! i) \<and> (\<forall>j < i. \<not> p (xs ! j))"
    by (rule position_SomeD)
next
  assume r: "i < length xs \<and> p (xs ! i) \<and> (\<forall>j < i. \<not> p (xs ! j))"
  then have "position p xs \<noteq> None" by (auto simp: position_None_iff)
  then obtain k where k: "position p xs = Some k" by blast
  from position_SomeD [OF k] r have "k = i" by (metis linorder_neqE_nat)
  with k show "position p xs = Some i" by simp
qed

lemma find_SomeD: "List.find p xs = Some x \<Longrightarrow> x \<in> set xs \<and> p x"
  by (auto simp: find_Some_iff)

lemma find_None_iff': "List.find p xs = None \<longleftrightarrow> (\<forall>x \<in> set xs. \<not> p x)"
  by (auto simp: find_None_iff)

lemma find_exists: "x \<in> set xs \<Longrightarrow> p x \<Longrightarrow> \<exists>y. List.find p xs = Some y \<and> p y \<and> y \<in> set xs"
  by (metis find_None_iff' find_SomeD not_None_eq)

text \<open>
  \<open>slice.partition_point\<close>: the binary search of the standard library. On a slice that is
  partitioned (the elements that satisfy \<open>p\<close> come first) it is the number of elements that
  satisfy \<open>p\<close>, which is all the standard library promises.
\<close>

function bisect :: "('a \<Rightarrow> bool) \<Rightarrow> 'a list \<Rightarrow> nat \<Rightarrow> nat \<Rightarrow> nat" where
  "bisect p xs lo hi =
     (if lo < hi
      then let mid = lo + (hi - lo) div 2
           in if p (xs ! mid) then bisect p xs (Suc mid) hi else bisect p xs lo mid
      else lo)"
  by pat_completeness auto
termination
  by (relation "measure (\<lambda>(p, xs, lo, hi). hi - lo)") auto

declare bisect.simps [simp del]

definition partition_point :: "('a \<Rightarrow> bool) \<Rightarrow> 'a list \<Rightarrow> nat" where
  "partition_point p xs = bisect p xs 0 (length xs)"

definition partitioned :: "('a \<Rightarrow> bool) \<Rightarrow> 'a list \<Rightarrow> bool" where
  "partitioned p xs \<longleftrightarrow> (\<forall>j < length xs. \<forall>i < j. p (xs ! j) \<longrightarrow> p (xs ! i))"

lemma bisect_correct:
  assumes "partitioned p xs" and "hi \<le> length xs" and "lo \<le> hi"
    and "\<forall>i < lo. p (xs ! i)" and "\<forall>i. hi \<le> i \<and> i < length xs \<longrightarrow> \<not> p (xs ! i)"
  shows "bisect p xs lo hi \<le> length xs
    \<and> (\<forall>i < bisect p xs lo hi. p (xs ! i))
    \<and> (\<forall>i. bisect p xs lo hi \<le> i \<and> i < length xs \<longrightarrow> \<not> p (xs ! i))"
  using assms
proof (induction p xs lo hi rule: bisect.induct)
  case (1 p xs lo hi)
  define mid where "mid = lo + (hi - lo) div 2"
  show ?case
  proof (cases "lo < hi")
    case lt: True
    then have mid: "lo \<le> mid" "mid < hi" by (auto simp: mid_def)
    show ?thesis
    proof (cases "p (xs ! mid)")
      case True
      have "\<forall>i < Suc mid. p (xs ! i)"
        using "1.prems"(1,2) mid True unfolding partitioned_def
        by (metis less_Suc_eq less_le_trans)
      with "1.IH"(1) [OF lt mid_def] True "1.prems" mid show ?thesis
        by (subst (1 2 3) bisect.simps) (simp add: lt mid_def [symmetric] Let_def)
    next
      case False
      have "\<forall>i. mid \<le> i \<and> i < length xs \<longrightarrow> \<not> p (xs ! i)"
        using "1.prems"(1) False mid unfolding partitioned_def
        by (metis le_neq_implies_less)
      with "1.IH"(2) [OF lt mid_def] False "1.prems" mid show ?thesis
        by (subst (1 2 3) bisect.simps) (simp add: lt mid_def [symmetric] Let_def)
    qed
  next
    case False
    with "1.prems" show ?thesis by (simp add: bisect.simps)
  qed
qed

lemma partition_point_correct:
  assumes "partitioned p xs"
  shows "partition_point p xs \<le> length xs"
    and "i < partition_point p xs \<Longrightarrow> p (xs ! i)"
    and "partition_point p xs \<le> i \<Longrightarrow> i < length xs \<Longrightarrow> \<not> p (xs ! i)"
proof -
  have "partition_point p xs \<le> length xs
    \<and> (\<forall>i < partition_point p xs. p (xs ! i))
    \<and> (\<forall>i. partition_point p xs \<le> i \<and> i < length xs \<longrightarrow> \<not> p (xs ! i))"
    unfolding partition_point_def by (rule bisect_correct [OF assms]) auto
  then show "partition_point p xs \<le> length xs"
    and "i < partition_point p xs \<Longrightarrow> p (xs ! i)"
    and "partition_point p xs \<le> i \<Longrightarrow> i < length xs \<Longrightarrow> \<not> p (xs ! i)"
    by blast+
qed

lemma partition_point_iff:
  assumes "partitioned p xs" and "i < length xs"
  shows "i < partition_point p xs \<longleftrightarrow> p (xs ! i)"
  using partition_point_correct [OF assms(1)] assms(2) by (meson not_le)

section \<open>Results\<close>

text \<open>\<open>Result<T, E>\<close> is the sum \<^typ>\<open>'e + 'a\<close>, \<open>Inl\<close> the error. \<open>and_then\<close> is the \<open>?\<close> operator
  followed by the rest of the function; \<open>try_fold\<close> is a \<open>for\<close> loop whose body may return an
  error; \<open>try_check\<close> is such a loop that only checks.\<close>

definition and_then :: "'e + 'a \<Rightarrow> ('a \<Rightarrow> 'e + 'b) \<Rightarrow> 'e + 'b" where
  "and_then r f = (case r of Inl e \<Rightarrow> Inl e | Inr x \<Rightarrow> f x)"

fun try_fold :: "('a \<Rightarrow> 's \<Rightarrow> 'e + 's) \<Rightarrow> 'a list \<Rightarrow> 's \<Rightarrow> 'e + 's" where
  "try_fold f [] s = Inr s"
| "try_fold f (x # xs) s = and_then (f x s) (try_fold f xs)"

definition map_err :: "('e \<Rightarrow> 'd) \<Rightarrow> 'e + 'a \<Rightarrow> 'd + 'a" where
  "map_err g r = (case r of Inl e \<Rightarrow> Inl (g e) | Inr x \<Rightarrow> Inr x)"

lemma and_then_simps [simp]:
  "and_then (Inl e) f = Inl e" "and_then (Inr x) f = f x"
  by (simp_all add: and_then_def)

lemma map_err_simps [simp]:
  "map_err g (Inl e) = Inl (g e)" "map_err g (Inr x) = Inr x"
  by (simp_all add: map_err_def)

lemma and_then_Inr_iff: "and_then r f = Inr y \<longleftrightarrow> (\<exists>x. r = Inr x \<and> f x = Inr y)"
  by (cases r) auto

lemma map_err_Inr_iff: "map_err g r = Inr y \<longleftrightarrow> r = Inr y"
  by (cases r) auto

lemma try_fold_append: "try_fold f (xs @ ys) s = and_then (try_fold f xs s) (try_fold f ys)"
  by (induction xs arbitrary: s) (auto simp: and_then_def split: sum.split)

lemma try_fold_Inr_fold:
  "(\<And>x s. x \<in> set xs \<Longrightarrow> f x s = Inr (g x s)) \<Longrightarrow> try_fold f xs s = Inr (fold g xs s)"
  by (induction xs arbitrary: s) auto

text \<open>A loop that collects keys into a set and fails on a repeated one.\<close>

lemma try_fold_insert:
  assumes "\<And>x s s'. f x s = Inr s' \<longleftrightarrow> P x \<and> k x \<notin> set s \<and> s' = k x # s"
  shows "try_fold f xs s = Inr s' \<longleftrightarrow>
    (\<forall>x \<in> set xs. P x) \<and> distinct (map k xs) \<and> set (map k xs) \<inter> set s = {}
    \<and> s' = rev (map k xs) @ s"
proof (induction xs arbitrary: s)
  case Nil
  then show ?case by auto
next
  case (Cons x xs)
  then show ?case by (auto simp: and_then_Inr_iff assms)
qed

lemma try_fold_insert_many:
  assumes "\<And>x s s'. f x s = Inr s' \<longleftrightarrow>
      P x \<and> distinct (k x) \<and> set (k x) \<inter> set s = {} \<and> s' = rev (k x) @ s"
  shows "try_fold f xs s = Inr s' \<longleftrightarrow>
    (\<forall>x \<in> set xs. P x) \<and> distinct (concat (map k xs)) \<and> set (concat (map k xs)) \<inter> set s = {}
    \<and> s' = rev (concat (map k xs)) @ s"
proof (induction xs arbitrary: s)
  case Nil
  then show ?case by auto
next
  case (Cons x xs)
  then show ?case by (auto simp: and_then_Inr_iff assms)
qed

section \<open>Hash maps built from pairs\<close>

text \<open>\<open>iter.collect::<HashMap<_, _>>()\<close>: a later pair overwrites an earlier one.\<close>

definition collect_map :: "('k \<times> 'v) list \<Rightarrow> 'k \<rightharpoonup> 'v" where
  "collect_map kvs = map_of (rev kvs)"

lemma dom_collect_map: "dom (collect_map kvs) = fst ` set kvs"
  by (simp add: collect_map_def dom_map_of_conv_image_fst)

lemma collect_map_distinct:
  "distinct (map fst kvs) \<Longrightarrow> (k, v) \<in> set kvs \<Longrightarrow> collect_map kvs k = Some v"
  by (simp add: collect_map_def map_of_eq_Some_iff rev_map [symmetric])

lemma collect_map_SomeD: "collect_map kvs k = Some v \<Longrightarrow> (k, v) \<in> set kvs"
  by (auto simp: collect_map_def dest: map_of_SomeD)

lemma collect_map_None_iff: "collect_map kvs k = None \<longleftrightarrow> k \<notin> fst ` set kvs"
  by (simp add: collect_map_def map_of_eq_None_iff)

text \<open>The position of every key of a list; a later occurrence overwrites an earlier one.\<close>

definition ordinals :: "'k list \<Rightarrow> 'k \<rightharpoonup> nat" where
  "ordinals ordered = collect_map (map (\<lambda>(index, key). (key, index)) (zip [0..<length ordered] ordered))"

lemma ordinals_keys: "map fst (map (\<lambda>(index, key). (key, index)) (zip [0..<length ks] ks)) = ks"
  by (simp add: comp_def split_def)

lemma ordinals_None_iff: "ordinals ks k = None \<longleftrightarrow> k \<notin> set ks"
  unfolding ordinals_def collect_map_None_iff set_map [symmetric] ordinals_keys ..

lemma ordinals_Some_set: "ordinals ks k = Some i \<Longrightarrow> k \<in> set ks"
  using ordinals_None_iff [of ks k] by auto

lemma ordinals_SomeD: "ordinals ks k = Some i \<Longrightarrow> i < length ks \<and> ks ! i = k"
  by (auto simp: ordinals_def set_zip dest!: collect_map_SomeD)

lemma ordinals_nth: "distinct ks \<Longrightarrow> i < length ks \<Longrightarrow> ordinals ks (ks ! i) = Some i"
  unfolding ordinals_def
  by (rule collect_map_distinct) (simp only: ordinals_keys, force simp: set_zip)

lemma ordinals_Nil [simp]: "ordinals [] = Map.empty"
  by (simp add: ordinals_def collect_map_def)

lemma ordinals_snoc: "ordinals (ks @ [k]) = (ordinals ks)(k \<mapsto> length ks)"
  by (simp add: ordinals_def collect_map_def)

section \<open>Machines driven by a sequence of operations\<close>

text \<open>
  The controllers of the program are objects whose public operations the surrounding event
  loop calls in any order. Each supplies its operations as one function and a predicate that
  every operation keeps; what holds of every run follows once and for all.
\<close>

locale op_machine =
  fixes perform :: "'op \<Rightarrow> 's \<Rightarrow> 's"
    and inv :: "'s \<Rightarrow> bool"
  assumes perform_inv: "inv s \<Longrightarrow> inv (perform operation s)"
begin

lemma run_inv: "inv s \<Longrightarrow> inv (fold perform operations s)"
  by (induction operations arbitrary: s) (simp_all add: perform_inv)

lemma run_prefix_inv: "inv s \<Longrightarrow> inv (fold perform (take n operations) s)"
  by (rule run_inv)

end

text \<open>
  Operations that can panic: \<open>None\<close>. If no allowed operation panics in a state that satisfies the
  invariant, no sequence of allowed operations does.
\<close>

fun run_all :: "('op \<Rightarrow> 's \<Rightarrow> 's option) \<Rightarrow> 'op list \<Rightarrow> 's \<Rightarrow> 's option" where
  "run_all perform [] s = Some s"
| "run_all perform (operation # operations) s = Option.bind (perform operation s) (run_all perform operations)"

locale safe_machine =
  fixes perform :: "'op \<Rightarrow> 's \<Rightarrow> 's option"
    and allowed :: "'op \<Rightarrow> bool"
    and inv :: "'s \<Rightarrow> bool"
  assumes perform_safe: "inv s \<Longrightarrow> allowed operation \<Longrightarrow> \<exists>s'. perform operation s = Some s' \<and> inv s'"
begin

lemma run_safe:
  assumes "inv s" and "list_all allowed operations"
  shows "\<exists>s'. run_all perform operations s = Some s' \<and> inv s'"
  using assms
proof (induction operations arbitrary: s)
  case (Cons operation operations)
  then obtain s' where "perform operation s = Some s'" "inv s'"
    using perform_safe [of s operation] by auto
  with Cons.IH [of s'] Cons.prems(2) show ?case by simp
qed simp

end

end
