(* ===== verification/Rust_Str.thy ===== *)
theory Rust_Str
  imports Prelude
begin

text \<open>
  Rust strings. A \<open>String\<close> or \<open>&str\<close> is modelled by its bytes: \<^typ>\<open>string\<close> is a list
  of 8-bit \<^typ>\<open>char\<close>s, and the program's text is UTF-8 in it. What the standard library
  defines on bytes (\<open>starts_with\<close>, \<open>split\<close>, \<open>find\<close>, slicing, equality, ordering) is the
  list function of that name; what it defines on characters goes through \<open>chars\<close>, which
  cuts the bytes into the encodings of the characters. A character is thus a short
  \<^typ>\<open>string\<close> itself (\<open>rchar\<close>), and \<open>''a''\<close> is the character \<open>'a'\<close>.
\<close>

type_synonym rchar = string

abbreviation NL :: char where "NL \<equiv> CHR 0x0A"
abbreviation CR :: char where "CR \<equiv> CHR 0x0D"
abbreviation TAB :: char where "TAB \<equiv> CHR 0x09"
abbreviation ESC :: char where "ESC \<equiv> CHR 0x1B"
abbreviation DQUOTE :: char where "DQUOTE \<equiv> CHR 0x22"
abbreviation BSLASH :: char where "BSLASH \<equiv> CHR 0x5C"

abbreviation code :: "char \<Rightarrow> nat" where "code c \<equiv> of_char c"

section \<open>Prefixes, suffixes, searching\<close>

definition starts_with :: "string \<Rightarrow> string \<Rightarrow> bool" where
  "starts_with s p \<longleftrightarrow> take (length p) s = p"

definition ends_with :: "string \<Rightarrow> string \<Rightarrow> bool" where
  "ends_with s p \<longleftrightarrow> length p \<le> length s \<and> drop (length s - length p) s = p"

definition strip_prefix :: "string \<Rightarrow> string \<Rightarrow> string option" where
  "strip_prefix s p = (if starts_with s p then Some (drop (length p) s) else None)"

definition strip_suffix :: "string \<Rightarrow> string \<Rightarrow> string option" where
  "strip_suffix s p = (if ends_with s p then Some (take (length s - length p) s) else None)"

text \<open>\<open>s.strip_prefix(p).unwrap_or(s)\<close>\<close>

definition strip_prefix_or :: "string \<Rightarrow> string \<Rightarrow> string" where
  "strip_prefix_or s p = (case strip_prefix s p of Some r \<Rightarrow> r | None \<Rightarrow> s)"

lemma starts_with_append [simp]: "starts_with (p @ s) p"
  by (simp add: starts_with_def)

lemma starts_with_iff: "starts_with s p \<longleftrightarrow> (\<exists>r. s = p @ r)"
  unfolding starts_with_def by (metis append_eq_conv_conj append_take_drop_id)

lemma starts_with_Nil [simp]: "starts_with s []"
  by (simp add: starts_with_def)

lemma not_starts_with_Nil [simp]: "starts_with [] (c # p) = False"
  by (simp add: starts_with_def)

lemma starts_with_Cons [simp]:
  "starts_with (d # s) (c # p) \<longleftrightarrow> c = d \<and> starts_with s p"
  by (auto simp: starts_with_def)

lemma strip_prefix_append [simp]: "strip_prefix (p @ s) p = Some s"
  by (simp add: strip_prefix_def)

lemma strip_prefix_Some_iff: "strip_prefix s p = Some r \<longleftrightarrow> s = p @ r"
  by (auto simp: strip_prefix_def starts_with_iff)

lemma strip_prefix_or_append [simp]: "strip_prefix_or (p @ s) p = s"
  by (simp add: strip_prefix_or_def)

text \<open>\<open>str::trim_start_matches\<close> with a string pattern: strips it as often as it leads.\<close>

function trim_start_matches :: "string \<Rightarrow> string \<Rightarrow> string" where
  "trim_start_matches s p =
     (if p \<noteq> [] \<and> starts_with s p then trim_start_matches (drop (length p) s) p else s)"
  by pat_completeness auto
termination
  by (relation "measure (\<lambda>(s, p). length s)") (auto simp: starts_with_iff)

declare trim_start_matches.simps [simp del]

lemma trim_start_matches_not:
  "\<not> starts_with s p \<Longrightarrow> trim_start_matches s p = s"
  by (simp add: trim_start_matches.simps)

lemma trim_start_matches_once:
  "p \<noteq> [] \<Longrightarrow> \<not> starts_with s p \<Longrightarrow> trim_start_matches (p @ s) p = s"
  by (subst trim_start_matches.simps) (simp add: trim_start_matches_not)

text \<open>\<open>str::find\<close> and \<open>str::rfind\<close> with a string pattern give byte positions.\<close>

fun find_sub :: "string \<Rightarrow> string \<Rightarrow> nat option" where
  "find_sub p s =
     (if starts_with s p then Some 0
      else (case s of [] \<Rightarrow> None | _ # r \<Rightarrow> map_option Suc (find_sub p r)))"

declare find_sub.simps [simp del]

definition contains :: "string \<Rightarrow> string \<Rightarrow> bool" where
  "contains s p \<longleftrightarrow> find_sub p s \<noteq> None"

fun rfind_sub :: "string \<Rightarrow> string \<Rightarrow> nat option" where
  "rfind_sub p [] = (if p = [] then Some 0 else None)"
| "rfind_sub p (c # s) =
     (case rfind_sub p s of
        Some i \<Rightarrow> Some (Suc i)
      | None \<Rightarrow> if starts_with (c # s) p then Some 0 else None)"

lemma rfind_sub_Some: "rfind_sub p s = Some i \<Longrightarrow> starts_with (drop i s) p \<and> i \<le> length s"
  by (induction s arbitrary: i) (auto split: option.splits if_splits)

lemma find_sub_SomeD: "find_sub p s = Some i \<Longrightarrow> starts_with (drop i s) p \<and> i \<le> length s"
proof (induction s arbitrary: i)
  case Nil
  then show ?case by (subst (asm) find_sub.simps) (auto split: if_splits)
next
  case (Cons c s)
  then show ?case by (subst (asm) find_sub.simps) (auto split: if_splits)
qed

lemma find_sub_append: "\<exists>i. find_sub p (a @ p @ b) = Some i"
proof (induction a)
  case Nil
  then show ?case by (subst find_sub.simps) simp
next
  case (Cons c a)
  then show ?case by (subst find_sub.simps) auto
qed

lemma contains_iff: "contains s p \<longleftrightarrow> (\<exists>a b. s = a @ p @ b)"
proof
  assume "contains s p"
  then obtain i where "find_sub p s = Some i" by (auto simp: contains_def)
  from find_sub_SomeD [OF this] obtain r where "drop i s = p @ r" by (auto simp: starts_with_iff)
  then show "\<exists>a b. s = a @ p @ b" by (metis append_take_drop_id)
next
  assume "\<exists>a b. s = a @ p @ b"
  then show "contains s p" using find_sub_append [of p] by (fastforce simp: contains_def)
qed

section \<open>Splitting and joining\<close>

text \<open>\<open>str::split(c)\<close> for an ASCII character: one piece more than there are separators.\<close>

fun split_char :: "char \<Rightarrow> string \<Rightarrow> string list" where
  "split_char c [] = [[]]"
| "split_char c (d # s) =
     (if d = c then [] # split_char c s
      else (case split_char c s of [] \<Rightarrow> [[d]] | p # ps \<Rightarrow> (d # p) # ps))"

text \<open>\<open>str::split_once(c)\<close> and \<open>str::rsplit_once(c)\<close>\<close>

definition split_once :: "char \<Rightarrow> string \<Rightarrow> (string \<times> string) option" where
  "split_once c s =
     (case dropWhile (\<lambda>d. d \<noteq> c) s of
        [] \<Rightarrow> None
      | _ # r \<Rightarrow> Some (takeWhile (\<lambda>d. d \<noteq> c) s, r))"

definition rsplit_once :: "char \<Rightarrow> string \<Rightarrow> (string \<times> string) option" where
  "rsplit_once c s = map_option (\<lambda>(a, b). (rev b, rev a)) (split_once c (rev s))"

text \<open>\<open>str::splitn(n, c)\<close>: the last piece is what is left.\<close>

fun splitn :: "nat \<Rightarrow> char \<Rightarrow> string \<Rightarrow> string list" where
  "splitn 0 c s = []"
| "splitn (Suc 0) c s = [s]"
| "splitn (Suc (Suc n)) c s =
     (case split_once c s of None \<Rightarrow> [s] | Some (a, b) \<Rightarrow> a # splitn (Suc n) c b)"

text \<open>\<open>[_]::join(sep)\<close>\<close>

fun join :: "string \<Rightarrow> string list \<Rightarrow> string" where
  "join sep [] = []"
| "join sep [p] = p"
| "join sep (p # q # ps) = p @ sep @ join sep (q # ps)"

text \<open>\<open>str::lines\<close>: each line ends at a line feed, which is dropped with a carriage return
  right before it; a last line without a line feed is kept as it is.\<close>

definition strip_cr :: "string \<Rightarrow> string" where
  "strip_cr l = (if l \<noteq> [] \<and> last l = CR then butlast l else l)"

function lines :: "string \<Rightarrow> string list" where
  "lines s =
     (if s = [] then []
      else (case dropWhile (\<lambda>c. c \<noteq> NL) s of
              [] \<Rightarrow> [s]
            | _ # r \<Rightarrow> strip_cr (takeWhile (\<lambda>c. c \<noteq> NL) s) # lines r))"
  by pat_completeness auto
termination
proof (relation "measure length", goal_cases)
  case 1
  then show ?case by simp
next
  case (2 s c r)
  then have "length (dropWhile (\<lambda>c. c \<noteq> NL) s) = Suc (length r)" by simp
  moreover have "length (dropWhile (\<lambda>c. c \<noteq> NL) s) \<le> length s" by (rule length_dropWhile_le)
  ultimately show ?case by simp
qed

declare lines.simps [simp del]

text \<open>A text of lines that all end in a line feed.\<close>

definition unlines :: "string list \<Rightarrow> string" where
  "unlines ls = concat (map (\<lambda>l. l @ [NL]) ls)"

definition plain_line :: "string \<Rightarrow> bool" where
  "plain_line l \<longleftrightarrow> NL \<notin> set l \<and> (l \<noteq> [] \<longrightarrow> last l \<noteq> CR)"

lemma unlines_simps [simp]:
  "unlines [] = []" "unlines (l # ls) = l @ NL # unlines ls"
  by (simp_all add: unlines_def)

lemma takeWhile_stop: "(\<forall>x \<in> set l. P x) \<Longrightarrow> \<not> P y \<Longrightarrow> takeWhile P (l @ y # r) = l"
  by (induction l) auto

lemma dropWhile_stop: "(\<forall>x \<in> set l. P x) \<Longrightarrow> \<not> P y \<Longrightarrow> dropWhile P (l @ y # r) = y # r"
  by (induction l) auto

lemma lines_unlines: "\<forall>l \<in> set ls. plain_line l \<Longrightarrow> lines (unlines ls) = ls"
proof (induction ls)
  case Nil
  then show ?case by (simp add: lines.simps)
next
  case (Cons l ls)
  then have l: "\<forall>c \<in> set l. c \<noteq> NL" and cr: "strip_cr l = l"
    by (auto simp: plain_line_def strip_cr_def)
  have "lines (l @ NL # unlines ls) = strip_cr l # lines (unlines ls)"
    by (subst lines.simps) (simp add: dropWhile_stop [OF l] takeWhile_stop [OF l])
  with cr Cons show ?case by simp
qed

lemma split_char_not_Nil [simp]: "split_char c s \<noteq> []"
  by (induction s) (auto split: list.splits)

lemma split_char_no_sep: "c \<notin> set s \<Longrightarrow> split_char c s = [s]"
  by (induction s) auto

lemma split_char_append:
  "c \<notin> set a \<Longrightarrow> split_char c (a @ c # b) = a # split_char c b"
  by (induction a) auto

lemma join_split_char: "join [c] (split_char c s) = s"
proof (induction s)
  case Nil
  then show ?case by simp
next
  case (Cons d s)
  obtain p ps where ps: "split_char c s = p # ps" by (cases "split_char c s") auto
  with Cons show ?case by (cases ps) auto
qed

lemma split_once_append: "c \<notin> set a \<Longrightarrow> split_once c (a @ c # b) = Some (a, b)"
proof -
  assume "c \<notin> set a"
  then have a: "\<forall>d \<in> set a. d \<noteq> c" by auto
  show ?thesis by (simp add: split_once_def dropWhile_stop [OF a] takeWhile_stop [OF a])
qed

lemma split_once_None: "c \<notin> set a \<Longrightarrow> split_once c a = None"
proof -
  assume "c \<notin> set a"
  then have "dropWhile (\<lambda>d. d \<noteq> c) a = []" by (auto simp: dropWhile_eq_Nil_conv)
  then show ?thesis unfolding split_once_def by (simp only: list.case)
qed

text \<open>\<open>str::replace\<close>: every occurrence from the left, none overlapping.\<close>

function replace_sub :: "string \<Rightarrow> string \<Rightarrow> string \<Rightarrow> string" where
  "replace_sub p q [] = []"
| "replace_sub p q (c # s) =
     (if p \<noteq> [] \<and> starts_with (c # s) p then q @ replace_sub p q (drop (length p) (c # s))
      else c # replace_sub p q s)"
  by pat_completeness auto
termination
proof (relation "measure (\<lambda>(p, q, s). length s)", goal_cases)
  case 1
  then show ?case by simp
next
  case (2 p q c s)
  then show ?case by (cases p) auto
next
  case (3 p q c s)
  then show ?case by simp
qed

definition replace_char :: "char \<Rightarrow> string \<Rightarrow> string \<Rightarrow> string" where
  "replace_char c q s = concat (map (\<lambda>d. if d = c then q else [d]) s)"

lemma replace_char_absent: "c \<notin> set s \<Longrightarrow> replace_char c q s = s"
  by (induction s) (auto simp: replace_char_def)

section \<open>ASCII case\<close>

definition ascii_lower :: "char \<Rightarrow> char" where
  "ascii_lower c = (if 65 \<le> code c \<and> code c \<le> 90 then char_of (code c + 32) else c)"

definition to_ascii_lowercase :: "string \<Rightarrow> string" where
  "to_ascii_lowercase s = map ascii_lower s"

definition is_ascii_alphanumeric :: "char \<Rightarrow> bool" where
  "is_ascii_alphanumeric c \<longleftrightarrow>
     48 \<le> code c \<and> code c \<le> 57 \<or> 65 \<le> code c \<and> code c \<le> 90 \<or> 97 \<le> code c \<and> code c \<le> 122"

lemma ascii_lower_idem [simp]: "ascii_lower (ascii_lower c) = ascii_lower c"
  by (simp add: ascii_lower_def)

lemma to_ascii_lowercase_idem [simp]: "to_ascii_lowercase (to_ascii_lowercase s) = to_ascii_lowercase s"
  by (simp add: to_ascii_lowercase_def)

section \<open>White space\<close>

text \<open>The encodings of the 25 characters with the Unicode property \<open>White_Space\<close>.\<close>

definition white_space :: "string list" where
  "white_space =
     [[CHR 0x09], [CHR 0x0A], [CHR 0x0B], [CHR 0x0C], [CHR 0x0D], [CHR 0x20],
      [CHR 0xC2, CHR 0x85], [CHR 0xC2, CHR 0xA0], [CHR 0xE1, CHR 0x9A, CHR 0x80],
      [CHR 0xE2, CHR 0x80, CHR 0x80], [CHR 0xE2, CHR 0x80, CHR 0x81],
      [CHR 0xE2, CHR 0x80, CHR 0x82], [CHR 0xE2, CHR 0x80, CHR 0x83],
      [CHR 0xE2, CHR 0x80, CHR 0x84], [CHR 0xE2, CHR 0x80, CHR 0x85],
      [CHR 0xE2, CHR 0x80, CHR 0x86], [CHR 0xE2, CHR 0x80, CHR 0x87],
      [CHR 0xE2, CHR 0x80, CHR 0x88], [CHR 0xE2, CHR 0x80, CHR 0x89],
      [CHR 0xE2, CHR 0x80, CHR 0x8A], [CHR 0xE2, CHR 0x80, CHR 0xA8],
      [CHR 0xE2, CHR 0x80, CHR 0xA9], [CHR 0xE2, CHR 0x80, CHR 0xAF],
      [CHR 0xE2, CHR 0x81, CHR 0x9F], [CHR 0xE3, CHR 0x80, CHR 0x80]]"

function strip_any :: "string list \<Rightarrow> string \<Rightarrow> string" where
  "strip_any ws s =
     (case List.find (\<lambda>w. w \<noteq> [] \<and> starts_with s w) ws of
        None \<Rightarrow> s
      | Some w \<Rightarrow> strip_any ws (drop (length w) s))"
  by pat_completeness auto
termination
  by (relation "measure (\<lambda>(ws, s). length s)")
     (auto dest!: find_SomeD simp: starts_with_iff)

declare strip_any.simps [simp del]

definition trim_start :: "string \<Rightarrow> string" where
  "trim_start s = strip_any white_space s"

text \<open>From the end, the encodings are matched backwards.\<close>

definition trim_end :: "string \<Rightarrow> string" where
  "trim_end s = rev (strip_any (map rev white_space) (rev s))"

definition trim :: "string \<Rightarrow> string" where
  "trim s = trim_end (trim_start s)"

definition is_white :: "rchar \<Rightarrow> bool" where
  "is_white c \<longleftrightarrow> c \<in> set white_space"

lemma strip_any_suffix: "\<exists>p. s = p @ strip_any ws s"
proof (induction ws s rule: strip_any.induct)
  case (1 ws s)
  show ?case
  proof (cases "List.find (\<lambda>w. w \<noteq> [] \<and> starts_with s w) ws")
    case None
    then show ?thesis by (subst strip_any.simps) simp
  next
    case (Some w)
    from find_SomeD [OF Some] obtain r where r: "s = w @ r" by (auto simp: starts_with_iff)
    from "1.IH" [OF Some] obtain p where "drop (length w) s = p @ strip_any ws (drop (length w) s)"
      by blast
    moreover have "strip_any ws s = strip_any ws (drop (length w) s)"
      by (subst strip_any.simps) (simp add: Some)
    ultimately show ?thesis using r by (metis append.assoc append_eq_conv_conj)
  qed
qed

lemma strip_any_stop: "\<forall>w \<in> set ws. w = [] \<or> \<not> starts_with s w \<Longrightarrow> strip_any ws s = s"
  by (subst strip_any.simps) (auto split: option.splits dest!: find_SomeD)

section \<open>Decimal numbers\<close>

definition digit_char :: "nat \<Rightarrow> char" where
  "digit_char n = ''0123456789'' ! n"

definition is_digit :: "char \<Rightarrow> bool" where
  "is_digit c \<longleftrightarrow> 48 \<le> code c \<and> code c \<le> 57"

text \<open>\<open>to_string\<close> and \<open>{}\<close> of an unsigned integer\<close>

fun nat_str :: "nat \<Rightarrow> string" where
  "nat_str n = (if n < 10 then [digit_char n] else nat_str (n div 10) @ [digit_char (n mod 10)])"

declare nat_str.simps [simp del]

definition digits_value :: "string \<Rightarrow> nat" where
  "digits_value ds = foldl (\<lambda>v c. v * 10 + (code c - 48)) 0 ds"

text \<open>\<open>str::parse\<close> to an unsigned type with greatest value \<open>m\<close>; \<open>None\<close> is the error.\<close>

definition parse_uint :: "nat \<Rightarrow> string \<Rightarrow> nat option" where
  "parse_uint m s =
     (let ds = (case s of [] \<Rightarrow> [] | c # cs \<Rightarrow> if c = CHR ''+'' then cs else s)
      in if ds = [] \<or> (\<exists>c \<in> set ds. \<not> is_digit c) then None
         else if digits_value ds \<le> m then Some (digits_value ds) else None)"

lemma digit_char_code: "n < 10 \<Longrightarrow> code (digit_char n) = 48 + n"
proof -
  assume "n < 10"
  then have "n \<in> {0, 1, 2, 3, 4, 5, 6, 7, 8, 9}" by auto
  then show ?thesis by (auto simp: digit_char_def)
qed

lemma is_digit_digit_char: "n < 10 \<Longrightarrow> is_digit (digit_char n)"
  by (simp add: is_digit_def digit_char_code)

lemma nat_str_digits: "c \<in> set (nat_str n) \<Longrightarrow> is_digit c"
proof (induction n rule: nat_str.induct)
  case (1 n)
  then show ?case
    by (subst (asm) (2) nat_str.simps) (auto split: if_splits simp: is_digit_digit_char)
qed

lemma nat_str_not_Nil [simp]: "nat_str n \<noteq> []"
  by (subst nat_str.simps) simp

lemma nat_str_value: "digits_value (nat_str n) = n"
proof (induction n rule: nat_str.induct)
  case (1 n)
  show ?case
  proof (cases "n < 10")
    case True
    then show ?thesis
      by (subst nat_str.simps) (simp add: digits_value_def digit_char_code)
  next
    case False
    with "1.IH" have "digits_value (nat_str (n div 10)) = n div 10" by simp
    with False show ?thesis
      by (subst nat_str.simps) (simp add: digits_value_def digit_char_code)
  qed
qed

lemma is_digit_not: "is_digit c \<Longrightarrow> c \<noteq> CHR ''+''" "is_digit c \<Longrightarrow> c \<noteq> CHR '',''"
  "is_digit c \<Longrightarrow> c \<noteq> CHR '' ''" "is_digit c \<Longrightarrow> c \<noteq> CHR ''-''" "is_digit c \<Longrightarrow> c \<noteq> NL"
  "is_digit c \<Longrightarrow> c \<noteq> CR" "is_digit c \<Longrightarrow> c \<noteq> ESC" "is_digit c \<Longrightarrow> c \<noteq> CHR ''@''"
  by (auto simp: is_digit_def)

lemma parse_uint_nat_str: "n \<le> m \<Longrightarrow> parse_uint m (nat_str n) = Some n"
proof -
  assume "n \<le> m"
  obtain c cs where cs: "nat_str n = c # cs" by (cases "nat_str n") auto
  have "is_digit c" using nat_str_digits [of c n] cs by simp
  then have "c \<noteq> CHR ''+''" by (rule is_digit_not)
  with \<open>n \<le> m\<close> cs nat_str_digits [of _ n] nat_str_value [of n] show ?thesis
    by (auto simp: parse_uint_def Let_def)
qed

lemma parse_uint_bound: "parse_uint m s = Some n \<Longrightarrow> n \<le> m"
  by (auto simp: parse_uint_def Let_def split: if_splits)

lemma nat_str_inj [simp]: "nat_str a = nat_str b \<longleftrightarrow> a = b"
  by (metis nat_str_value)

section \<open>UTF-8\<close>

text \<open>The width of an encoded character by its first byte.\<close>

definition lead_width :: "char \<Rightarrow> nat" where
  "lead_width c =
     (if code c < 0x80 then 1 else if code c < 0xE0 then 2 else if code c < 0xF0 then 3 else 4)"

definition is_cont :: "char \<Rightarrow> bool" where
  "is_cont c \<longleftrightarrow> 0x80 \<le> code c \<and> code c \<le> 0xBF"

text \<open>\<open>str::is_char_boundary\<close>\<close>

definition char_boundary :: "string \<Rightarrow> nat \<Rightarrow> bool" where
  "char_boundary s i \<longleftrightarrow> i = length s \<or> i < length s \<and> \<not> is_cont (s ! i)"

text \<open>The second byte of a three- or four-byte character has a range that depends on the first.\<close>

definition second3_ok :: "char \<Rightarrow> char \<Rightarrow> bool" where
  "second3_ok a b \<longleftrightarrow>
     is_cont b \<and> (code a = 0xE0 \<longrightarrow> 0xA0 \<le> code b) \<and> (code a = 0xED \<longrightarrow> code b \<le> 0x9F)"

definition second4_ok :: "char \<Rightarrow> char \<Rightarrow> bool" where
  "second4_ok a b \<longleftrightarrow>
     is_cont b \<and> (code a = 0xF0 \<longrightarrow> 0x90 \<le> code b) \<and> (code a = 0xF4 \<longrightarrow> code b \<le> 0x8F)"

definition opt_holds :: "(char \<Rightarrow> bool) \<Rightarrow> char option \<Rightarrow> bool" where
  "opt_holds p x = (case x of None \<Rightarrow> False | Some c \<Rightarrow> p c)"

text \<open>One step of the standard library's decoder: whether the next character is well formed
  and how many bytes it, or the maximal invalid piece, takes.\<close>

fun utf8_next :: "string \<Rightarrow> bool \<times> nat" where
  "utf8_next [] = (True, 0)"
| "utf8_next (a # s) =
     (if code a < 0x80 then (True, 1)
      else if 0xC2 \<le> code a \<and> code a \<le> 0xDF then
        (if opt_holds is_cont (get s 0) then (True, 2) else (False, 1))
      else if 0xE0 \<le> code a \<and> code a \<le> 0xEF then
        (if \<not> opt_holds (second3_ok a) (get s 0) then (False, 1)
         else if \<not> opt_holds is_cont (get s 1) then (False, 2) else (True, 3))
      else if 0xF0 \<le> code a \<and> code a \<le> 0xF4 then
        (if \<not> opt_holds (second4_ok a) (get s 0) then (False, 1)
         else if \<not> opt_holds is_cont (get s 1) then (False, 2)
         else if \<not> opt_holds is_cont (get s 2) then (False, 3) else (True, 4))
      else (False, 1))"

lemma utf8_next_pos: "s \<noteq> [] \<Longrightarrow> 0 < snd (utf8_next s)"
  by (cases s) auto

text \<open>\<open>String::from_utf8_lossy\<close>: each invalid piece becomes U+FFFD.\<close>

function from_utf8_lossy :: "string \<Rightarrow> string" where
  "from_utf8_lossy s =
     (if s = [] then []
      else (if fst (utf8_next s) then take (snd (utf8_next s)) s else [CHR 0xEF, CHR 0xBF, CHR 0xBD])
           @ from_utf8_lossy (drop (snd (utf8_next s)) s))"
  by pat_completeness auto
termination
  by (relation "measure length") (auto simp: utf8_next_pos intro!: diff_less)

declare from_utf8_lossy.simps [simp del]

text \<open>\<open>String::from_utf8\<close> succeeds: the bytes are the encoding of a text.\<close>

function is_utf8 :: "string \<Rightarrow> bool" where
  "is_utf8 s =
     (if s = [] then True
      else if fst (utf8_next s) then is_utf8 (drop (snd (utf8_next s)) s) else False)"
  by pat_completeness auto
termination
  by (relation "measure length") (auto simp: utf8_next_pos intro!: diff_less)

declare is_utf8.simps [simp del]

lemma is_utf8_unfold:
  "s \<noteq> [] \<Longrightarrow> is_utf8 s \<longleftrightarrow> fst (utf8_next s) \<and> is_utf8 (drop (snd (utf8_next s)) s)"
  by (subst is_utf8.simps) simp

lemma from_utf8_lossy_valid: "is_utf8 s \<Longrightarrow> from_utf8_lossy s = s"
proof (induction s rule: is_utf8.induct)
  case (1 s)
  show ?case
  proof (cases "s = []")
    case True
    then show ?thesis by (simp add: from_utf8_lossy.simps)
  next
    case False
    with "1.prems" have v: "fst (utf8_next s)" "is_utf8 (drop (snd (utf8_next s)) s)"
      by (auto simp: is_utf8.simps [of s] split: if_splits)
    from "1.IH" [OF False v] False v(1) show ?thesis
      by (subst from_utf8_lossy.simps) simp
  qed
qed

text \<open>\<open>str::chars\<close>\<close>

function chars :: "string \<Rightarrow> rchar list" where
  "chars [] = []"
| "chars (c # s) = take (lead_width c) (c # s) # chars (drop (lead_width c) (c # s))"
  by pat_completeness auto
termination
  by (relation "measure length") (auto simp: lead_width_def)

text \<open>A character in its encoding: as many bytes as its first byte says, all but the first of
  them continuation bytes.\<close>

definition rchar_ok :: "rchar \<Rightarrow> bool" where
  "rchar_ok c \<longleftrightarrow>
     (case c of [] \<Rightarrow> False
      | a # s \<Rightarrow> \<not> is_cont a \<and> lead_width a = Suc (length s) \<and> (\<forall>b \<in> set s. is_cont b))"

lemma chars_concat: "concat (chars s) = s"
proof (induction s rule: chars.induct)
  case 1
  then show ?case by simp
next
  case (2 c s)
  then show ?case by simp
qed

lemma chars_rchar_append: "rchar_ok c \<Longrightarrow> chars (c @ s) = c # chars s"
  by (cases c) (auto simp: rchar_ok_def)

lemma chars_concat_ok: "\<forall>c \<in> set cs. rchar_ok c \<Longrightarrow> chars (concat cs) = cs"
  by (induction cs) (auto simp: chars_rchar_append)

lemma rchar_ok_ascii [simp]: "rchar_ok [a] \<longleftrightarrow> code a < 0x80"
  by (auto simp: rchar_ok_def lead_width_def is_cont_def)

lemma opt_holds_get: "opt_holds p (get s i) \<longleftrightarrow> i < length s \<and> p (s ! i)"
  by (simp add: opt_holds_def get_def)

lemma rchar_ok_take:
  assumes "lead_width a = Suc n" and "n \<le> length r" and "\<not> is_cont a"
    and "\<forall>i < n. is_cont (r ! i)"
  shows "rchar_ok (take (Suc n) (a # r))"
  using assms by (auto simp: rchar_ok_def in_set_conv_nth)

lemma utf8_next_ok:
  assumes "fst (utf8_next (a # r))"
  shows "rchar_ok (take (lead_width a) (a # r)) \<and> snd (utf8_next (a # r)) = lead_width a"
proof -
  consider (one) "code a < 0x80" | (two) "0xC2 \<le> code a" "code a \<le> 0xDF"
    | (three) "0xE0 \<le> code a" "code a \<le> 0xEF" | (four) "0xF0 \<le> code a" "code a \<le> 0xF4"
    using assms by (fastforce split: if_splits)
  then show ?thesis
  proof cases
    case one
    then show ?thesis using rchar_ok_take [of a 0 r] by (simp add: lead_width_def is_cont_def)
  next
    case two
    with assms show ?thesis using rchar_ok_take [of a 1 r]
      by (simp add: lead_width_def is_cont_def opt_holds_get Suc_le_eq split: if_splits)
  next
    case three
    with assms have *: "1 < length r" "is_cont (r ! 0)" "is_cont (r ! 1)"
      by (simp_all add: opt_holds_get second3_ok_def split: if_splits)
    then have "\<forall>i < 2. is_cont (r ! i)" by (simp add: numeral_2_eq_2 All_less_Suc2)
    with three * have "rchar_ok (take 3 (a # r))"
      using rchar_ok_take [of a 2 r] by (simp add: lead_width_def is_cont_def eval_nat_numeral)
    with three assms show ?thesis
      by (simp add: lead_width_def opt_holds_get split: if_splits)
  next
    case four
    with assms have *: "2 < length r" "is_cont (r ! 0)" "is_cont (r ! 1)" "is_cont (r ! 2)"
      by (simp_all add: opt_holds_get second4_ok_def split: if_splits)
    then have "\<forall>i < 3. is_cont (r ! i)"
      by (simp add: numeral_3_eq_3 numeral_2_eq_2 All_less_Suc2)
    with four * have "rchar_ok (take 4 (a # r))"
      using rchar_ok_take [of a 3 r] by (simp add: lead_width_def is_cont_def eval_nat_numeral)
    with four assms show ?thesis
      by (simp add: lead_width_def opt_holds_get split: if_splits)
  qed
qed

declare utf8_next.simps(2) [simp del]

lemma is_utf8_chars_ok: "is_utf8 s \<Longrightarrow> c \<in> set (chars s) \<Longrightarrow> rchar_ok c"
proof (induction s rule: is_utf8.induct)
  case (1 s)
  show ?case
  proof (cases s)
    case Nil
    with "1.prems" show ?thesis by simp
  next
    case (Cons a r)
    then have ne: "s \<noteq> []" by simp
    with "1.prems"(1) have v: "fst (utf8_next s)" "is_utf8 (drop (snd (utf8_next s)) s)"
      using is_utf8_unfold [OF ne] by blast+
    from v(1) utf8_next_ok [of a r] have ok: "rchar_ok (take (lead_width a) s)"
      and w: "snd (utf8_next s) = lead_width a" unfolding Cons by blast+
    from "1.prems"(2) have "c = take (lead_width a) s \<or> c \<in> set (chars (drop (lead_width a) s))"
      unfolding Cons by (simp only: chars.simps list.set insert_iff)
    with ok "1.IH" [OF ne v] show ?thesis unfolding w by blast
  qed
qed

text \<open>A text every character of which is well encoded.\<close>

definition encoded :: "string \<Rightarrow> bool" where
  "encoded s \<longleftrightarrow> (\<forall>c \<in> set (chars s). rchar_ok c)"

lemma is_utf8_encoded: "is_utf8 s \<Longrightarrow> encoded s"
  by (simp add: encoded_def is_utf8_chars_ok)

lemma encoded_concat: "\<forall>c \<in> set cs. rchar_ok c \<Longrightarrow> encoded (concat cs)"
  by (simp add: encoded_def chars_concat_ok)

lemma encodedE:
  assumes "encoded s"
  obtains cs where "s = concat cs" and "\<forall>c \<in> set cs. rchar_ok c" and "chars s = cs"
  using that [of "chars s"] assms by (simp add: encoded_def chars_concat)

lemma encoded_Nil [simp]: "encoded []"
  by (simp add: encoded_def)

lemma chars_append: "encoded a \<Longrightarrow> chars (a @ b) = chars a @ chars b"
proof (erule encodedE)
  fix cs assume "a = concat cs" "\<forall>c \<in> set cs. rchar_ok c" "chars a = cs"
  then show "chars (a @ b) = chars a @ chars b"
    by (induction cs arbitrary: a) (auto simp: chars_rchar_append chars_concat_ok)
qed

lemma encoded_append: "encoded a \<Longrightarrow> encoded b \<Longrightarrow> encoded (a @ b)"
  by (auto simp: encoded_def chars_append [unfolded encoded_def])

lemma chars_rchar: "rchar_ok c \<Longrightarrow> chars c = [c]"
  using chars_rchar_append [of c "[]"] by simp

lemma encoded_rchar: "rchar_ok c \<Longrightarrow> encoded c"
  by (simp add: encoded_def chars_rchar)

text \<open>A byte below 0x80 is a character of its own.\<close>

lemma rchar_ok_byte: "rchar_ok c \<Longrightarrow> x \<in> set c \<Longrightarrow> code x < 0x80 \<Longrightarrow> c = [x]"
  by (cases c) (auto simp: rchar_ok_def lead_width_def is_cont_def split: if_splits)

lemma until_byte:
  assumes "\<forall>c \<in> set cs. rchar_ok c" and "code x < 0x80"
  shows "takeWhile (\<lambda>b. b \<noteq> x) (concat cs) = concat (takeWhile (\<lambda>c. c \<noteq> [x]) cs)"
    and "dropWhile (\<lambda>b. b \<noteq> x) (concat cs) = concat (dropWhile (\<lambda>c. c \<noteq> [x]) cs)"
  using assms
proof (induction cs)
  case (Cons c cs)
  case 1
  show ?case
  proof (cases "c = [x]")
    case False
    with 1 have "\<forall>b \<in> set c. b \<noteq> x" using rchar_ok_byte [of c x] by auto
    with 1 Cons.IH(1) False show ?thesis by simp
  qed simp
next
  case (Cons c cs)
  case 2
  show ?case
  proof (cases "c = [x]")
    case False
    with 2 have "\<forall>b \<in> set c. b \<noteq> x" using rchar_ok_byte [of c x] by auto
    with 2 Cons.IH(2) False show ?thesis by (simp add: dropWhile_append)
  qed simp
qed simp_all

text \<open>A text may be cut before any byte that is not a continuation byte.\<close>

lemma encoded_cut:
  assumes "encoded s" and "i < length s" and "\<not> is_cont (s ! i)"
  shows "encoded (take i s)" and "encoded (drop i s)"
proof -
  have "encoded (take i (concat cs)) \<and> encoded (drop i (concat cs))"
    if "\<forall>c \<in> set cs. rchar_ok c" "i < length (concat cs)" "\<not> is_cont (concat cs ! i)" for cs i
    using that
  proof (induction cs arbitrary: i)
    case (Cons c cs)
    show ?case
    proof (cases "length c \<le> i")
      case True
      with Cons.prems Cons.IH [of "i - length c"] show ?thesis
        by (auto simp: nth_append encoded_append encoded_rchar)
    next
      case False
      then have "i = 0" using Cons.prems
        by (cases c) (auto simp: rchar_ok_def nth_append nth_Cons split: nat.splits)
      with Cons.prems show ?thesis by (simp add: encoded_append encoded_rchar encoded_concat)
    qed
  qed simp
  with assms show "encoded (take i s)" "encoded (drop i s)" by (metis encodedE)+
qed

lemma ascii_not_cont: "code c < 0x80 \<Longrightarrow> \<not> is_cont c"
  by (simp add: is_cont_def)

lemma encoded_tail: "encoded (c # s) \<Longrightarrow> code c < 0x80 \<Longrightarrow> encoded s"
  using chars_rchar_append [of "[c]" s] by (simp add: encoded_def)

lemma encoded_Cons: "code c < 0x80 \<Longrightarrow> encoded (c # s) = encoded s"
  using chars_rchar_append [of "[c]" s] by (simp add: encoded_def)

lemma encoded_ascii: "\<forall>c \<in> set s. code c < 0x80 \<Longrightarrow> encoded s"
  by (induction s) (simp_all add: encoded_Cons)

text \<open>The characters of the lines of a text are its characters but for white space.\<close>

abbreviation visible :: "rchar list \<Rightarrow> rchar list" where
  "visible \<equiv> filter (\<lambda>c. \<not> is_white c)"

lemma strip_cr_visible:
  assumes "encoded l"
  shows "encoded (strip_cr l) \<and> visible (chars (strip_cr l)) = visible (chars l)"
proof (cases "l \<noteq> [] \<and> last l = CR")
  case True
  from assms obtain cs where cs: "l = concat cs" "\<forall>c \<in> set cs. rchar_ok c" "chars l = cs"
    by (rule encodedE)
  with True obtain ds d where ds: "cs = ds @ [d]" by (cases cs rule: rev_cases) auto
  with cs have d: "rchar_ok d" by simp
  then have "d \<noteq> []" by (auto simp: rchar_ok_def)
  with True cs(1) have "last d = CR" by (simp add: ds)
  with \<open>d \<noteq> []\<close> have "CR \<in> set d" using last_in_set [of d] by simp
  with rchar_ok_byte [OF d] have d: "d = [CR]" by simp
  have l: "l = concat ds @ [CR]" by (simp add: cs ds d)
  have "is_white [CR]" by (simp add: is_white_def white_space_def)
  then show ?thesis using cs(2)
    by (simp add: strip_cr_def cs(3)) (simp add: l ds d chars_concat_ok encoded_concat)
next
  case False
  then have "strip_cr l = l" by (auto simp: strip_cr_def)
  with assms show ?thesis by simp
qed

lemma lines_visible:
  assumes "\<forall>c \<in> set cs. rchar_ok c"
  shows "(\<forall>l \<in> set (lines (concat cs)). encoded l)
    \<and> concat (map (\<lambda>l. visible (chars l)) (lines (concat cs))) = visible cs"
  using assms
proof (induction "length cs" arbitrary: cs rule: less_induct)
  case less
  let ?p = "\<lambda>c. c \<noteq> [NL]"
  have white: "is_white [NL]" by (simp add: is_white_def white_space_def)
  have until: "takeWhile (\<lambda>b. b \<noteq> NL) (concat cs) = concat (takeWhile ?p cs)"
    "dropWhile (\<lambda>b. b \<noteq> NL) (concat cs) = concat (dropWhile ?p cs)"
    by (rule until_byte [OF less.prems]; simp)+
  have ok: "\<forall>c \<in> set (takeWhile ?p cs). rchar_ok c" "\<forall>c \<in> set (dropWhile ?p cs). rchar_ok c"
    using less.prems by (auto dest: set_takeWhileD set_dropWhileD)
  show ?case
  proof (cases "dropWhile ?p cs")
    case Nil
    have all: "concat (dropWhile ?p cs) = []" unfolding Nil by (rule concat.simps)
    have "lines (concat cs) = (if concat cs = [] then [] else [concat cs])"
      by (subst lines.simps) (simp only: until all list.case if_cancel)
    moreover have "encoded (concat cs)" "chars (concat cs) = cs"
      using less.prems by (simp_all add: encoded_concat chars_concat_ok)
    moreover have "concat cs = [] \<Longrightarrow> cs = []" using \<open>chars (concat cs) = cs\<close>
      by (metis chars.simps(1))
    ultimately show ?thesis by auto
  next
    case (Cons d ds)
    have d: "d = [NL]" using hd_dropWhile [of ?p cs] Cons by simp
    have split: "cs = takeWhile ?p cs @ [NL] # ds" using takeWhile_dropWhile_id [of ?p cs] by (simp add: Cons d)
    then have "length ds < length cs" by (metis add_Suc_right le_imp_less_Suc le_add2 length_Cons length_append)
    from less.hyps [OF this] ok(2) have IH: "\<forall>l \<in> set (lines (concat ds)). encoded l"
      "concat (map (\<lambda>l. visible (chars l)) (lines (concat ds))) = visible ds" by (simp_all add: Cons)
    from split have "[NL] \<in> set cs" by (metis in_set_conv_decomp)
    then have ne: "concat cs \<noteq> []" by (metis concat_eq_Nil_conv not_Cons_self2)
    have "lines (concat cs) = strip_cr (concat (takeWhile ?p cs)) # lines (concat ds)"
      by (subst lines.simps) (simp add: ne until Cons d del: concat_eq_Nil_conv)
    moreover note strip_cr_visible [OF encoded_concat [OF ok(1)]] chars_concat_ok [OF ok(1)]
    moreover have "visible cs = visible (takeWhile ?p cs) @ visible ds"
      by (subst split) (simp add: white del: split)
    ultimately show ?thesis using IH by simp
  qed
qed

lemma is_utf8_Nil [simp]: "is_utf8 []"
  by (subst is_utf8.simps) simp

lemma is_utf8_ascii_Cons: "code a < 0x80 \<Longrightarrow> is_utf8 (a # s) = is_utf8 s"
  by (simp add: is_utf8_unfold utf8_next.simps)

text \<open>\<open>char::is_control\<close>: the characters U+0000 to U+001F and U+007F to U+009F.\<close>

definition is_control :: "rchar \<Rightarrow> bool" where
  "is_control c \<longleftrightarrow>
     (case c of
        [a] \<Rightarrow> code a < 0x20 \<or> code a = 0x7F
      | [a, b] \<Rightarrow> code a = 0xC2 \<and> 0x80 \<le> code b \<and> code b \<le> 0x9F
      | _ \<Rightarrow> False)"

definition char_count :: "string \<Rightarrow> nat" where
  "char_count s = length (chars s)"

section \<open>Words\<close>

text \<open>\<open>str::split_whitespace\<close>\<close>

fun word_chars :: "rchar list \<Rightarrow> rchar list list" where
  "word_chars [] = []"
| "word_chars [c] = (if is_white c then [] else [[c]])"
| "word_chars (c # d # cs) =
     (if is_white c then word_chars (d # cs)
      else if is_white d then [c] # word_chars (d # cs)
      else (case word_chars (d # cs) of [] \<Rightarrow> [[c]] | w # ws \<Rightarrow> (c # w) # ws))"

definition split_whitespace :: "string \<Rightarrow> string list" where
  "split_whitespace s = map concat (word_chars (chars s))"

text \<open>\<open>str::split\<close> with a character predicate, empty pieces dropped\<close>

fun split_chars :: "(rchar \<Rightarrow> bool) \<Rightarrow> rchar list \<Rightarrow> rchar list list" where
  "split_chars p [] = [[]]"
| "split_chars p (c # cs) =
     (if p c then [] # split_chars p cs
      else (case split_chars p cs of [] \<Rightarrow> [[c]] | w # ws \<Rightarrow> (c # w) # ws))"

definition is_ascii_alphanumeric_char :: "rchar \<Rightarrow> bool" where
  "is_ascii_alphanumeric_char c \<longleftrightarrow> (case c of [a] \<Rightarrow> is_ascii_alphanumeric a | _ \<Rightarrow> False)"

section \<open>Paths\<close>

text \<open>\<open>Path::file_name\<close> on Unix: the last component that is neither empty nor \<open>.\<close>, unless it
  is \<open>..\<close>; and \<open>Path::extension\<close>: what follows its last dot, if something precedes the dot.\<close>

definition path_file_name :: "string \<Rightarrow> string option" where
  "path_file_name path =
     (case rev (filter (\<lambda>p. p \<noteq> [] \<and> p \<noteq> ''.'') (split_char (CHR ''/'') path)) of
        [] \<Rightarrow> None
      | p # _ \<Rightarrow> if p = ''..'' then None else Some p)"

definition path_extension :: "string \<Rightarrow> string option" where
  "path_extension path =
     (case path_file_name path of
        None \<Rightarrow> None
      | Some name \<Rightarrow>
          (case rsplit_once (CHR ''.'') name of
             Some (stem, extension) \<Rightarrow> if stem = [] then None else Some extension
           | None \<Rightarrow> None))"

end
