(* ===== verification/Diff_Model.thy ===== *)
theory Diff_Model
  imports Rust_Str "HOL-Library.Multiset"
begin

text \<open>
  The shared data of a review (\<open>crates/ramo-core/src/diff/model.rs\<close>, \<open>agent.rs\<close>,
  \<open>remote_review.rs\<close>, \<open>changeset.rs\<close>). A Rust struct is a record whose fields carry a
  prefix of their own (\<open>df_path\<close> is \<open>DiffFile::path\<close>), an enum is a datatype with the
  source's variants. Then the operations on a \<open>Changeset\<close>: totals, and the reordering of
  its files after an agent's context.
\<close>

section \<open>Lines, hunks and files\<close>

record file_stats =
  st_additions :: usize
  st_deletions :: usize

definition file_stats_default :: file_stats where
  "file_stats_default = \<lparr>st_additions = 0, st_deletions = 0\<rparr>"

datatype line_type = Context | Addition | Deletion

datatype moved_line_kind = OldMoved | OldMovedDimmed | NewMoved | NewMovedDimmed

fun line_type_prefix :: "line_type \<Rightarrow> string" where
  "line_type_prefix Addition = ''+''"
| "line_type_prefix Deletion = ''-''"
| "line_type_prefix Context = '' ''"

record diff_line =
  dl_kind :: line_type
  dl_content :: string
  dl_old_lineno :: "u32 option"
  dl_new_lineno :: "u32 option"
  dl_moved :: "moved_line_kind option"

datatype source_spec =
    SourceNone
  | SourceFile string
  | GitBlob string string string
  | GitIndex string string
  | RemoteBlob string string string

record hunk =
  hunk_old_start :: u32
  hunk_new_start :: u32
  hunk_header :: string
  hunk_lines :: "diff_line list"

datatype file_change_kind = Modified | Added | Deleted | Renamed | Copied

section \<open>Agent notes\<close>

record line_range =
  lr_start :: u32
  lr_end :: u32

datatype note_confidence = Low | Medium | High

fun note_confidence_str :: "note_confidence \<Rightarrow> string" where
  "note_confidence_str Low = ''low''"
| "note_confidence_str Medium = ''medium''"
| "note_confidence_str High = ''high''"

datatype note_source = Ai | Agent | User | Named string

fun note_source_str :: "note_source \<Rightarrow> string" where
  "note_source_str Ai = ''ai''"
| "note_source_str Agent = ''agent''"
| "note_source_str User = ''user''"
| "note_source_str (Named value) = value"

definition note_source_from_raw :: "string option \<Rightarrow> note_source" where
  "note_source_from_raw value =
     (case value of
        None \<Rightarrow> Ai
      | Some v \<Rightarrow>
          if v = '''' \<or> v = ''ai'' then Ai
          else if v = ''agent'' \<or> v = ''mcp'' then Agent
          else if v = ''user'' then User
          else Named v)"

record review_note =
  rn_id :: "string option"
  rn_old_range :: "line_range option"
  rn_new_range :: "line_range option"
  rn_summary :: string
  rn_rationale :: "string option"
  rn_markup :: "string option"
  rn_tags :: "string list"
  rn_confidence :: "note_confidence option"
  rn_source :: note_source
  rn_title :: "string option"
  rn_author :: "string option"
  rn_created_at :: "string option"
  rn_updated_at :: "string option"
  rn_editable :: bool

record agent_file_context =
  afc_path :: string
  afc_summary :: "string option"
  afc_annotations :: "review_note list"

record agent_context =
  ac_version :: u32
  ac_summary :: "string option"
  ac_files :: "agent_file_context list"

section \<open>Files and changesets\<close>

record diff_file =
  df_id :: string
  df_path :: string
  df_previous_path :: "string option"
  df_summary :: "string option"
  df_agent :: "agent_file_context option"
  df_patch :: string
  df_hunks :: "hunk list"
  df_change_kind :: file_change_kind
  df_is_binary :: bool
  df_is_untracked :: bool
  df_is_too_large :: bool
  df_stats_truncated :: bool
  df_language :: "string option"
  df_stats :: file_stats
  df_old_source :: source_spec
  df_new_source :: source_spec

record changeset =
  cs_id :: string
  cs_source_label :: string
  cs_title :: string
  cs_summary :: "string option"
  cs_agent_summary :: "string option"
  cs_files :: "diff_file list"

definition changeset_new :: "string \<Rightarrow> string \<Rightarrow> diff_file list \<Rightarrow> changeset" where
  "changeset_new source_label title files =
     \<lparr>cs_id = source_label @ '':'' @ title, cs_source_label = source_label, cs_title = title,
      cs_summary = None, cs_agent_summary = None, cs_files = files\<rparr>"

definition changeset_stats :: "changeset \<Rightarrow> file_stats" where
  "changeset_stats c =
     foldl (\<lambda>total file.
       total\<lparr>st_additions := st_additions total + st_additions (df_stats file),
             st_deletions := st_deletions total + st_deletions (df_stats file)\<rparr>)
       file_stats_default (cs_files c)"

text \<open>One iteration of the loop of \<open>apply_agent_context\<close>: the first remaining file the agent
  names, by its path or its previous path, moves to the end of the ordered files.\<close>

definition agent_matches :: "agent_file_context \<Rightarrow> diff_file \<Rightarrow> bool" where
  "agent_matches a file \<longleftrightarrow> df_path file = afc_path a \<or> df_previous_path file = Some (afc_path a)"

definition place_agent_file ::
  "agent_file_context \<Rightarrow> diff_file list \<times> diff_file list \<Rightarrow> diff_file list \<times> diff_file list" where
  "place_agent_file a st =
     (case st of (ordered, remaining) \<Rightarrow>
       (case position (agent_matches a) remaining of
          None \<Rightarrow> (ordered, remaining)
        | Some i \<Rightarrow>
            (ordered @ [(remaining ! i)\<lparr>df_agent := Some a\<rparr>],
             take i remaining @ drop (Suc i) remaining)))"

definition apply_agent_context :: "agent_context \<Rightarrow> changeset \<Rightarrow> changeset" where
  "apply_agent_context context c =
     (case fold place_agent_file (ac_files context) ([], cs_files c) of
        (ordered, remaining) \<Rightarrow>
          c\<lparr>cs_agent_summary := ac_summary context, cs_files := ordered @ remaining\<rparr>)"

definition stable_file_id :: "string \<Rightarrow> string option \<Rightarrow> string" where
  "stable_file_id path previous_path =
     (case previous_path of
        Some previous \<Rightarrow> ''file:'' @ previous @ ''->'' @ path
      | None \<Rightarrow> ''file:'' @ path)"

section \<open>Remote reviews\<close>

datatype remote_line_side = RemoteLeft | RemoteRight

datatype github_thread_subject =
    FileSubject
  | LineSubject "remote_line_side option" "remote_line_side option" "u32 option" "u32 option"
  | Unsupported string

record github_thread_comment =
  gc_id :: string
  gc_author :: string
  gc_body :: string
  gc_created_at :: string
  gc_url :: string

record github_review_thread =
  gt_id :: string
  gt_path :: string
  gt_is_resolved :: bool
  gt_is_outdated :: bool
  gt_subject :: github_thread_subject
  gt_comments :: "github_thread_comment list"
  gt_url :: string

record inline_comment_target =
  it_path :: string
  it_side :: remote_line_side
  it_start_line :: u32
  it_end_line :: u32

definition display_label :: "inline_comment_target \<Rightarrow> string" where
  "display_label t =
     (let side = (case it_side t of RemoteLeft \<Rightarrow> ''LEFT'' | RemoteRight \<Rightarrow> ''RIGHT'')
      in if it_start_line t = it_end_line t
         then it_path t @ '' '' @ side @ '':'' @ nat_str (it_end_line t)
         else it_path t @ '' '' @ side @ '':'' @ nat_str (it_start_line t) @ ''-''
              @ nat_str (it_end_line t))"

datatype review_verdict = Comment | Approve | RequestChanges

fun event_name :: "review_verdict \<Rightarrow> string" where
  "event_name Comment = ''COMMENT''"
| "event_name Approve = ''APPROVE''"
| "event_name RequestChanges = ''REQUEST_CHANGES''"

record remote_review_comment =
  rrc_target :: inline_comment_target
  rrc_body :: string

record remote_review_request =
  rrr_commit_id :: string
  rrr_body :: string
  rrr_verdict :: review_verdict
  rrr_comments :: "remote_review_comment list"

record pull_request_review_context =
  pr_repository :: string
  pr_repository_url :: string
  pr_number :: u64
  pr_title :: string
  pr_body :: string
  pr_url :: string
  pr_base_ref :: string
  pr_base_revision :: string
  pr_head_ref :: string
  pr_captured_revision :: string
  pr_author_login :: string
  pr_viewer_login :: string

definition is_self_authored :: "pull_request_review_context \<Rightarrow> bool" where
  "is_self_authored c \<longleftrightarrow>
     to_ascii_lowercase (pr_author_login c) = to_ascii_lowercase (pr_viewer_login c)"

text \<open>The middle dot is U+00B7, the arrow U+2190.\<close>

definition status_label :: "pull_request_review_context \<Rightarrow> string" where
  "status_label c =
     ''GitHub PR #'' @ nat_str (pr_number c) @ [CHR '' '', CHR 0xC2, CHR 0xB7, CHR '' '']
     @ pr_title c @ [CHR '' '', CHR 0xC2, CHR 0xB7, CHR '' ''] @ pr_base_ref c
     @ [CHR '' '', CHR 0xE2, CHR 0x86, CHR 0x90, CHR '' ''] @ pr_head_ref c"

section \<open>Lemmas\<close>

lemma changeset_stats_sum:
  "st_additions (changeset_stats c) = sum_list (map (st_additions \<circ> df_stats) (cs_files c))"
  "st_deletions (changeset_stats c) = sum_list (map (st_deletions \<circ> df_stats) (cs_files c))"
proof -
  let ?step = "\<lambda>total file.
       total\<lparr>st_additions := st_additions total + st_additions (df_stats file),
             st_deletions := st_deletions total + st_deletions (df_stats file)\<rparr>"
  have *: "st_additions (foldl ?step t fs) = st_additions t + sum_list (map (st_additions \<circ> df_stats) fs)
      \<and> st_deletions (foldl ?step t fs) = st_deletions t + sum_list (map (st_deletions \<circ> df_stats) fs)"
    for t :: file_stats and fs
    by (induction fs arbitrary: t) simp_all
  then show
    "st_additions (changeset_stats c) = sum_list (map (st_additions \<circ> df_stats) (cs_files c))"
    "st_deletions (changeset_stats c) = sum_list (map (st_deletions \<circ> df_stats) (cs_files c))"
    using * [of file_stats_default "cs_files c"]
    unfolding changeset_stats_def by (simp_all add: file_stats_default_def)
qed

text \<open>A file without the agent's annotation: what the reordering must not change.\<close>

definition unannotated :: "diff_file \<Rightarrow> diff_file" where
  "unannotated file = file\<lparr>df_agent := None\<rparr>"

lemma remove_nth_mset:
  "i < length xs \<Longrightarrow> mset xs = add_mset (xs ! i) (mset (take i xs @ drop (Suc i) xs))"
  by (metis id_take_nth_drop mset.simps(2) mset_append union_mset_add_mset_right)

lemma place_agent_file_mset:
  "place_agent_file a (ordered, remaining) = (ordered', remaining') \<Longrightarrow>
   mset (map unannotated (ordered' @ remaining')) = mset (map unannotated (ordered @ remaining))"
proof -
  assume p: "place_agent_file a (ordered, remaining) = (ordered', remaining')"
  show ?thesis
  proof (cases "position (agent_matches a) remaining")
    case None
    with p show ?thesis by (simp add: place_agent_file_def)
  next
    case (Some i)
    from position_SomeD [OF Some] have "i < length remaining" by simp
    from remove_nth_mset [OF this]
    have "image_mset unannotated (mset remaining) =
        add_mset (unannotated (remaining ! i))
          (image_mset unannotated (mset (take i remaining @ drop (Suc i) remaining)))"
      by simp
    with p Some show ?thesis
      by (auto simp: place_agent_file_def unannotated_def)
  qed
qed

lemma place_agent_files_mset:
  "fold place_agent_file as (ordered, remaining) = (ordered', remaining') \<Longrightarrow>
   mset (map unannotated (ordered' @ remaining')) = mset (map unannotated (ordered @ remaining))"
proof (induction as arbitrary: ordered remaining)
  case Nil
  then show ?case by simp
next
  case (Cons a as)
  obtain o' r' where step: "place_agent_file a (ordered, remaining) = (o', r')"
    by (cases "place_agent_file a (ordered, remaining)")
  from Cons.prems step have "fold place_agent_file as (o', r') = (ordered', remaining')" by simp
  from Cons.IH [OF this] place_agent_file_mset [OF step] show ?case by simp
qed

text \<open>
  Attaching an agent's context reorders the files of a changeset and annotates some of
  them, and does nothing else: with the annotations left aside the files are the same
  multiset, so none is lost, duplicated or altered, and the totals stay what they were.
\<close>

lemma apply_agent_context_permutes:
  "mset (map unannotated (cs_files (apply_agent_context context c)))
     = mset (map unannotated (cs_files c))
   \<and> changeset_stats (apply_agent_context context c) = changeset_stats c"
proof -
  obtain o' r' where f: "fold place_agent_file (ac_files context) ([], cs_files c) = (o', r')"
    by (cases "fold place_agent_file (ac_files context) ([], cs_files c)")
  let ?c = "apply_agent_context context c"
  have files: "cs_files ?c = o' @ r'" by (simp add: apply_agent_context_def f)
  have m: "mset (map unannotated (cs_files ?c)) = mset (map unannotated (cs_files c))"
    using place_agent_files_mset [OF f] by (simp add: files)
  have eq: "map (g \<circ> df_stats) fs = map (g \<circ> df_stats) (map unannotated fs)"
    for g :: "file_stats \<Rightarrow> nat" and fs by (simp add: unannotated_def)
  have "sum_list (map (g \<circ> df_stats) (cs_files ?c)) = sum_list (map (g \<circ> df_stats) (cs_files c))"
    for g :: "file_stats \<Rightarrow> nat"
    unfolding eq [of g "cs_files ?c"] eq [of g "cs_files c"]
    by (metis m mset_map sum_mset_sum_list)
  then have "changeset_stats ?c = changeset_stats c"
    by (intro file_stats.equality) (simp_all add: changeset_stats_sum)
  with m show ?thesis by simp
qed

section \<open>A small file\<close>

text \<open>A file with one removed line, for the concrete instances of the properties.\<close>

definition sample_diff_file :: diff_file where
  "sample_diff_file =
     \<lparr>df_id = ''file:f'', df_path = ''f'', df_previous_path = None, df_summary = None, df_agent = None,
      df_patch = [],
      df_hunks =
        [\<lparr>hunk_old_start = 4, hunk_new_start = 4, hunk_header = [],
          hunk_lines = [\<lparr>dl_kind = Deletion, dl_content = [], dl_old_lineno = Some 4,
                        dl_new_lineno = None, dl_moved = None\<rparr>]\<rparr>],
      df_change_kind = Modified, df_is_binary = False, df_is_untracked = False,
      df_is_too_large = False, df_stats_truncated = False, df_language = None,
      df_stats = file_stats_default, df_old_source = SourceNone, df_new_source = SourceNone\<rparr>"

end
