(* ===== verification/Diff_Parser.thy ===== *)
theory Diff_Parser
  imports Diff_Model
begin

text \<open>
  The unified-diff parser, \<open>crates/ramo-core/src/diff/parser.rs\<close>, function by function. The
  source walks an index through a slice of lines; here the slice from that index on is the
  argument, and a function that reports how many lines it consumed still does. A result of
  \<open>None\<close> is a panic: of the slice \<open>&s[1..s.len() - 1]\<close> in \<open>unquote_git_path\<close> and of the
  index \<open>parts[1]\<close> in \<open>parse_hunk_header\<close>.
\<close>

section \<open>Escape sequences\<close>

definition csi_final :: "char \<Rightarrow> bool" where
  "csi_final c \<longleftrightarrow> 0x40 \<le> code c \<and> code c \<le> 0x7E"

fun skip_csi :: "string \<Rightarrow> string" where
  "skip_csi [] = []"
| "skip_csi (c # s) = (if csi_final c then s else skip_csi s)"

lemma length_skip_csi: "length (skip_csi s) \<le> length s"
  by (induction s) auto

function strip_ansi :: "string \<Rightarrow> string" where
  "strip_ansi [] = []"
| "strip_ansi (c # s) =
     (if c = ESC \<and> get s 0 = Some (CHR ''['') then strip_ansi (skip_csi (tl s))
      else c # strip_ansi s)"
  by pat_completeness auto
termination
proof (relation "measure length", goal_cases)
  case (2 c s)
  have "length (skip_csi (tl s)) \<le> length s"
    using length_skip_csi [of "tl s"] by simp
  then show ?case by simp
qed simp_all

section \<open>Quoted paths\<close>

definition is_octal :: "char \<Rightarrow> bool" where
  "is_octal c \<longleftrightarrow> 48 \<le> code c \<and> code c \<le> 55"

text \<open>Up to three octal digits into a \<open>u8\<close>, which wraps.\<close>

fun octal_escape :: "nat \<Rightarrow> u8 \<Rightarrow> string \<Rightarrow> u8 \<times> string" where
  "octal_escape k v [] = (v, [])"
| "octal_escape k v (d # s) =
     (if 0 < k \<and> is_octal d then octal_escape (k - 1) ((v * 8 + (code d - 48)) mod 256) s
      else (v, d # s))"

lemma length_octal_escape: "length (snd (octal_escape k v s)) \<le> length s"
  by (induction k v s rule: octal_escape.induct) auto

lemma octal_escape_progress:
  "0 < k \<Longrightarrow> is_octal d \<Longrightarrow> length (snd (octal_escape k v (d # s))) \<le> length s"
  by (simp add: length_octal_escape)

definition simple_escape :: "char \<Rightarrow> string" where
  "simple_escape d =
     (if d = CHR ''n'' then [NL] else if d = CHR ''t'' then [TAB]
      else if d = BSLASH then [BSLASH] else if d = DQUOTE then [DQUOTE]
      else if d = CHR ''a'' then [CHR 0x07] else if d = CHR ''b'' then [CHR 0x08]
      else if d = CHR ''f'' then [CHR 0x0C] else if d = CHR ''r'' then [CR]
      else [BSLASH, d])"

function unescape :: "string \<Rightarrow> string" where
  "unescape [] = []"
| "unescape (c # s) =
     (if c \<noteq> BSLASH then c # unescape s
      else (case s of
              [] \<Rightarrow> [BSLASH]
            | d # r \<Rightarrow>
                if is_octal d
                then char_of (fst (octal_escape 3 0 s)) # unescape (snd (octal_escape 3 0 s))
                else simple_escape d @ unescape r))"
  by pat_completeness auto
termination
proof (relation "measure length", goal_cases)
  case (3 c s d r)
  then show ?case
    using octal_escape_progress [of 3 d 0 r] by simp
qed simp_all

definition unquote_git_path :: "string \<Rightarrow> string option" where
  "unquote_git_path s =
     (let s = trim s in
      if \<not> starts_with s [DQUOTE] \<or> \<not> ends_with s [DQUOTE] then Some s
      else if length s < 2 then None
      else Some (from_utf8_lossy (unescape (butlast (tl s)))))"

definition strip_git_prefix :: "string \<Rightarrow> string \<Rightarrow> string option" where
  "strip_git_prefix s pfx =
     (let s = trim s in
      if starts_with s [DQUOTE]
      then map_option (\<lambda>u. strip_prefix_or u pfx) (unquote_git_path s)
      else Some (strip_prefix_or s pfx))"

definition DEV_NULL :: string where "DEV_NULL = ''/dev/null''"

definition parse_patch_path :: "string \<Rightarrow> string \<Rightarrow> string option" where
  "parse_patch_path raw pfx =
     (let raw = trim raw in
      if starts_with raw [DQUOTE] then strip_git_prefix raw pfx
      else if raw = DEV_NULL then Some DEV_NULL
      else Some (takeWhile (\<lambda>c. c \<noteq> TAB) (strip_prefix_or raw pfx)))"

section \<open>The first line of a file\<close>

fun closing_quote_from :: "nat \<Rightarrow> string \<Rightarrow> nat option" where
  "closing_quote_from i [] = None"
| "closing_quote_from i [c] = (if c = DQUOTE then Some i else None)"
| "closing_quote_from i (c # d # s) =
     (if c = BSLASH then closing_quote_from (i + 2) s
      else if c = DQUOTE then Some i
      else closing_quote_from (Suc i) (d # s))"

definition find_closing_quote :: "string \<Rightarrow> nat option" where
  "find_closing_quote s =
     (if get s 0 \<noteq> Some DQUOTE then None else closing_quote_from 1 (tl s))"

definition DIFF_GIT :: string where "DIFF_GIT = ''diff --git ''"
definition SEP_B :: string where "SEP_B = '' b/''"

definition parse_unquoted_paths :: "string \<Rightarrow> string \<times> string" where
  "parse_unquoted_paths rest =
     (let expected_sep = 2 + (length rest - 5) div 2 in
      if starts_with rest ''a/'' \<and> 5 \<le> length rest
         \<and> get_range rest expected_sep (expected_sep + 3) = Some SEP_B
      then (take (expected_sep - 2) (drop 2 rest), drop (expected_sep + 3) rest)
      else (case rfind_sub SEP_B rest of
              Some b \<Rightarrow>
                (if 2 \<le> b \<and> char_boundary rest 2 then take (b - 2) (drop 2 rest) else [],
                 drop (b + 3) rest)
            | None \<Rightarrow>
                (let parts = splitn 2 (CHR '' '') rest;
                     second = (case get parts 1 of Some p \<Rightarrow> p | None \<Rightarrow> hd parts)
                 in (trim_start_matches (hd parts) ''a/'', trim_start_matches second ''b/''))))"

definition parse_diff_git_line :: "string \<Rightarrow> (string \<times> string) option" where
  "parse_diff_git_line line =
     (let rest = strip_prefix_or line DIFF_GIT in
      case (if starts_with rest [DQUOTE] then find_closing_quote rest else None) of
        Some end \<Rightarrow>
          do { old \<leftarrow> strip_git_prefix (take (Suc end) rest) ''a/'';
               new \<leftarrow> strip_git_prefix (trim_start (drop (Suc end) rest)) ''b/'';
               Some (old, new) }
      | None \<Rightarrow> Some (parse_unquoted_paths rest))"

section \<open>Hunks\<close>

text \<open>\<open>start.parse().unwrap_or(1)\<close> and the like, at type \<open>u32\<close>.\<close>

definition parse_or :: "u32 \<Rightarrow> string \<Rightarrow> u32" where
  "parse_or d s = (case parse_uint u32_max s of Some n \<Rightarrow> n | None \<Rightarrow> d)"

definition parse_range :: "string \<Rightarrow> u32 \<times> u32" where
  "parse_range r =
     (case split_once (CHR '','') r of
        Some (start, cnt) \<Rightarrow> (parse_or 1 start, parse_or 0 cnt)
      | None \<Rightarrow> (parse_or 1 r, 1))"

definition HUNK :: string where "HUNK = ''@@ ''"

definition parse_hunk_header :: "string \<Rightarrow> (u32 \<times> u32 \<times> u32 \<times> u32) option" where
  "parse_hunk_header header =
     (let parts = splitn 3 (CHR '' '') (trim_start_matches header HUNK) in
      do { p0 \<leftarrow> get parts 0;
           p1 \<leftarrow> get parts 1;
           let (old_start, old_count) = parse_range (dropWhile (\<lambda>c. c = CHR ''-'') p0);
           let (new_start, new_count) = parse_range (dropWhile (\<lambda>c. c = CHR ''+'') p1);
           Some (old_start, old_count, new_start, new_count) })"

definition next_line :: "u32 \<Rightarrow> u32" where
  "next_line n = wrap_add u32_max n 1"

text \<open>The loop of \<open>parse_hunk\<close>: the lines it collects and how many it went past, from the
  current old and new line numbers.\<close>

fun hunk_body :: "u32 \<Rightarrow> u32 \<Rightarrow> string list \<Rightarrow> diff_line list \<times> nat" where
  "hunk_body old_line new_line [] = ([], 0)"
| "hunk_body old_line new_line (line # ls) =
     (if starts_with line HUNK \<or> starts_with line DIFF_GIT then ([], 0)
      else (case line of
              [] \<Rightarrow>
                (let (ds, n) = hunk_body (next_line old_line) (next_line new_line) ls in
                 (\<lparr>dl_kind = Context, dl_content = [], dl_old_lineno = Some old_line,
                   dl_new_lineno = Some new_line, dl_moved = None\<rparr> # ds, Suc n))
            | c # content \<Rightarrow>
                if c = CHR ''+'' then
                  (let (ds, n) = hunk_body old_line (next_line new_line) ls in
                   (\<lparr>dl_kind = Addition, dl_content = content, dl_old_lineno = None,
                     dl_new_lineno = Some new_line, dl_moved = None\<rparr> # ds, Suc n))
                else if c = CHR ''-'' then
                  (let (ds, n) = hunk_body (next_line old_line) new_line ls in
                   (\<lparr>dl_kind = Deletion, dl_content = content, dl_old_lineno = Some old_line,
                     dl_new_lineno = None, dl_moved = None\<rparr> # ds, Suc n))
                else if c = CHR '' '' then
                  (let (ds, n) = hunk_body (next_line old_line) (next_line new_line) ls in
                   (\<lparr>dl_kind = Context, dl_content = content, dl_old_lineno = Some old_line,
                     dl_new_lineno = Some new_line, dl_moved = None\<rparr> # ds, Suc n))
                else if c = BSLASH then
                  (let (ds, n) = hunk_body old_line new_line ls in (ds, Suc n))
                else ([], 0)))"

definition parse_hunk :: "string list \<Rightarrow> (hunk \<times> nat) option" where
  "parse_hunk ls =
     do { (old_start, _, new_start, _) \<leftarrow> parse_hunk_header (hd ls);
          let (diff_lines, n) = hunk_body old_start new_start (tl ls);
          Some (\<lparr>hunk_old_start = old_start, hunk_new_start = new_start,
                 hunk_header = hd ls, hunk_lines = diff_lines\<rparr>, Suc n) }"

lemma parse_hunk_pos: "parse_hunk ls = Some (h, n) \<Longrightarrow> 0 < n"
  by (auto simp: parse_hunk_def Let_def split: Option.bind_splits prod.splits)

section \<open>Files\<close>

fun resolve_change_kind :: "bool \<Rightarrow> bool \<Rightarrow> bool \<Rightarrow> bool \<Rightarrow> file_change_kind" where
  "resolve_change_kind is_new is_deleted is_renamed is_copied =
     (if is_new then Added else if is_deleted then Deleted else if is_copied then Copied
      else if is_renamed then Renamed else Modified)"

definition format_patch :: "string list \<Rightarrow> string" where
  "format_patch ls = join [NL] ls @ [NL]"

text \<open>The local variables of \<open>parse_file\<close> while it reads the extended header.\<close>

record file_header =
  fh_is_new :: bool
  fh_is_deleted :: bool
  fh_is_renamed :: bool
  fh_is_copied :: bool
  fh_is_binary :: bool
  fh_old_path :: string
  fh_new_path :: string

definition header_line :: "string \<Rightarrow> file_header \<Rightarrow> file_header option" where
  "header_line line s =
     (if starts_with line ''new file'' then Some (s\<lparr>fh_is_new := True\<rparr>)
      else if starts_with line ''deleted file'' then Some (s\<lparr>fh_is_deleted := True\<rparr>)
      else if starts_with line ''Binary files'' \<or> starts_with line ''GIT binary patch''
        then Some (s\<lparr>fh_is_binary := True\<rparr>)
      else if starts_with line ''rename from '' then
        map_option (\<lambda>p. s\<lparr>fh_is_renamed := True, fh_old_path := p\<rparr>)
          (unquote_git_path (drop (length ''rename from '') line))
      else if starts_with line ''rename to '' then
        map_option (\<lambda>p. s\<lparr>fh_is_renamed := True, fh_new_path := p\<rparr>)
          (unquote_git_path (drop (length ''rename to '') line))
      else if starts_with line ''copy from '' then
        map_option (\<lambda>p. s\<lparr>fh_is_copied := True, fh_old_path := p\<rparr>)
          (unquote_git_path (drop (length ''copy from '') line))
      else if starts_with line ''copy to '' then
        map_option (\<lambda>p. s\<lparr>fh_is_copied := True, fh_new_path := p\<rparr>)
          (unquote_git_path (drop (length ''copy to '') line))
      else Some s)"

fun read_header :: "string list \<Rightarrow> file_header \<Rightarrow> (file_header \<times> string list) option" where
  "read_header [] s = Some (s, [])"
| "read_header (line # ls) s =
     (if starts_with line ''---'' \<or> starts_with line ''@@'' \<or> starts_with line DIFF_GIT
      then Some (s, line # ls)
      else (case header_line line s of None \<Rightarrow> None | Some s' \<Rightarrow> read_header ls s'))"

text \<open>A \<open>---\<close> or \<open>+++\<close> line overrides the path, unless it is empty or \<open>/dev/null\<close>.\<close>

definition path_line :: "string \<Rightarrow> string \<Rightarrow> string \<Rightarrow> string list \<Rightarrow> (string \<times> string list) option" where
  "path_line marker pfx current ls =
     (case ls of
        line # r \<Rightarrow>
          if starts_with line marker then
            map_option
              (\<lambda>path. (if path \<noteq> [] \<and> path \<noteq> DEV_NULL then path else current, r))
              (parse_patch_path (drop 4 line) pfx)
          else Some (current, ls)
      | [] \<Rightarrow> Some (current, ls))"

function parse_hunks :: "string list \<Rightarrow> hunk list option" where
  "parse_hunks [] = Some []"
| "parse_hunks (line # ls) =
     (if starts_with line DIFF_GIT then Some []
      else if starts_with line HUNK then
        (case parse_hunk (line # ls) of
           None \<Rightarrow> None
         | Some (h, n) \<Rightarrow> map_option ((#) h) (parse_hunks (drop n (line # ls))))
      else parse_hunks ls)"
  by pat_completeness auto
termination
  by (relation "measure length") (auto dest: parse_hunk_pos)

definition count_line :: "diff_line \<Rightarrow> file_stats \<Rightarrow> file_stats" where
  "count_line line stats =
     (case dl_kind line of
        Addition \<Rightarrow> stats\<lparr>st_additions := st_additions stats + 1\<rparr>
      | Deletion \<Rightarrow> stats\<lparr>st_deletions := st_deletions stats + 1\<rparr>
      | Context \<Rightarrow> stats)"

definition hunk_stats :: "hunk list \<Rightarrow> file_stats" where
  "hunk_stats hunks = fold count_line (concat (map hunk_lines hunks)) file_stats_default"

definition make_file :: "file_header \<Rightarrow> string list \<Rightarrow> hunk list \<Rightarrow> file_stats \<Rightarrow> diff_file" where
  "make_file s ls hunks stats =
     (let previous_path = (if fh_old_path s \<noteq> fh_new_path s then Some (fh_old_path s) else None)
      in \<lparr>df_id = stable_file_id (fh_new_path s) previous_path,
          df_path = fh_new_path s, df_previous_path = previous_path, df_summary = None,
          df_agent = None, df_patch = format_patch ls, df_hunks = hunks,
          df_change_kind = resolve_change_kind (fh_is_new s) (fh_is_deleted s)
                             (fh_is_renamed s) (fh_is_copied s),
          df_is_binary = fh_is_binary s, df_is_untracked = False, df_is_too_large = False,
          df_stats_truncated = False, df_language = None, df_stats = stats,
          df_old_source = SourceNone, df_new_source = SourceNone\<rparr>)"

definition file_length :: "string list \<Rightarrow> nat" where
  "file_length ls =
     (case position (\<lambda>line. starts_with line DIFF_GIT) (tl ls) of
        None \<Rightarrow> length ls
      | Some index \<Rightarrow> index + 1)"

definition file_body :: "string list \<Rightarrow> file_header \<Rightarrow> string list \<Rightarrow> diff_file option" where
  "file_body ls s rest =
     (if fh_is_binary s then Some (make_file s ls [] file_stats_default)
      else do {
        (old, rest) \<leftarrow> path_line ''--- '' ''a/'' (fh_old_path s) rest;
        (new, rest) \<leftarrow> path_line ''+++ '' ''b/'' (fh_new_path s) rest;
        hunks \<leftarrow> parse_hunks rest;
        Some (make_file (s\<lparr>fh_old_path := old, fh_new_path := new\<rparr>) ls hunks (hunk_stats hunks)) })"

definition parse_file :: "string list \<Rightarrow> (diff_file option \<times> nat) option" where
  "parse_file ls =
     (let file_len = file_length ls; ls = take file_len ls in
      do { (old_path, new_path) \<leftarrow> parse_diff_git_line (hd ls);
           (s, rest) \<leftarrow> read_header (tl ls)
             \<lparr>fh_is_new = False, fh_is_deleted = False, fh_is_renamed = False,
              fh_is_copied = False, fh_is_binary = False,
              fh_old_path = old_path, fh_new_path = new_path\<rparr>;
           file \<leftarrow> file_body ls s rest;
           Some (Some file, file_len) })"

lemma file_length_pos: "ls \<noteq> [] \<Longrightarrow> 0 < file_length ls"
  by (cases ls) (auto simp: file_length_def split: option.splits)

lemma parse_file_consumed: "parse_file ls = Some (f, n) \<Longrightarrow> n = file_length ls"
  by (auto simp: parse_file_def Let_def split: Option.bind_splits)

function parse_lines :: "string list \<Rightarrow> diff_file list option" where
  "parse_lines [] = Some []"
| "parse_lines (line # ls) =
     (if starts_with line DIFF_GIT then
        (case parse_file (line # ls) of
           None \<Rightarrow> None
         | Some (f, consumed) \<Rightarrow>
             map_option (\<lambda>files. (case f of None \<Rightarrow> files | Some f \<Rightarrow> f # files))
               (parse_lines (drop consumed (line # ls))))
      else parse_lines ls)"
  by pat_completeness auto
termination
  by (relation "measure length") (auto dest!: parse_file_consumed simp: file_length_pos)

definition parse_unified_diff :: "string \<Rightarrow> diff_file list option" where
  "parse_unified_diff input = parse_lines (lines (strip_ansi input))"

end
