(* ===== verification/Diff_Parser_Props.thy ===== *)
theory Diff_Parser_Props
  imports Diff_Parser
begin

text \<open>
  What the unified-diff parser guarantees of every input: the patches of the parsed files are
  the input's lines from the first \<open>diff --git\<close> on, each file and hunk is internally
  consistent, and a panic has one of two causes.
\<close>

section \<open>Patches partition the input\<close>

lemma format_patch_unlines: "ls \<noteq> [] \<Longrightarrow> format_patch ls = unlines ls"
proof -
  have "ls \<noteq> [] \<Longrightarrow> join [NL] ls @ [NL] = unlines ls"
    by (induction "[NL]" ls rule: join.induct) simp_all
  then show "ls \<noteq> [] \<Longrightarrow> format_patch ls = unlines ls" by (simp add: format_patch_def)
qed

lemma unlines_append: "unlines (xs @ ys) = unlines xs @ unlines ys"
  by (simp add: unlines_def)

definition diff_start :: "string \<Rightarrow> bool" where
  "diff_start line \<longleftrightarrow> starts_with line DIFF_GIT"

lemma make_file_fields [simp]:
  "df_patch (make_file s ls hs st) = format_patch ls"
  "df_hunks (make_file s ls hs st) = hs"
  "df_stats (make_file s ls hs st) = st"
  "df_is_binary (make_file s ls hs st) = fh_is_binary s"
  "df_path (make_file s ls hs st) = fh_new_path s"
  by (simp_all add: make_file_def Let_def)

lemma file_body_patch: "file_body ls s rest = Some f \<Longrightarrow> df_patch f = format_patch ls"
  by (auto simp: file_body_def split: if_splits Option.bind_splits prod.splits)

definition initial_header :: "string \<Rightarrow> string \<Rightarrow> file_header" where
  "initial_header old new =
     \<lparr>fh_is_new = False, fh_is_deleted = False, fh_is_renamed = False, fh_is_copied = False,
      fh_is_binary = False, fh_old_path = old, fh_new_path = new\<rparr>"

lemma parse_file_SomeD:
  "parse_file ls = Some (f, n) \<Longrightarrow>
   \<exists>old new s rst g.
     parse_diff_git_line (hd (take (file_length ls) ls)) = Some (old, new)
     \<and> read_header (tl (take (file_length ls) ls)) (initial_header old new) = Some (s, rst)
     \<and> file_body (take (file_length ls) ls) s rst = Some g
     \<and> f = Some g"
  by (fastforce simp: parse_file_def Let_def bind_eq_Some_conv initial_header_def)

lemma parse_file_patch:
  assumes "parse_file ls = Some (f, n)" and "ls \<noteq> []"
  shows "\<exists>g. f = Some g \<and> df_patch g = unlines (take (file_length ls) ls)"
proof -
  have ne: "take (file_length ls) ls \<noteq> []" using file_length_pos [OF assms(2)] assms(2) by simp
  from parse_file_SomeD [OF assms(1)] obtain g s rst where
    f: "f = Some g" and b: "file_body (take (file_length ls) ls) s rst = Some g" by blast
  from file_body_patch [OF b] format_patch_unlines [OF ne] f show ?thesis by simp
qed

lemma dropWhile_at_file_length:
  assumes "ls \<noteq> []"
  shows "dropWhile (\<lambda>l. \<not> diff_start l) (drop (file_length ls) ls) = drop (file_length ls) ls"
proof (cases "position (\<lambda>line. starts_with line DIFF_GIT) (tl ls)")
  case None
  then show ?thesis by (simp add: file_length_def)
next
  case (Some i)
  from position_SomeD [OF Some] have i: "i < length (tl ls)" "starts_with (tl ls ! i) DIFF_GIT"
    by auto
  have "drop (file_length ls) ls = drop i (tl ls)"
    using Some by (simp add: file_length_def drop_Suc)
  moreover from i(1) have "drop i (tl ls) = tl ls ! i # drop (Suc i) (tl ls)"
    by (simp only: Cons_nth_drop_Suc)
  ultimately show ?thesis using i(2) by (simp add: diff_start_def)
qed

lemma parse_lines_patches:
  "parse_lines ls = Some files \<Longrightarrow>
   concat (map df_patch files) = unlines (dropWhile (\<lambda>l. \<not> diff_start l) ls)"
proof (induction ls arbitrary: files rule: parse_lines.induct)
  case 1
  then show ?case by simp
next
  case (2 line ls)
  show ?case
  proof (cases "starts_with line DIFF_GIT")
    case False
    with 2 show ?thesis by (simp add: diff_start_def)
  next
    case True
    let ?ls = "line # ls"
    from "2.prems" True obtain f n rest where
      pf: "parse_file ?ls = Some (f, n)" and rest: "parse_lines (drop n ?ls) = Some rest"
      and files: "files = (case f of None \<Rightarrow> rest | Some f \<Rightarrow> f # rest)"
      by (auto split: option.splits)
    from parse_file_consumed [OF pf] have n: "n = file_length ?ls" .
    from parse_file_patch [OF pf] obtain g where
      f: "f = Some g" "df_patch g = unlines (take n ?ls)" unfolding n by auto
    have "concat (map df_patch rest) = unlines (drop n ?ls)"
      using "2.IH"(1) [OF True pf refl rest] dropWhile_at_file_length [of ?ls] unfolding n by simp
    then show ?thesis
      using True f files by (simp add: diff_start_def unlines_append [symmetric] del: unlines_simps)
  qed
qed

text \<open>
  C10. The parser loses and invents nothing: the patches of the parsed files, in order, are
  exactly the input's lines from its first \<open>diff --git\<close> line on, after the terminal colour
  sequences are removed, so every later line belongs to exactly one file.
\<close>

theorem parse_patches_partition:
  assumes "parse_unified_diff input = Some files"
  shows "concat (map df_patch files)
    = unlines (dropWhile (\<lambda>l. \<not> starts_with l DIFF_GIT) (lines (strip_ansi input)))"
  using parse_lines_patches assms unfolding parse_unified_diff_def diff_start_def by blast

theorem parse_patches_partition_witness:
  "concat (map df_patch [make_file
       \<lparr>fh_is_new = True, fh_is_deleted = False, fh_is_renamed = False, fh_is_copied = False,
        fh_is_binary = False, fh_old_path = ''f'', fh_new_path = ''f''\<rparr>
       [''diff --git a/f b/f'', ''new file mode 100644''] [] file_stats_default])
   = unlines (dropWhile (\<lambda>l. \<not> starts_with l DIFF_GIT)
       (lines (strip_ansi
         (unlines [''note'', [ESC] @ ''[1mdiff --git a/f b/f'', ''new file mode 100644'']))))"
  by (rule parse_patches_partition) code_simp

section \<open>Parsed files are consistent\<close>

text \<open>The sides a line of each kind has, and the numbers the lines of a hunk carry: each side
  counts up by one from the number in the hunk's header, wrapping at 32 bits as the code's
  counters do.\<close>

definition line_sides_ok :: "diff_line \<Rightarrow> bool" where
  "line_sides_ok l \<longleftrightarrow>
     (dl_old_lineno l \<noteq> None \<longleftrightarrow> dl_kind l \<noteq> Addition)
     \<and> (dl_new_lineno l \<noteq> None \<longleftrightarrow> dl_kind l \<noteq> Deletion) \<and> dl_moved l = None"

definition counts_from :: "u32 \<Rightarrow> u32 list \<Rightarrow> bool" where
  "counts_from start ns \<longleftrightarrow> ns = map (\<lambda>i. (start + i) mod 2 ^ 32) [0..<length ns]"

definition hunk_ok :: "hunk \<Rightarrow> bool" where
  "hunk_ok h \<longleftrightarrow>
     starts_with (hunk_header h) HUNK
     \<and> (\<forall>l \<in> set (hunk_lines h). line_sides_ok l)
     \<and> counts_from (hunk_old_start h) (List.map_filter dl_old_lineno (hunk_lines h))
     \<and> counts_from (hunk_new_start h) (List.map_filter dl_new_lineno (hunk_lines h))"

definition lines_of_kind :: "line_type \<Rightarrow> hunk list \<Rightarrow> nat" where
  "lines_of_kind k hs = length (filter (\<lambda>l. dl_kind l = k) (concat (map hunk_lines hs)))"

definition parsed_file_ok :: "diff_file \<Rightarrow> bool" where
  "parsed_file_ok f \<longleftrightarrow>
     df_id f = stable_file_id (df_path f) (df_previous_path f)
     \<and> df_previous_path f \<noteq> Some (df_path f)
     \<and> (df_is_binary f \<longrightarrow> df_hunks f = [])
     \<and> st_additions (df_stats f) = lines_of_kind Addition (df_hunks f)
     \<and> st_deletions (df_stats f) = lines_of_kind Deletion (df_hunks f)
     \<and> \<not> df_is_untracked f \<and> \<not> df_is_too_large f \<and> \<not> df_stats_truncated f
     \<and> df_agent f = None \<and> df_old_source f = SourceNone \<and> df_new_source f = SourceNone
     \<and> (\<forall>h \<in> set (df_hunks f). hunk_ok h)"

lemma next_line_mod: "next_line n = (n + 1) mod 2 ^ 32"
  by (simp add: next_line_def wrap_add_def u32_max_def)

lemma counts_from_Nil [simp]: "counts_from n []"
  by (simp add: counts_from_def)

lemma counts_from_Cons:
  assumes "counts_from (next_line n) ns" and "n < 2 ^ 32"
  shows "counts_from n (n # ns)"
proof -
  have "ns = map (\<lambda>i. (n + Suc i) mod 2 ^ 32) [0..<length ns]"
    using assms(1) by (simp add: counts_from_def next_line_mod mod_add_left_eq add.assoc)
  moreover have "[0..<Suc (length ns)] = 0 # map Suc [0..<length ns]"
    by (simp add: map_Suc_upt upt_conv_Cons del: upt_Suc)
  ultimately show ?thesis
    using assms(2) by (simp add: counts_from_def comp_def del: upt_Suc)
qed

lemma next_line_less: "next_line n < 2 ^ 32" "next_line n < 4294967296"
  by (simp_all add: next_line_mod)

lemma map_filter_Cons:
  "List.map_filter f (x # xs) = (case f x of None \<Rightarrow> [] | Some y \<Rightarrow> [y]) @ List.map_filter f xs"
  by (simp add: List.map_filter_def split: option.split)

lemma map_filter_Nil: "List.map_filter f [] = []"
  by (simp add: List.map_filter_def)

lemma hunk_body_ok:
  assumes "old < 2 ^ 32" and "new < 2 ^ 32"
  shows "(\<forall>l \<in> set (fst (hunk_body old new ls)). line_sides_ok l)
     \<and> counts_from old (List.map_filter dl_old_lineno (fst (hunk_body old new ls)))
     \<and> counts_from new (List.map_filter dl_new_lineno (fst (hunk_body old new ls)))"
  using assms
proof (induction old new ls rule: hunk_body.induct)
  case (1 old_line new_line)
  then show ?case by (simp add: map_filter_Nil)
next
  case (2 old_line new_line line ls)
  show ?case
  proof (cases "starts_with line HUNK \<or> starts_with line DIFF_GIT")
    case True
    then show ?thesis by (simp add: map_filter_Nil)
  next
    case stop: False
    show ?thesis
    proof (cases line)
      case Nil
      with 2 stop show ?thesis
        by (simp add: Let_def split_def map_filter_Cons counts_from_Cons next_line_less line_sides_ok_def)
    next
      case (Cons c content)
      consider "c = CHR ''+''" | "c = CHR ''-''" | "c = CHR '' ''" | "c = BSLASH"
        | "c \<noteq> CHR ''+''" "c \<noteq> CHR ''-''" "c \<noteq> CHR '' ''" "c \<noteq> BSLASH" by blast
      then show ?thesis
        using 2 stop Cons
        by cases (simp_all add: Let_def split_def map_filter_Cons map_filter_Nil counts_from_Cons
            next_line_less line_sides_ok_def)
    qed
  qed
qed

lemma parse_or_less: "d < 2 ^ 32 \<Longrightarrow> parse_or d s < 2 ^ 32"
  by (auto simp: parse_or_def u32_max_def dest: parse_uint_bound split: option.split)

lemma parse_hunk_header_less:
  "parse_hunk_header h = Some (os, oc, ns, nc) \<Longrightarrow> os < 2 ^ 32 \<and> ns < 2 ^ 32"
  by (auto simp: parse_hunk_header_def Let_def bind_eq_Some_conv parse_range_def
      parse_or_less [simplified] split: prod.splits option.splits)

lemma parse_hunk_ok:
  assumes "parse_hunk ls = Some (h, n)" and "starts_with (hd ls) HUNK"
  shows "hunk_ok h"
proof -
  from assms(1) obtain os oc ns nc where
    hd: "parse_hunk_header (hd ls) = Some (os, oc, ns, nc)"
    and h: "h = \<lparr>hunk_old_start = os, hunk_new_start = ns, hunk_header = hd ls,
                 hunk_lines = fst (hunk_body os ns (tl ls))\<rparr>"
    by (auto simp: parse_hunk_def bind_eq_Some_conv split_def Let_def)
  from parse_hunk_header_less [OF hd] hunk_body_ok [of os ns "tl ls"] h assms(2) show ?thesis
    by (simp add: hunk_ok_def)
qed

lemma parse_hunks_ok: "parse_hunks ls = Some hs \<Longrightarrow> h \<in> set hs \<Longrightarrow> hunk_ok h"
proof (induction ls arbitrary: hs rule: parse_hunks.induct)
  case 1
  then show ?case by simp
next
  case (2 line ls)
  then show ?case by (fastforce split: if_splits option.splits dest: parse_hunk_ok)
qed

lemma count_lines:
  "st_additions (fold count_line ls st) = st_additions st + length (filter (\<lambda>l. dl_kind l = Addition) ls)
   \<and> st_deletions (fold count_line ls st) = st_deletions st + length (filter (\<lambda>l. dl_kind l = Deletion) ls)"
  by (induction ls arbitrary: st) (auto simp: count_line_def split: line_type.split)

lemma hunk_stats_counts:
  "st_additions (hunk_stats hs) = lines_of_kind Addition hs"
  "st_deletions (hunk_stats hs) = lines_of_kind Deletion hs"
  by (simp_all add: hunk_stats_def count_lines lines_of_kind_def file_stats_default_def)

lemma make_file_ok:
  assumes "fh_is_binary s \<Longrightarrow> hs = []" and "\<forall>h \<in> set hs. hunk_ok h"
    and "st_additions st = lines_of_kind Addition hs" and "st_deletions st = lines_of_kind Deletion hs"
  shows "parsed_file_ok (make_file s ls hs st)"
  using assms by (auto simp: parsed_file_ok_def make_file_def Let_def)

lemma file_body_ok: "file_body ls s rst = Some f \<Longrightarrow> parsed_file_ok f"
  by (auto simp: file_body_def bind_eq_Some_conv hunk_stats_counts lines_of_kind_def
      file_stats_default_def parse_hunks_ok intro!: make_file_ok split: if_splits)

lemma parse_lines_ok: "parse_lines ls = Some fs \<Longrightarrow> f \<in> set fs \<Longrightarrow> parsed_file_ok f"
proof (induction ls arbitrary: fs rule: parse_lines.induct)
  case 1
  then show ?case by simp
next
  case (2 line ls)
  then show ?case
    by (auto split: if_splits option.splits dest!: parse_file_SomeD file_body_ok)
qed

text \<open>
  C24. Every file the parser returns is consistent: its identifier is the one derived from its
  paths, a previous path is there only if it differs, a binary file has no hunks, the totals
  count the added and removed lines of the hunks, and in every hunk each line has exactly
  the sides its kind allows, numbered upwards by one from the numbers of the hunk's header.
\<close>

theorem parse_files_consistent:
  assumes "parse_unified_diff input = Some files" and "f \<in> set files"
  shows "parsed_file_ok f"
  using assms parse_lines_ok unfolding parse_unified_diff_def by blast

definition sample_input :: string where
  "sample_input =
     unlines [''diff --git a/f b/f'', ''--- a/f'', ''+++ b/f'', ''@@ -3,2 +3,2 @@'',
              '' one'', ''-two'', ''+2'', BSLASH # '' No newline at end of file'']"

theorem parse_files_consistent_witness:
  "parsed_file_ok (hd (the (parse_unified_diff sample_input)))"
proof (rule parse_files_consistent)
  have "parse_unified_diff sample_input \<noteq> None" by code_simp
  then show "parse_unified_diff sample_input = Some (the (parse_unified_diff sample_input))"
    by simp
  have "the (parse_unified_diff sample_input) \<noteq> []" by code_simp
  then show "hd (the (parse_unified_diff sample_input)) \<in> set (the (parse_unified_diff sample_input))"
    by simp
qed

section \<open>Panics\<close>

lemma set_trim: "set (trim s) \<subseteq> set s"
proof -
  have ws: "set (strip_any ws x) \<subseteq> set x" for ws x
    using strip_any_suffix [of x ws] by (metis set_append sup_ge2)
  have "set (trim_start s) \<subseteq> set s" by (simp add: trim_start_def ws)
  moreover have "set (trim_end x) \<subseteq> set x" for x
    using ws [of _ "rev x"] by (simp add: trim_end_def)
  ultimately show ?thesis unfolding trim_def by blast
qed

lemma splitn_3_short:
  "get (splitn 3 c s) 0 = None \<or> get (splitn 3 c s) (Suc 0) = None \<longleftrightarrow> c \<notin> set s"
proof (cases "c \<in> set s")
  case True
  then obtain a b where "s = a @ c # b" "c \<notin> set a" by (metis split_list_first)
  with True show ?thesis
    by (simp add: numeral_3_eq_3 split_once_append get_def split: option.split)
next
  case False
  then show ?thesis by (simp add: numeral_3_eq_3 split_once_None get_def)
qed

lemma parse_hunk_header_None_iff:
  "parse_hunk_header h = None \<longleftrightarrow> CHR '' '' \<notin> set (trim_start_matches h HUNK)"
  unfolding splitn_3_short [symmetric]
  by (auto simp: parse_hunk_header_def Let_def split_def bind_eq_None_conv)

lemma starts_ends_quote_short:
  "starts_with s [DQUOTE] \<and> ends_with s [DQUOTE] \<and> length s < 2 \<longleftrightarrow> s = [DQUOTE]"
  by (cases s) (auto simp: ends_with_def)

lemma unquote_git_path_None_iff: "unquote_git_path s = None \<longleftrightarrow> trim s = [DQUOTE]"
  using starts_ends_quote_short [of "trim s"] by (auto simp: unquote_git_path_def Let_def)

text \<open>
  C32. Exactly which inputs make the two panicking helpers of the parser panic: a hunk header
  with no space after its leading \<open>@@\<close> has no second field, and a quoted path that is a lone
  double quote is sliced from 1 to 0.
\<close>

theorem parser_panic_conditions:
  "(parse_hunk_header h = None \<longleftrightarrow> CHR '' '' \<notin> set (trim_start_matches h HUNK))
   \<and> (unquote_git_path s = None \<longleftrightarrow> trim s = [DQUOTE])"
  by (simp add: parse_hunk_header_None_iff unquote_git_path_None_iff)

definition safe_line :: "string \<Rightarrow> bool" where
  "safe_line l \<longleftrightarrow>
     DQUOTE \<notin> set l \<and> (starts_with l HUNK \<longrightarrow> CHR '' '' \<in> set (trim_start_matches l HUNK))"

lemma unquote_safe: "DQUOTE \<notin> set s \<Longrightarrow> unquote_git_path s \<noteq> None"
  using set_trim [of s] by (auto simp: unquote_git_path_None_iff)

lemma strip_git_prefix_safe: "DQUOTE \<notin> set s \<Longrightarrow> strip_git_prefix s p \<noteq> None"
  using unquote_safe [of "trim s"] set_trim [of s]
  by (auto simp: strip_git_prefix_def Let_def split: if_splits)

lemma parse_patch_path_safe: "DQUOTE \<notin> set s \<Longrightarrow> parse_patch_path s p \<noteq> None"
proof -
  assume "DQUOTE \<notin> set s"
  then have "strip_git_prefix (trim s) p \<noteq> None"
    using strip_git_prefix_safe [of "trim s" p] set_trim [of s] by blast
  then show ?thesis by (simp add: parse_patch_path_def Let_def)
qed

lemma set_drop_safe: "DQUOTE \<notin> set l \<Longrightarrow> DQUOTE \<notin> set (drop n l)"
  by (meson in_set_dropD)

lemma starts_with_set: "starts_with s p \<Longrightarrow> set p \<subseteq> set s"
  by (auto simp: starts_with_iff)

lemma parse_diff_git_line_safe:
  assumes "DQUOTE \<notin> set line"
  shows "parse_diff_git_line line \<noteq> None"
proof -
  have "DQUOTE \<notin> set (strip_prefix_or line DIFF_GIT)"
    using assms by (auto simp: strip_prefix_or_def strip_prefix_def dest: in_set_dropD)
  then have "\<not> starts_with (strip_prefix_or line DIFF_GIT) [DQUOTE]"
    using starts_with_set by fastforce
  then show ?thesis by (simp add: parse_diff_git_line_def Let_def)
qed

lemma header_line_safe: "DQUOTE \<notin> set line \<Longrightarrow> header_line line s \<noteq> None"
  using unquote_safe [OF set_drop_safe [of line]] by (auto simp: header_line_def)

lemma read_header_safe:
  "\<forall>l \<in> set ls. safe_line l \<Longrightarrow>
   \<exists>s' rst. read_header ls s = Some (s', rst) \<and> set rst \<subseteq> set ls"
proof (induction ls arbitrary: s)
  case Nil
  then show ?case by simp
next
  case (Cons l ls)
  then have "header_line l s \<noteq> None" by (auto simp: safe_line_def header_line_safe)
  then obtain s' where h: "header_line l s = Some s'" by blast
  from Cons.IH [of s'] Cons.prems obtain s'' rst where
    "read_header ls s' = Some (s'', rst)" "set rst \<subseteq> set ls" by auto
  with h show ?case by auto
qed

lemma path_line_safe:
  "\<forall>l \<in> set ls. safe_line l \<Longrightarrow>
   \<exists>path rst. path_line m p current ls = Some (path, rst) \<and> set rst \<subseteq> set ls"
proof (cases ls)
  case (Cons l r)
  assume safe: "\<forall>l \<in> set ls. safe_line l"
  then have "DQUOTE \<notin> set l" by (simp add: Cons safe_line_def)
  then have "parse_patch_path (drop 4 l) p \<noteq> None"
    by (intro parse_patch_path_safe set_drop_safe)
  then obtain y where "parse_patch_path (drop 4 l) p = Some y" by blast
  then show ?thesis by (cases "starts_with l m") (simp_all add: Cons path_line_def subset_insertI)
qed (simp add: path_line_def)

lemma parse_hunks_safe: "\<forall>l \<in> set ls. safe_line l \<Longrightarrow> \<exists>hs. parse_hunks ls = Some hs"
proof (induction ls rule: parse_hunks.induct)
  case 1
  then show ?case by simp
next
  case (2 line ls)
  show ?case
  proof (cases "starts_with line DIFF_GIT \<or> \<not> starts_with line HUNK")
    case True
    with 2 show ?thesis by auto
  next
    case False
    with "2.prems" have "parse_hunk_header line \<noteq> None"
      by (simp add: parse_hunk_header_None_iff safe_line_def)
    then obtain h n where h: "parse_hunk (line # ls) = Some (h, n)"
      by (auto simp: parse_hunk_def Let_def split_def)
    have "\<forall>l \<in> set (drop n (line # ls)). safe_line l" using "2.prems" by (meson in_set_dropD)
    with "2.IH"(1) [OF _ _ h refl] False obtain hs where
      "parse_hunks (drop n (line # ls)) = Some hs" by blast
    with False h show ?thesis by simp
  qed
qed

lemma parse_file_safe:
  assumes "\<forall>l \<in> set ls. safe_line l" and "ls \<noteq> []"
  shows "\<exists>f n. parse_file ls = Some (f, n)"
proof -
  define block where "block = take (file_length ls) ls"
  have safe: "\<forall>l \<in> set block. safe_line l" using assms(1) by (auto simp: block_def dest: in_set_takeD)
  have ne: "block \<noteq> []" using file_length_pos [OF assms(2)] assms(2) by (simp add: block_def)
  have "parse_diff_git_line (hd block) \<noteq> None"
    using safe hd_in_set [OF ne] by (intro parse_diff_git_line_safe) (auto simp: safe_line_def)
  then obtain old new where d: "parse_diff_git_line (hd block) = Some (old, new)" by auto
  have "\<forall>l \<in> set (tl block). safe_line l" using safe by (meson list.set_sel(2) ne)
  from read_header_safe [OF this] obtain s rst where
    r: "read_header (tl block) (initial_header old new) = Some (s, rst)"
    and sub: "set rst \<subseteq> set (tl block)" by blast
  from sub \<open>\<forall>l \<in> set (tl block). safe_line l\<close> have rst: "\<forall>l \<in> set rst. safe_line l" by blast
  from path_line_safe [OF rst] obtain p1 r1 where
    p1: "path_line ''--- '' ''a/'' (fh_old_path s) rst = Some (p1, r1)" "set r1 \<subseteq> set rst"
    by blast
  with rst have "\<forall>l \<in> set r1. safe_line l" by blast
  from path_line_safe [OF this] obtain p2 r2 where
    p2: "path_line ''+++ '' ''b/'' (fh_new_path s) r1 = Some (p2, r2)" "set r2 \<subseteq> set r1"
    by blast
  with p1 rst have "\<forall>l \<in> set r2. safe_line l" by blast
  from parse_hunks_safe [OF this] obtain hs where "parse_hunks r2 = Some hs" by blast
  with p1 p2 have "file_body block s rst \<noteq> None" by (simp add: file_body_def)
  with d r show ?thesis
    by (auto simp: parse_file_def Let_def block_def [symmetric] initial_header_def)
qed

lemma parse_lines_safe: "\<forall>l \<in> set ls. safe_line l \<Longrightarrow> \<exists>fs. parse_lines ls = Some fs"
proof (induction ls rule: parse_lines.induct)
  case 1
  then show ?case by simp
next
  case (2 line ls)
  show ?case
  proof (cases "starts_with line DIFF_GIT")
    case False
    with 2 show ?thesis by auto
  next
    case True
    from parse_file_safe [OF "2.prems"] obtain f n where
      pf: "parse_file (line # ls) = Some (f, n)" by blast
    have "\<forall>l \<in> set (drop n (line # ls)). safe_line l" using "2.prems" by (meson in_set_dropD)
    with "2.IH"(1) [OF True pf refl] obtain fs where
      "parse_lines (drop n (line # ls)) = Some fs" by blast
    with True pf show ?thesis by simp
  qed
qed

text \<open>
  C31. The parser returns a result, rather than panicking, on every input none of whose lines
  has a double quote and each of whose lines that begins with \<open>@@\<close> and a space has another
  space later: whatever else is malformed (missing or unparsable numbers, a truncated hunk,
  a missing \<open>---\<close> line, unknown extended headers) is tolerated.
\<close>

theorem parse_unified_diff_total:
  assumes "\<forall>l \<in> set (lines (strip_ansi input)). safe_line l"
  shows "\<exists>files. parse_unified_diff input = Some files"
  using parse_lines_safe [OF assms] by (simp add: parse_unified_diff_def)

theorem parse_unified_diff_total_witness:
  "\<exists>files. parse_unified_diff (unlines [''diff --git a/x b/y'', ''--- q'', ''@@ nonsense @@'', ''-'', ''!''])
     = Some files"
  by (rule parse_unified_diff_total) code_simp

end
