(* ===== verification/Diff_Round_Trip.thy ===== *)
theory Diff_Round_Trip
  imports Diff_Parser_Props
begin

text \<open>
  The round trip of the unified-diff parser: the text a version-control tool writes for a
  list of changes (\<open>render_file\<close>) parses to exactly these changes.
\<close>

named_theorems parser_simps \<open>how the parser reads rendered text\<close>

section \<open>Rendered changes\<close>

text \<open>What a version-control tool prints. The counts of a range are omitted when they are 1; a
  pure rename, an empty new file and the like have no hunks and then no \<open>---\<close> and \<open>+++\<close>
  lines.\<close>

record source_hunk =
  sh_old :: u32
  sh_new :: u32
  sh_section :: string
  sh_lines :: "(line_type \<times> string) list"

record source_file =
  sf_kind :: file_change_kind
  sf_old :: string
  sf_new :: string
  sf_hunks :: "source_hunk list"

definition old_count :: "(line_type \<times> string) list \<Rightarrow> nat" where
  "old_count ls = length (filter (\<lambda>(k, _). k \<noteq> Addition) ls)"

definition new_count :: "(line_type \<times> string) list \<Rightarrow> nat" where
  "new_count ls = length (filter (\<lambda>(k, _). k \<noteq> Deletion) ls)"

definition render_range :: "nat \<Rightarrow> nat \<Rightarrow> string" where
  "render_range start n = nat_str start @ (if n = 1 then [] else CHR '','' # nat_str n)"

definition render_hunk_header :: "source_hunk \<Rightarrow> string" where
  "render_hunk_header h =
     ''@@ -'' @ render_range (sh_old h) (old_count (sh_lines h)) @ '' +''
     @ render_range (sh_new h) (new_count (sh_lines h)) @ '' @@'' @ sh_section h"

definition render_line :: "line_type \<times> string \<Rightarrow> string" where
  "render_line l = line_type_prefix (fst l) @ snd l"

definition render_hunk :: "source_hunk \<Rightarrow> string list" where
  "render_hunk h = render_hunk_header h # map render_line (sh_lines h)"

definition render_extended :: "source_file \<Rightarrow> string list" where
  "render_extended f =
     (case sf_kind f of
        Modified \<Rightarrow> []
      | Added \<Rightarrow> [''new file mode 100644'']
      | Deleted \<Rightarrow> [''deleted file mode 100644'']
      | Renamed \<Rightarrow> [''similarity index 90%'', ''rename from '' @ sf_old f, ''rename to '' @ sf_new f]
      | Copied \<Rightarrow> [''similarity index 90%'', ''copy from '' @ sf_old f, ''copy to '' @ sf_new f])"

definition render_file :: "source_file \<Rightarrow> string list" where
  "render_file f =
     [DIFF_GIT @ ''a/'' @ sf_old f @ '' b/'' @ sf_new f] @ render_extended f
     @ (if sf_hunks f = [] then []
        else [''--- '' @ (if sf_kind f = Added then DEV_NULL else ''a/'' @ sf_old f),
              ''+++ '' @ (if sf_kind f = Deleted then DEV_NULL else ''b/'' @ sf_new f)])
     @ concat (map render_hunk (sf_hunks f))"

text \<open>The file the parser should return.\<close>

fun numbered_lines :: "nat \<Rightarrow> nat \<Rightarrow> (line_type \<times> string) list \<Rightarrow> diff_line list" where
  "numbered_lines old new [] = []"
| "numbered_lines old new ((k, text) # ls) =
     \<lparr>dl_kind = k, dl_content = text,
      dl_old_lineno = (if k = Addition then None else Some old),
      dl_new_lineno = (if k = Deletion then None else Some new), dl_moved = None\<rparr>
     # numbered_lines (if k = Addition then old else old + 1) (if k = Deletion then new else new + 1) ls"

definition hunk_of :: "source_hunk \<Rightarrow> hunk" where
  "hunk_of h =
     \<lparr>hunk_old_start = sh_old h, hunk_new_start = sh_new h, hunk_header = render_hunk_header h,
      hunk_lines = numbered_lines (sh_old h) (sh_new h) (sh_lines h)\<rparr>"

definition count_kind :: "line_type \<Rightarrow> source_file \<Rightarrow> nat" where
  "count_kind k f = length (filter (\<lambda>l. fst l = k) (concat (map sh_lines (sf_hunks f))))"

definition file_of :: "source_file \<Rightarrow> diff_file" where
  "file_of f =
     (let previous = (if sf_old f = sf_new f then None else Some (sf_old f))
      in \<lparr>df_id = stable_file_id (sf_new f) previous, df_path = sf_new f,
          df_previous_path = previous, df_summary = None, df_agent = None,
          df_patch = unlines (render_file f), df_hunks = map hunk_of (sf_hunks f),
          df_change_kind = sf_kind f, df_is_binary = False, df_is_untracked = False,
          df_is_too_large = False, df_stats_truncated = False, df_language = None,
          df_stats = \<lparr>st_additions = count_kind Addition f, st_deletions = count_kind Deletion f\<rparr>,
          df_old_source = SourceNone, df_new_source = SourceNone\<rparr>)"

text \<open>What the rendered text may contain: no path that needs quoting, no line break or escape
  character inside a path, a line or a section heading; line numbers that fit 32 bits.\<close>

definition text_ok :: "string \<Rightarrow> bool" where
  "text_ok t \<longleftrightarrow> plain_line t \<and> ESC \<notin> set t"

definition path_ok :: "string \<Rightarrow> bool" where
  "path_ok p \<longleftrightarrow>
     p \<noteq> [] \<and> trim p = p \<and> hd p \<noteq> DQUOTE \<and> TAB \<notin> set p \<and> NL \<notin> set p \<and> ESC \<notin> set p"

definition source_hunk_ok :: "source_hunk \<Rightarrow> bool" where
  "source_hunk_ok h \<longleftrightarrow>
     text_ok (sh_section h) \<and> (\<forall>l \<in> set (sh_lines h). text_ok (snd l))
     \<and> sh_old h + length (sh_lines h) \<le> u32_max \<and> sh_new h + length (sh_lines h) \<le> u32_max"

definition source_file_ok :: "source_file \<Rightarrow> bool" where
  "source_file_ok f \<longleftrightarrow>
     path_ok (sf_old f) \<and> path_ok (sf_new f)
     \<and> (sf_kind f \<in> {Modified, Added, Deleted} \<longrightarrow> sf_old f = sf_new f)
     \<and> (\<forall>h \<in> set (sf_hunks f). source_hunk_ok h)"

section \<open>Reading a rendered change back\<close>

lemma hunk_body_render:
  assumes "old + length ls \<le> u32_max" and "new + length ls \<le> u32_max"
    and "rst = [] \<or> starts_with (hd rst) HUNK \<or> starts_with (hd rst) DIFF_GIT"
  shows "hunk_body old new (map render_line ls @ rst) = (numbered_lines old new ls, length ls)"
  using assms
proof (induction ls arbitrary: old new)
  case Nil
  then show ?case by (cases rst) auto
next
  case (Cons l ls)
  obtain k t where l: "l = (k, t)" by (cases l)
  from Cons.prems have "next_line old = old + 1" "next_line new = new + 1"
    by (simp_all add: next_line_def)
  with Cons show ?case
    by (cases k) (simp_all add: l render_line_def HUNK_def DIFF_GIT_def Let_def)
qed

lemma parse_or_nat_str [parser_simps]: "n \<le> u32_max \<Longrightarrow> parse_or d (nat_str n) = n"
  by (simp add: parse_or_def parse_uint_nat_str)

lemma digits_no_sep: "CHR '' '' \<notin> set (nat_str n)" "CHR '','' \<notin> set (nat_str n)"
  using nat_str_digits is_digit_not by blast+

lemma parse_range_render [parser_simps]:
  "start \<le> u32_max \<Longrightarrow> fst (parse_range (render_range start n)) = start"
  by (simp add: parse_range_def render_range_def split_once_append split_once_None digits_no_sep
      parse_or_nat_str)

lemma render_range_no_space: "CHR '' '' \<notin> set (render_range s n)"
  using digits_no_sep by (simp add: render_range_def)

lemma render_range_dropWhile:
  "c = CHR ''-'' \<or> c = CHR ''+'' \<Longrightarrow>
   dropWhile (\<lambda>d. d = c) (c # render_range s n) = render_range s n"
proof -
  obtain d ds where d: "render_range s n = d # ds" "is_digit d"
    using nat_str_digits [of _ s] nat_str_not_Nil [of s]
    by (cases "nat_str s") (auto simp: render_range_def)
  then show "c = CHR ''-'' \<or> c = CHR ''+'' \<Longrightarrow> ?thesis" using is_digit_not(1,4) [of d] by auto
qed

lemma splitn_3:
  "CHR '' '' \<notin> set a \<Longrightarrow> CHR '' '' \<notin> set b \<Longrightarrow>
   splitn 3 (CHR '' '') (a @ CHR '' '' # b @ CHR '' '' # c) = [a, b, c]"
  by (simp add: numeral_3_eq_3 split_once_append)

lemma HUNK_not_Nil [simp]: "HUNK \<noteq> []"
  by (simp add: HUNK_def)

lemma parse_hunk_header_render:
  assumes "sh_old h \<le> u32_max" and "sh_new h \<le> u32_max"
  shows "\<exists>oc nc. parse_hunk_header (render_hunk_header h) = Some (sh_old h, oc, sh_new h, nc)"
proof -
  define a where "a = CHR ''-'' # render_range (sh_old h) (old_count (sh_lines h))"
  define b where "b = CHR ''+'' # render_range (sh_new h) (new_count (sh_lines h))"
  define c where "c = ''@@'' @ sh_section h"
  have "render_hunk_header h = HUNK @ a @ CHR '' '' # b @ CHR '' '' # c"
    by (simp add: render_hunk_header_def a_def b_def c_def HUNK_def)
  moreover have "\<not> starts_with (a @ CHR '' '' # b @ CHR '' '' # c) HUNK"
    by (simp add: a_def HUNK_def)
  ultimately have "trim_start_matches (render_hunk_header h) HUNK = a @ CHR '' '' # b @ CHR '' '' # c"
    using trim_start_matches_once [of HUNK "a @ CHR '' '' # b @ CHR '' '' # c"]
    by (simp only: HUNK_not_Nil simp_thms)
  then have "splitn 3 (CHR '' '') (trim_start_matches (render_hunk_header h) HUNK) = [a, b, c]"
    using splitn_3 [of a b c] render_range_no_space by (simp add: a_def b_def)
  moreover have "dropWhile (\<lambda>d. d = CHR ''-'') a = render_range (sh_old h) (old_count (sh_lines h))"
    "dropWhile (\<lambda>d. d = CHR ''+'') b = render_range (sh_new h) (new_count (sh_lines h))"
    unfolding a_def b_def by (rule render_range_dropWhile; simp)+
  moreover obtain oc nc where
    "parse_range (render_range (sh_old h) (old_count (sh_lines h))) = (sh_old h, oc)"
    "parse_range (render_range (sh_new h) (new_count (sh_lines h))) = (sh_new h, nc)"
    using parse_range_render assms by (metis prod.collapse)
  ultimately show ?thesis
    using assms by (auto simp: parse_hunk_header_def Let_def get_def)
qed

lemma parse_hunk_render:
  assumes "source_hunk_ok h"
    and "rst = [] \<or> starts_with (hd rst) HUNK \<or> starts_with (hd rst) DIFF_GIT"
  shows "parse_hunk (render_hunk h @ rst) = Some (hunk_of h, length (render_hunk h))"
proof -
  from assms(1) have b: "sh_old h \<le> u32_max" "sh_new h \<le> u32_max"
    by (simp_all add: source_hunk_ok_def)
  from parse_hunk_header_render [OF b] obtain oc nc where
    "parse_hunk_header (render_hunk_header h) = Some (sh_old h, oc, sh_new h, nc)" by blast
  with assms hunk_body_render [of "sh_old h" "sh_lines h" "sh_new h" rst] show ?thesis
    by (simp add: parse_hunk_def render_hunk_def hunk_of_def source_hunk_ok_def)
qed

lemma render_hunk_start: "starts_with (render_hunk_header h) HUNK"
  "\<not> starts_with (render_hunk_header h) DIFF_GIT"
  by (simp_all add: render_hunk_header_def HUNK_def DIFF_GIT_def)

lemma parse_hunks_render:
  "\<forall>h \<in> set hs. source_hunk_ok h \<Longrightarrow>
   parse_hunks (concat (map render_hunk hs)) = Some (map hunk_of hs)"
proof (induction hs)
  case Nil
  then show ?case by simp
next
  case (Cons h hs)
  let ?rst = "concat (map render_hunk hs)"
  have "?rst = [] \<or> starts_with (hd ?rst) HUNK \<or> starts_with (hd ?rst) DIFF_GIT"
    by (cases hs) (simp_all add: render_hunk_def render_hunk_start)
  with Cons.prems have p: "parse_hunk (render_hunk h @ ?rst) = Some (hunk_of h, length (render_hunk h))"
    by (intro parse_hunk_render) simp_all
  obtain ls where "render_hunk h = render_hunk_header h # ls" by (simp add: render_hunk_def)
  with p Cons show ?case by (simp add: render_hunk_start)
qed

text \<open>Paths that need no trimming.\<close>

lemma strip_any_fixed:
  "strip_any ws s = s \<longleftrightarrow> (\<forall>w \<in> set ws. w = [] \<or> \<not> starts_with s w)"
proof
  assume fixed: "strip_any ws s = s"
  show "\<forall>w \<in> set ws. w = [] \<or> \<not> starts_with s w"
  proof (rule ccontr)
    assume "\<not> ?thesis"
    then obtain v where "v \<in> set ws" "v \<noteq> [] \<and> starts_with s v" by blast
    from find_exists [of v ws "\<lambda>w. w \<noteq> [] \<and> starts_with s w", OF this]
    obtain w where "List.find (\<lambda>w. w \<noteq> [] \<and> starts_with s w) ws = Some w" by blast
    then have "strip_any ws s = strip_any ws (drop (length w) s)" and w: "w \<noteq> []" "starts_with s w"
      by (subst strip_any.simps, simp, auto dest: find_SomeD)
    with fixed have "length s \<le> length (drop (length w) s)"
      using strip_any_suffix [of "drop (length w) s" ws] by (metis length_append le_add2)
    with w show False by (auto simp: starts_with_iff)
  qed
qed (rule strip_any_stop)

lemma trim_ends:
  assumes "trim s = s"
  shows "trim_start s = s" and "trim_end s = s"
proof -
  obtain p where p: "s = p @ trim_start s"
    using strip_any_suffix [of s white_space] by (auto simp: trim_start_def)
  obtain q where q: "trim_start s = trim s @ q"
    using strip_any_suffix [of "rev (trim_start s)" "map rev white_space"]
    unfolding trim_def trim_end_def by (metis rev_append rev_rev_ident)
  from arg_cong [OF p, of length] arg_cong [OF q, of length] assms have "p = []" by simp
  with p show "trim_start s = s" by simp
  with assms show "trim_end s = s" by (simp add: trim_def)
qed

lemma starts_with_rev_extend:
  assumes "starts_with (a @ b) w" and "\<not> starts_with a w" and "b = c # r"
  shows "c \<in> set w"
proof -
  from assms(1) obtain x where x: "a @ b = w @ x" by (auto simp: starts_with_iff)
  have "length a < length w"
  proof (rule ccontr)
    assume "\<not> length a < length w"
    with assms(1,2) show False by (simp add: starts_with_def)
  qed
  with x assms(3) have "w ! length a = c" by (metis nth_append nth_append_length)
  with \<open>length a < length w\<close> show ?thesis by (metis nth_mem)
qed

lemma trim_add_prefix:
  assumes "trim p = p" and "\<forall>w \<in> set white_space. CHR ''/'' \<notin> set w"
    and "c = CHR ''a'' \<or> c = CHR ''b''"
  shows "trim (c # CHR ''/'' # p) = c # CHR ''/'' # p"
proof -
  have "\<forall>w \<in> set white_space. w = [] \<or> \<not> starts_with (c # CHR ''/'' # p) w"
    using assms(3) by (auto simp: white_space_def)
  then have s: "trim_start (c # CHR ''/'' # p) = c # CHR ''/'' # p"
    by (simp add: trim_start_def strip_any_fixed)
  have "\<forall>w \<in> set (map rev white_space). w = [] \<or> \<not> starts_with (rev p) w"
    using trim_ends(2) [OF assms(1)] unfolding strip_any_fixed [symmetric] trim_end_def by (metis rev_rev_ident)
  then have "\<forall>w \<in> set (map rev white_space). w = [] \<or> \<not> starts_with (rev p @ [CHR ''/'', c]) w"
    using starts_with_rev_extend [of "rev p" "[CHR ''/'', c]" _ "CHR ''/''" "[c]"] assms(2) by fastforce
  then have "trim_end (c # CHR ''/'' # p) = c # CHR ''/'' # p"
    unfolding strip_any_fixed [symmetric] trim_end_def by simp
  with s show ?thesis by (simp add: trim_def)
qed

lemma no_slash_white: "\<forall>w \<in> set white_space. CHR ''/'' \<notin> set w"
  by (simp add: white_space_def)

lemma not_quoted: "s \<noteq> [] \<Longrightarrow> hd s \<noteq> DQUOTE \<Longrightarrow> \<not> starts_with s [DQUOTE]"
  by (cases s) auto

lemma unquote_plain [parser_simps]: "path_ok p \<Longrightarrow> unquote_git_path p = Some p"
  by (simp add: path_ok_def unquote_git_path_def not_quoted)

lemma takeWhile_no_tab: "TAB \<notin> set p \<Longrightarrow> takeWhile (\<lambda>c. c \<noteq> TAB) p = p"
  by (auto simp: takeWhile_eq_all_conv)

lemma parse_patch_path_render [parser_simps]:
  assumes "path_ok p"
  shows "parse_patch_path (''a/'' @ p) ''a/'' = Some p" "parse_patch_path (''b/'' @ p) ''b/'' = Some p"
  using assms trim_add_prefix [OF _ no_slash_white, of p]
  by (simp_all add: path_ok_def parse_patch_path_def DEV_NULL_def strip_prefix_or_def
      strip_prefix_def takeWhile_no_tab)

lemma trim_DEV_NULL: "trim DEV_NULL = DEV_NULL"
  by code_simp

lemma parse_patch_path_null [parser_simps]: "parse_patch_path DEV_NULL x = Some DEV_NULL"
  by (simp add: parse_patch_path_def trim_DEV_NULL) (simp add: DEV_NULL_def)

text \<open>Equal names on the first line are split in the middle.\<close>

lemma drop_length_append: "drop (length u) (u @ v) = v"
  by simp

lemma parse_unquoted_same: "p \<noteq> [] \<Longrightarrow> parse_unquoted_paths (''a/'' @ p @ '' b/'' @ p) = (p, p)"
proof -
  assume "p \<noteq> []"
  let ?r = "''a/'' @ p @ '' b/'' @ p"
  have len: "2 + (length ?r - 5) div 2 = 2 + length p" by simp
  have "get_range ?r (2 + length p) (2 + length p + 3) = Some SEP_B"
    by (simp add: get_range_def SEP_B_def)
  moreover have "drop (2 + length p + 3) ?r = p"
  proof -
    define u where "u = ''a/'' @ p @ '' b/''"
    have "?r = u @ p" and "2 + length p + 3 = length u" by (simp_all add: u_def)
    then show ?thesis by (simp only: drop_length_append)
  qed
  ultimately show ?thesis
    unfolding parse_unquoted_paths_def Let_def len by simp
qed

lemma parse_diff_git_line_render:
  "\<exists>paths. parse_diff_git_line (DIFF_GIT @ ''a/'' @ old @ '' b/'' @ new) = Some paths"
  "p \<noteq> [] \<Longrightarrow> parse_diff_git_line (DIFF_GIT @ ''a/'' @ p @ '' b/'' @ p) = Some (p, p)"
  using parse_unquoted_same [of p] by (simp_all add: parse_diff_git_line_def)


section \<open>Whole files\<close>

text \<open>The extended header read back: what it sets the flags and paths to.\<close>

definition header_of :: "source_file \<Rightarrow> string \<times> string \<Rightarrow> file_header" where
  "header_of f paths =
     \<lparr>fh_is_new = (sf_kind f = Added), fh_is_deleted = (sf_kind f = Deleted),
      fh_is_renamed = (sf_kind f = Renamed), fh_is_copied = (sf_kind f = Copied),
      fh_is_binary = False,
      fh_old_path = (if sf_kind f \<in> {Renamed, Copied} then sf_old f else fst paths),
      fh_new_path = (if sf_kind f \<in> {Renamed, Copied} then sf_new f else snd paths)\<rparr>"

lemma read_header_stop:
  "ls = [] \<or> starts_with (hd ls) ''---'' \<Longrightarrow> read_header ls s = Some (s, ls)"
  by (cases ls) auto

lemma read_header_render:
  assumes "source_file_ok f" and "ls = [] \<or> starts_with (hd ls) ''---''"
  shows "read_header (render_extended f @ ls) (initial_header old new)
    = Some (header_of f (old, new), ls)"
  using assms(1) unfolding source_file_ok_def
  by (cases "sf_kind f")
     (simp_all add: render_extended_def header_of_def initial_header_def header_line_def
       DIFF_GIT_def read_header_stop [OF assms(2)] parser_simps)

lemma path_lines_render:
  assumes "source_file_ok f"
  shows "path_line ''--- '' ''a/'' (sf_old f)
      ((''--- '' @ (if sf_kind f = Added then DEV_NULL else ''a/'' @ sf_old f)) # ls)
    = Some (sf_old f, ls)"
    and "path_line ''+++ '' ''b/'' (sf_new f)
      ((''+++ '' @ (if sf_kind f = Deleted then DEV_NULL else ''b/'' @ sf_new f)) # ls)
    = Some (sf_new f, ls)"
  using assms parse_patch_path_render [of "sf_old f"] parse_patch_path_render [of "sf_new f"]
  by (simp_all add: path_line_def source_file_ok_def parse_patch_path_null)

lemma header_paths:
  assumes "source_file_ok f"
  shows "\<exists>old new. parse_diff_git_line (hd (render_file f)) = Some (old, new)
    \<and> fh_old_path (header_of f (old, new)) = sf_old f
    \<and> fh_new_path (header_of f (old, new)) = sf_new f"
proof (cases "sf_kind f \<in> {Renamed, Copied}")
  case True
  obtain p q where "parse_diff_git_line (DIFF_GIT @ ''a/'' @ sf_old f @ '' b/'' @ sf_new f) = Some (p, q)"
    using parse_diff_git_line_render(1) [of "sf_old f" "sf_new f"] by auto
  with True show ?thesis by (auto simp: render_file_def header_of_def)
next
  case False
  then have "sf_kind f \<in> {Modified, Added, Deleted}" by (cases "sf_kind f") auto
  with assms have "sf_old f = sf_new f" "sf_new f \<noteq> []"
    by (auto simp: source_file_ok_def path_ok_def)
  with False parse_diff_git_line_render(2) [of "sf_new f"] show ?thesis
    by (simp add: render_file_def header_of_def)
qed

lemma count_numbered:
  "length (filter (\<lambda>l. dl_kind l = k) (numbered_lines old new ls)) = length (filter (\<lambda>l. fst l = k) ls)"
  by (induction old new ls rule: numbered_lines.induct) auto

lemma lines_of_kind_render: "lines_of_kind k (map hunk_of hs)
    = length (filter (\<lambda>l. fst l = k) (concat (map sh_lines hs)))"
  by (induction hs) (simp_all add: lines_of_kind_def hunk_of_def count_numbered)

lemma file_body_render:
  assumes "source_file_ok f" and "fh_old_path (header_of f paths) = sf_old f"
    and "fh_new_path (header_of f paths) = sf_new f"
  shows "file_body (render_file f) (header_of f paths)
      ((if sf_hunks f = [] then []
        else [''--- '' @ (if sf_kind f = Added then DEV_NULL else ''a/'' @ sf_old f),
              ''+++ '' @ (if sf_kind f = Deleted then DEV_NULL else ''b/'' @ sf_new f)])
       @ concat (map render_hunk (sf_hunks f)))
    = Some (file_of f)"
proof -
  have stats: "hunk_stats (map hunk_of (sf_hunks f))
      = \<lparr>st_additions = count_kind Addition f, st_deletions = count_kind Deletion f\<rparr>"
    by (intro file_stats.equality)
       (simp_all add: hunk_stats_counts lines_of_kind_render count_kind_def)
  have hunks: "parse_hunks (concat (map render_hunk (sf_hunks f))) = Some (map hunk_of (sf_hunks f))"
    using assms(1) by (intro parse_hunks_render) (simp add: source_file_ok_def)
  have patch: "format_patch (render_file f) = unlines (render_file f)"
    by (rule format_patch_unlines) (simp add: render_file_def)
  have made: "make_file ((header_of f paths)\<lparr>fh_old_path := sf_old f, fh_new_path := sf_new f\<rparr>)
      (render_file f) (map hunk_of (sf_hunks f)) (hunk_stats (map hunk_of (sf_hunks f))) = file_of f"
    unfolding make_file_def file_of_def Let_def stats patch
    by (cases "sf_kind f") (simp_all add: header_of_def)
  have binary: "\<not> fh_is_binary (header_of f paths)" by (simp add: header_of_def)
  show ?thesis
  proof (cases "sf_hunks f = []")
    case True
    with assms made hunks binary show ?thesis by (simp add: file_body_def path_line_def)
  next
    case False
    define a where "a = ''--- '' @ (if sf_kind f = Added then DEV_NULL else ''a/'' @ sf_old f)"
    define b where "b = ''+++ '' @ (if sf_kind f = Deleted then DEV_NULL else ''b/'' @ sf_new f)"
    have "path_line ''--- '' ''a/'' (sf_old f) (a # ls) = Some (sf_old f, ls)"
      "path_line ''+++ '' ''b/'' (sf_new f) (b # ls) = Some (sf_new f, ls)" for ls
      unfolding a_def b_def by (rule path_lines_render [OF assms(1)])+
    with assms(2,3) made hunks binary False show ?thesis
      by (simp add: file_body_def a_def [symmetric] b_def [symmetric] del: append_Cons)
         (simp add: file_body_def)
  qed
qed

text \<open>Only the first line of a rendered file is one that starts a file.\<close>

lemma render_line_start: "\<not> starts_with (line_type_prefix k @ t) ''diff --git ''"
  by (cases k) simp_all

lemma render_file_starts:
  "starts_with (hd (render_file f)) DIFF_GIT"
  "\<forall>l \<in> set (tl (render_file f)). \<not> starts_with l DIFF_GIT"
  by (auto simp: render_file_def render_extended_def render_hunk_def render_hunk_header_def
      render_line_def DIFF_GIT_def render_line_start split: file_change_kind.splits if_splits)

lemma file_length_block:
  assumes "block \<noteq> []" and "\<forall>l \<in> set (tl block). \<not> starts_with l DIFF_GIT"
    and "rst = [] \<or> starts_with (hd rst) DIFF_GIT"
  shows "file_length (block @ rst) = length block"
proof (cases rst)
  case Nil
  with assms have "position (\<lambda>l. starts_with l DIFF_GIT) (tl block) = None"
    by (simp add: position_None_iff)
  with Nil show ?thesis by (simp add: file_length_def)
next
  case (Cons l r)
  have "position (\<lambda>l. starts_with l DIFF_GIT) (tl block @ rst) = Some (length (tl block))"
    using assms(2,3) Cons by (auto simp: position_Some_iff nth_append)
  with assms(1) show ?thesis by (simp add: file_length_def)
qed

lemma parse_file_render:
  assumes "source_file_ok f" and "rst = [] \<or> starts_with (hd rst) DIFF_GIT"
  shows "parse_file (render_file f @ rst) = Some (Some (file_of f), length (render_file f))"
proof -
  have ne: "render_file f \<noteq> []" by (simp add: render_file_def)
  from file_length_block [OF ne render_file_starts(2) assms(2)]
  have len: "file_length (render_file f @ rst) = length (render_file f)" .
  from header_paths [OF assms(1)] obtain old new where
    d: "parse_diff_git_line (hd (render_file f)) = Some (old, new)"
    and p: "fh_old_path (header_of f (old, new)) = sf_old f"
      "fh_new_path (header_of f (old, new)) = sf_new f" by blast
  let ?body = "(if sf_hunks f = [] then []
        else [''--- '' @ (if sf_kind f = Added then DEV_NULL else ''a/'' @ sf_old f),
              ''+++ '' @ (if sf_kind f = Deleted then DEV_NULL else ''b/'' @ sf_new f)])
       @ concat (map render_hunk (sf_hunks f))"
  have "tl (render_file f) = render_extended f @ ?body" by (simp add: render_file_def)
  moreover have "read_header (render_extended f @ ?body) (initial_header old new)
      = Some (header_of f (old, new), ?body)"
    by (rule read_header_render [OF assms(1)]) simp
  ultimately show ?thesis
    using d file_body_render [OF assms(1) p]
    by (simp add: parse_file_def len initial_header_def)
qed

lemma parse_lines_render:
  "\<forall>f \<in> set fs. source_file_ok f \<Longrightarrow>
   parse_lines (concat (map render_file fs)) = Some (map file_of fs)"
proof (induction fs)
  case Nil
  then show ?case by simp
next
  case (Cons f fs)
  let ?rst = "concat (map render_file fs)"
  have "?rst = [] \<or> starts_with (hd ?rst) DIFF_GIT"
    using render_file_starts(1) by (cases fs) (auto simp: render_file_def)
  with Cons.prems have p: "parse_file (render_file f @ ?rst) = Some (Some (file_of f), length (render_file f))"
    by (intro parse_file_render) simp_all
  obtain l ls where "render_file f = l # ls" "starts_with l DIFF_GIT"
    using render_file_starts(1) [of f] by (cases "render_file f") (auto simp: render_file_def)
  with p Cons show ?case by simp
qed

text \<open>The rendered text has no escape sequence and its lines are read as they are.\<close>

lemma strip_ansi_none: "ESC \<notin> set s \<Longrightarrow> strip_ansi s = s"
  by (induction s rule: strip_ansi.induct) auto

lemma path_ok_text: "path_ok p \<Longrightarrow> NL \<notin> set p \<and> ESC \<notin> set p"
  by (simp add: path_ok_def)

lemma path_ok_last: "path_ok p \<Longrightarrow> last p \<noteq> CR"
proof
  assume ok: "path_ok p" and cr: "last p = CR"
  have p: "p = butlast p @ [CR]" using ok cr by (metis append_butlast_last_id path_ok_def)
  from ok have "trim_end p = p" by (intro trim_ends) (simp add: path_ok_def)
  then have "strip_any (map rev white_space) (rev p) = rev p"
    by (metis rev_rev_ident trim_end_def)
  then have "\<not> starts_with (rev p) [CR]"
    unfolding strip_any_fixed by (auto simp: white_space_def)
  moreover have "rev p = CR # rev (butlast p)" using p by (metis rev.simps(2) rev_swap rev_rev_ident rev_append append_Cons append_Nil rev.simps(1))
  ultimately show False by simp
qed

lemma text_ok_append:
  "NL \<notin> set a \<Longrightarrow> ESC \<notin> set a \<Longrightarrow> (b = [] \<Longrightarrow> a = [] \<or> last a \<noteq> CR) \<Longrightarrow> text_ok b \<Longrightarrow> text_ok (a @ b)"
  by (auto simp: text_ok_def plain_line_def last_append split: if_splits)

lemma path_text_ok: "path_ok p \<Longrightarrow> text_ok p"
  using path_ok_text path_ok_last by (auto simp: text_ok_def plain_line_def)

lemma digits_no_control: "NL \<notin> set (nat_str n)" "ESC \<notin> set (nat_str n)"
  using nat_str_digits is_digit_not by blast+

lemma range_chars: "NL \<notin> set (render_range s n)" "ESC \<notin> set (render_range s n)"
  using digits_no_control by (simp_all add: render_range_def)

lemma render_hunk_text_ok:
  assumes "source_hunk_ok h" and "l \<in> set (render_hunk h)"
  shows "text_ok l"
proof -
  have line: "text_ok (render_line (k, t))" if "text_ok t" for k t
    unfolding render_line_def using that by (cases k) (auto simp: text_ok_def plain_line_def)
  have "text_ok (render_hunk_header h)"
    using assms(1) range_chars unfolding render_hunk_header_def source_hunk_ok_def
    by (simp add: text_ok_def plain_line_def)
  with assms line show ?thesis
    by (auto simp: render_hunk_def source_hunk_ok_def)
qed

lemma render_file_text_ok:
  assumes "source_file_ok f" and "l \<in> set (render_file f)"
  shows "text_ok l"
proof -
  from assms(1) have p: "path_ok (sf_old f)" "path_ok (sf_new f)" by (simp_all add: source_file_ok_def)
  have first: "text_ok (DIFF_GIT @ ''a/'' @ sf_old f @ '' b/'' @ sf_new f)"
    using path_text_ok [OF p(2)] path_ok_text [OF p(1)]
    by (intro text_ok_append) (simp_all add: DIFF_GIT_def)
  have ext: "\<forall>l \<in> set (render_extended f). text_ok l"
    using path_text_ok [OF p(1)] path_text_ok [OF p(2)] p
    by (auto simp: render_extended_def text_ok_def plain_line_def path_ok_def
        split: file_change_kind.splits)
  have names: "text_ok (''--- '' @ (if sf_kind f = Added then DEV_NULL else ''a/'' @ sf_old f))"
    "text_ok (''+++ '' @ (if sf_kind f = Deleted then DEV_NULL else ''b/'' @ sf_new f))"
    using path_text_ok [OF p(1)] path_text_ok [OF p(2)] p
    by (auto simp: text_ok_def plain_line_def path_ok_def DEV_NULL_def)
  have "\<forall>l \<in> set (concat (map render_hunk (sf_hunks f))). text_ok l"
    using assms(1) render_hunk_text_ok by (auto simp: source_file_ok_def)
  with first ext names assms(2) show ?thesis
    unfolding render_file_def by (auto split: if_splits)
qed

lemma parse_rendered:
  assumes "\<forall>f \<in> set fs. source_file_ok f"
  shows "parse_unified_diff (unlines (concat (map render_file fs))) = Some (map file_of fs)"
proof -
  let ?ls = "concat (map render_file fs)"
  have ok: "\<forall>l \<in> set ?ls. text_ok l" using assms render_file_text_ok by fastforce
  then have "ESC \<notin> set (unlines ?ls)" by (auto simp: unlines_def text_ok_def)
  with ok have "lines (strip_ansi (unlines ?ls)) = ?ls"
    by (simp add: strip_ansi_none lines_unlines text_ok_def)
  then show ?thesis by (simp add: parse_unified_diff_def parse_lines_render [OF assms])
qed

text \<open>
  C1. The parser inverts the printer: for every list of modified, added, deleted, renamed and
  copied files whose paths need no quoting, with any number of hunks of any lines, parsing
  the text a version-control tool prints for them gives back exactly these files: paths,
  kinds, hunks, every line with its number on each side, totals and patch text.
\<close>

theorem parse_render_round_trip:
  assumes "\<forall>f \<in> set fs. source_file_ok f"
  shows "parse_unified_diff (unlines (concat (map render_file fs))) = Some (map file_of fs)"
  using assms by (rule parse_rendered)

definition sample_files :: "source_file list" where
  "sample_files =
     [\<lparr>sf_kind = Renamed, sf_old = ''src/a b.rs'', sf_new = ''src/b.rs'',
       sf_hunks = [\<lparr>sh_old = 3, sh_new = 3, sh_section = '' fn f'',
                    sh_lines = [(Context, ''x''), (Deletion, ''@@ y''), (Addition, ''z'')]\<rparr>]\<rparr>,
      \<lparr>sf_kind = Added, sf_old = ''n'', sf_new = ''n'', sf_hunks = []\<rparr>]"

theorem parse_render_round_trip_witness:
  "parse_unified_diff (unlines (concat (map render_file sample_files))) = Some (map file_of sample_files)"
  by (rule parse_render_round_trip) code_simp

end
