(* ===== verification/Drafts.thy ===== *)
theory Drafts
  imports Diff_Model
begin

text \<open>
  Draft review comments, \<open>crates/ramo-core/src/drafts.rs\<close>: when a selection makes a draft
  (\<open>create_draft\<close>), and how a draft follows its lines into a new revision of the file
  (\<open>reanchor\<close>).
\<close>

section \<open>Data\<close>

record draft_anchor =
  da_repository :: string
  da_number :: u64
  da_captured_revision :: string
  da_path :: string
  da_side :: remote_line_side
  da_start_line :: u32
  da_end_line :: u32
  da_context_before :: "string list"
  da_selected_text :: "string list"
  da_context_after :: "string list"

record draft_comment =
  dc_id :: string
  dc_anchor :: draft_anchor
  dc_body :: string

record draft_review =
  dv_repository :: string
  dv_number :: u64
  dv_captured_revision :: string
  dv_body :: string
  dv_comments :: "draft_comment list"

datatype draft_error = BlankBody | CrossSide | CrossHunk | InvalidLine

datatype reanchor_result =
    Exact draft_comment
  | Moved draft_comment u32 u32
  | NeedsAttention draft_comment string

section \<open>Operations\<close>

definition create_draft ::
  "string \<Rightarrow> draft_anchor \<Rightarrow> string \<Rightarrow> remote_line_side \<Rightarrow> u64 \<Rightarrow> u64 \<Rightarrow> draft_error + draft_comment" where
  "create_draft draft_id anchor body end_side start_hunk end_hunk =
     (if trim body = [] then Inl BlankBody
      else if da_start_line anchor = 0 \<or> da_end_line anchor = 0 then Inl InvalidLine
      else if da_side anchor \<noteq> end_side then Inl CrossSide
      else if start_hunk \<noteq> end_hunk then Inl CrossHunk
      else
        let anchor =
          (if da_end_line anchor < da_start_line anchor
           then anchor\<lparr>da_start_line := da_end_line anchor, da_end_line := da_start_line anchor,
                       da_selected_text := rev (da_selected_text anchor)\<rparr>
           else anchor)
        in Inr \<lparr>dc_id = draft_id, dc_anchor = anchor, dc_body = body\<rparr>)"

text \<open>\<open>slice.windows(n)\<close> for a positive \<open>n\<close>\<close>

definition windows :: "nat \<Rightarrow> 'a list \<Rightarrow> 'a list list" where
  "windows n xs = map (\<lambda>i. take n (drop i xs)) [0..<Suc (length xs) - n]"

definition window_matches :: "'a list \<Rightarrow> 'a list \<Rightarrow> nat list" where
  "window_matches needle xs =
     List.map_filter (\<lambda>(index, w). if w = needle then Some index else None)
       (zip [0..<length (windows (length needle) xs)] (windows (length needle) xs))"

text \<open>\<open>as u32\<close>\<close>

definition as_u32 :: "usize \<Rightarrow> u32" where
  "as_u32 n = n mod Suc u32_max"

definition draft_needle :: "draft_comment \<Rightarrow> string list" where
  "draft_needle draft =
     da_context_before (dc_anchor draft) @ da_selected_text (dc_anchor draft)
     @ da_context_after (dc_anchor draft)"

definition reanchor :: "draft_comment \<Rightarrow> string \<Rightarrow> remote_line_side \<Rightarrow> string list \<Rightarrow> reanchor_result" where
  "reanchor draft path side ls =
     (let a = dc_anchor draft;
          selected = da_selected_text a;
          old = da_start_line a;
          old_index = old - 1;
          needle = draft_needle draft;
          hits = window_matches needle ls
      in
        if da_path a \<noteq> path \<or> da_side a \<noteq> side then
          NeedsAttention draft ''The file path or diff side changed''
        else if selected = [] then NeedsAttention draft ''The selected text is unavailable''
        else if get_range ls old_index (old_index + length selected) = Some selected then Exact draft
        else if needle = [] \<or> length ls < length needle then
          NeedsAttention draft ''The selected text no longer exists''
        else if length hits \<noteq> 1 then
          NeedsAttention draft
            (if hits = [] then ''The selected text no longer exists''
             else ''The selected text appears more than once'')
        else
          let context = as_u32 (length (da_context_before a));
              new_line = wrap_add u32_max (wrap_add u32_max (as_u32 (hd hits)) context) 1;
              span = wrap_sub u32_max (da_end_line a) (da_start_line a)
          in Moved
               (draft\<lparr>dc_anchor := a\<lparr>da_start_line := new_line,
                                     da_end_line := wrap_add u32_max new_line span\<rparr>\<rparr>)
               old new_line)"

section \<open>Lemmas\<close>

lemma map_filter_index:
  "n = length xs \<Longrightarrow>
   List.map_filter (\<lambda>(i, w). if P w then Some i else None) (zip [0..<n] xs)
     = filter (\<lambda>i. P (xs ! i)) [0..<n]"
proof -
  assume n: "n = length xs"
  have "List.map_filter (\<lambda>(i, w). if P w then Some i else None) (zip [k..<k + length xs] xs)
     = filter (\<lambda>i. P (xs ! (i - k))) [k..<k + length xs]" for k
  proof (induction xs arbitrary: k)
    case Nil
    then show ?case by (simp add: List.map_filter_def)
  next
    case (Cons x xs)
    have "[k..<k + length (x # xs)] = k # [Suc k..<Suc k + length xs]"
      by (simp add: upt_rec)
    moreover have "filter (\<lambda>i. P (xs ! (i - Suc k))) [Suc k..<Suc k + length xs]
        = filter (\<lambda>i. P ((x # xs) ! (i - k))) [Suc k..<Suc k + length xs]"
      by (rule filter_cong) (auto simp: nth_Cons' Suc_le_eq)
    ultimately show ?case
      using Cons.IH [of "Suc k"] by (simp add: List.map_filter_def)
  qed
  from this [of 0] show ?thesis by (simp add: n)
qed

text \<open>The matches are exactly the positions at which the needle occurs.\<close>

lemma window_matches_eq:
  "window_matches needle xs =
     filter (\<lambda>i. take (length needle) (drop i xs) = needle) [0..<Suc (length xs) - length needle]"
proof -
  have "length (windows (length needle) xs) = Suc (length xs) - length needle"
    by (simp add: windows_def)
  moreover have "filter (\<lambda>i. windows (length needle) xs ! i = needle) [0..<Suc (length xs) - length needle]
      = filter (\<lambda>i. take (length needle) (drop i xs) = needle) [0..<Suc (length xs) - length needle]"
    by (rule filter_cong) (auto simp: windows_def)
  ultimately show ?thesis
    using map_filter_index [of "length (windows (length needle) xs)" "windows (length needle) xs"
        "\<lambda>w. w = needle"] by (simp add: window_matches_def)
qed

definition occurs_at :: "'a list \<Rightarrow> 'a list \<Rightarrow> nat \<Rightarrow> bool" where
  "occurs_at needle xs i \<longleftrightarrow> (\<exists>a b. xs = a @ needle @ b \<and> length a = i)"

lemma occurs_at_iff: "occurs_at needle xs i \<longleftrightarrow>
    i + length needle \<le> length xs \<and> take (length needle) (drop i xs) = needle"
proof
  assume at: "i + length needle \<le> length xs \<and> take (length needle) (drop i xs) = needle"
  have "xs = take i xs @ take (length needle) (drop i xs) @ drop (length needle) (drop i xs)"
    by (simp only: append_take_drop_id)
  then have "xs = take i xs @ needle @ drop (length needle) (drop i xs)" using at by simp
  moreover have "length (take i xs) = i" using at by simp
  ultimately show "occurs_at needle xs i" unfolding occurs_at_def by blast
qed (auto simp: occurs_at_def)

lemma window_matches_set: "set (window_matches needle xs) = {i. occurs_at needle xs i}"
  by (auto simp: window_matches_eq occurs_at_iff)

lemma window_matches_distinct: "distinct (window_matches needle xs)"
  by (simp add: window_matches_eq)

lemma window_matches_single:
  "length (window_matches needle xs) = 1 \<longleftrightarrow> (\<exists>!i. occurs_at needle xs i)"
proof -
  have "length (window_matches needle xs) = card {i. occurs_at needle xs i}"
    using distinct_card [OF window_matches_distinct, of needle xs] by (simp add: window_matches_set)
  moreover have "(\<exists>x. {i. occurs_at needle xs i} = {x}) \<longleftrightarrow> (\<exists>!i. occurs_at needle xs i)"
    by (auto simp: set_eq_iff)
  ultimately show ?thesis by (simp only: card_1_singleton_iff One_nat_def)
qed

lemma window_matches_hd:
  assumes "length (window_matches needle xs) = 1"
  shows "occurs_at needle xs (hd (window_matches needle xs))"
  using assms window_matches_set [of needle xs] by (cases "window_matches needle xs") auto

section \<open>Properties\<close>

text \<open>What a draft made by a client looks like: its range is not empty and has as many lines as
  were selected.\<close>

definition draft_ok :: "draft_comment \<Rightarrow> bool" where
  "draft_ok d \<longleftrightarrow>
     1 \<le> da_start_line (dc_anchor d) \<and> da_start_line (dc_anchor d) \<le> da_end_line (dc_anchor d)
     \<and> da_end_line (dc_anchor d) \<le> u32_max
     \<and> length (da_selected_text (dc_anchor d))
       = da_end_line (dc_anchor d) - da_start_line (dc_anchor d) + 1"

text \<open>
  A draft is created exactly when its body is not blank, both lines are positive and both
  ends of the selection are on one side and in one hunk; its range then runs upwards over
  the selected lines, whichever end the selection started from, and keeps the selected text
  in file order.
\<close>

lemma create_draft_normalizes:
  "(case create_draft i a body end_side start_hunk end_hunk of
      Inl e \<Rightarrow>
        trim body = [] \<or> da_start_line a = 0 \<or> da_end_line a = 0 \<or> da_side a \<noteq> end_side
        \<or> start_hunk \<noteq> end_hunk
    | Inr d \<Rightarrow>
        trim body \<noteq> [] \<and> da_side a = end_side \<and> start_hunk = end_hunk
        \<and> dc_body d = body \<and> dc_id d = i
        \<and> 1 \<le> da_start_line (dc_anchor d)
        \<and> da_start_line (dc_anchor d) = min (da_start_line a) (da_end_line a)
        \<and> da_end_line (dc_anchor d) = max (da_start_line a) (da_end_line a)
        \<and> da_selected_text (dc_anchor d)
          = (if da_start_line a \<le> da_end_line a then da_selected_text a
             else rev (da_selected_text a)))"
  by (auto simp: create_draft_def Let_def)

lemma reanchor_Exact:
  "reanchor draft path side ls = Exact d \<Longrightarrow>
   d = draft \<and> da_selected_text (dc_anchor draft) \<noteq> []
   \<and> occurs_at (da_selected_text (dc_anchor draft)) ls (da_start_line (dc_anchor draft) - 1)"
  by (auto simp: reanchor_def Let_def get_range_def occurs_at_iff split: if_splits)

lemma reanchor_Moved:
  assumes "reanchor draft path side ls = Moved d old new" and "draft_ok draft"
    and "length ls \<le> u32_max"
  shows "(\<exists>!i. occurs_at (draft_needle draft) ls i)"
    and "occurs_at (da_selected_text (dc_anchor draft)) ls (new - 1)"
    and "old = da_start_line (dc_anchor draft)"
    and "d = draft\<lparr>dc_anchor := (dc_anchor draft)\<lparr>da_start_line := new,
               da_end_line := new + (da_end_line (dc_anchor draft) - old)\<rparr>\<rparr>"
    and "1 \<le> new"
proof -
  let ?a = "dc_anchor draft"
  let ?before = "length (da_context_before ?a)"
  let ?hits = "window_matches (draft_needle draft) ls"
  from assms(1) have one: "length ?hits = 1"
    and old: "old = da_start_line ?a"
    and new: "new = wrap_add u32_max (wrap_add u32_max (as_u32 (hd ?hits)) (as_u32 ?before)) 1"
    and d: "d = draft\<lparr>dc_anchor := ?a\<lparr>da_start_line := new, da_end_line :=
        wrap_add u32_max new (wrap_sub u32_max (da_end_line ?a) (da_start_line ?a))\<rparr>\<rparr>"
    by (auto simp: reanchor_def Let_def split: if_splits)
  show "\<exists>!i. occurs_at (draft_needle draft) ls i" using one unfolding window_matches_single .
  show "old = da_start_line ?a" by (rule old)
  from window_matches_hd [OF one] have at: "occurs_at (draft_needle draft) ls (hd ?hits)" .
  then have len: "hd ?hits + ?before + length (da_selected_text ?a) \<le> length ls"
    by (simp add: occurs_at_iff draft_needle_def)
  moreover from assms(2) have "1 \<le> length (da_selected_text ?a)" by (simp add: draft_ok_def)
  ultimately have le: "hd ?hits + ?before + 1 \<le> u32_max" using assms(3) by linarith
  then have "as_u32 (hd ?hits) = hd ?hits" "as_u32 ?before = ?before" by (simp_all add: as_u32_def)
  with le have new': "new = hd ?hits + ?before + 1" unfolding new by simp
  then show "1 \<le> new" by simp
  from at show "occurs_at (da_selected_text ?a) ls (new - 1)"
    unfolding new' occurs_at_def draft_needle_def by (metis append.assoc diff_add_inverse2 length_append)
  show "d = draft\<lparr>dc_anchor := ?a\<lparr>da_start_line := new, da_end_line := new + (da_end_line ?a - old)\<rparr>\<rparr>"
    using len assms(2,3) unfolding d old by (simp add: new' draft_ok_def)
qed

text \<open>
  C19. A draft never lands on the wrong lines. When its anchor is kept, or moved, the lines of
  the new revision at its new place are its selected text; it is moved only to the one place
  where the selection occurs with its surrounding context, and only the two line numbers
  change, the length of the range does not. Conversely, if the path and side are the same
  and the selection with its context occurs exactly once, the draft does find a place.
\<close>

theorem reanchor_sound_complete:
  assumes "draft_ok draft" and "length ls \<le> u32_max"
  shows "case reanchor draft path side ls of
      Exact d \<Rightarrow> d = draft
        \<and> occurs_at (da_selected_text (dc_anchor d)) ls (da_start_line (dc_anchor d) - 1)
    | Moved d old new \<Rightarrow>
        occurs_at (da_selected_text (dc_anchor d)) ls (da_start_line (dc_anchor d) - 1)
        \<and> (\<exists>!i. occurs_at (draft_needle draft) ls i)
        \<and> old = da_start_line (dc_anchor draft) \<and> new = da_start_line (dc_anchor d)
        \<and> d = draft\<lparr>dc_anchor := (dc_anchor draft)\<lparr>da_start_line := new,
               da_end_line := new + (da_end_line (dc_anchor draft) - old)\<rparr>\<rparr>
    | NeedsAttention d _ \<Rightarrow> d = draft
        \<and> (da_path (dc_anchor draft) \<noteq> path \<or> da_side (dc_anchor draft) \<noteq> side
           \<or> \<not> (\<exists>!i. occurs_at (draft_needle draft) ls i))"
proof (cases "reanchor draft path side ls")
  case (Exact d)
  with reanchor_Exact [OF Exact] show ?thesis by simp
next
  case (Moved d old new)
  from reanchor_Moved [OF Moved assms] show ?thesis by (simp add: Moved)
next
  case (NeedsAttention d r)
  then have "d = draft
      \<and> (da_path (dc_anchor draft) \<noteq> path \<or> da_side (dc_anchor draft) \<noteq> side
         \<or> length ls < length (draft_needle draft)
         \<or> length (window_matches (draft_needle draft) ls) \<noteq> 1)"
    using assms(1) by (auto simp: reanchor_def Let_def draft_ok_def draft_needle_def split: if_splits)
  moreover have "\<not> (\<exists>!i. occurs_at (draft_needle draft) ls i)" if "length ls < length (draft_needle draft)"
    using that by (auto simp: occurs_at_iff)
  ultimately show ?thesis unfolding NeedsAttention window_matches_single by auto
qed

definition sample_draft :: draft_comment where
  "sample_draft =
     \<lparr>dc_id = ''d'',
      dc_anchor = \<lparr>da_repository = ''o/r'', da_number = 1, da_captured_revision = ''x'',
        da_path = ''f'', da_side = RemoteRight, da_start_line = 2, da_end_line = 3,
        da_context_before = [''a''], da_selected_text = [''b'', ''c''], da_context_after = [''d'']\<rparr>,
      dc_body = ''why''\<rparr>"

theorem reanchor_sound_complete_witness:
  "reanchor sample_draft ''f'' RemoteRight [''new'', ''a'', ''b'', ''c'', ''d'']
     = Moved (sample_draft\<lparr>dc_anchor := (dc_anchor sample_draft)\<lparr>da_start_line := 3, da_end_line := 4\<rparr>\<rparr>) 2 3
   \<and> occurs_at (da_selected_text (dc_anchor sample_draft)) [''new'', ''a'', ''b'', ''c'', ''d''] 2"
proof -
  have r: "reanchor sample_draft ''f'' RemoteRight [''new'', ''a'', ''b'', ''c'', ''d'']
     = Moved (sample_draft\<lparr>dc_anchor := (dc_anchor sample_draft)\<lparr>da_start_line := 3, da_end_line := 4\<rparr>\<rparr>) 2 3"
    by code_simp
  have "draft_ok sample_draft" by code_simp
  moreover have "length [''new'', ''a'', ''b'', ''c'', ''d''] \<le> u32_max" by (simp add: u32_max_def)
  ultimately show ?thesis
    using reanchor_sound_complete [of sample_draft "[''new'', ''a'', ''b'', ''c'', ''d'']" "''f''" RemoteRight]
    unfolding r by simp
qed

lemma create_draft_normalizes_instance:
  "case create_draft ''d''
      ((dc_anchor sample_draft)\<lparr>da_start_line := 3, da_end_line := 2\<rparr>) ''why'' RemoteRight 0 0 of
     Inl _ \<Rightarrow> False
   | Inr d \<Rightarrow> da_start_line (dc_anchor d) = 2 \<and> da_end_line (dc_anchor d) = 3
       \<and> da_selected_text (dc_anchor d) = [''c'', ''b'']"
proof -
  let ?a = "(dc_anchor sample_draft)\<lparr>da_start_line := 3, da_end_line := 2\<rparr>"
  have "trim ''why'' \<noteq> []" by code_simp
  moreover have "da_start_line ?a = 3" "da_end_line ?a = 2" "da_side ?a = RemoteRight"
    "da_selected_text ?a = [''b'', ''c'']" by (simp_all add: sample_draft_def)
  ultimately show ?thesis
    using create_draft_normalizes [where i = "''d''" and a = ?a and body = "''why''" and end_side = RemoteRight
        and start_hunk = 0 and end_hunk = 0]
    by (auto split: sum.splits)
qed

end
