(* ===== verification/Ordered_Map.thy ===== *)
theory Ordered_Map
  imports Rust_Str "HOL-Library.List_Lexorder" "HOL-Library.Char_ord"
begin

text \<open>
  \<open>BTreeMap\<close> and \<open>BTreeSet\<close>: lists of distinct keys in ascending order, which is the order
  their iterators have. \<open>entry(k).or_insert_with(d)\<close> followed by a change of the value is
  \<open>om_entry\<close>. Strings are ordered by their bytes.
\<close>

fun om_entry :: "'k::linorder \<Rightarrow> 'v \<Rightarrow> ('v \<Rightarrow> 'v) \<Rightarrow> ('k \<times> 'v) list \<Rightarrow> ('k \<times> 'v) list" where
  "om_entry k d f [] = [(k, f d)]"
| "om_entry k d f ((j, v) # m) =
     (if k < j then (k, f d) # (j, v) # m
      else if k = j then (j, f v) # m
      else (j, v) # om_entry k d f m)"

definition om_insert :: "'k::linorder \<Rightarrow> 'v \<Rightarrow> ('k \<times> 'v) list \<Rightarrow> ('k \<times> 'v) list" where
  "om_insert k v m = om_entry k v (\<lambda>_. v) m"

fun os_insert :: "'k::linorder \<Rightarrow> 'k list \<Rightarrow> 'k list" where
  "os_insert k [] = [k]"
| "os_insert k (j # s) =
     (if k < j then k # j # s else if k = j then j # s else j # os_insert k s)"

definition om_ok :: "('k::linorder \<times> 'v) list \<Rightarrow> bool" where
  "om_ok m \<longleftrightarrow> sorted_wrt (<) (map fst m)"

lemma om_ok_Nil [simp]: "om_ok []"
  by (simp add: om_ok_def)

lemma om_ok_Cons: "om_ok ((k, v) # m) \<longleftrightarrow> (\<forall>j \<in> fst ` set m. k < j) \<and> om_ok m"
  by (auto simp: om_ok_def)

lemma om_ok_distinct: "om_ok m \<Longrightarrow> distinct (map fst m)"
  by (simp add: om_ok_def strict_sorted_iff)

lemma om_entry_keys: "fst ` set (om_entry k d f m) = insert k (fst ` set m)"
  by (induction k d f m rule: om_entry.induct) auto

lemma om_entry_ok: "om_ok m \<Longrightarrow> om_ok (om_entry k d f m)"
  by (induction k d f m rule: om_entry.induct)
     (auto simp: om_ok_Cons om_entry_keys dest: less_trans)

lemma om_entry_lookup:
  "om_ok m \<Longrightarrow>
   map_of (om_entry k d f m) j =
     (if j = k then Some (f (case map_of m k of None \<Rightarrow> d | Some v \<Rightarrow> v)) else map_of m j)"
proof (induction k d f m rule: om_entry.induct)
  case (1 k d f)
  then show ?case by simp
next
  case (2 k d f i v m)
  have "k < i \<Longrightarrow> map_of m k = None"
    using 2(2) by (force simp: om_ok_Cons map_of_eq_None_iff)
  with 2 show ?case by (auto simp: om_ok_Cons)
qed

text \<open>Every update changes the value of one key and leaves the others in place.\<close>

lemma om_entry_split:
  "om_ok m \<Longrightarrow>
   (\<exists>a v b. m = a @ (k, v) # b \<and> om_entry k d f m = a @ (k, f v) # b)
   \<or> (\<exists>a b. m = a @ b \<and> om_entry k d f m = a @ (k, f d) # b)"
proof (induction k d f m rule: om_entry.induct)
  case (1 k d f)
  then show ?case by simp
next
  case (2 k d f i v m)
  show ?case
  proof (cases "k < i")
    case True
    then have "(i, v) # m = [] @ (i, v) # m
        \<and> om_entry k d f ((i, v) # m) = [] @ (k, f d) # (i, v) # m" by simp
    then show ?thesis by blast
  next
    case not_less: False
    show ?thesis
    proof (cases "k = i")
      case True
      then have "(i, v) # m = [] @ (k, v) # m
          \<and> om_entry k d f ((i, v) # m) = [] @ (k, f v) # m" by simp
      then show ?thesis by blast
    next
      case False
      from 2(2) have "om_ok m" by (simp add: om_ok_Cons)
      from 2(1) [OF not_less False this] show ?thesis
        using not_less False by (metis append_Cons om_entry.simps(2))
    qed
  qed
qed

lemma os_insert_set: "set (os_insert k s) = insert k (set s)"
  by (induction k s rule: os_insert.induct) auto

lemma os_insert_sorted: "sorted_wrt (<) s \<Longrightarrow> sorted_wrt (<) (os_insert k s)"
  by (induction k s rule: os_insert.induct) (auto simp: os_insert_set dest: less_trans)

end
