(* ===== verification/Review_Map_Model.thy ===== *)
theory Review_Map_Model
  imports Ordered_Map
begin

text \<open>
  The data of a review map, \<open>crates/ramo-core/src/review_map/model.rs\<close>. Line counts are
  \<open>usize\<close> values that come from a pull request; they are natural numbers here, their sums
  taken not to leave 64 bits.
\<close>

definition REVIEW_MAP_SCHEMA_VERSION :: u16 where "REVIEW_MAP_SCHEMA_VERSION = 1"

datatype review_map_status = Ready | Analyzing | Enriched | Stale | Unavailable | Failed

datatype review_map_failure_code =
    ServerUnreachable | PairingRejected | ClientUnauthorized | GithubAuthUnavailable
  | GithubRequestFailed | PullRequestUnavailable | OllamaUnavailable | ModelMissing
  | AnalysisTimedOut | AnalysisInvalid | AnalysisLowQuality | AnalysisFailed | ResultStale
  | CacheUnavailable | ServerIncompatible

datatype review_file_kind = Authored | Test | Generated | Migration | Documentation | Other

datatype patch_coverage = Full | Truncated | MetadataOnly | Binary

record review_map_identity =
  ri_repository :: string
  ri_pull_request :: u64
  ri_base_sha :: string
  ri_head_sha :: string

record review_map_input_file =
  mi_path :: string
  mi_previous_path :: "string option"
  mi_status :: string
  mi_additions :: usize
  mi_deletions :: usize
  mi_patch :: "string option"
  mi_binary :: bool

record review_map_input =
  in_identity :: review_map_identity
  in_files :: "review_map_input_file list"
  in_codeowners :: "string option"

record review_map_totals =
  mt_files :: usize
  mt_additions :: usize
  mt_deletions :: usize
  mt_authored :: usize
  mt_tests :: usize
  mt_generated :: usize
  mt_migrations :: usize
  mt_documentation :: usize

record file_insight =
  fi_summary :: string
  fi_risk :: "string option"

record group_insight =
  gi_summary :: string
  gi_risk :: "string option"
  gi_review_priority :: usize

record review_map_file =
  mf_id :: string
  mf_path :: string
  mf_previous_path :: "string option"
  mf_status :: string
  mf_additions :: usize
  mf_deletions :: usize
  mf_kind :: review_file_kind
  mf_owner :: "string option"
  mf_coverage :: patch_coverage
  mf_insight :: "file_insight option"
  mf_recommended_order :: "usize option"

record review_map_group =
  mg_id :: string
  mg_label :: string
  mg_kind :: review_file_kind
  mg_file_ids :: "string list"
  mg_additions :: usize
  mg_deletions :: usize
  mg_collapsed_by_default :: bool
  mg_insight :: "group_insight option"

record review_map_analysis =
  ma_model :: string
  ma_prompt_version :: u32
  ma_completed_at :: string

record review_map =
  rm_schema_version :: u16
  rm_identity :: review_map_identity
  rm_status :: review_map_status
  rm_totals :: review_map_totals
  rm_groups :: "review_map_group list"
  rm_files :: "review_map_file list"
  rm_analysis :: "review_map_analysis option"

end
