(* ===== verification/Classify.thy ===== *)
theory Classify
  imports Review_Map_Model
begin

text \<open>
  The classification of a changed file by its path and patch (\<open>review_map/classify.rs\<close>) and
  the owners of a path (\<open>review_map/codeowners.rs\<close>).

  Glob matching is the \<open>globset\<close> crate: \<open>glob pattern\<close> is the error message of
  \<open>Glob::new(pattern)\<close> or the matcher it compiles to.
\<close>

type_synonym globset = "string \<Rightarrow> string + (string \<Rightarrow> bool)"

section \<open>Classification\<close>

definition GENERATED_NAMES :: "string list" where
  "GENERATED_NAMES =
     [''cargo.lock'', ''package-lock.json'', ''pnpm-lock.yaml'', ''poetry.lock'', ''uv.lock'',
      ''yarn.lock'']"

definition DOCUMENT_EXTENSIONS :: "string list" where
  "DOCUMENT_EXTENSIONS = [''md'', ''mdx'', ''rst'', ''adoc'']"

record classifier_config =
  cc_additional_test_patterns :: "string list"
  cc_additional_generated_patterns :: "string list"

definition with_patterns :: "string list \<Rightarrow> string list \<Rightarrow> classifier_config" where
  "with_patterns test_patterns generated_patterns =
     \<lparr>cc_additional_test_patterns = test_patterns,
      cc_additional_generated_patterns = generated_patterns\<rparr>"

definition generated_path :: "string \<Rightarrow> string \<Rightarrow> bool" where
  "generated_path path file_name \<longleftrightarrow>
     file_name \<in> set GENERATED_NAMES
     \<or> list_ex (\<lambda>part. part \<in> {''generated'', ''dist'', ''vendor''}) (split_char (CHR ''/'') path)
     \<or> contains file_name ''.generated.''
     \<or> ends_with file_name ''_generated.rs''
     \<or> ends_with file_name ''.g.dart''"

definition test_path :: "string \<Rightarrow> string \<Rightarrow> bool" where
  "test_path path file_name \<longleftrightarrow>
     list_ex (\<lambda>part. part \<in> {''test'', ''tests'', ''__tests__'', ''spec'', ''specs''})
       (split_char (CHR ''/'') path)
     \<or> starts_with file_name ''test_'' \<and> ends_with file_name ''.py''
     \<or> ends_with file_name ''_test.go''
     \<or> list_ex (ends_with file_name)
         [''.test.js'', ''.test.jsx'', ''.test.ts'', ''.test.tsx'',
          ''.spec.js'', ''.spec.jsx'', ''.spec.ts'', ''.spec.tsx'']"

text \<open>The first 2048 bytes, or the whole patch if a character straddles that point.\<close>

definition has_generated_marker :: "string \<Rightarrow> bool" where
  "has_generated_marker patch =
     (let n = min (length patch) 2048;
          pfx = (if char_boundary patch n then take n patch else patch);
          lower = to_ascii_lowercase pfx
      in list_ex (contains lower) [''@generated'', ''generated file'', ''do not edit''])"

definition simple_pattern_matches :: "globset \<Rightarrow> string \<Rightarrow> string \<Rightarrow> bool" where
  "simple_pattern_matches glob pattern path =
     (case glob pattern of Inl _ \<Rightarrow> False | Inr is_match \<Rightarrow> is_match path)"

definition classify_path :: "globset \<Rightarrow> string \<Rightarrow> string option \<Rightarrow> classifier_config \<Rightarrow> review_file_kind" where
  "classify_path glob path patch config =
     (let normalized = replace_char BSLASH ''/'' path;
          lower = to_ascii_lowercase normalized;
          file_name = (case path_file_name lower of Some name \<Rightarrow> name | None \<Rightarrow> lower)
      in
        if generated_path lower file_name
           \<or> list_ex (\<lambda>pattern. simple_pattern_matches glob pattern lower)
               (cc_additional_generated_patterns config)
           \<or> (case patch of None \<Rightarrow> False | Some p \<Rightarrow> has_generated_marker p)
        then Generated
        else if test_path lower file_name
           \<or> list_ex (\<lambda>pattern. simple_pattern_matches glob pattern lower)
               (cc_additional_test_patterns config)
        then Test
        else if list_ex (\<lambda>part. part = ''migrations'' \<or> part = ''migration'') (split_char (CHR ''/'') lower)
        then Migration
        else if list_ex (\<lambda>part. part = ''docs'' \<or> part = ''doc'') (split_char (CHR ''/'') lower)
           \<or> (case path_extension lower of None \<Rightarrow> False
              | Some extension \<Rightarrow> extension \<in> set DOCUMENT_EXTENSIONS)
        then Documentation
        else Authored)"

section \<open>Code owners\<close>

record owner_rule =
  or_matcher :: "string \<Rightarrow> bool"
  or_owner :: string

record code_owners_error =
  oe_line :: usize
  oe_message :: string

definition code_owners_error_display :: "code_owners_error \<Rightarrow> string" where
  "code_owners_error_display e =
     ''invalid CODEOWNERS rule at line '' @ nat_str (oe_line e) @ '': '' @ oe_message e"

definition normalize_pattern :: "string \<Rightarrow> string" where
  "normalize_pattern pattern =
     (let rooted = dropWhile (\<lambda>c. c = CHR ''/'') pattern
      in if rooted = ''*'' then ''**''
         else (case strip_suffix rooted ''/'' of
                 Some directory \<Rightarrow> directory @ ''/**''
               | None \<Rightarrow> if CHR ''/'' \<in> set rooted then rooted else ''**/'' @ rooted))"

text \<open>One line of the file, and the loop over the numbered lines.\<close>

definition parse_owner_line ::
  "globset \<Rightarrow> nat \<times> string \<Rightarrow> owner_rule list \<Rightarrow> code_owners_error + owner_rule list" where
  "parse_owner_line glob numbered rules =
     (case numbered of (index, raw_line) \<Rightarrow>
       let line = trim raw_line in
       if line = [] \<or> starts_with line ''#'' then Inr rules
       else (case split_whitespace line of
               pattern # owner # _ \<Rightarrow>
                 (case glob (normalize_pattern pattern) of
                    Inl message \<Rightarrow> Inl \<lparr>oe_line = index + 1, oe_message = message\<rparr>
                  | Inr matcher \<Rightarrow> Inr (rules @ [\<lparr>or_matcher = matcher, or_owner = owner\<rparr>]))
             | _ \<Rightarrow> Inl \<lparr>oe_line = index + 1, oe_message = ''rule must name at least one owner''\<rparr>))"

definition code_owners_parse :: "globset \<Rightarrow> string \<Rightarrow> code_owners_error + owner_rule list" where
  "code_owners_parse glob source =
     try_fold (parse_owner_line glob) (zip [0..<length (lines source)] (lines source)) []"

definition owner_for :: "owner_rule list \<Rightarrow> string \<Rightarrow> string option" where
  "owner_for rules path =
     map_option or_owner
       (List.find (\<lambda>rule. or_matcher rule (replace_char BSLASH ''/'' path)) (rev rules))"

section \<open>Lemmas\<close>

text \<open>The last matching rule decides.\<close>

lemma owner_for_last:
  "owner_for (rules @ [r]) path =
     (if or_matcher r (replace_char BSLASH ''/'' path) then Some (or_owner r) else owner_for rules path)"
  by (simp add: owner_for_def)

lemma owner_for_None_iff:
  "owner_for rules path = None \<longleftrightarrow>
     (\<forall>r \<in> set rules. \<not> or_matcher r (replace_char BSLASH ''/'' path))"
  by (simp add: owner_for_def find_None_iff')

lemma replace_char_backslash_idem:
  "replace_char BSLASH ''/'' (replace_char BSLASH ''/'' s) = replace_char BSLASH ''/'' s"
  by (rule replace_char_absent) (auto simp: replace_char_def split: if_splits)

lemma ascii_lower_BSLASH: "ascii_lower c = BSLASH \<longleftrightarrow> c = BSLASH"
proof
  assume eq: "ascii_lower c = BSLASH"
  show "c = BSLASH"
  proof (cases "65 \<le> code c \<and> code c \<le> 90")
    case True
    then have "code c + 32 = (92 :: nat)" using arg_cong [OF eq, of "of_char :: char \<Rightarrow> nat"]
      by (simp add: ascii_lower_def)
    with True show ?thesis by simp
  qed (use eq in \<open>auto simp: ascii_lower_def split: if_splits\<close>)
qed (simp add: ascii_lower_def)

lemma lower_replace:
  "to_ascii_lowercase (replace_char BSLASH ''/'' (to_ascii_lowercase s))
     = to_ascii_lowercase (replace_char BSLASH ''/'' s)"
  by (induction s) (auto simp: replace_char_def to_ascii_lowercase_def ascii_lower_BSLASH)

end
