(* ===== verification/Planner.thy ===== *)
theory Planner
  imports Classify "HOL-Library.Multiset"
begin

text \<open>
  The deterministic review map, \<open>crates/ramo-core/src/review_map/planner.rs\<close>: every changed
  file is classified and put in one group, and the finished map is checked against the files.
  A \<open>HashSet\<close> that is only inserted into and tested is the list of what was inserted.
  \<open>pick\<close> is the element a \<open>HashSet\<close> iterator yields first, of a set given as a list: the
  standard library leaves it open, so nothing is assumed of it.
\<close>

datatype review_map_error =
    InvalidPath string
  | DuplicatePath string
  | InvalidCodeOwners string
  | DuplicateMembership string
  | MissingMembership string
  | TotalsMismatch

section \<open>Operations\<close>

definition normalize_path :: "string \<Rightarrow> review_map_error + string" where
  "normalize_path path =
     (let normalized = replace_char BSLASH ''/'' path in
      if normalized = [] \<or> starts_with normalized ''/'' \<or> CHR 0x00 \<in> set normalized
         \<or> list_ex (\<lambda>part. part = [] \<or> part = ''.'' \<or> part = ''..'') (split_char (CHR ''/'') normalized)
      then Inl (InvalidPath path)
      else Inr normalized)"

definition group_for :: "string \<Rightarrow> review_file_kind \<Rightarrow> string \<times> string" where
  "group_for path kind =
     (case kind of
        Test \<Rightarrow> (''test'', ''Tests'')
      | Generated \<Rightarrow> (''generated'', ''Generated'')
      | Migration \<Rightarrow> (''migration'', ''Migrations'')
      | Documentation \<Rightarrow> (''documentation'', ''Documentation'')
      | _ \<Rightarrow>
          (let directories = split_char (CHR ''/'') path in
           if length directories = 1 then (''authored:root'', ''Root files'')
           else
             let pfx = join ''/'' (take (min (length directories - 1) 2) directories)
             in (''authored:'' @ pfx, pfx @ ''/'')))"

definition coverage :: "bool \<Rightarrow> string option \<Rightarrow> patch_coverage" where
  "coverage binary patch =
     (if binary then Binary
      else (case patch of
              None \<Rightarrow> MetadataOnly
            | Some p \<Rightarrow> if ends_with p ''... diff truncated ...'' then Truncated else Full))"

definition count_file :: "review_map_file \<Rightarrow> review_map_totals \<Rightarrow> review_map_totals" where
  "count_file f t =
     (let t = t\<lparr>mt_additions := mt_additions t + mf_additions f,
                mt_deletions := mt_deletions t + mf_deletions f\<rparr>
      in (case mf_kind f of
            Test \<Rightarrow> t\<lparr>mt_tests := mt_tests t + 1\<rparr>
          | Generated \<Rightarrow> t\<lparr>mt_generated := mt_generated t + 1\<rparr>
          | Migration \<Rightarrow> t\<lparr>mt_migrations := mt_migrations t + 1\<rparr>
          | Documentation \<Rightarrow> t\<lparr>mt_documentation := mt_documentation t + 1\<rparr>
          | _ \<Rightarrow> t\<lparr>mt_authored := mt_authored t + 1\<rparr>))"

definition totals :: "review_map_file list \<Rightarrow> review_map_totals" where
  "totals files =
     fold count_file files
       \<lparr>mt_files = length files, mt_additions = 0, mt_deletions = 0, mt_authored = 0,
        mt_tests = 0, mt_generated = 0, mt_migrations = 0, mt_documentation = 0\<rparr>"

text \<open>The loops of \<open>validate_exact_map\<close>: over the members of a group, from the memberships seen
  and the two sums; over the groups, from the memberships.\<close>

definition check_member ::
  "review_map_file list \<Rightarrow> string \<Rightarrow> string list \<times> usize \<times> usize
     \<Rightarrow> review_map_error + string list \<times> usize \<times> usize" where
  "check_member files i st =
     (case st of (memberships, additions, deletions) \<Rightarrow>
       if i \<in> set memberships then Inl (DuplicateMembership i)
       else (case List.find (\<lambda>f. mf_id f = i) files of
               None \<Rightarrow> Inl TotalsMismatch
             | Some f \<Rightarrow> Inr (i # memberships, additions + mf_additions f, deletions + mf_deletions f)))"

definition check_group ::
  "review_map_file list \<Rightarrow> review_map_group \<Rightarrow> string list \<Rightarrow> review_map_error + string list" where
  "check_group files g memberships =
     and_then (try_fold (check_member files) (mg_file_ids g) (memberships, 0, 0))
       (\<lambda>(memberships, additions, deletions).
          if additions \<noteq> mg_additions g \<or> deletions \<noteq> mg_deletions g then Inl TotalsMismatch
          else Inr memberships)"

definition validate_exact_map ::
  "(string list \<Rightarrow> string) \<Rightarrow> review_map \<Rightarrow> review_map_error + unit" where
  "validate_exact_map pick m =
     (let ids = map mf_id (rm_files m) in
      and_then (try_fold (check_group (rm_files m)) (rm_groups m) [])
        (\<lambda>memberships.
           case filter (\<lambda>i. i \<notin> set memberships) ids of
             x # xs \<Rightarrow> Inl (MissingMembership (pick (x # xs)))
           | [] \<Rightarrow>
               if list_ex (\<lambda>i. i \<notin> set ids) memberships \<or> totals (rm_files m) \<noteq> rm_totals m
               then Inl TotalsMismatch
               else Inr ()))"

text \<open>\<open>build_review_map\<close>: the state of its loop is the paths seen, the files and the groups by
  key, each with label, kind and members.\<close>

type_synonym grouped = "(string \<times> string \<times> review_file_kind \<times> string list) list"

definition review_file_id :: "string \<Rightarrow> string \<Rightarrow> string option \<Rightarrow> string" where
  "review_file_id head_sha path previous_path =
     (case previous_path of
        Some previous \<Rightarrow> ''file:'' @ head_sha @ '':'' @ previous @ ''->'' @ path
      | None \<Rightarrow> ''file:'' @ head_sha @ '':'' @ path)"

definition normalize_optional :: "string option \<Rightarrow> review_map_error + string option" where
  "normalize_optional previous =
     (case previous of None \<Rightarrow> Inr None | Some p \<Rightarrow> and_then (normalize_path p) (\<lambda>q. Inr (Some q)))"

definition plan_file ::
  "globset \<Rightarrow> classifier_config \<Rightarrow> string \<Rightarrow> owner_rule list option \<Rightarrow> review_map_input_file
     \<Rightarrow> string list \<times> review_map_file list \<times> grouped
     \<Rightarrow> review_map_error + string list \<times> review_map_file list \<times> grouped" where
  "plan_file glob config head_sha owners source st =
     (case st of (seen_paths, files, grouped) \<Rightarrow>
       and_then (normalize_path (mi_path source)) (\<lambda>path.
         if path \<in> set seen_paths then Inl (DuplicatePath path)
         else and_then (normalize_optional (mi_previous_path source)) (\<lambda>previous_path.
           let kind = classify_path glob path (mi_patch source) config;
               i = review_file_id head_sha path previous_path;
               (group_key, group_label) = group_for path kind;
               file = \<lparr>mf_id = i, mf_path = path, mf_previous_path = previous_path,
                       mf_status = mi_status source, mf_additions = mi_additions source,
                       mf_deletions = mi_deletions source, mf_kind = kind,
                       mf_owner = (case owners of None \<Rightarrow> None | Some rules \<Rightarrow> owner_for rules path),
                       mf_coverage = coverage (mi_binary source) (mi_patch source),
                       mf_insight = None, mf_recommended_order = None\<rparr>
           in Inr (path # seen_paths, files @ [file],
                   om_entry group_key (group_label, kind, [])
                     (\<lambda>(label, kind, file_ids). (label, kind, file_ids @ [i])) grouped))))"

text \<open>\<open>by_id[id]\<close> panics on an identifier that is not there; every member of a group is one of
  the files, see \<open>plan_invariant\<close> below.\<close>

definition group_of ::
  "string \<Rightarrow> (string \<rightharpoonup> review_map_file) \<Rightarrow> string \<times> string \<times> review_file_kind \<times> string list
     \<Rightarrow> review_map_group" where
  "group_of head_sha by_id entry =
     (case entry of (key, label, kind, file_ids) \<Rightarrow>
       let (additions, deletions) =
             fold (\<lambda>i (a, d). (a + mf_additions (the (by_id i)), d + mf_deletions (the (by_id i))))
               file_ids (0, 0)
       in \<lparr>mg_id = ''group:'' @ head_sha @ '':'' @ key, mg_label = label, mg_kind = kind,
           mg_file_ids = file_ids, mg_additions = additions, mg_deletions = deletions,
           mg_collapsed_by_default = (kind = Test \<or> kind = Generated), mg_insight = None\<rparr>)"

definition build_review_map ::
  "globset \<Rightarrow> (string list \<Rightarrow> string) \<Rightarrow> review_map_input \<Rightarrow> classifier_config
     \<Rightarrow> review_map_error + review_map" where
  "build_review_map glob pick input config =
     (let head_sha = ri_head_sha (in_identity input) in
      and_then
        (case in_codeowners input of
           None \<Rightarrow> Inr None
         | Some source \<Rightarrow>
             map_err (\<lambda>e. InvalidCodeOwners (code_owners_error_display e))
               (and_then (code_owners_parse glob source) (\<lambda>rules. Inr (Some rules))))
        (\<lambda>owners. and_then (try_fold (plan_file glob config head_sha owners) (in_files input) ([], [], []))
          (\<lambda>(_, files, grouped).
             let by_id = collect_map (map (\<lambda>f. (mf_id f, f)) files);
                 m = \<lparr>rm_schema_version = REVIEW_MAP_SCHEMA_VERSION,
                        rm_identity = in_identity input, rm_status = Ready,
                        rm_totals = totals files,
                        rm_groups = map (group_of head_sha by_id) grouped,
                        rm_files = files, rm_analysis = None\<rparr>
             in and_then (validate_exact_map pick m) (\<lambda>_. Inr m))))"

section \<open>The exact map\<close>

text \<open>What a review map promises: every file in exactly one group, no group with a foreign
  member, and all sums right.\<close>

definition file_with :: "review_map_file list \<Rightarrow> string \<Rightarrow> review_map_file" where
  "file_with files i = the (List.find (\<lambda>f. mf_id f = i) files)"

definition all_members :: "review_map_group list \<Rightarrow> string list" where
  "all_members gs = concat (map mg_file_ids gs)"

definition group_sums_ok :: "review_map_file list \<Rightarrow> review_map_group \<Rightarrow> bool" where
  "group_sums_ok files g \<longleftrightarrow>
     mg_additions g = sum_list (map (\<lambda>i. mf_additions (file_with files i)) (mg_file_ids g))
     \<and> mg_deletions g = sum_list (map (\<lambda>i. mf_deletions (file_with files i)) (mg_file_ids g))"

definition exact_map :: "review_map \<Rightarrow> bool" where
  "exact_map m \<longleftrightarrow>
     distinct (all_members (rm_groups m))
     \<and> set (all_members (rm_groups m)) = set (map mf_id (rm_files m))
     \<and> (\<forall>g \<in> set (rm_groups m). group_sums_ok (rm_files m) g)
     \<and> rm_totals m = totals (rm_files m)"

lemma find_id_None_iff: "List.find (\<lambda>f. mf_id f = i) files = None \<longleftrightarrow> i \<notin> mf_id ` set files"
  by (auto simp: find_None_iff')

lemma check_members_iff:
  "try_fold (check_member files) is (ms, a, d) = Inr st \<longleftrightarrow>
     distinct is \<and> set is \<inter> set ms = {} \<and> set is \<subseteq> mf_id ` set files
     \<and> st = (rev is @ ms,
             a + sum_list (map (\<lambda>i. mf_additions (file_with files i)) is),
             d + sum_list (map (\<lambda>i. mf_deletions (file_with files i)) is))"
proof (induction "is" arbitrary: ms a d)
  case Nil
  then show ?case by auto
next
  case (Cons i "is")
  show ?case
  proof (cases "i \<in> set ms \<or> List.find (\<lambda>f. mf_id f = i) files = None")
    case True
    then obtain e where "check_member files i (ms, a, d) = Inl e"
      by (cases "i \<in> set ms") (auto simp: check_member_def)
    with True show ?thesis by (auto simp: find_id_None_iff)
  next
    case False
    then obtain f where f: "List.find (\<lambda>f. mf_id f = i) files = Some f" by blast
    with False have "i \<in> mf_id ` set files" by (metis find_id_None_iff option.distinct(1))
    moreover have "check_member files i (ms, a, d)
        = Inr (i # ms, a + mf_additions (file_with files i), d + mf_deletions (file_with files i))"
      using False f by (simp add: check_member_def file_with_def)
    ultimately show ?thesis using False by (auto simp: Cons.IH add.assoc)
  qed
qed

lemma check_group_iff:
  "check_group files g ms = Inr ms' \<longleftrightarrow>
     distinct (mg_file_ids g) \<and> set (mg_file_ids g) \<inter> set ms = {}
     \<and> set (mg_file_ids g) \<subseteq> mf_id ` set files \<and> group_sums_ok files g
     \<and> ms' = rev (mg_file_ids g) @ ms"
  by (auto simp: check_group_def and_then_Inr_iff check_members_iff group_sums_ok_def)

lemma check_groups_iff:
  "try_fold (check_group files) gs ms = Inr ms' \<longleftrightarrow>
     distinct (all_members gs) \<and> set (all_members gs) \<inter> set ms = {}
     \<and> set (all_members gs) \<subseteq> mf_id ` set files \<and> (\<forall>g \<in> set gs. group_sums_ok files g)
     \<and> ms' = rev (all_members gs) @ ms"
  by (induction gs arbitrary: ms)
     (auto simp: all_members_def and_then_Inr_iff check_group_iff)

lemma filter_Nil_iff: "filter P xs = [] \<longleftrightarrow> (\<forall>x \<in> set xs. \<not> P x)"
  by (induction xs) auto

lemma validate_iff: "validate_exact_map pick m = Inr () \<longleftrightarrow> exact_map m"
  unfolding validate_exact_map_def Let_def and_then_Inr_iff check_groups_iff exact_map_def
  by (auto simp: filter_Nil_iff list_ex_iff split: list.splits)

section \<open>Building a map\<close>

definition norm_path :: "string \<Rightarrow> string" where
  "norm_path p = replace_char BSLASH ''/'' p"

definition path_accepted :: "string \<Rightarrow> bool" where
  "path_accepted p \<longleftrightarrow> normalize_path p = Inr (norm_path p)"

definition source_ok :: "review_map_input_file \<Rightarrow> bool" where
  "source_ok s \<longleftrightarrow>
     path_accepted (mi_path s) \<and> (\<forall>p. mi_previous_path s = Some p \<longrightarrow> path_accepted p)"

text \<open>The file a source becomes, and what it does to the groups.\<close>

definition planned ::
  "globset \<Rightarrow> classifier_config \<Rightarrow> string \<Rightarrow> owner_rule list option \<Rightarrow> review_map_input_file
     \<Rightarrow> review_map_file" where
  "planned glob config head_sha owners s =
     (let path = norm_path (mi_path s); previous = map_option norm_path (mi_previous_path s)
      in \<lparr>mf_id = review_file_id head_sha path previous, mf_path = path,
          mf_previous_path = previous, mf_status = mi_status s, mf_additions = mi_additions s,
          mf_deletions = mi_deletions s, mf_kind = classify_path glob path (mi_patch s) config,
          mf_owner = (case owners of None \<Rightarrow> None | Some rules \<Rightarrow> owner_for rules path),
          mf_coverage = coverage (mi_binary s) (mi_patch s), mf_insight = None,
          mf_recommended_order = None\<rparr>)"

definition add_to_group :: "review_map_file \<Rightarrow> grouped \<Rightarrow> grouped" where
  "add_to_group f =
     (let (key, label) = group_for (mf_path f) (mf_kind f)
      in om_entry key (label, mf_kind f, [])
           (\<lambda>(label, kind, file_ids). (label, kind, file_ids @ [mf_id f])))"

lemma normalize_path_Inr: "normalize_path p = Inr q \<longleftrightarrow> path_accepted p \<and> q = norm_path p"
  by (auto simp: normalize_path_def path_accepted_def norm_path_def Let_def)

lemma normalize_optional_Inr:
  "normalize_optional prev = Inr q \<longleftrightarrow>
     (\<forall>p. prev = Some p \<longrightarrow> path_accepted p) \<and> q = map_option norm_path prev"
  by (cases prev) (auto simp: normalize_optional_def and_then_Inr_iff normalize_path_Inr)

lemma plan_file_iff:
  "plan_file glob config sha owners s (seen, files, grouped) = Inr st \<longleftrightarrow>
     source_ok s \<and> norm_path (mi_path s) \<notin> set seen
     \<and> st = (norm_path (mi_path s) # seen, files @ [planned glob config sha owners s],
             add_to_group (planned glob config sha owners s) grouped)"
  by (auto simp: plan_file_def and_then_Inr_iff normalize_path_Inr normalize_optional_Inr
      source_ok_def planned_def add_to_group_def Let_def split: if_splits prod.splits)

lemma plan_files_iff:
  "try_fold (plan_file glob config sha owners) ss (seen, files, grouped) = Inr st \<longleftrightarrow>
     (\<forall>s \<in> set ss. source_ok s) \<and> distinct (map (norm_path \<circ> mi_path) ss)
     \<and> set (map (norm_path \<circ> mi_path) ss) \<inter> set seen = {}
     \<and> st = (rev (map (norm_path \<circ> mi_path) ss) @ seen,
             files @ map (planned glob config sha owners) ss,
             fold add_to_group (map (planned glob config sha owners) ss) grouped)"
proof (induction ss arbitrary: seen files grouped)
  case Nil
  then show ?case by auto
next
  case (Cons s ss)
  then show ?case by (auto simp: and_then_Inr_iff plan_file_iff)
qed

definition entry_members :: "grouped \<Rightarrow> string list" where
  "entry_members g = concat (map (\<lambda>(_, _, _, ids). ids) g)"

lemma add_to_group_members:
  assumes "om_ok g"
  shows "mset (entry_members (add_to_group f g)) = add_mset (mf_id f) (mset (entry_members g))"
    and "om_ok (add_to_group f g)"
proof -
  obtain key label where k: "group_for (mf_path f) (mf_kind f) = (key, label)" by force
  show "om_ok (add_to_group f g)" using assms by (simp add: add_to_group_def k om_entry_ok)
  show "mset (entry_members (add_to_group f g)) = add_mset (mf_id f) (mset (entry_members g))"
    using om_entry_split [OF assms, of key "(label, mf_kind f, [])"
        "\<lambda>(label, kind, file_ids). (label, kind, file_ids @ [mf_id f])"]
    by (auto simp: add_to_group_def k entry_members_def)
qed

lemma groups_members:
  "om_ok g \<Longrightarrow>
   mset (entry_members (fold add_to_group fs g)) = mset (entry_members g) + mset (map mf_id fs)
   \<and> om_ok (fold add_to_group fs g)"
  by (induction fs arbitrary: g) (auto simp: add_to_group_members)

text \<open>A group's key is the one its members' paths and kinds give.\<close>

fun entry_keyed :: "review_map_file set \<Rightarrow> string \<times> string \<times> review_file_kind \<times> string list \<Rightarrow> bool" where
  "entry_keyed fs (key, label, kind, ids) =
     (\<forall>i \<in> set ids. \<exists>f \<in> fs. mf_id f = i \<and> fst (group_for (mf_path f) (mf_kind f)) = key)"

definition keyed_by_files :: "review_map_file set \<Rightarrow> grouped \<Rightarrow> bool" where
  "keyed_by_files fs g \<longleftrightarrow> (\<forall>e \<in> set g. entry_keyed fs e)"

lemma add_to_group_keyed:
  assumes "om_ok g" and "keyed_by_files fs g" and "f \<in> fs"
  shows "keyed_by_files fs (add_to_group f g)"
proof -
  obtain key label where k: "group_for (mf_path f) (mf_kind f) = (key, label)" by force
  have f: "\<exists>h \<in> fs. mf_id h = mf_id f \<and> fst (group_for (mf_path h) (mf_kind h)) = key"
    using assms(3) k by force
  have ext: "entry_keyed fs (key, label', kind', ids @ [mf_id f])"
    if "entry_keyed fs (key, label', kind', ids)" for label' kind' ids using that f by simp
  have single: "entry_keyed fs (key, label, mf_kind f, [mf_id f])" using f by simp
  show ?thesis
    using om_entry_split [OF assms(1), of key "(label, mf_kind f, [])"
        "\<lambda>(label, kind, file_ids). (label, kind, file_ids @ [mf_id f])"] assms(2)
    unfolding add_to_group_def k Let_def prod.case keyed_by_files_def
    by (elim disjE exE conjE) (auto simp: ext single simp del: entry_keyed.simps)
qed

lemma groups_keyed:
  "om_ok g \<Longrightarrow> keyed_by_files F g \<Longrightarrow> set fs \<subseteq> F \<Longrightarrow> keyed_by_files F (fold add_to_group fs g)"
  by (induction fs arbitrary: g) (simp_all add: add_to_group_keyed add_to_group_members)

lemma sum_fold_pair:
  fixes p q :: "string \<Rightarrow> nat" and a d :: nat
  shows "fold (\<lambda>i (a, d). (a + p i, d + q i)) xs (a, d)
     = (a + sum_list (map p xs), d + sum_list (map q xs))"
  by (induction xs arbitrary: a d) (auto simp: add.assoc)

lemma group_of_fields:
  "mg_file_ids (group_of sha by_id (key, label, kind, ids)) = ids"
  "mg_id (group_of sha by_id (key, label, kind, ids)) = ''group:'' @ sha @ '':'' @ key"
  "mg_additions (group_of sha by_id (key, label, kind, ids))
     = sum_list (map (\<lambda>i. mf_additions (the (by_id i))) ids)"
  "mg_deletions (group_of sha by_id (key, label, kind, ids))
     = sum_list (map (\<lambda>i. mf_deletions (the (by_id i))) ids)"
  by (simp_all add: group_of_def sum_fold_pair Let_def)

lemma all_members_group_of: "all_members (map (group_of sha by_id) g) = entry_members g"
  unfolding all_members_def entry_members_def
  by (rule arg_cong [of _ _ concat]) (auto simp: group_of_fields)

text \<open>When identifiers are distinct, looking one up by the map or by the first match is the same.\<close>

lemma by_id_distinct:
  assumes "distinct (map mf_id files)" and "i \<in> mf_id ` set files"
  shows "the (collect_map (map (\<lambda>f. (mf_id f, f)) files) i) = file_with files i"
proof -
  from assms(2) obtain f where f: "f \<in> set files" "mf_id f = i" by blast
  have "collect_map (map (\<lambda>f. (mf_id f, f)) files) i = Some f"
    using assms(1) f by (intro collect_map_distinct) (auto simp: comp_def)
  moreover obtain g where g: "List.find (\<lambda>f. mf_id f = i) files = Some g"
    using f by (metis (mono_tags, lifting) find_exists)
  then have "g = f" using find_SomeD [OF g] f assms(1) by (auto simp: distinct_map dest: inj_onD)
  ultimately show ?thesis using g by (simp add: file_with_def)
qed

definition map_of_sources ::
  "globset \<Rightarrow> classifier_config \<Rightarrow> review_map_identity \<Rightarrow> owner_rule list option
     \<Rightarrow> review_map_input_file list \<Rightarrow> review_map" where
  "map_of_sources glob config identity owners ss =
     (let files = map (planned glob config (ri_head_sha identity) owners) ss
      in \<lparr>rm_schema_version = REVIEW_MAP_SCHEMA_VERSION, rm_identity = identity,
          rm_status = Ready, rm_totals = totals files,
          rm_groups = map (group_of (ri_head_sha identity)
            (collect_map (map (\<lambda>f. (mf_id f, f)) files))) (fold add_to_group files []),
          rm_files = files, rm_analysis = None\<rparr>)"

lemma map_of_sources_exact:
  "exact_map (map_of_sources glob config identity owners ss) \<longleftrightarrow>
     distinct (map (mf_id \<circ> planned glob config (ri_head_sha identity) owners) ss)"
proof -
  define files where "files = map (planned glob config (ri_head_sha identity) owners) ss"
  define m where "m = map_of_sources glob config identity owners ss"
  define g where "g = fold add_to_group files []"
  have ms: "mset (entry_members g) = mset (map mf_id files)"
    using groups_members [of "[]" files] by (simp add: g_def entry_members_def)
  have groups: "rm_groups m = map (group_of (ri_head_sha identity)
      (collect_map (map (\<lambda>f. (mf_id f, f)) files))) g"
    and fs: "rm_files m = files" and t: "rm_totals m = totals files"
    by (simp_all add: m_def map_of_sources_def files_def g_def Let_def)
  have members: "all_members (rm_groups m) = entry_members g"
    unfolding groups by (rule all_members_group_of)
  have set_eq: "set (entry_members g) = set (map mf_id files)" using ms by (rule mset_eq_setD)
  have dist: "distinct (entry_members g) \<longleftrightarrow> distinct (map mf_id files)"
    using ms by (metis mset_eq_imp_distinct_iff)
  have sums: "\<forall>h \<in> set (rm_groups m). group_sums_ok files h" if d: "distinct (map mf_id files)"
  proof
    fix h assume "h \<in> set (rm_groups m)"
    then obtain key label kind ids where e: "(key, label, kind, ids) \<in> set g"
      and h: "h = group_of (ri_head_sha identity) (collect_map (map (\<lambda>f. (mf_id f, f)) files))
        (key, label, kind, ids)" unfolding groups by auto
    have "set ids \<subseteq> set (entry_members g)" using e by (force simp: entry_members_def)
    then have "\<forall>i \<in> set ids. the (collect_map (map (\<lambda>f. (mf_id f, f)) files) i) = file_with files i"
      using set_eq by (auto intro!: by_id_distinct [OF d])
    then show "group_sums_ok files h"
      unfolding group_sums_ok_def h group_of_fields by (auto intro!: arg_cong [of _ _ sum_list])
  qed
  have "exact_map m \<longleftrightarrow> distinct (map mf_id files)"
    unfolding exact_map_def members fs t using dist set_eq sums by auto
  then show ?thesis by (simp add: m_def files_def)
qed

definition owners_of :: "globset \<Rightarrow> string option \<Rightarrow> code_owners_error + owner_rule list option" where
  "owners_of glob source =
     (case source of None \<Rightarrow> Inr None
      | Some s \<Rightarrow> and_then (code_owners_parse glob s) (\<lambda>rules. Inr (Some rules)))"

lemma build_review_map_iff:
  "build_review_map glob pick input config = Inr m \<longleftrightarrow>
     (\<exists>owners. owners_of glob (in_codeowners input) = Inr owners
        \<and> (\<forall>s \<in> set (in_files input). source_ok s)
        \<and> distinct (map (norm_path \<circ> mi_path) (in_files input))
        \<and> m = map_of_sources glob config (in_identity input) owners (in_files input)
        \<and> exact_map m)"
  by (cases "in_codeowners input")
     (auto simp: build_review_map_def Let_def and_then_Inr_iff map_err_Inr_iff plan_files_iff
       validate_iff owners_of_def map_of_sources_def)

section \<open>Properties\<close>

text \<open>
  C9. A map the planner returns is exact and is the map of its input: its files are the
  input's files in the input's order, under their normalized and pairwise different paths,
  every one of them is in exactly one group, the groups have different identifiers and each
  holds only files whose path and kind give its key.
\<close>

theorem build_review_map_correct:
  assumes "build_review_map glob pick input config = Inr m"
  shows "exact_map m \<and> rm_identity m = in_identity input
    \<and> map mf_path (rm_files m) = map (norm_path \<circ> mi_path) (in_files input)
    \<and> distinct (map mf_path (rm_files m)) \<and> distinct (map mg_id (rm_groups m))
    \<and> (\<forall>g \<in> set (rm_groups m). \<forall>i \<in> set (mg_file_ids g). \<exists>f \<in> set (rm_files m).
         mf_id f = i
         \<and> mg_id g = ''group:'' @ ri_head_sha (in_identity input) @ '':''
             @ fst (group_for (mf_path f) (mf_kind f)))"
proof -
  from assms obtain owners where
    m: "m = map_of_sources glob config (in_identity input) owners (in_files input)"
    and ex: "exact_map m"
    and paths: "distinct (map (norm_path \<circ> mi_path) (in_files input))"
    by (auto simp: build_review_map_iff)
  define g where "g = fold add_to_group (rm_files m) []"
  have groups: "rm_groups m = map (group_of (ri_head_sha (in_identity input))
      (collect_map (map (\<lambda>f. (mf_id f, f)) (rm_files m)))) g"
    by (simp add: m map_of_sources_def g_def Let_def)
  have path_eq: "map mf_path (rm_files m) = map (norm_path \<circ> mi_path) (in_files input)"
    by (simp add: m map_of_sources_def planned_def Let_def)
  have "om_ok g" using groups_members [of "[]" "rm_files m"] by (simp add: g_def)
  then have "distinct (map fst g)" by (rule om_ok_distinct)
  moreover have "map mg_id (rm_groups m)
      = map (\<lambda>k. ''group:'' @ ri_head_sha (in_identity input) @ '':'' @ k) (map fst g)"
    unfolding groups by (auto simp: group_of_fields)
  ultimately have ids: "distinct (map mg_id (rm_groups m))"
    by (simp add: distinct_map inj_on_def)
  have "keyed_by_files (set (rm_files m)) g"
    unfolding g_def by (rule groups_keyed) (simp_all add: keyed_by_files_def)
  then have "\<forall>h \<in> set (rm_groups m). \<forall>i \<in> set (mg_file_ids h). \<exists>f \<in> set (rm_files m).
      mf_id f = i \<and> mg_id h = ''group:'' @ ri_head_sha (in_identity input) @ '':''
        @ fst (group_for (mf_path f) (mf_kind f))"
    unfolding groups keyed_by_files_def by (fastforce simp: group_of_fields)
  moreover have "rm_identity m = in_identity input" by (simp add: m map_of_sources_def Let_def)
  moreover have "distinct (map mf_path (rm_files m))" unfolding path_eq by (rule paths)
  ultimately show ?thesis using ex path_eq ids by blast
qed

definition source_file_id :: "string \<Rightarrow> review_map_input_file \<Rightarrow> string" where
  "source_file_id head_sha s =
     review_file_id head_sha (norm_path (mi_path s)) (map_option norm_path (mi_previous_path s))"

text \<open>
  Exactly when a map is built: the owners file, if any, parses, every path and previous
  path is a clean relative path, no two files have the same path, and no two have the same
  identifier.
\<close>

lemma build_review_map_succeeds_iff:
  "(\<exists>m. build_review_map glob pick input config = Inr m) \<longleftrightarrow>
     (\<exists>owners. owners_of glob (in_codeowners input) = Inr owners)
     \<and> (\<forall>s \<in> set (in_files input). source_ok s)
     \<and> distinct (map (norm_path \<circ> mi_path) (in_files input))
     \<and> distinct (map (source_file_id (ri_head_sha (in_identity input))) (in_files input))"
proof -
  have "mf_id \<circ> planned glob config sha owners = source_file_id sha" for sha owners
    by (rule ext) (simp add: planned_def source_file_id_def Let_def)
  then have "exact_map (map_of_sources glob config identity owners ss) \<longleftrightarrow>
      distinct (map (source_file_id (ri_head_sha identity)) ss)" for identity owners ss
    by (simp only: map_of_sources_exact)
  then show ?thesis unfolding build_review_map_iff by auto
qed

definition input_of :: "(string option \<times> string) list \<Rightarrow> review_map_input" where
  "input_of ps =
     \<lparr>in_identity = \<lparr>ri_repository = ''o/r'', ri_pull_request = 1, ri_base_sha = ''b'', ri_head_sha = ''h''\<rparr>,
      in_files = map (\<lambda>(previous, path). \<lparr>mi_path = path, mi_previous_path = previous,
        mi_status = ''modified'', mi_additions = 1, mi_deletions = 0, mi_patch = None,
        mi_binary = False\<rparr>) ps,
      in_codeowners = None\<rparr>"

definition built :: "(string option \<times> string) list \<Rightarrow> review_map_error + review_map" where
  "built ps = build_review_map (\<lambda>_. Inl []) hd (input_of ps) (with_patterns [] [])"

theorem build_review_map_correct_witness:
  "exact_map (projr (built [(None, ''src/a.rs''), (Some ''old.md'', ''docs/new.md'')]))"
proof -
  let ?b = "built [(None, ''src/a.rs''), (Some ''old.md'', ''docs/new.md'')]"
  have "\<not> isl ?b" by code_simp
  then have "build_review_map (\<lambda>_. Inl []) hd
      (input_of [(None, ''src/a.rs''), (Some ''old.md'', ''docs/new.md'')]) (with_patterns [] [])
      = Inr (projr ?b)" by (simp add: built_def sum.collapse(2))
  from build_review_map_correct [OF this] show ?thesis by blast
qed

lemma build_review_map_succeeds_iff_instance:
  "\<exists>m. build_review_map (\<lambda>_. Inl []) hd
     (input_of [(None, ''src/a.rs''), (Some ''old.md'', ''docs/new.md'')]) (with_patterns [] []) = Inr m"
proof -
  let ?i = "input_of [(None, ''src/a.rs''), (Some ''old.md'', ''docs/new.md'')]"
  have "owners_of (\<lambda>_. Inl []) (in_codeowners ?i) = Inr None" by (simp add: owners_of_def input_of_def)
  moreover have "path_accepted ''src/a.rs''" "path_accepted ''old.md''" "path_accepted ''docs/new.md''"
    by code_simp+
  then have "\<forall>s \<in> set (in_files ?i). source_ok s" by (simp add: input_of_def source_ok_def)
  moreover have "distinct (map (norm_path \<circ> mi_path) (in_files ?i))" by code_simp
  moreover have "distinct (map (source_file_id (ri_head_sha (in_identity ?i))) (in_files ?i))" by code_simp
  ultimately show ?thesis unfolding build_review_map_succeeds_iff by blast
qed

text \<open>
  Identifiers of files with different paths can be equal: a file called \<open>a->b\<close> beside a
  file renamed from \<open>a\<close> to \<open>b\<close> makes the planner reject the whole pull request.
\<close>

lemma file_id_collision:
  "build_review_map glob pick (input_of [(None, ''a->b''), (Some ''a'', ''b'')]) (with_patterns [] [])
     = Inl (DuplicateMembership ''file:h:a->b'')"
  by code_simp

text \<open>
  The key of the group of top-level files is also the key of a directory called \<open>root\<close>: a
  file at the top level and one in that directory end in a single group, labelled after
  whichever came first.
\<close>

lemma root_group_collision:
  "map (\<lambda>g. (mg_label g, length (mg_file_ids g))) (rm_groups (projr (built [(None, ''a.rs''), (None, ''root/b.rs'')])))
     = [(''Root files'', 2)]
   \<and> map (\<lambda>g. (mg_label g, length (mg_file_ids g))) (rm_groups (projr (built [(None, ''root/b.rs''), (None, ''a.rs'')])))
     = [(''root/'', 2)]"
  by code_simp

end
