(* ===== verification/Enrichment.thy ===== *)
theory Enrichment
  imports Planner
begin

text \<open>
  Enriching a review map with a proposal of a language model,
  \<open>crates/ramo-core/src/review_map/enrichment.rs\<close>: the proposal is validated against the map
  (\<open>validate_enrichment\<close>) and merged into it (\<open>merge_enrichment\<close>). As in \<open>Planner\<close>, \<open>pick\<close>
  stands for the element a \<open>HashSet\<close> iterator yields first.
\<close>

section \<open>Data\<close>

record enrichment_exact_group =
  eg_id :: string
  eg_label :: string
  eg_kind :: review_file_kind
  eg_paths :: "string list"

record enrichment_input_file =
  ef_path :: string
  ef_kind :: review_file_kind
  ef_additions :: usize
  ef_deletions :: usize
  ef_coverage :: patch_coverage
  ef_patch :: "string option"

record enrichment_coverage =
  ec_analyzed_paths :: "string list"
  ec_truncated_paths :: "string list"
  ec_metadata_only_paths :: "string list"
  ec_binary_paths :: "string list"

record enrichment_request =
  er_schema_version :: u16
  er_identity :: review_map_identity
  er_groups :: "enrichment_exact_group list"
  er_files :: "enrichment_input_file list"
  er_coverage :: enrichment_coverage

record proposed_group =
  pg_label :: string
  pg_summary :: string
  pg_risk :: "string option"
  pg_review_priority :: usize
  pg_paths :: "string list"

record proposed_file_insight =
  pf_path :: string
  pf_summary :: string
  pf_risk :: "string option"

record enrichment_proposal =
  ep_groups :: "proposed_group list"
  ep_files :: "proposed_file_insight list"
  ep_review_order :: "string list"
  ep_coverage :: enrichment_coverage

datatype enrichment_error =
    UnknownFile string
  | DuplicateFile string
  | FixedClassification string
  | MissingFile string
  | DuplicateOrder string
  | MissingOrder string
  | InvalidText string nat
  | DuplicateCoverage string
  | InvalidMerge string

fun review_map_error_display :: "review_map_error \<Rightarrow> string" where
  "review_map_error_display (InvalidPath p) = ''invalid changed path: '' @ p"
| "review_map_error_display (DuplicatePath p) = ''changed path appears more than once: '' @ p"
| "review_map_error_display (InvalidCodeOwners e) = ''invalid CODEOWNERS: '' @ e"
| "review_map_error_display (DuplicateMembership i) = ''file belongs to more than one group: '' @ i"
| "review_map_error_display (MissingMembership i) = ''file is missing from all groups: '' @ i"
| "review_map_error_display TotalsMismatch = ''review map totals do not match its files''"

section \<open>Validation\<close>

definition MAX_LABEL_CHARS :: nat where "MAX_LABEL_CHARS = 80"
definition MAX_SUMMARY_CHARS :: nat where "MAX_SUMMARY_CHARS = 400"
definition MAX_RISK_CHARS :: nat where "MAX_RISK_CHARS = 240"

definition is_fixed :: "review_file_kind \<Rightarrow> bool" where
  "is_fixed kind \<longleftrightarrow> kind = Test \<or> kind = Generated"

definition validate_text :: "string \<Rightarrow> string \<Rightarrow> nat \<Rightarrow> enrichment_error + unit" where
  "validate_text field v maximum =
     (let n = char_count (trim v) in if n = 0 \<or> maximum < n then Inl (InvalidText field maximum) else Inr ())"

definition validate_optional_text :: "string \<Rightarrow> string option \<Rightarrow> nat \<Rightarrow> enrichment_error + unit" where
  "validate_optional_text field v maximum =
     (case v of None \<Rightarrow> Inr () | Some v \<Rightarrow> validate_text field v maximum)"

definition kinds_by_path :: "review_map_file list \<Rightarrow> string \<rightharpoonup> review_file_kind" where
  "kinds_by_path files = collect_map (map (\<lambda>f. (mf_path f, mf_kind f)) files)"

text \<open>The set \<open>flexible\<close>, as a list without repetitions.\<close>

definition flexible_paths :: "review_map_file list \<Rightarrow> string list" where
  "flexible_paths files =
     filter (\<lambda>p. \<not> is_fixed (the (kinds_by_path files p))) (remdups (map mf_path files))"

text \<open>The bodies of the loops.\<close>

definition check_group_path ::
  "(string \<rightharpoonup> review_file_kind) \<Rightarrow> string \<Rightarrow> string list \<Rightarrow> enrichment_error + string list" where
  "check_group_path files path grouped =
     (case files path of
        None \<Rightarrow> Inl (UnknownFile path)
      | Some kind \<Rightarrow>
          if is_fixed kind then Inl (FixedClassification path)
          else if path \<in> set grouped then Inl (DuplicateFile path)
          else Inr (path # grouped))"

definition check_proposed_group ::
  "(string \<rightharpoonup> review_file_kind) \<Rightarrow> proposed_group \<Rightarrow> string list \<Rightarrow> enrichment_error + string list" where
  "check_proposed_group files g grouped =
     and_then (validate_text ''group label'' (pg_label g) MAX_LABEL_CHARS) (\<lambda>_.
     and_then (validate_text ''group summary'' (pg_summary g) MAX_SUMMARY_CHARS) (\<lambda>_.
     and_then (validate_optional_text ''group risk'' (pg_risk g) MAX_RISK_CHARS) (\<lambda>_.
       try_fold (check_group_path files) (pg_paths g) grouped)))"

definition check_insight ::
  "(string \<rightharpoonup> review_file_kind) \<Rightarrow> proposed_file_insight \<Rightarrow> string list \<Rightarrow> enrichment_error + string list" where
  "check_insight files insight seen =
     (if files (pf_path insight) = None then Inl (UnknownFile (pf_path insight))
      else if pf_path insight \<in> set seen then Inl (DuplicateFile (pf_path insight))
      else and_then (validate_text ''file summary'' (pf_summary insight) MAX_SUMMARY_CHARS) (\<lambda>_.
           and_then (validate_optional_text ''file risk'' (pf_risk insight) MAX_RISK_CHARS) (\<lambda>_.
             Inr (pf_path insight # seen))))"

definition check_order ::
  "(string \<rightharpoonup> review_file_kind) \<Rightarrow> string list \<Rightarrow> string \<Rightarrow> string list \<Rightarrow> enrichment_error + string list" where
  "check_order files flexible path ordered =
     (if files path = None then Inl (UnknownFile path)
      else if path \<notin> set flexible then Inl (FixedClassification path)
      else if path \<in> set ordered then Inl (DuplicateOrder path)
      else Inr (path # ordered))"

definition check_coverage ::
  "(string \<rightharpoonup> review_file_kind) \<Rightarrow> string \<Rightarrow> string list \<Rightarrow> enrichment_error + string list" where
  "check_coverage files path seen =
     (if files path = None then Inl (UnknownFile path)
      else if path \<in> set seen then Inl (DuplicateCoverage path)
      else Inr (path # seen))"

definition coverage_paths :: "enrichment_coverage \<Rightarrow> string list" where
  "coverage_paths c =
     ec_analyzed_paths c @ ec_truncated_paths c @ ec_metadata_only_paths c @ ec_binary_paths c"

definition validate_coverage ::
  "(string \<rightharpoonup> review_file_kind) \<Rightarrow> enrichment_coverage \<Rightarrow> enrichment_error + unit" where
  "validate_coverage files c =
     and_then (try_fold (check_coverage files) (coverage_paths c) []) (\<lambda>_. Inr ())"

text \<open>\<open>set.difference(other).next()\<close> as an error\<close>

definition missing_from ::
  "(string list \<Rightarrow> string) \<Rightarrow> (string \<Rightarrow> enrichment_error) \<Rightarrow> string list \<Rightarrow> string list
     \<Rightarrow> enrichment_error + unit" where
  "missing_from pick err wanted found =
     (case filter (\<lambda>p. p \<notin> set found) wanted of
        [] \<Rightarrow> Inr ()
      | p # ps \<Rightarrow> Inl (err (pick (p # ps))))"

definition validate_enrichment ::
  "(string list \<Rightarrow> string) \<Rightarrow> review_map \<Rightarrow> enrichment_proposal \<Rightarrow> enrichment_error + unit" where
  "validate_enrichment pick m proposal =
     (let files = kinds_by_path (rm_files m); flexible = flexible_paths (rm_files m) in
      and_then (try_fold (check_proposed_group files) (ep_groups proposal) []) (\<lambda>grouped.
      and_then (missing_from pick MissingFile flexible grouped) (\<lambda>_.
      and_then (try_fold (check_insight files) (ep_files proposal) []) (\<lambda>_.
      and_then (try_fold (check_order files flexible) (ep_review_order proposal) []) (\<lambda>ordered.
      and_then (missing_from pick MissingOrder flexible ordered) (\<lambda>_.
        validate_coverage files (ep_coverage proposal)))))))"

section \<open>Merging\<close>

text \<open>\<open>by_path[path]\<close> panics on an unknown path; the validation before it excludes that.\<close>

definition proposed_map_group ::
  "string \<Rightarrow> (string \<rightharpoonup> review_map_file) \<Rightarrow> nat \<times> proposed_group \<Rightarrow> review_map_group" where
  "proposed_map_group head_sha by_path numbered =
     (case numbered of (index, proposed) \<Rightarrow>
       let members = map (\<lambda>path. the (by_path path)) (pg_paths proposed);
           kind = (case members of
                     [] \<Rightarrow> Other
                   | f # _ \<Rightarrow> if list_all (\<lambda>g. mf_kind g = mf_kind f) members then mf_kind f else Other)
       in \<lparr>mg_id = ''group:'' @ head_sha @ '':ai:'' @ nat_str index,
           mg_label = trim (pg_label proposed), mg_kind = kind,
           mg_file_ids = map mf_id members,
           mg_additions = sum_list (map mf_additions members),
           mg_deletions = sum_list (map mf_deletions members),
           mg_collapsed_by_default = False,
           mg_insight = Some \<lparr>gi_summary = trim (pg_summary proposed),
                              gi_risk = map_option trim (pg_risk proposed),
                              gi_review_priority = pg_review_priority proposed\<rparr>\<rparr>)"

definition enrich_file ::
  "(string \<rightharpoonup> proposed_file_insight) \<Rightarrow> (string \<rightharpoonup> nat) \<Rightarrow> review_map_file \<Rightarrow> review_map_file" where
  "enrich_file insights order f =
     f\<lparr>mf_insight := map_option (\<lambda>insight. \<lparr>fi_summary = trim (pf_summary insight),
                                            fi_risk = map_option trim (pf_risk insight)\<rparr>)
                       (insights (mf_path f)),
       mf_recommended_order := order (mf_path f)\<rparr>"

definition merged_map :: "review_map \<Rightarrow> enrichment_proposal \<Rightarrow> review_map_analysis \<Rightarrow> review_map" where
  "merged_map m proposal analysis =
     (let by_path = collect_map (map (\<lambda>f. (mf_path f, f)) (rm_files m));
          groups = map (proposed_map_group (ri_head_sha (rm_identity m)) by_path)
                     (zip [0..<length (ep_groups proposal)] (ep_groups proposal))
                   @ filter (\<lambda>g. is_fixed (mg_kind g)) (rm_groups m);
          insights = collect_map (map (\<lambda>i. (pf_path i, i)) (ep_files proposal));
          order = collect_map (map (\<lambda>(index, path). (path, index + 1))
                    (zip [0..<length (ep_review_order proposal)] (ep_review_order proposal)))
      in m\<lparr>rm_groups := groups, rm_files := map (enrich_file insights order) (rm_files m),
           rm_status := Enriched, rm_analysis := Some analysis\<rparr>)"

definition merge_enrichment ::
  "(string list \<Rightarrow> string) \<Rightarrow> review_map \<Rightarrow> enrichment_proposal \<Rightarrow> review_map_analysis
     \<Rightarrow> enrichment_error + review_map" where
  "merge_enrichment pick m proposal analysis =
     and_then (validate_enrichment pick m proposal) (\<lambda>_.
       let merged = merged_map m proposal analysis in
       and_then (map_err (\<lambda>e. InvalidMerge (review_map_error_display e)) (validate_exact_map pick merged))
         (\<lambda>_. Inr merged))"

section \<open>What a valid proposal is\<close>

definition text_valid :: "string \<Rightarrow> nat \<Rightarrow> bool" where
  "text_valid v maximum \<longleftrightarrow> 1 \<le> char_count (trim v) \<and> char_count (trim v) \<le> maximum"

definition risk_valid :: "string option \<Rightarrow> bool" where
  "risk_valid r \<longleftrightarrow> (\<forall>v. r = Some v \<longrightarrow> text_valid v MAX_RISK_CHARS)"

definition group_texts_valid :: "proposed_group \<Rightarrow> bool" where
  "group_texts_valid g \<longleftrightarrow>
     text_valid (pg_label g) MAX_LABEL_CHARS \<and> text_valid (pg_summary g) MAX_SUMMARY_CHARS
     \<and> risk_valid (pg_risk g)"

definition known_paths :: "review_map \<Rightarrow> string set" where
  "known_paths m = mf_path ` set (rm_files m)"

definition proposal_ok :: "review_map \<Rightarrow> enrichment_proposal \<Rightarrow> bool" where
  "proposal_ok m p \<longleftrightarrow>
     (\<forall>g \<in> set (ep_groups p). group_texts_valid g)
     \<and> distinct (concat (map pg_paths (ep_groups p)))
     \<and> set (concat (map pg_paths (ep_groups p))) = set (flexible_paths (rm_files m))
     \<and> (\<forall>i \<in> set (ep_files p). pf_path i \<in> known_paths m
          \<and> text_valid (pf_summary i) MAX_SUMMARY_CHARS \<and> risk_valid (pf_risk i))
     \<and> distinct (map pf_path (ep_files p))
     \<and> distinct (ep_review_order p) \<and> set (ep_review_order p) = set (flexible_paths (rm_files m))
     \<and> distinct (coverage_paths (ep_coverage p)) \<and> set (coverage_paths (ep_coverage p)) \<subseteq> known_paths m"

lemma validate_text_iff: "validate_text field v n = Inr () \<longleftrightarrow> text_valid v n"
  by (auto simp: validate_text_def text_valid_def Let_def)

lemma validate_optional_iff:
  "validate_optional_text field v MAX_RISK_CHARS = Inr () \<longleftrightarrow> risk_valid v"
  by (cases v) (auto simp: validate_optional_text_def risk_valid_def validate_text_iff)

lemma kinds_by_path_None_iff: "kinds_by_path fs p = None \<longleftrightarrow> p \<notin> mf_path ` set fs"
  by (simp add: kinds_by_path_def collect_map_None_iff image_image)

lemma flexible_iff:
  "p \<in> set (flexible_paths fs) \<longleftrightarrow> (\<exists>k. kinds_by_path fs p = Some k \<and> \<not> is_fixed k)"
proof -
  have "p \<in> mf_path ` set fs \<longleftrightarrow> (\<exists>k. kinds_by_path fs p = Some k)"
    using kinds_by_path_None_iff [of fs p] by auto
  then show ?thesis by (auto simp: flexible_paths_def)
qed

lemma check_group_path_iff:
  "check_group_path (kinds_by_path fs) path s = Inr s' \<longleftrightarrow>
     path \<in> set (flexible_paths fs) \<and> path \<notin> set s \<and> s' = path # s"
  by (auto simp: check_group_path_def flexible_iff split: option.split)

lemma check_proposed_group_iff:
  "check_proposed_group (kinds_by_path fs) g s = Inr s' \<longleftrightarrow>
     (group_texts_valid g \<and> set (pg_paths g) \<subseteq> set (flexible_paths fs))
     \<and> distinct (pg_paths g) \<and> set (pg_paths g) \<inter> set s = {} \<and> s' = rev (pg_paths g) @ s"
  using try_fold_insert [where k = "\<lambda>x. x" and xs = "pg_paths g" and s = s and s' = s', OF check_group_path_iff [of fs]]
  by (auto simp: check_proposed_group_def and_then_Inr_iff validate_text_iff validate_optional_iff
      group_texts_valid_def)

lemma check_insight_iff:
  "check_insight (kinds_by_path fs) i s = Inr s' \<longleftrightarrow>
     (pf_path i \<in> mf_path ` set fs \<and> text_valid (pf_summary i) MAX_SUMMARY_CHARS
      \<and> risk_valid (pf_risk i)) \<and> pf_path i \<notin> set s \<and> s' = pf_path i # s"
  by (auto simp: check_insight_def and_then_Inr_iff validate_text_iff validate_optional_iff
      kinds_by_path_None_iff)

lemma flexible_known: "p \<in> set (flexible_paths fs) \<Longrightarrow> p \<in> mf_path ` set fs"
  using kinds_by_path_None_iff [of fs p] by (auto simp: flexible_iff)

lemma check_order_iff:
  "check_order (kinds_by_path fs) (flexible_paths fs) p s = Inr s' \<longleftrightarrow>
     p \<in> set (flexible_paths fs) \<and> p \<notin> set s \<and> s' = p # s"
  using flexible_known [of p fs] by (auto simp: check_order_def kinds_by_path_None_iff)

lemma check_coverage_iff:
  "check_coverage (kinds_by_path fs) p s = Inr s' \<longleftrightarrow>
     p \<in> mf_path ` set fs \<and> p \<notin> set s \<and> s' = p # s"
  by (auto simp: check_coverage_def kinds_by_path_None_iff)

lemma missing_from_iff: "missing_from pick err wanted found = Inr () \<longleftrightarrow> set wanted \<subseteq> set found"
proof -
  have "missing_from pick err wanted found = Inr () \<longleftrightarrow> filter (\<lambda>p. p \<notin> set found) wanted = []"
    by (simp add: missing_from_def split: list.split)
  then show ?thesis by (auto simp: filter_Nil_iff)
qed

lemma validate_enrichment_Inr_iff: "validate_enrichment pick m p = Inr () \<longleftrightarrow> proposal_ok m p"
proof -
  let ?fs = "rm_files m"
  have groups: "try_fold (check_proposed_group (kinds_by_path ?fs)) (ep_groups p) [] = Inr s \<longleftrightarrow>
      (\<forall>g \<in> set (ep_groups p). group_texts_valid g \<and> set (pg_paths g) \<subseteq> set (flexible_paths ?fs))
      \<and> distinct (concat (map pg_paths (ep_groups p)))
      \<and> s = rev (concat (map pg_paths (ep_groups p)))" for s
    using try_fold_insert_many [where k = pg_paths and xs = "ep_groups p" and s = "[]" and s' = s, OF check_proposed_group_iff [of ?fs]] by simp
  have insights: "try_fold (check_insight (kinds_by_path ?fs)) (ep_files p) [] = Inr s \<longleftrightarrow>
      (\<forall>i \<in> set (ep_files p). pf_path i \<in> mf_path ` set ?fs
         \<and> text_valid (pf_summary i) MAX_SUMMARY_CHARS \<and> risk_valid (pf_risk i))
      \<and> distinct (map pf_path (ep_files p)) \<and> s = rev (map pf_path (ep_files p))" for s
    using try_fold_insert [where k = pf_path and xs = "ep_files p" and s = "[]" and s' = s, OF check_insight_iff [of ?fs]] by simp
  have order: "try_fold (check_order (kinds_by_path ?fs) (flexible_paths ?fs)) (ep_review_order p) [] = Inr s
      \<longleftrightarrow> set (ep_review_order p) \<subseteq> set (flexible_paths ?fs) \<and> distinct (ep_review_order p)
        \<and> s = rev (ep_review_order p)" for s
    using try_fold_insert [where k = "\<lambda>x. x" and xs = "ep_review_order p" and s = "[]" and s' = s, OF check_order_iff [of ?fs]]
    by (simp add: subset_eq)
  have coverage: "validate_coverage (kinds_by_path ?fs) c = Inr () \<longleftrightarrow>
      set (coverage_paths c) \<subseteq> mf_path ` set ?fs \<and> distinct (coverage_paths c)" for c
    using try_fold_insert [where k = "\<lambda>x. x" and xs = "coverage_paths c" and s = "[]", OF check_coverage_iff [of ?fs]]
    by (auto simp: validate_coverage_def and_then_Inr_iff subset_iff)
  show ?thesis
    unfolding validate_enrichment_def Let_def and_then_Inr_iff groups insights order coverage
      proposal_ok_def known_paths_def
    by (auto simp: missing_from_iff subset_iff)
qed

text \<open>
  The validation of a proposal accepts exactly the proposals that regroup every file that
  is not a test and not generated, each once; put the same files in a review order, each
  once; describe known files only, each at most once, with texts of the allowed lengths; and
  report a coverage without repetitions.
\<close>

lemma validate_enrichment_iff:
  "validate_enrichment pick m p = Inr () \<longleftrightarrow> proposal_ok m p"
  by (rule validate_enrichment_Inr_iff)

section \<open>Merging\<close>

text \<open>The maps the planner builds keep the two fixed kinds in groups of their own.\<close>

definition fixed_separate :: "review_map \<Rightarrow> bool" where
  "fixed_separate m \<longleftrightarrow>
     (\<forall>g \<in> set (rm_groups m). \<forall>f \<in> set (rm_files m).
        mf_id f \<in> set (mg_file_ids g) \<longrightarrow> is_fixed (mf_kind f) = is_fixed (mg_kind g))"

definition well_planned :: "review_map \<Rightarrow> bool" where
  "well_planned m \<longleftrightarrow>
     exact_map m \<and> distinct (map mf_id (rm_files m)) \<and> distinct (map mf_path (rm_files m))
     \<and> fixed_separate m"

lemma enrich_file_fields [simp]:
  "mf_id (enrich_file i r f) = mf_id f" "mf_path (enrich_file i r f) = mf_path f"
  "mf_kind (enrich_file i r f) = mf_kind f" "mf_additions (enrich_file i r f) = mf_additions f"
  "mf_deletions (enrich_file i r f) = mf_deletions f"
  by (simp_all add: enrich_file_def)

lemma totals_enrich: "totals (map (enrich_file i r) fs) = totals fs"
proof -
  have "count_file (enrich_file i r f) t = count_file f t" for f t by (simp add: count_file_def)
  then have "fold count_file (map (enrich_file i r) fs) t = fold count_file fs t" for t
    by (induction fs arbitrary: t) simp_all
  then show ?thesis by (simp add: totals_def)
qed

lemma file_with_distinct:
  "distinct (map mf_id fs) \<Longrightarrow> f \<in> set fs \<Longrightarrow> file_with fs (mf_id f) = f"
proof -
  assume d: "distinct (map mf_id fs)" and f: "f \<in> set fs"
  then obtain g where g: "List.find (\<lambda>h. mf_id h = mf_id f) fs = Some g"
    by (metis (mono_tags, lifting) find_exists)
  from find_SomeD [OF g] d f have "g = f" by (auto simp: distinct_map dest: inj_onD)
  with g show ?thesis by (simp add: file_with_def)
qed

lemma file_with_enrich:
  "distinct (map mf_id fs) \<Longrightarrow> f \<in> set fs \<Longrightarrow>
   file_with (map (enrich_file i r) fs) (mf_id f) = enrich_file i r f"
  using file_with_distinct [of "map (enrich_file i r) fs" "enrich_file i r f"] by (simp add: comp_def)

lemma by_path_distinct:
  "distinct (map mf_path fs) \<Longrightarrow> f \<in> set fs \<Longrightarrow>
   collect_map (map (\<lambda>f. (mf_path f, f)) fs) (mf_path f) = Some f"
  by (rule collect_map_distinct) (auto simp: comp_def)

lemma flexible_distinct:
  "distinct (map mf_path fs) \<Longrightarrow>
   set (flexible_paths fs) = mf_path ` {f \<in> set fs. \<not> is_fixed (mf_kind f)}"
proof -
  assume d: "distinct (map mf_path fs)"
  have "kinds_by_path fs (mf_path f) = Some (mf_kind f)" if "f \<in> set fs" for f
    unfolding kinds_by_path_def using d that by (intro collect_map_distinct) (auto simp: comp_def)
  then have "p \<in> set (flexible_paths fs) \<longleftrightarrow> (\<exists>f \<in> set fs. p = mf_path f \<and> \<not> is_fixed (mf_kind f))" for p
    using flexible_known [of p fs] by (fastforce simp: flexible_iff)
  then show ?thesis by auto
qed

text \<open>The members of the proposed groups are the flexible files, each once.\<close>

definition proposed_ids :: "review_map \<Rightarrow> proposed_group \<Rightarrow> string list" where
  "proposed_ids m g =
     map (\<lambda>path. mf_id (the (collect_map (map (\<lambda>f. (mf_path f, f)) (rm_files m)) path))) (pg_paths g)"

lemma proposed_ids_flexible:
  assumes "distinct (map mf_id (rm_files m))" and "distinct (map mf_path (rm_files m))"
    and "distinct ps" and "set ps = set (flexible_paths (rm_files m))"
  defines "ids \<equiv> map (\<lambda>path. mf_id (the (collect_map (map (\<lambda>f. (mf_path f, f)) (rm_files m)) path))) ps"
  shows "distinct ids" and "set ids = mf_id ` {f \<in> set (rm_files m). \<not> is_fixed (mf_kind f)}"
proof -
  let ?fs = "rm_files m"
  let ?F = "{f \<in> set ?fs. \<not> is_fixed (mf_kind f)}"
  let ?at = "\<lambda>path. the (collect_map (map (\<lambda>f. (mf_path f, f)) ?fs) path)"
  have ps: "set ps = mf_path ` ?F" using assms(4) flexible_distinct [OF assms(2)] by simp
  have at: "?at (mf_path f) = f" if "f \<in> set ?fs" for f using by_path_distinct [OF assms(2) that] by simp
  show "set ids = mf_id ` ?F" unfolding ids_def using ps at by (auto simp: image_iff)
  have "inj_on (\<lambda>p. mf_id (?at p)) (mf_path ` ?F)"
    using assms(1) at by (auto simp: inj_on_def distinct_map)
  then show "distinct ids" using assms(3) ps by (simp add: ids_def distinct_map)
qed

lemma filter_members:
  "distinct (all_members gs) \<Longrightarrow> distinct (all_members (filter P gs))"
  by (induction gs) (auto simp: all_members_def)

lemma fixed_members:
  assumes "well_planned m"
  shows "set (all_members (filter (\<lambda>g. is_fixed (mg_kind g)) (rm_groups m)))
    = mf_id ` {f \<in> set (rm_files m). is_fixed (mf_kind f)}"
proof
  let ?G = "filter (\<lambda>g. is_fixed (mg_kind g)) (rm_groups m)"
  show "set (all_members ?G) \<subseteq> mf_id ` {f \<in> set (rm_files m). is_fixed (mf_kind f)}"
  proof
    fix i assume "i \<in> set (all_members ?G)"
    then obtain g where g: "g \<in> set (rm_groups m)" "is_fixed (mg_kind g)" "i \<in> set (mg_file_ids g)"
      by (auto simp: all_members_def)
    with assms have "i \<in> set (map mf_id (rm_files m))"
      by (auto simp: well_planned_def exact_map_def all_members_def)
    then obtain f where "f \<in> set (rm_files m)" "mf_id f = i" by auto
    with assms g show "i \<in> mf_id ` {f \<in> set (rm_files m). is_fixed (mf_kind f)}"
      by (auto simp: well_planned_def fixed_separate_def)
  qed
  show "mf_id ` {f \<in> set (rm_files m). is_fixed (mf_kind f)} \<subseteq> set (all_members ?G)"
  proof
    fix i assume "i \<in> mf_id ` {f \<in> set (rm_files m). is_fixed (mf_kind f)}"
    then obtain f where f: "f \<in> set (rm_files m)" "is_fixed (mf_kind f)" "mf_id f = i" by auto
    with assms have "i \<in> set (all_members (rm_groups m))"
      by (auto simp: well_planned_def exact_map_def)
    then obtain g where "g \<in> set (rm_groups m)" "i \<in> set (mg_file_ids g)"
      by (auto simp: all_members_def)
    with assms f show "i \<in> set (all_members ?G)"
      by (auto simp: well_planned_def fixed_separate_def all_members_def)
  qed
qed

lemma proposed_map_group_ids:
  "mg_file_ids (proposed_map_group sha (collect_map (map (\<lambda>f. (mf_path f, f)) (rm_files m))) (n, g))
     = proposed_ids m g"
  by (simp add: proposed_map_group_def proposed_ids_def Let_def comp_def)

lemma merged_members:
  "all_members (rm_groups (merged_map m p a)) =
     concat (map (proposed_ids m) (ep_groups p))
     @ all_members (filter (\<lambda>g. is_fixed (mg_kind g)) (rm_groups m))"
proof -
  have "map mg_file_ids (map (proposed_map_group sha by_path) (zip ns gs)) = map (proposed_ids m) gs"
    if "by_path = collect_map (map (\<lambda>f. (mf_path f, f)) (rm_files m))" "length ns = length gs"
    for sha by_path ns gs
    using that(2) unfolding that(1)
    by (induction ns gs rule: list_induct2) (simp_all add: proposed_map_group_ids)
  from this [OF refl, of "[0..<length (ep_groups p)]" "ep_groups p"] show ?thesis
    by (simp add: merged_map_def Let_def all_members_def)
qed

lemma file_with_enrich_counts:
  assumes "distinct (map mf_id fs)" and "i \<in> mf_id ` set fs"
  shows "mf_additions (file_with (map (enrich_file x r) fs) i) = mf_additions (file_with fs i)"
    and "mf_deletions (file_with (map (enrich_file x r) fs) i) = mf_deletions (file_with fs i)"
  using assms file_with_enrich [OF assms(1)] file_with_distinct [OF assms(1)] by auto

lemma sum_list_map_cong:
  "(\<And>x. x \<in> set xs \<Longrightarrow> f x = g x) \<Longrightarrow> sum_list (map f xs) = (sum_list (map g xs) :: nat)"
  by (simp cong: map_cong)

lemma proposed_sums:
  assumes "distinct (map mf_id (rm_files m))" and "distinct (map mf_path (rm_files m))"
    and "set (pg_paths g) \<subseteq> known_paths m"
  shows "group_sums_ok (map (enrich_file x r) (rm_files m))
    (proposed_map_group sha (collect_map (map (\<lambda>f. (mf_path f, f)) (rm_files m))) (n, g))"
proof -
  let ?fs = "rm_files m"
  let ?at = "\<lambda>path. the (collect_map (map (\<lambda>f. (mf_path f, f)) ?fs) path)"
  have "file_with (map (enrich_file x r) ?fs) (mf_id (?at path)) = enrich_file x r (?at path)"
    if "path \<in> set (pg_paths g)" for path
  proof -
    from that assms(3) obtain f where "f \<in> set ?fs" "path = mf_path f" by (auto simp: known_paths_def)
    with by_path_distinct [OF assms(2)] file_with_enrich [OF assms(1)] show ?thesis by simp
  qed
  then show ?thesis
    by (auto simp: group_sums_ok_def proposed_map_group_def Let_def comp_def intro!: sum_list_map_cong)
qed

lemma fixed_sums:
  assumes "well_planned m" and "g \<in> set (rm_groups m)"
  shows "group_sums_ok (map (enrich_file x r) (rm_files m)) g"
proof -
  from assms have ok: "group_sums_ok (rm_files m) g" and d: "distinct (map mf_id (rm_files m))"
    and sub: "set (mg_file_ids g) \<subseteq> mf_id ` set (rm_files m)"
    by (auto simp: well_planned_def exact_map_def all_members_def)
  from sub file_with_enrich_counts [OF d] have
    "mf_additions (file_with (map (enrich_file x r) (rm_files m)) i) = mf_additions (file_with (rm_files m) i)"
    "mf_deletions (file_with (map (enrich_file x r) (rm_files m)) i) = mf_deletions (file_with (rm_files m) i)"
    if "i \<in> set (mg_file_ids g)" for i using that by blast+
  with ok show ?thesis by (simp add: group_sums_ok_def cong: map_cong)
qed

lemma merged_exact:
  assumes w: "well_planned m" and p: "proposal_ok m p"
  shows "exact_map (merged_map m p a)"
proof -
  let ?F = "{f \<in> set (rm_files m). \<not> is_fixed (mf_kind f)}"
  let ?X = "{f \<in> set (rm_files m). is_fixed (mf_kind f)}"
  from w have d: "distinct (map mf_id (rm_files m))" "distinct (map mf_path (rm_files m))"
    by (simp_all add: well_planned_def)
  from p have ps: "distinct (concat (map pg_paths (ep_groups p)))"
    "set (concat (map pg_paths (ep_groups p))) = set (flexible_paths (rm_files m))"
    by (simp_all add: proposal_ok_def)
  have ids: "concat (map (proposed_ids m) (ep_groups p)) =
      map (\<lambda>path. mf_id (the (collect_map (map (\<lambda>f. (mf_path f, f)) (rm_files m)) path)))
        (concat (map pg_paths (ep_groups p)))"
    by (simp add: map_concat comp_def proposed_ids_def [abs_def])
  note flexible = proposed_ids_flexible [OF d ps, folded ids]
  note fixed = fixed_members [OF w]
  have "mf_id ` ?F \<inter> mf_id ` ?X = {}" using d(1) by (auto simp: distinct_map dest: inj_onD)
  moreover have "distinct (all_members (filter (\<lambda>g. is_fixed (mg_kind g)) (rm_groups m)))"
    using w by (intro filter_members) (simp add: well_planned_def exact_map_def)
  ultimately have "distinct (all_members (rm_groups (merged_map m p a)))"
    using flexible fixed by (simp add: merged_members)
  moreover have "set (all_members (rm_groups (merged_map m p a))) = mf_id ` set (rm_files m)"
    using flexible(2) fixed by (auto simp: merged_members)
  moreover have "group_sums_ok (rm_files (merged_map m p a)) g"
    if "g \<in> set (rm_groups (merged_map m p a))" for g
  proof -
    from ps(2) have "set (pg_paths h) \<subseteq> known_paths m" if "h \<in> set (ep_groups p)" for h
      using that flexible_known unfolding known_paths_def by fastforce
    with that show ?thesis
      using proposed_sums [OF d] fixed_sums [OF w]
      by (auto simp: merged_map_def Let_def dest!: set_zip_rightD)
  qed
  moreover have "rm_totals (merged_map m p a) = totals (rm_files (merged_map m p a))"
    using w by (simp add: merged_map_def Let_def totals_enrich well_planned_def exact_map_def)
  moreover have "set (map mf_id (rm_files (merged_map m p a))) = mf_id ` set (rm_files m)"
    by (auto simp: merged_map_def Let_def image_image)
  ultimately show ?thesis by (simp add: exact_map_def)
qed

text \<open>A map from the planner is well planned.\<close>

lemma group_for_fixed:
  "fst (group_for p k) = ''test'' \<longleftrightarrow> k = Test" "fst (group_for p k) = ''generated'' \<longleftrightarrow> k = Generated"
  by (cases k; simp add: group_for_def Let_def)+

definition entry_fixed :: "string \<times> string \<times> review_file_kind \<times> string list \<Rightarrow> bool" where
  "entry_fixed e \<longleftrightarrow> is_fixed (fst (snd (snd e))) = (fst e = ''test'' \<or> fst e = ''generated'')"

lemma groups_fixed:
  "om_ok g \<Longrightarrow> \<forall>e \<in> set g. entry_fixed e \<Longrightarrow> \<forall>e \<in> set (fold add_to_group fs g). entry_fixed e"
proof (induction fs arbitrary: g)
  case Nil
  then show ?case by simp
next
  case (Cons f fs)
  obtain key label where k: "group_for (mf_path f) (mf_kind f) = (key, label)" by force
  have new: "entry_fixed (key, label, mf_kind f, ids)" for ids
    using group_for_fixed [of "mf_path f" "mf_kind f"] by (simp add: entry_fixed_def is_fixed_def k)
  have "\<forall>e \<in> set (add_to_group f g). entry_fixed e"
    using om_entry_split [OF Cons.prems(1), of key "(label, mf_kind f, [])"
        "\<lambda>(label, kind, file_ids). (label, kind, file_ids @ [mf_id f])"] Cons.prems(2) new
    unfolding add_to_group_def k Let_def prod.case
    by (elim disjE exE conjE) (auto simp: entry_fixed_def)
  with Cons.IH [OF add_to_group_members(2) [OF Cons.prems(1)]] show ?case by simp
qed

lemma build_well_planned:
  assumes "build_review_map glob pick input config = Inr m"
  shows "well_planned m"
proof -
  from assms obtain owners where
    m: "m = map_of_sources glob config (in_identity input) owners (in_files input)"
    and ex: "exact_map m" and paths: "distinct (map (norm_path \<circ> mi_path) (in_files input))"
    by (auto simp: build_review_map_iff)
  from ex have "distinct (map (mf_id \<circ> planned glob config (ri_head_sha (in_identity input)) owners)
      (in_files input))" unfolding m map_of_sources_exact .
  then have ids_distinct: "distinct (map mf_id (rm_files m))" by (simp add: m map_of_sources_def Let_def)
  have "map mf_path (rm_files m) = map (norm_path \<circ> mi_path) (in_files input)"
    by (simp add: m map_of_sources_def planned_def Let_def)
  with paths have dp: "distinct (map mf_path (rm_files m))" by simp
  define g where "g = fold add_to_group (rm_files m) []"
  have groups: "rm_groups m = map (group_of (ri_head_sha (in_identity input))
      (collect_map (map (\<lambda>f. (mf_id f, f)) (rm_files m)))) g"
    by (simp add: m map_of_sources_def g_def Let_def)
  have keyed: "keyed_by_files (set (rm_files m)) g"
    unfolding g_def by (rule groups_keyed) (simp_all add: keyed_by_files_def)
  have fixed: "\<forall>e \<in> set g. entry_fixed e" unfolding g_def by (rule groups_fixed) simp_all
  have "is_fixed (mf_kind f) = is_fixed (mg_kind h)"
    if h: "h \<in> set (rm_groups m)" and f: "f \<in> set (rm_files m)" and i: "mf_id f \<in> set (mg_file_ids h)" for h f
  proof -
    from h obtain key label kind ids where e: "(key, label, kind, ids) \<in> set g"
      and hh: "h = group_of (ri_head_sha (in_identity input))
        (collect_map (map (\<lambda>f. (mf_id f, f)) (rm_files m))) (key, label, kind, ids)"
      unfolding groups by auto
    have "mf_id f \<in> set ids" using i by (simp add: hh group_of_fields)
    with keyed e obtain f' where f': "f' \<in> set (rm_files m)" "mf_id f' = mf_id f"
      "fst (group_for (mf_path f') (mf_kind f')) = key" by (fastforce simp: keyed_by_files_def)
    then have "f' = f" using ids_distinct f by (auto simp: distinct_map dest: inj_onD)
    with f' have "is_fixed (mf_kind f) = (key = ''test'' \<or> key = ''generated'')"
      using group_for_fixed [of "mf_path f" "mf_kind f"] by (auto simp: is_fixed_def)
    moreover have "mg_kind h = kind" by (simp add: hh group_of_def Let_def split: prod.split)
    ultimately show ?thesis using fixed e by (auto simp: entry_fixed_def)
  qed
  with ex ids_distinct dp show ?thesis by (simp add: well_planned_def fixed_separate_def)
qed

lemma collect_positions:
  assumes "distinct ps"
  shows "collect_map (map (\<lambda>(index, path). (path, index + 1)) (zip [0..<length ps] ps)) x
    = map_option Suc (position (\<lambda>q. q = x) ps)"
proof -
  let ?kvs = "map (\<lambda>(index, path). (path, index + 1)) (zip [0..<length ps] ps)"
  have keys: "map fst ?kvs = ps" by (simp add: comp_def split_def)
  show ?thesis
  proof (cases "position (\<lambda>q. q = x) ps")
    case None
    then have "x \<notin> set (map fst ?kvs)" unfolding keys by (auto simp: position_None_iff)
    then have "collect_map ?kvs x = None" unfolding collect_map_None_iff set_map .
    with None show ?thesis by simp
  next
    case (Some i)
    from position_SomeD [OF Some] have "i < length ps" "ps ! i = x" by auto
    then have "(i, x) \<in> set (zip [0..<length ps] ps)" by (auto simp: set_zip intro!: exI [of _ i])
    then have "(x, Suc i) \<in> set ?kvs" by force
    with assms keys have "collect_map ?kvs x = Some (Suc i)" by (intro collect_map_distinct) simp_all
    with Some show ?thesis by simp
  qed
qed

section \<open>Properties of merging\<close>

text \<open>
  C20. Merging a valid proposal into a map of the planner always succeeds (the closing check
  can never fail), and what comes out is again an exact map with the same files: only the
  insights and the recommended order of a file may differ, and the order is the file's
  1-based position in the proposed review order, so it numbers the files that are neither
  tests nor generated and no others.
\<close>

theorem merge_enrichment_correct:
  assumes "build_review_map glob pick input config = Inr m" and "proposal_ok m p"
  shows "\<exists>m'. merge_enrichment pick m p a = Inr m' \<and> exact_map m' \<and> rm_status m' = Enriched
    \<and> map (\<lambda>f. f\<lparr>mf_insight := None, mf_recommended_order := None\<rparr>) (rm_files m') = rm_files m
    \<and> (\<forall>f \<in> set (rm_files m').
         mf_recommended_order f = map_option Suc (position (\<lambda>q. q = mf_path f) (ep_review_order p)))"
proof (intro exI [of _ "merged_map m p a"] conjI)
  have ex: "exact_map (merged_map m p a)"
    by (rule merged_exact [OF build_well_planned [OF assms(1)] assms(2)])
  then show "exact_map (merged_map m p a)" .
  have "validate_enrichment pick m p = Inr ()" using assms(2) by (simp add: validate_enrichment_Inr_iff)
  moreover have "validate_exact_map pick (merged_map m p a) = Inr ()" using ex by (simp add: validate_iff)
  ultimately show "merge_enrichment pick m p a = Inr (merged_map m p a)"
    by (simp add: merge_enrichment_def)
  show "rm_status (merged_map m p a) = Enriched" by (simp add: merged_map_def Let_def)
  have "\<forall>f \<in> set (rm_files m). mf_insight f = None \<and> mf_recommended_order f = None"
    using assms(1) by (auto simp: build_review_map_iff map_of_sources_def planned_def Let_def)
  then show "map (\<lambda>f. f\<lparr>mf_insight := None, mf_recommended_order := None\<rparr>)
      (rm_files (merged_map m p a)) = rm_files m"
    by (auto simp: merged_map_def Let_def enrich_file_def intro!: map_idI)
  have "distinct (ep_review_order p)" using assms(2) by (simp add: proposal_ok_def)
  from collect_positions [OF this] show "\<forall>f \<in> set (rm_files (merged_map m p a)).
      mf_recommended_order f = map_option Suc (position (\<lambda>q. q = mf_path f) (ep_review_order p))"
    by (auto simp: merged_map_def Let_def enrich_file_def)
qed

definition sample_map :: review_map where
  "sample_map = projr (built [(None, ''src/a.rs''), (None, ''tests/t.rs''), (None, ''src/b.rs'')])"

definition sample_proposal :: enrichment_proposal where
  "sample_proposal =
     \<lparr>ep_groups = [\<lparr>pg_label = ''Core'', pg_summary = ''Adds a parser'', pg_risk = Some ''Untested path'',
                     pg_review_priority = 1, pg_paths = [''src/b.rs'', ''src/a.rs'']\<rparr>],
      ep_files = [\<lparr>pf_path = ''src/a.rs'', pf_summary = ''Parser'', pf_risk = None\<rparr>],
      ep_review_order = [''src/b.rs'', ''src/a.rs''],
      ep_coverage = \<lparr>ec_analyzed_paths = [''src/a.rs''], ec_truncated_paths = [],
                      ec_metadata_only_paths = [], ec_binary_paths = []\<rparr>\<rparr>"

theorem merge_enrichment_correct_witness:
  "\<exists>m'. merge_enrichment hd sample_map sample_proposal
       \<lparr>ma_model = ''m'', ma_prompt_version = 1, ma_completed_at = ''now''\<rparr> = Inr m' \<and> exact_map m'
     \<and> map (\<lambda>f. position (\<lambda>q. q = mf_path f) (ep_review_order sample_proposal)) (rm_files sample_map)
       = [Some 1, None, Some 0]"
proof -
  have "\<not> isl (built [(None, ''src/a.rs''), (None, ''tests/t.rs''), (None, ''src/b.rs'')])" by code_simp
  then have b: "build_review_map (\<lambda>_. Inl []) hd
      (input_of [(None, ''src/a.rs''), (None, ''tests/t.rs''), (None, ''src/b.rs'')]) (with_patterns [] [])
      = Inr sample_map" by (simp add: sample_map_def built_def sum.collapse(2))
  have "validate_enrichment hd sample_map sample_proposal = Inr ()" by code_simp
  then have ok: "proposal_ok sample_map sample_proposal" by (simp add: validate_enrichment_Inr_iff)
  have order: "map (\<lambda>f. position (\<lambda>q. q = mf_path f) (ep_review_order sample_proposal)) (rm_files sample_map)
       = [Some 1, None, Some 0]" by code_simp
  from merge_enrichment_correct [OF b ok, of "\<lparr>ma_model = ''m'', ma_prompt_version = 1, ma_completed_at = ''now''\<rparr>"]
  obtain m' where "merge_enrichment hd sample_map sample_proposal
       \<lparr>ma_model = ''m'', ma_prompt_version = 1, ma_completed_at = ''now''\<rparr> = Inr m'" "exact_map m'"
    by (elim exE conjE)
  with order show ?thesis by (intro exI [of _ m'] conjI)
qed

end
