(* ===== verification/Quality.thy ===== *)
theory Quality
  imports Enrichment
begin

text \<open>
  The quality gate for the text of a proposal,
  \<open>crates/ramo-core/src/review_map/quality.rs\<close>. The issues are collected in a \<open>BTreeSet\<close>,
  so an error lists them in the order of the enum (its derived \<open>Ord\<close>), each once.
\<close>

section \<open>Issues\<close>

datatype enrichment_quality_issue =
    MissingRequiredInsight
  | DuplicateInsight
  | GenericSummary
  | PathOnlySummary
  | BareRisk
  | UnsupportedClaim
  | InvalidTextIssue

fun issue_rank :: "enrichment_quality_issue \<Rightarrow> nat" where
  "issue_rank MissingRequiredInsight = 0"
| "issue_rank DuplicateInsight = 1"
| "issue_rank GenericSummary = 2"
| "issue_rank PathOnlySummary = 3"
| "issue_rank BareRisk = 4"
| "issue_rank UnsupportedClaim = 5"
| "issue_rank InvalidTextIssue = 6"

instantiation enrichment_quality_issue :: linorder
begin

definition less_eq_enrichment_quality_issue ::
  "enrichment_quality_issue \<Rightarrow> enrichment_quality_issue \<Rightarrow> bool" where
  "less_eq_enrichment_quality_issue a b \<longleftrightarrow> issue_rank a \<le> issue_rank b"

definition less_enrichment_quality_issue ::
  "enrichment_quality_issue \<Rightarrow> enrichment_quality_issue \<Rightarrow> bool" where
  "less_enrichment_quality_issue a b \<longleftrightarrow> issue_rank a < issue_rank b"

instance
proof
  fix a b c :: enrichment_quality_issue
  have inj: "issue_rank x = issue_rank y \<Longrightarrow> x = y" for x y by (cases x; cases y) simp_all
  show "(a < b) = (a \<le> b \<and> \<not> b \<le> a)" "a \<le> a" "a \<le> b \<or> b \<le> a"
    and "a \<le> b \<Longrightarrow> b \<le> c \<Longrightarrow> a \<le> c"
    by (auto simp: less_eq_enrichment_quality_issue_def less_enrichment_quality_issue_def)
  show "a \<le> b \<Longrightarrow> b \<le> a \<Longrightarrow> a = b"
    by (simp add: less_eq_enrichment_quality_issue_def inj)
qed

end

fun issue_category :: "enrichment_quality_issue \<Rightarrow> string" where
  "issue_category MissingRequiredInsight = ''missing_required_insight''"
| "issue_category DuplicateInsight = ''duplicate_insight''"
| "issue_category GenericSummary = ''generic_summary''"
| "issue_category PathOnlySummary = ''path_only_summary''"
| "issue_category BareRisk = ''bare_risk''"
| "issue_category UnsupportedClaim = ''unsupported_claim''"
| "issue_category InvalidTextIssue = ''invalid_text''"

section \<open>Texts\<close>

definition text_tokens :: "string \<Rightarrow> string list" where
  "text_tokens s =
     map (\<lambda>w. to_ascii_lowercase (concat w))
       (filter (\<lambda>w. w \<noteq> []) (split_chars (\<lambda>c. \<not> is_ascii_alphanumeric_char c) (chars s)))"

definition STOP_WORDS :: "string list" where
  "STOP_WORDS =
     [''a'', ''an'', ''and'', ''are'', ''contains'', ''directory'', ''file'', ''files'', ''folder'',
      ''for'', ''from'', ''group'', ''in'', ''is'', ''of'', ''the'', ''this'', ''to'', ''with'']"

definition is_path_only_summary :: "string \<Rightarrow> string \<Rightarrow> bool" where
  "is_path_only_summary summary reference =
     (let meaningful = filter (\<lambda>t. t \<notin> set STOP_WORDS) (text_tokens summary)
      in meaningful \<noteq> [] \<and> list_all (\<lambda>t. t \<in> set (text_tokens reference)) meaningful)"

definition invalid_text :: "string \<Rightarrow> bool" where
  "invalid_text s \<longleftrightarrow>
     list_ex (\<lambda>c. is_control c \<and> c \<notin> {[NL], [CR], [TAB]}) (chars s)"

definition unsupported_claim :: "string \<Rightarrow> bool" where
  "unsupported_claim s \<longleftrightarrow>
     list_ex (contains (to_ascii_lowercase s))
       [''tests pass'', ''tests are passing'', ''full coverage'', ''safe for production'',
        ''production safe'', ''deployment is safe'']"

definition generic_summary :: "string \<Rightarrow> bool" where
  "generic_summary summary \<longleftrightarrow>
     list_ex (starts_with (to_ascii_lowercase (trim summary)))
       [''this file contains'', ''this group contains'',
        ''additional files from the deterministic diff structure'']"

definition trim_non_alphanumeric :: "rchar list \<Rightarrow> rchar list" where
  "trim_non_alphanumeric w =
     (let strip = dropWhile (\<lambda>c. \<not> is_ascii_alphanumeric_char c)
      in rev (strip (rev (strip w))))"

definition bare_risk :: "string \<Rightarrow> bool" where
  "bare_risk risk =
     (let normalized = filter (\<lambda>w. w \<noteq> [])
            (map (\<lambda>w. to_ascii_lowercase (concat (trim_non_alphanumeric w))) (word_chars (chars risk)))
      in (case normalized of
            [severity] \<Rightarrow> severity \<in> {''low'', ''medium'', ''high''}
          | [severity, noun] \<Rightarrow> severity \<in> {''low'', ''medium'', ''high''} \<and> noun = ''risk''
          | _ \<Rightarrow> False))"

definition add_issue ::
  "bool \<Rightarrow> enrichment_quality_issue \<Rightarrow> enrichment_quality_issue list \<Rightarrow> enrichment_quality_issue list" where
  "add_issue found issue issues = (if found then os_insert issue issues else issues)"

definition inspect_text :: "string \<Rightarrow> enrichment_quality_issue list \<Rightarrow> enrichment_quality_issue list" where
  "inspect_text s issues =
     add_issue (unsupported_claim s) UnsupportedClaim
       (add_issue (invalid_text s) InvalidTextIssue issues)"

definition inspect_summary ::
  "string \<Rightarrow> string \<Rightarrow> enrichment_quality_issue list \<Rightarrow> enrichment_quality_issue list" where
  "inspect_summary summary reference issues =
     add_issue (is_path_only_summary summary reference) PathOnlySummary
       (add_issue (generic_summary summary) GenericSummary (inspect_text summary issues))"

definition inspect_risk ::
  "string option \<Rightarrow> enrichment_quality_issue list \<Rightarrow> enrichment_quality_issue list" where
  "inspect_risk risk issues =
     (case risk of
        None \<Rightarrow> issues
      | Some r \<Rightarrow> add_issue (bare_risk r) BareRisk (inspect_text r issues))"

section \<open>The gate\<close>

definition inspect_insight ::
  "proposed_file_insight \<Rightarrow> (string \<times> nat) list \<times> enrichment_quality_issue list
     \<Rightarrow> (string \<times> nat) list \<times> enrichment_quality_issue list" where
  "inspect_insight insight st =
     (case st of (insight_counts, issues) \<Rightarrow>
       (om_entry (pf_path insight) 0 Suc insight_counts,
        inspect_risk (pf_risk insight) (inspect_summary (pf_summary insight) (pf_path insight) issues)))"

definition inspect_group ::
  "proposed_group \<Rightarrow> enrichment_quality_issue list \<Rightarrow> enrichment_quality_issue list" where
  "inspect_group g issues = inspect_risk (pg_risk g) (inspect_summary (pg_summary g) (pg_label g) issues)"

definition required_paths :: "enrichment_request \<Rightarrow> string list" where
  "required_paths request =
     fold os_insert
       (map ef_path (filter (\<lambda>f. \<not> (ef_kind f = Test \<or> ef_kind f = Generated)) (er_files request))) []"

definition validate_enrichment_quality ::
  "enrichment_request \<Rightarrow> enrichment_proposal \<Rightarrow> enrichment_quality_issue list + unit" where
  "validate_enrichment_quality request proposal =
     (let (insight_counts, issues) = fold inspect_insight (ep_files proposal) ([], []);
          issues = add_issue
            (list_ex (\<lambda>p. (case map_of insight_counts p of Some n \<Rightarrow> n | None \<Rightarrow> 0) = 0)
               (required_paths request)) MissingRequiredInsight issues;
          issues = add_issue (list_ex (\<lambda>(_, n). 1 < n) insight_counts) DuplicateInsight issues;
          issues = fold inspect_group (ep_groups proposal) issues
      in if issues = [] then Inr () else Inl issues)"

section \<open>Lemmas\<close>

text \<open>What each issue means.\<close>

definition summary_issue :: "enrichment_quality_issue \<Rightarrow> string \<Rightarrow> string \<Rightarrow> bool" where
  "summary_issue issue summary reference \<longleftrightarrow>
     (case issue of
        GenericSummary \<Rightarrow> generic_summary summary
      | PathOnlySummary \<Rightarrow> is_path_only_summary summary reference
      | UnsupportedClaim \<Rightarrow> unsupported_claim summary
      | InvalidTextIssue \<Rightarrow> invalid_text summary
      | _ \<Rightarrow> False)"

definition risk_issue :: "enrichment_quality_issue \<Rightarrow> string option \<Rightarrow> bool" where
  "risk_issue issue risk \<longleftrightarrow>
     (\<exists>r. risk = Some r \<and>
       (case issue of
          BareRisk \<Rightarrow> bare_risk r
        | UnsupportedClaim \<Rightarrow> unsupported_claim r
        | InvalidTextIssue \<Rightarrow> invalid_text r
        | _ \<Rightarrow> False))"

definition has_issue :: "enrichment_request \<Rightarrow> enrichment_proposal \<Rightarrow> enrichment_quality_issue \<Rightarrow> bool" where
  "has_issue request proposal issue \<longleftrightarrow>
     (issue = MissingRequiredInsight
      \<and> (\<exists>f \<in> set (er_files request). \<not> is_fixed (ef_kind f) \<and> ef_path f \<notin> pf_path ` set (ep_files proposal)))
     \<or> (issue = DuplicateInsight \<and> \<not> distinct (map pf_path (ep_files proposal)))
     \<or> (\<exists>i \<in> set (ep_files proposal). summary_issue issue (pf_summary i) (pf_path i) \<or> risk_issue issue (pf_risk i))
     \<or> (\<exists>g \<in> set (ep_groups proposal). summary_issue issue (pg_summary g) (pg_label g) \<or> risk_issue issue (pg_risk g))"

lemma add_issue_set: "set (add_issue b i s) = (if b then insert i (set s) else set s)"
  by (simp add: add_issue_def os_insert_set)

lemma add_issue_sorted: "sorted_wrt (<) s \<Longrightarrow> sorted_wrt (<) (add_issue b i s)"
  by (simp add: add_issue_def os_insert_sorted)

lemma inspect_summary_set:
  "set (inspect_summary s r issues) = set issues \<union> {i. summary_issue i s r}"
proof (rule set_eqI)
  fix x
  show "x \<in> set (inspect_summary s r issues) \<longleftrightarrow> x \<in> set issues \<union> {i. summary_issue i s r}"
    unfolding inspect_summary_def inspect_text_def add_issue_set
    by (cases x) (auto simp: summary_issue_def)
qed

lemma inspect_risk_set:
  "set (inspect_risk r issues) = set issues \<union> {i. risk_issue i r}"
proof (rule set_eqI)
  fix x
  show "x \<in> set (inspect_risk r issues) \<longleftrightarrow> x \<in> set issues \<union> {i. risk_issue i r}"
  proof (cases r)
    case None
    then show ?thesis by (simp add: inspect_risk_def risk_issue_def)
  next
    case (Some v)
    show ?thesis
      unfolding inspect_risk_def inspect_text_def Some option.case add_issue_set
      by (cases x) (auto simp: risk_issue_def)
  qed
qed

lemma inspect_sorted:
  "sorted_wrt (<) issues \<Longrightarrow> sorted_wrt (<) (inspect_summary s r issues)"
  "sorted_wrt (<) issues \<Longrightarrow> sorted_wrt (<) (inspect_risk k issues)"
  by (simp_all add: inspect_summary_def inspect_risk_def inspect_text_def add_issue_sorted split: option.split)

lemma inspect_insights:
  assumes "sorted_wrt (<) issues" and "om_ok counts"
    and "\<And>p. map_of counts p = (if p \<in> set seen then Some (count_list seen p) else None)"
  shows "case fold inspect_insight is (counts, issues) of (counts', issues') \<Rightarrow>
      sorted_wrt (<) issues' \<and> om_ok counts'
      \<and> set issues' = set issues
          \<union> {x. \<exists>i \<in> set is. summary_issue x (pf_summary i) (pf_path i) \<or> risk_issue x (pf_risk i)}
      \<and> (\<forall>p. map_of counts' p = (if p \<in> set (map pf_path is @ seen)
               then Some (count_list (map pf_path is @ seen) p) else None))"
  using assms
proof (induction "is" arbitrary: counts issues seen)
  case Nil
  then show ?case by simp
next
  case (Cons i "is")
  let ?issues = "inspect_risk (pf_risk i) (inspect_summary (pf_summary i) (pf_path i) issues)"
  let ?counts = "om_entry (pf_path i) 0 Suc counts"
  have step: "inspect_insight i (counts, issues) = (?counts, ?issues)" by (simp add: inspect_insight_def)
  have "sorted_wrt (<) ?issues" "om_ok ?counts" using Cons.prems by (simp_all add: inspect_sorted om_entry_ok)
  moreover have "map_of ?counts p = (if p \<in> set (pf_path i # seen)
      then Some (count_list (pf_path i # seen) p) else None)" for p
    using Cons.prems(2,3) by (auto simp: om_entry_lookup count_list_0_iff)
  ultimately have "case fold inspect_insight is (?counts, ?issues) of (counts', issues') \<Rightarrow>
      sorted_wrt (<) issues' \<and> om_ok counts'
      \<and> set issues' = set ?issues
          \<union> {x. \<exists>i \<in> set is. summary_issue x (pf_summary i) (pf_path i) \<or> risk_issue x (pf_risk i)}
      \<and> (\<forall>p. map_of counts' p = (if p \<in> set (map pf_path is @ pf_path i # seen)
               then Some (count_list (map pf_path is @ pf_path i # seen) p) else None))"
    by (rule Cons.IH)
  then show ?case
    by (auto simp: step inspect_risk_set inspect_summary_set split: prod.splits)
qed

lemma inspect_groups:
  assumes "sorted_wrt (<) issues"
  shows "sorted_wrt (<) (fold inspect_group gs issues)
    \<and> set (fold inspect_group gs issues) = set issues
      \<union> {x. \<exists>g \<in> set gs. summary_issue x (pg_summary g) (pg_label g) \<or> risk_issue x (pg_risk g)}"
  using assms
proof (induction gs arbitrary: issues)
  case Nil
  then show ?case by simp
next
  case (Cons g gs)
  then show ?case
    by (auto simp: inspect_group_def inspect_sorted inspect_risk_set inspect_summary_set)
qed

lemma count_list_distinct: "distinct xs \<longleftrightarrow> (\<forall>x \<in> set xs. count_list xs x \<le> 1)"
proof (induction xs)
  case Nil
  then show ?case by simp
next
  case (Cons y ys)
  have y: "y \<notin> set ys \<longleftrightarrow> count_list ys y = 0" by (simp add: count_list_0_iff)
  have "(\<forall>x \<in> set (y # ys). count_list (y # ys) x \<le> 1)
      \<longleftrightarrow> count_list ys y = 0 \<and> (\<forall>x \<in> set ys. count_list ys x \<le> 1)"
  proof
    assume all: "\<forall>x \<in> set (y # ys). count_list (y # ys) x \<le> 1"
    then have "count_list ys y = 0" by simp
    moreover have "count_list ys x \<le> 1" if "x \<in> set ys" for x
      using all that by (cases "x = y") (auto dest: bspec [of _ _ x])
    ultimately show "count_list ys y = 0 \<and> (\<forall>x \<in> set ys. count_list ys x \<le> 1)" by blast
  qed auto
  with y Cons.IH show ?case by simp
qed

lemma required_paths_set:
  "set (required_paths request) = ef_path ` {f \<in> set (er_files request). \<not> is_fixed (ef_kind f)}"
proof -
  have "set (fold os_insert xs s) = set xs \<union> set s" for xs s :: "string list"
    by (induction xs arbitrary: s) (auto simp: os_insert_set)
  then show ?thesis by (auto simp: required_paths_def is_fixed_def)
qed

text \<open>
  C23. The gate reports exactly the issues the proposal has: a required file without insight, a
  file described twice, and the five kinds of bad text; an error lists every issue that
  occurs, once, in the fixed order of the kinds, and there is no error if none occurs.
\<close>

theorem validate_enrichment_quality_exact:
  "case validate_enrichment_quality request proposal of
     Inr _ \<Rightarrow> (\<forall>issue. \<not> has_issue request proposal issue)
   | Inl issues \<Rightarrow>
       issues \<noteq> [] \<and> sorted_wrt (<) issues \<and> set issues = {issue. has_issue request proposal issue}"
proof -
  obtain counts issues where f: "fold inspect_insight (ep_files proposal) ([], []) = (counts, issues)"
    by force
  have F: "sorted_wrt (<) issues" "om_ok counts"
    "set issues = {x. \<exists>i \<in> set (ep_files proposal).
        summary_issue x (pf_summary i) (pf_path i) \<or> risk_issue x (pf_risk i)}"
    "map_of counts p = (if p \<in> set (map pf_path (ep_files proposal))
       then Some (count_list (map pf_path (ep_files proposal)) p) else None)" for p
    using inspect_insights [of "[]" "[]" "[]" "ep_files proposal"] unfolding f by auto
  define missing where "missing \<longleftrightarrow> list_ex (\<lambda>p. (case map_of counts p of Some n \<Rightarrow> n | None \<Rightarrow> 0) = 0)
      (required_paths request)"
  define twice where "twice \<longleftrightarrow> list_ex (\<lambda>(_, n). 1 < n) counts"
  have missing: "missing \<longleftrightarrow> (\<exists>f \<in> set (er_files request). \<not> is_fixed (ef_kind f)
      \<and> ef_path f \<notin> pf_path ` set (ep_files proposal))"
    by (auto simp: missing_def list_ex_iff required_paths_set F(4) count_list_0_iff)
  have "twice \<longleftrightarrow> (\<exists>p n. map_of counts p = Some n \<and> 1 < n)"
    using om_ok_distinct [OF F(2)] by (auto simp: twice_def list_ex_iff map_of_eq_Some_iff)
  then have twice: "twice \<longleftrightarrow> \<not> distinct (map pf_path (ep_files proposal))"
    by (auto simp: F(4) count_list_distinct not_le split: if_splits)
  define all where "all = fold inspect_group (ep_groups proposal)
      (add_issue twice DuplicateInsight (add_issue missing MissingRequiredInsight issues))"
  have result: "validate_enrichment_quality request proposal = (if all = [] then Inr () else Inl all)"
    by (simp add: validate_enrichment_quality_def f all_def missing_def twice_def)
  have "sorted_wrt (<) (add_issue twice DuplicateInsight (add_issue missing MissingRequiredInsight issues))"
    using F(1) by (simp add: add_issue_sorted)
  from inspect_groups [OF this, of "ep_groups proposal"]
  have all_sorted: "sorted_wrt (<) all" and "set all
      = {x. x = DuplicateInsight \<and> twice} \<union> {x. x = MissingRequiredInsight \<and> missing} \<union> set issues
        \<union> {x. \<exists>g \<in> set (ep_groups proposal). summary_issue x (pg_summary g) (pg_label g) \<or> risk_issue x (pg_risk g)}"
    by (auto simp: all_def add_issue_set)
  then have "set all = {issue. has_issue request proposal issue}"
    by (auto simp: has_issue_def missing twice F(3))
  with all_sorted show ?thesis by (auto simp: result)
qed

definition one_file_request :: enrichment_request where
  "one_file_request =
     \<lparr>er_schema_version = 1,
      er_identity = \<lparr>ri_repository = ''o/r'', ri_pull_request = 1, ri_base_sha = ''b'', ri_head_sha = ''h''\<rparr>,
      er_groups = [],
      er_files = [\<lparr>ef_path = ''src/a.rs'', ef_kind = Authored, ef_additions = 1, ef_deletions = 0,
        ef_coverage = Full, ef_patch = None\<rparr>],
      er_coverage = \<lparr>ec_analyzed_paths = [], ec_truncated_paths = [], ec_metadata_only_paths = [], ec_binary_paths = []\<rparr>\<rparr>"

definition empty_proposal :: enrichment_proposal where
  "empty_proposal =
     \<lparr>ep_groups = [], ep_files = [], ep_review_order = [],
      ep_coverage = \<lparr>ec_analyzed_paths = [], ec_truncated_paths = [], ec_metadata_only_paths = [], ec_binary_paths = []\<rparr>\<rparr>"

theorem validate_enrichment_quality_exact_witness:
  "validate_enrichment_quality one_file_request empty_proposal = Inl [MissingRequiredInsight]
   \<and> has_issue one_file_request empty_proposal MissingRequiredInsight
   \<and> \<not> has_issue one_file_request empty_proposal DuplicateInsight"
proof -
  have v: "validate_enrichment_quality one_file_request empty_proposal = Inl [MissingRequiredInsight]"
    by code_simp
  from validate_enrichment_quality_exact [of one_file_request empty_proposal] show ?thesis
    unfolding v by auto
qed

end
