(* ===== verification/Terminal_Text.thy ===== *)
theory Terminal_Text
  imports Rust_Str
begin

text \<open>
  Text that reaches the terminal: \<open>sanitize_terminal_text\<close> and \<open>looks_like_patch\<close> of
  \<open>src/input/pager.rs\<close>. The sanitizer is a five-state machine over the characters of its
  input; one step of its loop is \<open>sanitize_step\<close>.
\<close>

section \<open>The machine\<close>

datatype term_state = Ground | Escape | Csi | Osc | OscEscape

record sanitizer =
  sz_output :: "rchar list"
  sz_state :: term_state
  sz_csi :: "rchar list"

definition sgr_parameter :: "rchar \<Rightarrow> bool" where
  "sgr_parameter c \<longleftrightarrow> (\<exists>a \<in> set c. c = [a] \<and> (is_digit a \<or> a = CHR '';''))"

definition csi_last :: "rchar \<Rightarrow> bool" where
  "csi_last c \<longleftrightarrow> (\<exists>a \<in> set c. c = [a] \<and> 0x40 \<le> code a \<and> code a \<le> 0x7E)"

definition shown :: "rchar \<Rightarrow> bool" where
  "shown c \<longleftrightarrow> c = [NL] \<or> c = [TAB] \<or> \<not> is_control c"

definition sanitize_step :: "bool \<Rightarrow> rchar \<Rightarrow> sanitizer \<Rightarrow> sanitizer" where
  "sanitize_step preserve_sgr c s =
     (case sz_state s of
        Ground \<Rightarrow>
          if c = [ESC] then s\<lparr>sz_state := Escape\<rparr>
          else if shown c then s\<lparr>sz_output := sz_output s @ [c]\<rparr>
          else s
      | Escape \<Rightarrow>
          if c = ''['' then s\<lparr>sz_csi := [], sz_state := Csi\<rparr>
          else if c = '']'' then s\<lparr>sz_state := Osc\<rparr>
          else s\<lparr>sz_state := Ground\<rparr>
      | Csi \<Rightarrow>
          if csi_last c then
            (if preserve_sgr \<and> c = ''m'' \<and> (\<forall>v \<in> set (sz_csi s). sgr_parameter v)
             then s\<lparr>sz_output := sz_output s @ [[ESC], ''[''] @ sz_csi s @ [''m''],
                    sz_state := Ground\<rparr>
             else s\<lparr>sz_state := Ground\<rparr>)
          else s\<lparr>sz_csi := sz_csi s @ [c]\<rparr>
      | Osc \<Rightarrow>
          if c = [CHR 0x07] then s\<lparr>sz_state := Ground\<rparr>
          else if c = [ESC] then s\<lparr>sz_state := OscEscape\<rparr>
          else s
      | OscEscape \<Rightarrow>
          if c = [BSLASH] then s\<lparr>sz_state := Ground\<rparr>
          else if c = [ESC] then s
          else s\<lparr>sz_state := Osc\<rparr>)"

definition sanitizer_start :: sanitizer where
  "sanitizer_start = \<lparr>sz_output = [], sz_state = Ground, sz_csi = []\<rparr>"

definition sanitize_terminal_text :: "string \<Rightarrow> bool \<Rightarrow> string" where
  "sanitize_terminal_text input preserve_sgr =
     (let normalized = replace_sub [CR, NL] [NL] input
      in concat (sz_output (fold (sanitize_step preserve_sgr) (chars normalized) sanitizer_start)))"

fun patch_lines :: "bool \<Rightarrow> bool \<Rightarrow> string list \<Rightarrow> bool" where
  "patch_lines old_header new_header [] = (old_header \<and> new_header)"
| "patch_lines old_header new_header (line # ls) =
     (if starts_with line ''diff --git '' \<or> starts_with line ''@@ '' then True
      else patch_lines (old_header \<or> starts_with line ''--- '')
                       (new_header \<or> starts_with line ''+++ '') ls)"

definition looks_like_patch :: "string \<Rightarrow> bool" where
  "looks_like_patch input = patch_lines False False (lines (sanitize_terminal_text input False))"

section \<open>Lemmas\<close>

text \<open>Line endings: unifying them leaves a text of well-formed characters.\<close>

lemma replace_sub_skip:
  "CR \<notin> set a \<Longrightarrow> replace_sub [CR, NL] q (a @ s) = a @ replace_sub [CR, NL] q s"
  by (induction a) auto

lemma rchar_ok_no_byte: "rchar_ok c \<Longrightarrow> code a < 0x80 \<Longrightarrow> c \<noteq> [a] \<Longrightarrow> a \<notin> set c"
  by (cases c) (auto simp: rchar_ok_def lead_width_def is_cont_def split: if_splits)

lemma starts_with_NL:
  assumes "\<forall>c \<in> set cs. rchar_ok c" and "starts_with (concat cs) [NL]"
  obtains ds where "cs = [NL] # ds"
proof (cases cs)
  case Nil
  with assms show ?thesis by simp
next
  case (Cons c ds)
  with assms have "rchar_ok c" "NL \<in> set c" by (cases c; auto simp: rchar_ok_def)+
  then have "c = [NL]" using rchar_ok_no_byte [of c NL] by auto
  with Cons that show ?thesis by simp
qed

lemma replace_sub_chars:
  "\<forall>c \<in> set cs. rchar_ok c \<Longrightarrow>
   \<exists>ds. replace_sub [CR, NL] [NL] (concat cs) = concat ds \<and> (\<forall>c \<in> set ds. rchar_ok c)"
proof (induction cs rule: length_induct)
  case (1 cs)
  show ?case
  proof (cases cs)
    case Nil
    then show ?thesis by (intro exI [of _ "[]"]) simp
  next
    case (Cons c cs')
    with 1 have ok: "rchar_ok c" "\<forall>c \<in> set cs'. rchar_ok c" by simp_all
    show ?thesis
    proof (cases "c = [CR] \<and> starts_with (concat cs') [NL]")
      case True
      with ok obtain cs'' where cs'': "cs' = [NL] # cs''" by (blast elim: starts_with_NL)
      with 1 Cons obtain ds where
        "replace_sub [CR, NL] [NL] (concat cs'') = concat ds" "\<forall>c \<in> set ds. rchar_ok c" by force
      with Cons cs'' True show ?thesis by (intro exI [of _ "[NL] # ds"]) simp
    next
      case False
      from 1 Cons ok obtain ds where
        ds: "replace_sub [CR, NL] [NL] (concat cs') = concat ds" "\<forall>c \<in> set ds. rchar_ok c" by force
      have "replace_sub [CR, NL] [NL] (c @ concat cs') = c @ replace_sub [CR, NL] [NL] (concat cs')"
      proof (cases "c = [CR]")
        case True
        with False show ?thesis by simp
      next
        case False
        then show ?thesis using ok(1) rchar_ok_no_byte [of c CR] by (simp add: replace_sub_skip)
      qed
      with Cons ds ok show ?thesis by (intro exI [of _ "c # ds"]) simp
    qed
  qed
qed

lemma chars_normalized:
  "encoded s \<Longrightarrow> c \<in> set (chars (replace_sub [CR, NL] [NL] s)) \<Longrightarrow> rchar_ok c"
  using replace_sub_chars [of "chars s"] chars_concat [of s]
  by (auto simp: encoded_def chars_concat_ok)

text \<open>What the machine emits: shown characters and, when it preserves them, whole graphic
  rendition sequences.\<close>

definition sgr_sequence :: "rchar list \<Rightarrow> bool" where
  "sgr_sequence t \<longleftrightarrow> (\<exists>ps. t = [[ESC], ''[''] @ ps @ [''m''] \<and> (\<forall>v \<in> set ps. sgr_parameter v))"

inductive emitted :: "bool \<Rightarrow> rchar list \<Rightarrow> bool" for p where
  emitted_Nil: "emitted p []"
| emitted_shown: "emitted p out \<Longrightarrow> shown c \<Longrightarrow> c \<noteq> [CR] \<Longrightarrow> c \<noteq> [ESC] \<Longrightarrow> rchar_ok c \<Longrightarrow> emitted p (out @ [c])"
| emitted_sgr: "emitted p out \<Longrightarrow> p \<Longrightarrow> sgr_sequence t \<Longrightarrow> emitted p (out @ t)"

lemma shown_not: "shown c \<Longrightarrow> c \<noteq> [ESC] \<and> c \<noteq> [CR]"
  by (auto simp: shown_def is_control_def)

lemma run_emitted:
  assumes "emitted p (sz_output s)" and "\<forall>c \<in> set cs. rchar_ok c"
  shows "emitted p (sz_output (fold (sanitize_step p) cs s))"
  using assms
proof (induction cs arbitrary: s)
  case Nil
  then show ?case by simp
next
  case (Cons c cs)
  have "emitted p (sz_output (sanitize_step p c s))"
  proof (cases "sz_state s")
    case Ground
    with Cons.prems show ?thesis
      by (simp add: sanitize_step_def) (blast dest: shown_not intro: emitted_shown)
  next
    case Csi
    with Cons.prems show ?thesis
      by (auto simp: sanitize_step_def sgr_sequence_def intro!: emitted_sgr)
  qed (use Cons.prems in \<open>simp_all add: sanitize_step_def\<close>)
  with Cons show ?case by simp
qed

lemma sgr_parameter_not_last: "sgr_parameter v \<Longrightarrow> \<not> csi_last v"
  by (auto simp: sgr_parameter_def csi_last_def is_digit_def)

lemma run_parameters:
  "\<forall>v \<in> set ps. sgr_parameter v \<Longrightarrow> sz_state s = Csi \<Longrightarrow>
   fold (sanitize_step p) ps s = s\<lparr>sz_csi := sz_csi s @ ps\<rparr>"
  by (induction ps arbitrary: s) (simp_all add: sanitize_step_def sgr_parameter_not_last)

text \<open>Read again, what was emitted brings the machine back to the ground state, and its output
  is what the text without its graphic renditions, or with them, would give.\<close>

lemma run_sgr:
  assumes "sgr_sequence t" and "sz_state s = Ground"
  shows "sz_state (fold (sanitize_step q) t s) = Ground
    \<and> sz_output (fold (sanitize_step q) t s) = sz_output s @ (if q then t else [])"
proof -
  from assms(1) obtain ps where t: "t = [[ESC], ''[''] @ ps @ [''m'']"
    and ps: "\<forall>v \<in> set ps. sgr_parameter v" by (auto simp: sgr_sequence_def)
  have open_csi: "fold (sanitize_step q) [[ESC], ''['' ] s = s\<lparr>sz_csi := [], sz_state := Csi\<rparr>"
    using assms(2) by (simp add: sanitize_step_def)
  have "fold (sanitize_step q) t s
      = fold (sanitize_step q) [''m''] (fold (sanitize_step q) ps (fold (sanitize_step q) [[ESC], ''['' ] s))"
    unfolding t fold_append comp_apply ..
  also have "\<dots> = sanitize_step q ''m'' (s\<lparr>sz_state := Csi, sz_csi := ps\<rparr>)"
    unfolding open_csi using run_parameters [OF ps, of "s\<lparr>sz_csi := [], sz_state := Csi\<rparr>" q]
    by simp
  finally have run: "fold (sanitize_step q) t s = sanitize_step q ''m'' (s\<lparr>sz_state := Csi, sz_csi := ps\<rparr>)" .
  show ?thesis unfolding run using ps by (auto simp: sanitize_step_def csi_last_def t)
qed

lemma run_shown:
  "shown c \<Longrightarrow> sz_state s = Ground \<Longrightarrow> sanitize_step q c s = s\<lparr>sz_output := sz_output s @ [c]\<rparr>"
  by (auto simp: sanitize_step_def dest: shown_not)

text \<open>Two machines on one input differ only in the sequences they emit: reading the output of
  the one that preserves them gives the output of the other.\<close>

definition resanitized :: "bool \<Rightarrow> rchar list \<Rightarrow> sanitizer" where
  "resanitized q out = fold (sanitize_step q) out sanitizer_start"

definition follows :: "bool \<Rightarrow> bool \<Rightarrow> sanitizer \<Rightarrow> sanitizer \<Rightarrow> bool" where
  "follows p q s t \<longleftrightarrow>
     sz_state s = sz_state t \<and> sz_csi s = sz_csi t
     \<and> sz_state (resanitized q (sz_output s)) = Ground
     \<and> sz_output (resanitized q (sz_output s)) = sz_output t"

lemma resanitized_append:
  "resanitized q (out @ t) = fold (sanitize_step q) t (resanitized q out)"
  by (simp add: resanitized_def)

lemma follows_step_Ground:
  assumes "follows p q s t" and "sz_state t = Ground"
  shows "follows p q (sanitize_step p c s) (sanitize_step q c t)"
proof (cases "shown c")
  case True
  with assms run_shown [of c s p] run_shown [of c t q]
    run_shown [of c "resanitized q (sz_output s)" q]
  show ?thesis by (simp add: follows_def resanitized_append)
next
  case False
  with assms show ?thesis by (auto simp: follows_def sanitize_step_def)
qed

lemma follows_step_Csi:
  assumes f: "follows p q s t" and csi: "sz_state t = Csi" and "q \<longrightarrow> p"
  shows "follows p q (sanitize_step p c s) (sanitize_step q c t)"
proof (cases "c = ''m'' \<and> (\<forall>v \<in> set (sz_csi t). sgr_parameter v)")
  case True
  define e where "e = [[ESC], ''[''] @ sz_csi t @ [''m'']"
  from True have e: "sgr_sequence e" by (auto simp: sgr_sequence_def e_def)
  have m: "csi_last ''m''" by (simp add: csi_last_def)
  have st: "sanitize_step p c s = (if p then s\<lparr>sz_output := sz_output s @ e, sz_state := Ground\<rparr>
      else s\<lparr>sz_state := Ground\<rparr>)"
    "sanitize_step q c t = (if q then t\<lparr>sz_output := sz_output t @ e, sz_state := Ground\<rparr>
      else t\<lparr>sz_state := Ground\<rparr>)"
    using True f csi m by (simp_all add: sanitize_step_def follows_def e_def)
  show ?thesis
    using f \<open>q \<longrightarrow> p\<close> run_sgr [OF e, of "resanitized q (sz_output s)" q]
    unfolding st by (auto simp: follows_def resanitized_append)
next
  case False
  with f csi show ?thesis by (auto simp: follows_def sanitize_step_def)
qed

lemma follows_step:
  assumes "follows p q s t" and "q \<longrightarrow> p"
  shows "follows p q (sanitize_step p c s) (sanitize_step q c t)"
proof (cases "sz_state t")
  case Ground
  with assms show ?thesis by (rule_tac follows_step_Ground)
next
  case Csi
  with assms show ?thesis by (rule_tac follows_step_Csi)
qed (use assms in \<open>auto simp: follows_def sanitize_step_def\<close>)

lemma follows_run:
  "q \<longrightarrow> p \<Longrightarrow> follows p q s t \<Longrightarrow>
   follows p q (fold (sanitize_step p) cs s) (fold (sanitize_step q) cs t)"
  by (induction cs arbitrary: s t) (simp_all add: follows_step)

lemma follows_start: "follows p q sanitizer_start sanitizer_start"
  by (simp add: follows_def resanitized_def sanitizer_start_def)

text \<open>The emitted characters are well formed, so the output text has exactly these characters.\<close>

lemma sgr_parameter_ok: "sgr_parameter v \<Longrightarrow> rchar_ok v \<and> v \<noteq> [CR]"
  by (auto simp: sgr_parameter_def is_digit_def)

lemma emitted_ok: "emitted p out \<Longrightarrow> c \<in> set out \<Longrightarrow> rchar_ok c \<and> c \<noteq> [CR]"
  by (induction rule: emitted.induct) (auto simp: sgr_sequence_def dest!: sgr_parameter_ok bspec)

lemma emitted_plain: "emitted False out \<Longrightarrow> c \<in> set out \<Longrightarrow> shown c"
  by (induction rule: emitted.induct) auto

lemma no_cr_fixed: "CR \<notin> set s \<Longrightarrow> replace_sub [CR, NL] q s = s"
  using replace_sub_skip [of s q "[]"] by simp

definition sanitized_chars :: "string \<Rightarrow> bool \<Rightarrow> rchar list" where
  "sanitized_chars s p =
     sz_output (fold (sanitize_step p) (chars (replace_sub [CR, NL] [NL] s)) sanitizer_start)"

lemma sanitized_chars:
  assumes "encoded s"
  shows "emitted p (sanitized_chars s p)"
    and "chars (sanitize_terminal_text s p) = sanitized_chars s p"
    and "CR \<notin> set (sanitize_terminal_text s p)"
proof -
  show e: "emitted p (sanitized_chars s p)"
    unfolding sanitized_chars_def
    by (rule run_emitted) (auto simp: sanitizer_start_def emitted_Nil chars_normalized [OF assms])
  have eq: "sanitize_terminal_text s p = concat (sanitized_chars s p)"
    by (simp add: sanitize_terminal_text_def sanitized_chars_def)
  from emitted_ok [OF e] show "chars (sanitize_terminal_text s p) = sanitized_chars s p"
    by (simp add: eq chars_concat_ok)
  from emitted_ok [OF e] rchar_ok_no_byte [of _ CR] show "CR \<notin> set (sanitize_terminal_text s p)"
    by (auto simp: eq)
qed

lemma sanitize_twice:
  assumes "encoded s" and "q \<longrightarrow> p"
  shows "sanitize_terminal_text (sanitize_terminal_text s p) q = sanitize_terminal_text s q"
proof -
  let ?cs = "chars (replace_sub [CR, NL] [NL] s)"
  have "follows p q (fold (sanitize_step p) ?cs sanitizer_start) (fold (sanitize_step q) ?cs sanitizer_start)"
    using follows_run [OF assms(2) follows_start] .
  then have "sz_output (resanitized q (sanitized_chars s p)) = sanitized_chars s q"
    by (simp add: follows_def sanitized_chars_def)
  then show ?thesis
    using sanitized_chars [OF assms(1), of p]
    by (simp add: sanitize_terminal_text_def [of _ q] no_cr_fixed resanitized_def sanitized_chars_def [of s q])
qed

text \<open>A text that the sanitizer leaves alone, and which is all it lets through.\<close>

definition harmless :: "string \<Rightarrow> bool" where
  "harmless s \<longleftrightarrow> encoded s \<and> (\<forall>c \<in> set (chars s). shown c)"

lemma harmless_Nil [simp]: "harmless []"
  by (simp add: harmless_def)

lemma harmless_append: "harmless a \<Longrightarrow> harmless b \<Longrightarrow> harmless (a @ b)"
  by (auto simp: harmless_def encoded_append chars_append)

lemma sanitize_harmless:
  assumes "encoded s"
  shows "harmless (sanitize_terminal_text s False)"
proof -
  note s = sanitized_chars [OF assms, of False]
  show ?thesis unfolding harmless_def encoded_def s(2)
    using emitted_ok [OF s(1)] emitted_plain [OF s(1)] by simp
qed

lemma run_shown_all:
  "\<forall>c \<in> set cs. shown c \<Longrightarrow> sz_state s = Ground \<Longrightarrow>
   fold (sanitize_step q) cs s = s\<lparr>sz_output := sz_output s @ cs\<rparr>"
  by (induction cs arbitrary: s) (auto simp: run_shown)

lemma sanitize_harmless_id:
  assumes "harmless s"
  shows "sanitize_terminal_text s p = s"
proof -
  from assms have ok: "\<forall>c \<in> set (chars s). rchar_ok c" "\<forall>c \<in> set (chars s). shown c"
    by (auto simp: harmless_def encoded_def)
  have "CR \<notin> set (concat (chars s))"
    using ok rchar_ok_no_byte [of _ CR] shown_not by fastforce
  then show ?thesis
    by (simp add: sanitize_terminal_text_def no_cr_fixed chars_concat run_shown_all [OF ok(2)] sanitizer_start_def)
qed

lemma patch_lines_iff:
  "patch_lines a b ls \<longleftrightarrow>
     (\<exists>l \<in> set ls. starts_with l ''diff --git '' \<or> starts_with l ''@@ '')
     \<or> (a \<or> (\<exists>l \<in> set ls. starts_with l ''--- '')) \<and> (b \<or> (\<exists>l \<in> set ls. starts_with l ''+++ ''))"
  by (induction a b ls rule: patch_lines.induct) auto

section \<open>Properties\<close>

text \<open>
  C33. Terminal safety of plain rendering: for any text, the sanitized output has no escape
  character and no other control character but line feeds and tabs.
\<close>

theorem sanitize_no_control:
  assumes "is_utf8 input" and "c \<in> set (chars (sanitize_terminal_text input False))"
  shows "c = [NL] \<or> c = [TAB] \<or> \<not> is_control c"
proof -
  from sanitized_chars [OF is_utf8_encoded [OF assms(1)], of False] assms(2) have "emitted False (sanitized_chars input False)"
    and "c \<in> set (sanitized_chars input False)" by simp_all
  from emitted_plain [OF this] show ?thesis by (simp add: shown_def)
qed

definition escape_sample :: string where
  "escape_sample = ''a'' @ [ESC] @ '']0;title'' @ [CHR 0x07] @ [ESC] @ ''[31mb'' @ [CR, NL]
     @ [CHR 0xC2, CHR 0x9B] @ ''c''"

theorem sanitize_no_control_witness:
  "sanitize_terminal_text escape_sample False = ''ab'' @ [NL] @ ''c''
   \<and> (''b'' = [NL] \<or> ''b'' = [TAB] \<or> \<not> is_control ''b'')"
  using sanitize_no_control [of escape_sample "''b''"] by code_simp

text \<open>
  Sanitizing is stable: a text that was already sanitized, with or without its colour
  sequences kept, is not changed by sanitizing it the same way again; and dropping the
  colours later gives what dropping them at once would have given.
\<close>

lemma sanitize_idempotent:
  assumes "is_utf8 input"
  shows "sanitize_terminal_text (sanitize_terminal_text input p) p = sanitize_terminal_text input p
    \<and> sanitize_terminal_text (sanitize_terminal_text input True) False
      = sanitize_terminal_text input False"
  using sanitize_twice [OF is_utf8_encoded [OF assms]] by simp

lemma sanitize_idempotent_instance:
  "sanitize_terminal_text (sanitize_terminal_text escape_sample True) True
     = sanitize_terminal_text escape_sample True
   \<and> sanitize_terminal_text (sanitize_terminal_text escape_sample True) False
     = sanitize_terminal_text escape_sample False"
  by (rule sanitize_idempotent) code_simp

end
