(* ===== verification/Context_Gaps.thy ===== *)
theory Context_Gaps
  imports Diff_Model Terminal_Text
begin

text \<open>
  The unchanged lines a diff leaves out, \<open>src/review/context.rs\<close>: which ranges are collapsed
  between and after the hunks of a file (\<open>derive_collapsed_gaps\<close>), which of them a key press
  opens, and the lines a range expands to once the source file is loaded
  (\<open>expand_gap_lines\<close>). Loading a source runs a command or reads a file and is not part of
  the model; its result is the argument.
\<close>

section \<open>Data\<close>

datatype gap_position = Before | Trailing

record gap_key =
  gk_file_id :: string
  gk_position :: gap_position
  gk_hunk_index :: usize

definition gap_key_display :: "gap_key \<Rightarrow> string" where
  "gap_key_display k =
     (case gk_position k of Before \<Rightarrow> ''before'' | Trailing \<Rightarrow> ''trailing'') @ '':'' @ nat_str (gk_hunk_index k)"

datatype source_side = SideOld | SideNew

text \<open>An inclusive range is the pair of its ends.\<close>

record collapsed_gap =
  cg_key :: gap_key
  cg_old_range :: "u32 \<times> u32"
  cg_new_range :: "u32 \<times> u32"

record context_line =
  cl_old_line :: u32
  cl_new_line :: u32
  cl_text :: string

datatype source_failure =
    SourceUnavailable
  | SourceMissing
  | SourceTooLarge usize
  | NonUtf8
  | SourceIo string
  | SourceCommand string
  | ShortSource

fun source_failure_display :: "source_failure \<Rightarrow> string" where
  "source_failure_display SourceUnavailable = ''context source is unavailable''"
| "source_failure_display SourceMissing = ''context source is missing''"
| "source_failure_display (SourceTooLarge limit) = ''context source exceeded '' @ nat_str limit @ '' bytes''"
| "source_failure_display NonUtf8 = ''context source is not valid UTF-8''"
| "source_failure_display (SourceIo message) = message"
| "source_failure_display (SourceCommand message) = message"
| "source_failure_display ShortSource = ''context source is shorter than the collapsed range''"

record loaded_context_source =
  ls_side :: source_side
  ls_text :: string

record file_context_state =
  fc_expanded :: "gap_key list"
  fc_source :: "(source_failure + loaded_context_source) option"

section \<open>Operations\<close>

definition side_range :: "collapsed_gap \<Rightarrow> source_side \<Rightarrow> u32 \<times> u32" where
  "side_range g side = (case side of SideOld \<Rightarrow> cg_old_range g | SideNew \<Rightarrow> cg_new_range g)"

definition gap_line_count :: "collapsed_gap \<Rightarrow> source_side \<Rightarrow> usize" where
  "gap_line_count g side =
     (let (start, end) = side_range g side in sat_add u32_max (end - start) 1)"

definition count_u32 :: "(diff_line \<Rightarrow> bool) \<Rightarrow> diff_line list \<Rightarrow> u32" where
  "count_u32 p ls = length (filter p ls) mod Suc u32_max"

definition gap_at :: "string \<Rightarrow> gap_position \<Rightarrow> usize \<Rightarrow> u32 \<Rightarrow> u32 \<Rightarrow> u32 \<Rightarrow> collapsed_gap" where
  "gap_at file_id pos hunk_index old_cursor new_cursor cnt =
     \<lparr>cg_key = \<lparr>gk_file_id = file_id, gk_position = pos, gk_hunk_index = hunk_index\<rparr>,
      cg_old_range = (old_cursor, sat_add u32_max old_cursor (cnt - 1)),
      cg_new_range = (new_cursor, sat_add u32_max new_cursor (cnt - 1))\<rparr>"

text \<open>One iteration over the hunks: from the two cursors and the gaps so far.\<close>

definition gap_step ::
  "string \<Rightarrow> nat \<times> hunk \<Rightarrow> u32 \<times> u32 \<times> collapsed_gap list \<Rightarrow> u32 \<times> u32 \<times> collapsed_gap list" where
  "gap_step file_id numbered st =
     (case (numbered, st) of ((hunk_index, h), (old_cursor, new_cursor, gaps)) \<Rightarrow>
       let old_gap = hunk_old_start h - old_cursor;
           new_gap = hunk_new_start h - new_cursor;
           cnt = min old_gap new_gap;
           old_count = count_u32 (\<lambda>l. dl_kind l \<noteq> Addition) (hunk_lines h);
           new_count = count_u32 (\<lambda>l. dl_kind l \<noteq> Deletion) (hunk_lines h)
       in (max old_cursor (sat_add u32_max (hunk_old_start h) old_count),
           max new_cursor (sat_add u32_max (hunk_new_start h) new_count),
           if 0 < cnt then gaps @ [gap_at file_id Before hunk_index old_cursor new_cursor cnt] else gaps))"

definition derive_collapsed_gaps :: "diff_file \<Rightarrow> (source_side \<times> u32) option \<Rightarrow> collapsed_gap list" where
  "derive_collapsed_gaps f source_length =
     (let hs = df_hunks f;
          (old_cursor, new_cursor, gaps) = fold (gap_step (df_id f)) (zip [0..<length hs] hs) (1, 1, [])
      in (case source_length of
            Some (side, n) \<Rightarrow>
              if hs = [] then gaps
              else
                let side_cursor = (case side of SideOld \<Rightarrow> old_cursor | SideNew \<Rightarrow> new_cursor)
                in if side_cursor \<le> n
                   then gaps @ [gap_at (df_id f) Trailing (length hs - 1) old_cursor new_cursor
                                  (sat_add u32_max (n - side_cursor) 1)]
                   else gaps
          | None \<Rightarrow> gaps))"

definition select_gap_for_toggle :: "collapsed_gap list \<Rightarrow> usize \<Rightarrow> gap_key option" where
  "select_gap_for_toggle gaps selected_hunk =
     map_option cg_key
       (or_else
         (List.find (\<lambda>g. gk_position (cg_key g) = Before \<and> selected_hunk \<le> gk_hunk_index (cg_key g)) gaps)
         (List.find (\<lambda>g. gk_position (cg_key g) = Trailing) gaps))"

definition source_for_context :: "diff_file \<Rightarrow> source_side \<times> source_spec" where
  "source_for_context f =
     (if df_change_kind f = Deleted then (SideOld, df_old_source f) else (SideNew, df_new_source f))"

definition normalized_lines :: "string \<Rightarrow> string list" where
  "normalized_lines source = lines (replace_sub [CR, NL] [NL] source)"

definition normalized_source_line_count :: "string \<Rightarrow> usize" where
  "normalized_source_line_count source = length (normalized_lines source)"

definition as_u32_count :: "usize \<Rightarrow> u32" where
  "as_u32_count n = n mod Suc u32_max"

definition context_gaps :: "file_context_state \<Rightarrow> diff_file \<Rightarrow> collapsed_gap list" where
  "context_gaps st f =
     derive_collapsed_gaps f
       (case fc_source st of
          Some (Inr loaded) \<Rightarrow> Some (ls_side loaded, as_u32_count (normalized_source_line_count (ls_text loaded)))
        | _ \<Rightarrow> None)"

definition context_text :: "string \<Rightarrow> string" where
  "context_text l = replace_char TAB ''  '' (sanitize_terminal_text l False)"

definition expand_gap_lines ::
  "collapsed_gap \<Rightarrow> string \<Rightarrow> source_side \<Rightarrow> source_failure + context_line list" where
  "expand_gap_lines g source side =
     (let ls = normalized_lines source;
          start = fst (side_range g side) - 1;
          cnt = gap_line_count g side
      in if length ls < sat_add usize_max start cnt then Inl ShortSource
         else Inr (map (\<lambda>offset.
                \<lparr>cl_old_line = sat_add u32_max (fst (cg_old_range g)) (as_u32_count offset),
                 cl_new_line = sat_add u32_max (fst (cg_new_range g)) (as_u32_count offset),
                 cl_text = context_text (ls ! (start + offset))\<rparr>) [0..<cnt]))"

section \<open>The shape of the gaps\<close>

text \<open>The first line after a hunk on each side, and files whose line numbers stay in 32 bits.\<close>

definition old_lines :: "hunk \<Rightarrow> nat" where
  "old_lines h = length (filter (\<lambda>l. dl_kind l \<noteq> Addition) (hunk_lines h))"

definition new_lines :: "hunk \<Rightarrow> nat" where
  "new_lines h = length (filter (\<lambda>l. dl_kind l \<noteq> Deletion) (hunk_lines h))"

definition bounded_hunk :: "nat \<Rightarrow> hunk \<Rightarrow> bool" where
  "bounded_hunk extra h \<longleftrightarrow>
     hunk_old_start h + length (hunk_lines h) + extra \<le> u32_max
     \<and> hunk_new_start h + length (hunk_lines h) + extra \<le> u32_max"

text \<open>A gap beside the hunks \<open>before\<close> it and, on each side, up to \<open>stop\<close>.\<close>

definition gap_after :: "hunk list \<Rightarrow> collapsed_gap \<Rightarrow> bool" where
  "gap_after hs g \<longleftrightarrow>
     (\<forall>h \<in> set hs. hunk_old_start h + old_lines h \<le> fst (cg_old_range g)
        \<and> hunk_new_start h + new_lines h \<le> fst (cg_new_range g))"

definition gap_ends_before :: "hunk \<Rightarrow> collapsed_gap \<Rightarrow> bool" where
  "gap_ends_before h g \<longleftrightarrow>
     snd (cg_old_range g) < hunk_old_start h \<and> snd (cg_new_range g) < hunk_new_start h"

definition gap_balanced :: "collapsed_gap \<Rightarrow> bool" where
  "gap_balanced g \<longleftrightarrow>
     1 \<le> fst (cg_old_range g) \<and> fst (cg_old_range g) \<le> snd (cg_old_range g)
     \<and> 1 \<le> fst (cg_new_range g) \<and> fst (cg_new_range g) \<le> snd (cg_new_range g)
     \<and> snd (cg_new_range g) \<le> u32_max \<and> snd (cg_old_range g) \<le> u32_max
     \<and> snd (cg_old_range g) - fst (cg_old_range g) = snd (cg_new_range g) - fst (cg_new_range g)"

definition gap_before :: "collapsed_gap \<Rightarrow> collapsed_gap \<Rightarrow> bool" where
  "gap_before a b \<longleftrightarrow>
     snd (cg_old_range a) < fst (cg_old_range b) \<and> snd (cg_new_range a) < fst (cg_new_range b)"

text \<open>What holds after the first hunks: the cursors are past them and the gaps so far.\<close>

definition gaps_inv :: "nat \<Rightarrow> string \<Rightarrow> hunk list \<Rightarrow> u32 \<times> u32 \<times> collapsed_gap list \<Rightarrow> bool" where
  "gaps_inv extra file_id hs st \<longleftrightarrow>
     (case st of (old_cursor, new_cursor, gaps) \<Rightarrow>
       1 \<le> old_cursor \<and> 1 \<le> new_cursor
       \<and> (\<forall>h \<in> set hs. hunk_old_start h + old_lines h \<le> old_cursor
            \<and> hunk_new_start h + new_lines h \<le> new_cursor)
       \<and> old_cursor + extra \<le> u32_max \<and> new_cursor + extra \<le> u32_max
       \<and> sorted_wrt gap_before gaps
       \<and> (\<forall>g \<in> set gaps. gap_balanced g \<and> gk_file_id (cg_key g) = file_id
            \<and> gk_position (cg_key g) = Before \<and> gk_hunk_index (cg_key g) < length hs
            \<and> gap_after (take (gk_hunk_index (cg_key g)) hs) g
            \<and> gap_ends_before (hs ! gk_hunk_index (cg_key g)) g
            \<and> snd (cg_old_range g) < old_cursor \<and> snd (cg_new_range g) < new_cursor))"

lemma count_u32_old: "bounded_hunk e h \<Longrightarrow> count_u32 (\<lambda>l. dl_kind l \<noteq> Addition) (hunk_lines h) = old_lines h"
  and count_u32_new: "bounded_hunk e h \<Longrightarrow> count_u32 (\<lambda>l. dl_kind l \<noteq> Deletion) (hunk_lines h) = new_lines h"
proof -
  have "length (filter p (hunk_lines h)) \<le> u32_max" if "bounded_hunk e h" for p
    using that length_filter_le [of p "hunk_lines h"] unfolding bounded_hunk_def by linarith
  then show "bounded_hunk e h \<Longrightarrow> count_u32 (\<lambda>l. dl_kind l \<noteq> Addition) (hunk_lines h) = old_lines h"
    and "bounded_hunk e h \<Longrightarrow> count_u32 (\<lambda>l. dl_kind l \<noteq> Deletion) (hunk_lines h) = new_lines h"
    by (simp_all add: count_u32_def old_lines_def new_lines_def mod_less less_Suc_eq_le)
qed

lemma bounded_sums:
  assumes "bounded_hunk e h"
  shows "hunk_old_start h + old_lines h + e \<le> u32_max" "hunk_new_start h + new_lines h + e \<le> u32_max"
  using assms length_filter_le [of "\<lambda>l. dl_kind l \<noteq> Addition" "hunk_lines h"]
    length_filter_le [of "\<lambda>l. dl_kind l \<noteq> Deletion" "hunk_lines h"]
  unfolding bounded_hunk_def old_lines_def new_lines_def by linarith+

text \<open>A hunk whose counts do not leave 32 bits, and the step with the saturation gone.\<close>

lemma gap_step_bounded:
  assumes "bounded_hunk e h"
  shows "gap_step fid (i, h) (oc, nc, gaps) =
    (max oc (hunk_old_start h + old_lines h), max nc (hunk_new_start h + new_lines h),
     if oc < hunk_old_start h \<and> nc < hunk_new_start h
     then gaps @ [gap_at fid Before i oc nc (min (hunk_old_start h - oc) (hunk_new_start h - nc))]
     else gaps)"
  using bounded_sums [OF assms]
  by (auto simp: gap_step_def Let_def count_u32_old [OF assms] count_u32_new [OF assms])

lemma gap_at_fields:
  "cg_key (gap_at fid pos i oc nc n) = \<lparr>gk_file_id = fid, gk_position = pos, gk_hunk_index = i\<rparr>"
  "fst (cg_old_range (gap_at fid pos i oc nc n)) = oc" "fst (cg_new_range (gap_at fid pos i oc nc n)) = nc"
  "1 \<le> n \<Longrightarrow> oc + n \<le> Suc u32_max \<Longrightarrow> snd (cg_old_range (gap_at fid pos i oc nc n)) = oc + n - 1"
  "1 \<le> n \<Longrightarrow> nc + n \<le> Suc u32_max \<Longrightarrow> snd (cg_new_range (gap_at fid pos i oc nc n)) = nc + n - 1"
  by (simp_all add: gap_at_def)

lemma gap_at_new:
  assumes "1 \<le> n" and "oc + n \<le> os" and "nc + n \<le> ns" and "os \<le> u32_max" and "ns \<le> u32_max"
    and "1 \<le> oc" and "1 \<le> nc"
  shows "gap_balanced (gap_at fid pos i oc nc n)"
    and "snd (cg_old_range (gap_at fid pos i oc nc n)) < os"
    and "snd (cg_new_range (gap_at fid pos i oc nc n)) < ns"
proof -
  have f: "oc + n \<le> Suc u32_max" "nc + n \<le> Suc u32_max" using assms by linarith+
  note fields = gap_at_fields(2,3) gap_at_fields(4) [OF assms(1) f(1)] gap_at_fields(5) [OF assms(1) f(2)]
  show "gap_balanced (gap_at fid pos i oc nc n)"
    unfolding gap_balanced_def fields using assms by auto
  show "snd (cg_old_range (gap_at fid pos i oc nc n)) < os"
    "snd (cg_new_range (gap_at fid pos i oc nc n)) < ns"
    unfolding fields using assms by auto
qed

lemma gap_step_inv:
  assumes inv: "gaps_inv e fid hs (oc, nc, gaps)" and b: "bounded_hunk e h"
  shows "gaps_inv e fid (hs @ [h]) (gap_step fid (length hs, h) (oc, nc, gaps))"
proof -
  define n where "n = min (hunk_old_start h - oc) (hunk_new_start h - nc)"
  define g where "g = gap_at fid Before (length hs) oc nc n"
  define oc' where "oc' = max oc (hunk_old_start h + old_lines h)"
  define nc' where "nc' = max nc (hunk_new_start h + new_lines h)"
  define gaps' where "gaps' = (if oc < hunk_old_start h \<and> nc < hunk_new_start h then gaps @ [g] else gaps)"
  have step: "gap_step fid (length hs, h) (oc, nc, gaps) = (oc', nc', gaps')"
    by (simp add: gap_step_bounded [OF b] oc'_def nc'_def gaps'_def g_def n_def)
  note sums = bounded_sums [OF b]
  from inv have I: "1 \<le> oc" "1 \<le> nc" "oc + e \<le> u32_max" "nc + e \<le> u32_max" "sorted_wrt gap_before gaps"
    "\<forall>h \<in> set hs. hunk_old_start h + old_lines h \<le> oc \<and> hunk_new_start h + new_lines h \<le> nc"
    "\<forall>g \<in> set gaps. snd (cg_old_range g) < oc \<and> snd (cg_new_range g) < nc"
    by (simp_all add: gaps_inv_def)
  have g: "gap_balanced g \<and> cg_key g = \<lparr>gk_file_id = fid, gk_position = Before, gk_hunk_index = length hs\<rparr>
      \<and> gap_after hs g \<and> gap_ends_before h g \<and> (\<forall>k \<in> set gaps. gap_before k g)
      \<and> snd (cg_old_range g) < oc' \<and> snd (cg_new_range g) < nc'"
    if lt: "oc < hunk_old_start h" "nc < hunk_new_start h"
  proof -
    have n: "1 \<le> n" "oc + n \<le> hunk_old_start h" "nc + n \<le> hunk_new_start h" using lt by (auto simp: n_def)
    have le: "hunk_old_start h \<le> u32_max" "hunk_new_start h \<le> u32_max" using sums by linarith+
    note new = gap_at_new [OF n le I(1,2), of fid Before "length hs", folded g_def]
    have starts: "fst (cg_old_range g) = oc" "fst (cg_new_range g) = nc"
      by (simp_all add: g_def gap_at_fields)
    from new(2,3) have "snd (cg_old_range g) < oc'" "snd (cg_new_range g) < nc'"
      by (auto simp: oc'_def nc'_def less_max_iff_disj)
    moreover have "gap_after hs g" using I(6) by (simp add: gap_after_def starts)
    moreover have "\<forall>k \<in> set gaps. gap_before k g" using I(7) by (simp add: gap_before_def starts)
    ultimately show ?thesis
      using new by (simp add: gap_ends_before_def) (simp add: g_def gap_at_fields)
  qed
  have old: "gap_balanced k \<and> gk_file_id (cg_key k) = fid \<and> gk_position (cg_key k) = Before
      \<and> gk_hunk_index (cg_key k) < length (hs @ [h])
      \<and> gap_after (take (gk_hunk_index (cg_key k)) (hs @ [h])) k
      \<and> gap_ends_before ((hs @ [h]) ! gk_hunk_index (cg_key k)) k
      \<and> snd (cg_old_range k) < oc' \<and> snd (cg_new_range k) < nc'" if "k \<in> set gaps" for k
    using inv that by (auto simp: gaps_inv_def nth_append oc'_def nc'_def less_max_iff_disj)
  have "sorted_wrt gap_before gaps'" using I(5) g by (auto simp: gaps'_def sorted_wrt_append)
  moreover have "oc' + e \<le> u32_max" "nc' + e \<le> u32_max" "1 \<le> oc'" "1 \<le> nc'"
    using I sums by (auto simp: oc'_def nc'_def)
  moreover have "\<forall>k \<in> set (hs @ [h]). hunk_old_start k + old_lines k \<le> oc' \<and> hunk_new_start k + new_lines k \<le> nc'"
    using I(6) by (auto simp: oc'_def nc'_def le_max_iff_disj)
  moreover have "gap_balanced k \<and> gk_file_id (cg_key k) = fid \<and> gk_position (cg_key k) = Before
      \<and> gk_hunk_index (cg_key k) < length (hs @ [h])
      \<and> gap_after (take (gk_hunk_index (cg_key k)) (hs @ [h])) k
      \<and> gap_ends_before ((hs @ [h]) ! gk_hunk_index (cg_key k)) k
      \<and> snd (cg_old_range k) < oc' \<and> snd (cg_new_range k) < nc'" if "k \<in> set gaps'" for k
  proof (cases "k \<in> set gaps")
    case True
    then show ?thesis by (rule old)
  next
    case False
    with that have k: "k = g" and lt: "oc < hunk_old_start h" "nc < hunk_new_start h"
      by (auto simp: gaps'_def split: if_splits)
    with g [OF lt] show ?thesis by simp
  qed
  ultimately show ?thesis unfolding step gaps_inv_def by simp
qed

lemma gap_fold_inv:
  assumes "\<forall>h \<in> set hs. bounded_hunk e h" and "1 + e \<le> u32_max"
  shows "gaps_inv e fid hs (fold (gap_step fid) (zip [0..<length hs] hs) (1, 1, []))"
  using assms(1)
proof (induction hs rule: rev_induct)
  case Nil
  then show ?case using assms(2) by (simp add: gaps_inv_def)
next
  case (snoc h hs)
  obtain oc nc gaps where f: "fold (gap_step fid) (zip [0..<length hs] hs) (1, 1, []) = (oc, nc, gaps)"
    by (metis prod_cases3)
  from snoc have "gaps_inv e fid hs (oc, nc, gaps)" and "bounded_hunk e h" unfolding f by simp_all
  from gap_step_inv [OF this] show ?case using f by simp
qed

section \<open>Properties\<close>

text \<open>Where a gap of a file may lie.\<close>

definition gap_placed :: "diff_file \<Rightarrow> (source_side \<times> u32) option \<Rightarrow> collapsed_gap \<Rightarrow> bool" where
  "gap_placed f source_length g \<longleftrightarrow>
     gap_balanced g \<and> gk_file_id (cg_key g) = df_id f
     \<and> gk_hunk_index (cg_key g) < length (df_hunks f)
     \<and> (case gk_position (cg_key g) of
          Before \<Rightarrow>
            gap_after (take (gk_hunk_index (cg_key g)) (df_hunks f)) g
            \<and> gap_ends_before (df_hunks f ! gk_hunk_index (cg_key g)) g
        | Trailing \<Rightarrow>
            gap_after (df_hunks f) g
            \<and> (\<exists>side n. source_length = Some (side, n) \<and> snd (side_range g side) = n))"

definition gap_numbers_ok :: "diff_file \<Rightarrow> (source_side \<times> u32) option \<Rightarrow> bool" where
  "gap_numbers_ok f source_length \<longleftrightarrow>
     (let extra = (case source_length of None \<Rightarrow> 0 | Some (_, n) \<Rightarrow> n)
      in 1 + extra \<le> u32_max \<and> (\<forall>h \<in> set (df_hunks f). bounded_hunk extra h))"

lemma trailing_placed:
  assumes inv: "gaps_inv n fid hs (oc, nc, gaps)" and hs: "hs = df_hunks f" "hs \<noteq> []" "fid = df_id f"
    and cur: "cursor = (case side of SideOld \<Rightarrow> oc | SideNew \<Rightarrow> nc)" "cursor \<le> n" and n: "n < u32_max"
  defines "g \<equiv> gap_at fid Trailing (length hs - 1) oc nc (sat_add u32_max (n - cursor) 1)"
  shows "gap_placed f (Some (side, n)) g" and "\<forall>k \<in> set gaps. gap_before k g"
proof -
  from inv have I: "1 \<le> oc" "1 \<le> nc" "oc + n \<le> u32_max" "nc + n \<le> u32_max"
    "\<forall>h \<in> set hs. hunk_old_start h + old_lines h \<le> oc \<and> hunk_new_start h + new_lines h \<le> nc"
    "\<forall>g \<in> set gaps. snd (cg_old_range g) < oc \<and> snd (cg_new_range g) < nc"
    by (simp_all add: gaps_inv_def)
  define k where "k = n - cursor + 1"
  have "1 \<le> cursor" using I cur(1) by (cases side) simp_all
  then have kn: "1 \<le> k" "k \<le> n" "cursor + k = n + 1" using cur(2) by (auto simp: k_def)
  have g: "g = gap_at fid Trailing (length hs - 1) oc nc k"
    using n by (simp add: g_def k_def)
  have le: "oc + k \<le> Suc u32_max" "nc + k \<le> Suc u32_max" using kn I by linarith+
  note fields = gap_at_fields(2,3) gap_at_fields(4) [OF kn(1) le(1)] gap_at_fields(5) [OF kn(1) le(2)]
  have bal: "gap_balanced g" using kn I unfolding g gap_balanced_def fields by auto
  have "snd (side_range g side) = n"
    using kn cur(1) unfolding side_range_def g by (cases side) (simp_all add: fields)
  moreover have "gap_after hs g" using I(5) unfolding gap_after_def g fields by blast
  ultimately show "gap_placed f (Some (side, n)) g"
    using bal hs by (simp add: gap_placed_def) (simp add: g gap_at_fields(1))
  show "\<forall>k \<in> set gaps. gap_before k g" using I(6) unfolding gap_before_def g fields by blast
qed



text \<open>
  Opening a collapsed range shows exactly its lines: the line numbers of both sides run
  through the range's two intervals, the text is the source's lines of the chosen side,
  sanitized and with tabs widened; and it is refused only if the source is too short for it.
\<close>

lemma expand_gap_exact:
  assumes "gap_balanced g"
  shows "case expand_gap_lines g source side of
      Inl e \<Rightarrow> e = ShortSource \<and> length (normalized_lines source) < snd (side_range g side)
    | Inr ls \<Rightarrow>
        snd (side_range g side) \<le> length (normalized_lines source)
        \<and> map cl_old_line ls = [fst (cg_old_range g)..<Suc (snd (cg_old_range g))]
        \<and> map cl_new_line ls = [fst (cg_new_range g)..<Suc (snd (cg_new_range g))]
        \<and> map cl_text ls = map context_text
            (drop (fst (side_range g side) - 1) (take (snd (side_range g side)) (normalized_lines source)))"
proof -
  let ?ls = "normalized_lines source"
  obtain a b where r: "side_range g side = (a, b)" by force
  define n where "n = b - a + 1"
  from assms have ab: "1 \<le> a" "a \<le> b" "b \<le> u32_max"
    and len: "snd (cg_old_range g) = fst (cg_old_range g) + n - 1" "snd (cg_new_range g) = fst (cg_new_range g) + n - 1"
    and pos: "fst (cg_old_range g) + n - 1 \<le> u32_max" "fst (cg_new_range g) + n - 1 \<le> u32_max"
    using r by (cases side; auto simp: gap_balanced_def side_range_def n_def)+
  have n: "1 \<le> n" "a - 1 + n = b" "n \<le> u32_max" using ab by (auto simp: n_def)
  have cnt: "gap_line_count g side = n"
    using n by (simp add: gap_line_count_def r n_def)
  have "u32_max \<le> usize_max" by (simp add: u32_max_def usize_max_def)
  then have sum: "sat_add usize_max (a - 1) n = b" using n ab by simp
  have expand: "expand_gap_lines g source side =
      (if length ?ls < b then Inl ShortSource
       else Inr (map (\<lambda>offset.
              \<lparr>cl_old_line = sat_add u32_max (fst (cg_old_range g)) (as_u32_count offset),
               cl_new_line = sat_add u32_max (fst (cg_new_range g)) (as_u32_count offset),
               cl_text = context_text (?ls ! (a - 1 + offset))\<rparr>) [0..<n]))"
    by (simp only: expand_gap_lines_def Let_def r cnt sum fst_conv)
  show ?thesis
  proof (cases "length ?ls < b")
    case True
    then show ?thesis by (simp add: expand r)
  next
    case False
    have num: "sat_add u32_max s (as_u32_count i) = s + i" if "i < n" "s + n - 1 \<le> u32_max" for s i
      using that n by (simp add: as_u32_count_def)
    have nums: "map (\<lambda>i. sat_add u32_max s (as_u32_count i)) [0..<n] = [s..<Suc (s + n - 1)]"
      if le: "s + n - 1 \<le> u32_max" for s
    proof -
      have "map (\<lambda>i. sat_add u32_max s (as_u32_count i)) [0..<n] = map (\<lambda>i. i + s) [0..<n]"
        by (rule map_cong) (simp_all add: num [OF _ le] add.commute)
      also have "\<dots> = [s..<Suc (s + n - 1)]" using n(1) by (simp add: map_add_upt add.commute del: upt_Suc)
      finally show ?thesis .
    qed
    note old = nums [OF pos(1), folded len(1)] and new = nums [OF pos(2), folded len(2)]
    have body: "map (\<lambda>i. context_text (?ls ! (a - 1 + i))) [0..<n] = map context_text (drop (a - 1) (take b ?ls))"
      using False n by (intro nth_equalityI) (auto simp: min_def)
    show ?thesis using False old new body
      by (simp add: expand r comp_def del: upt_Suc One_nat_def)
  qed
qed

lemma expand_gap_exact_instance:
  "expand_gap_lines (gap_at ''f'' Before 0 2 3 2) (''a'' @ [CR, NL] @ ''b'' @ [NL, TAB] @ ''c'' @ [NL] @ ''d'') SideNew
     = Inr [\<lparr>cl_old_line = 2, cl_new_line = 3, cl_text = ''  c''\<rparr>, \<lparr>cl_old_line = 3, cl_new_line = 4, cl_text = ''d''\<rparr>]
   \<and> snd (side_range (gap_at ''f'' Before 0 2 3 2) SideNew) \<le> 4"
proof -
  have e: "expand_gap_lines (gap_at ''f'' Before 0 2 3 2) (''a'' @ [CR, NL] @ ''b'' @ [NL, TAB] @ ''c'' @ [NL] @ ''d'') SideNew
     = Inr [\<lparr>cl_old_line = 2, cl_new_line = 3, cl_text = ''  c''\<rparr>, \<lparr>cl_old_line = 3, cl_new_line = 4, cl_text = ''d''\<rparr>]"
    by code_simp
  have bal: "gap_balanced (gap_at ''f'' Before 0 2 3 2)" by code_simp
  have len: "length (normalized_lines (''a'' @ [CR, NL] @ ''b'' @ [NL, TAB] @ ''c'' @ [NL] @ ''d'')) = 4" by code_simp
  show ?thesis
    using expand_gap_exact [OF bal, of "''a'' @ [CR, NL] @ ''b'' @ [NL, TAB] @ ''c'' @ [NL] @ ''d''" SideNew] e len
    by simp
qed

end
