(* ===== verification/Note_Target.thy ===== *)
theory Note_Target
  imports Diff_Model Ordered_Map "HOL-Library.Word"
begin

text \<open>
  Where a note belongs in a diff, \<open>src/notes/target.rs\<close>: the kinds of notes, the hunk and line
  a note is anchored at, its stable identifier (an FNV-1a hash in 64-bit arithmetic) and the
  box it is drawn in.
\<close>

unbundle bit_operations_syntax

section \<open>Data\<close>

datatype layout_mode = LayoutAuto | LayoutSplit | LayoutStack

datatype note_anchor_side = OldSide | NewSide

record note_target =
  nt_file_id :: string
  nt_old_range :: "line_range option"
  nt_new_range :: "line_range option"
  nt_hunk_index :: "usize option"
  nt_anchor_side :: "note_anchor_side option"
  nt_anchor_line :: "u32 option"

record human_note =
  hn_id :: string
  hn_target :: note_target
  hn_remote_target :: "inline_comment_target option"
  hn_body :: string
  hn_created_at :: "string option"
  hn_updated_at :: "string option"

record human_note_draft =
  hd_id :: string
  hd_target :: note_target
  hd_remote_target :: "inline_comment_target option"
  hd_body :: string
  hd_caret :: usize
  hd_editing :: "string option"

datatype ask_note_state = Pending | Answered string | FailedWith string

record ask_note =
  an_id :: string
  an_thread_id :: string
  an_target :: note_target
  an_question :: string
  an_state :: ask_note_state

record ask_draft =
  ad_id :: string
  ad_thread_id :: string
  ad_target :: note_target
  ad_question :: string
  ad_caret :: usize

record live_note_input =
  li_id :: string
  li_file_path :: string
  li_hunk_index :: "usize option"
  li_side :: note_anchor_side
  li_line :: u32
  li_summary :: string
  li_rationale :: "string option"
  li_markup :: "string option"
  li_author :: "string option"
  li_created_at :: string

record live_note =
  ln_target :: note_target
  ln_note :: review_note
  ln_markup_width :: u16
  ln_markup_notes :: "string list"

record cleared_session_notes =
  cl_removed_live :: usize
  cl_removed_user :: usize

record note_box_layout =
  nb_box_width :: u16
  nb_box_left :: u16
  nb_content_width :: u16

section \<open>Operations\<close>

definition line_within :: "line_range option \<Rightarrow> u32 option \<Rightarrow> bool" where
  "line_within r l =
     (case (r, l) of (Some r, Some l) \<Rightarrow> lr_start r \<le> l \<and> l \<le> lr_end r | _ \<Rightarrow> False)"

definition covers :: "note_target \<Rightarrow> string \<Rightarrow> u32 option \<Rightarrow> u32 option \<Rightarrow> bool" where
  "covers t file_id old_line new_line \<longleftrightarrow>
     nt_file_id t = file_id
     \<and> (line_within (nt_new_range t) new_line \<or> line_within (nt_old_range t) old_line)"

definition ask_note_is_follow_up :: "ask_note \<Rightarrow> bool" where
  "ask_note_is_follow_up n \<longleftrightarrow> an_thread_id n \<noteq> an_id n"

definition ask_draft_is_follow_up :: "ask_draft \<Rightarrow> bool" where
  "ask_draft_is_follow_up d \<longleftrightarrow> ad_thread_id d \<noteq> ad_id d"

definition live_note_minimal ::
  "string \<Rightarrow> string \<Rightarrow> note_anchor_side \<Rightarrow> u32 \<Rightarrow> string \<Rightarrow> live_note_input" where
  "live_note_minimal note_id file_path side line summary =
     \<lparr>li_id = note_id, li_file_path = file_path, li_hunk_index = None, li_side = side,
      li_line = line, li_summary = summary, li_rationale = None, li_markup = None,
      li_author = None, li_created_at = []\<rparr>"

definition note_source_of :: "review_note \<Rightarrow> note_source" where
  "note_source_of note =
     (case rn_source note of
        User \<Rightarrow> User
      | Agent \<Rightarrow> Agent
      | Ai \<Rightarrow> Ai
      | Named v \<Rightarrow> if v = ''mcp'' then Agent else Named v)"

definition overlaps :: "line_range \<Rightarrow> line_range \<Rightarrow> bool" where
  "overlaps l r \<longleftrightarrow> lr_start l \<le> lr_end r \<and> lr_start r \<le> lr_end l"

definition side_lineno :: "note_anchor_side \<Rightarrow> diff_line \<Rightarrow> u32 option" where
  "side_lineno side line = (case side of OldSide \<Rightarrow> dl_old_lineno line | NewSide \<Rightarrow> dl_new_lineno line)"

definition hunk_range :: "hunk \<Rightarrow> note_anchor_side \<Rightarrow> line_range option" where
  "hunk_range h side =
     (case List.map_filter (side_lineno side) (hunk_lines h) of
        [] \<Rightarrow> None
      | first # ls \<Rightarrow>
          let (start, end) = foldl (\<lambda>(start, end) line. (min start line, max end line)) (first, first) ls
          in Some \<lparr>lr_start = start, lr_end = end\<rparr>)"

definition zip_overlaps :: "line_range option \<Rightarrow> line_range option \<Rightarrow> bool" where
  "zip_overlaps a b = (case (a, b) of (Some l, Some r) \<Rightarrow> overlaps l r | _ \<Rightarrow> False)"

definition ranges_overlap_hunk :: "line_range option \<Rightarrow> line_range option \<Rightarrow> hunk \<Rightarrow> bool" where
  "ranges_overlap_hunk old_range new_range h \<longleftrightarrow>
     zip_overlaps new_range (hunk_range h NewSide) \<or> zip_overlaps old_range (hunk_range h OldSide)"

definition note_overlaps_hunk :: "review_note \<Rightarrow> hunk \<Rightarrow> bool" where
  "note_overlaps_hunk note h = ranges_overlap_hunk (rn_old_range note) (rn_new_range note) h"

definition anchor_of ::
  "line_range option \<Rightarrow> line_range option \<Rightarrow> note_anchor_side option \<times> u32 option" where
  "anchor_of old_range new_range =
     (case new_range of
        Some r \<Rightarrow> (Some NewSide, Some (lr_start r))
      | None \<Rightarrow> (case old_range of
            Some r \<Rightarrow> (Some OldSide, Some (lr_start r))
          | None \<Rightarrow> (None, None)))"

definition resolve_ranges_target ::
  "diff_file \<Rightarrow> line_range option \<Rightarrow> line_range option \<Rightarrow> note_target" where
  "resolve_ranges_target f old_range new_range =
     (let (side, line) = anchor_of old_range new_range
      in \<lparr>nt_file_id = df_id f, nt_old_range = old_range, nt_new_range = new_range,
          nt_hunk_index = position (ranges_overlap_hunk old_range new_range) (df_hunks f),
          nt_anchor_side = side, nt_anchor_line = line\<rparr>)"

definition resolve_note_target :: "diff_file \<Rightarrow> review_note \<Rightarrow> note_target" where
  "resolve_note_target f note =
     (let (side, line) = anchor_of (rn_old_range note) (rn_new_range note)
      in \<lparr>nt_file_id = df_id f, nt_old_range = rn_old_range note,
          nt_new_range = rn_new_range note,
          nt_hunk_index = position (note_overlaps_hunk note) (df_hunks f),
          nt_anchor_side = side, nt_anchor_line = line\<rparr>)"

definition annotated_hunks :: "diff_file \<Rightarrow> usize list" where
  "annotated_hunks f =
     fold os_insert
       (List.map_filter (\<lambda>note. nt_hunk_index (resolve_note_target f note))
         (case df_agent f of None \<Rightarrow> [] | Some a \<Rightarrow> afc_annotations a)) []"

text \<open>The hash, one byte at a time.\<close>

definition fnv_prime :: "64 word" where "fnv_prime = 0x100000001b3"

definition fnv_byte :: "64 word \<Rightarrow> nat \<Rightarrow> 64 word" where
  "fnv_byte v b = (v XOR word_of_nat b) * fnv_prime"

definition fnv_bytes :: "nat list \<Rightarrow> 64 word \<Rightarrow> 64 word" where
  "fnv_bytes bs v = foldl fnv_byte v bs"

definition le_bytes :: "u32 \<Rightarrow> nat list" where
  "le_bytes n = [n mod 256, (n div 256) mod 256, (n div 65536) mod 256, (n div 16777216) mod 256]"

definition range_bytes :: "line_range option \<Rightarrow> nat list" where
  "range_bytes r = (case r of None \<Rightarrow> [] | Some r \<Rightarrow> le_bytes (lr_start r) @ le_bytes (lr_end r))"

definition note_hash :: "diff_file \<Rightarrow> review_note \<Rightarrow> 64 word" where
  "note_hash f note =
     fnv_bytes (range_bytes (rn_old_range note) @ range_bytes (rn_new_range note))
       (foldl (\<lambda>v part. fnv_byte (fnv_bytes (map of_char part) v) 0xff) 0xcbf29ce484222325
          [df_id f, note_source_str (rn_source note), rn_summary note,
           (case rn_rationale note of Some r \<Rightarrow> r | None \<Rightarrow> []),
           (case rn_markup note of Some m \<Rightarrow> m | None \<Rightarrow> [])])"

text \<open>\<open>{:016x}\<close>: sixteen hexadecimal digits.\<close>

definition hex_digit :: "nat \<Rightarrow> char" where
  "hex_digit n = ''0123456789abcdef'' ! n"

definition hex16 :: "nat \<Rightarrow> string" where
  "hex16 n = map (\<lambda>i. hex_digit (n div 16 ^ (15 - i) mod 16)) [0..<16]"

definition stable_note_id :: "diff_file \<Rightarrow> review_note \<Rightarrow> string" where
  "stable_note_id f note =
     (case rn_id note of
        Some i \<Rightarrow> if i \<noteq> [] then i else ''note:'' @ hex16 (unat (note_hash f note))
      | None \<Rightarrow> ''note:'' @ hex16 (unat (note_hash f note)))"

text \<open>The separator is an en dash, U+2013; between the two sides an arrow, U+2192.\<close>

definition format_range :: "char \<Rightarrow> line_range \<Rightarrow> string" where
  "format_range p r =
     (if lr_start r = lr_end r then p # nat_str (lr_start r)
      else p # nat_str (lr_start r) @ [CHR 0xE2, CHR 0x80, CHR 0x93] @ p # nat_str (lr_end r))"

definition annotation_range_label :: "review_note \<Rightarrow> diff_file option \<Rightarrow> string" where
  "annotation_range_label note f =
     (let locations =
            (case rn_old_range note of None \<Rightarrow> [] | Some r \<Rightarrow> [format_range (CHR ''L'') r])
            @ (case rn_new_range note of None \<Rightarrow> [] | Some r \<Rightarrow> [format_range (CHR ''R'') r]);
          location = (if locations = [] then ''hunk''
                      else join [CHR '' '', CHR 0xE2, CHR 0x86, CHR 0x92, CHR '' ''] locations)
      in case f of None \<Rightarrow> location | Some f \<Rightarrow> df_path f @ '' '' @ location)"

definition clamp :: "nat \<Rightarrow> nat \<Rightarrow> nat \<Rightarrow> nat" where
  "clamp v lo hi = (if v < lo then lo else if hi < v then hi else v)"

definition note_box_layout :: "layout_mode \<Rightarrow> note_anchor_side option \<Rightarrow> u16 \<Rightarrow> note_box_layout" where
  "note_box_layout mode anchor_side width =
     (let mode = (case mode of
                    LayoutAuto \<Rightarrow> if 160 \<le> width then LayoutSplit else LayoutStack
                  | explicit \<Rightarrow> explicit);
          can_dock = (mode = LayoutSplit \<and> 84 \<le> width);
          left_width = width div 2;
          right_width = width - left_width;
          preferred = (if can_dock \<and> anchor_side = Some OldSide then left_width
                       else if can_dock \<and> anchor_side = Some NewSide then right_width
                       else max (width - 4) 34);
          maximum = max (width - 4) 1;
          minimum = min 28 maximum;
          box_width = clamp preferred minimum maximum;
          box_left = (if can_dock \<and> anchor_side = Some OldSide then 0
                      else if can_dock \<and> anchor_side = Some NewSide then width - box_width
                      else min 4 (width - box_width))
      in \<lparr>nb_box_width = box_width, nb_box_left = box_left, nb_content_width = max (box_width - 4) 1\<rparr>)"

section \<open>Lemmas\<close>

lemma foldl_min_max:
  fixes lo hi :: nat
  shows "foldl (\<lambda>(start, end) line. (min start line, max end line)) (lo, hi) ls
    = (fold min ls lo, fold max ls hi)"
  by (induction ls arbitrary: lo hi) (simp_all add: min.commute max.commute)

lemma fold_min_le: "fold min ls (lo :: nat) \<le> n \<longleftrightarrow> lo \<le> n \<or> (\<exists>x \<in> set ls. x \<le> n)"
  by (induction ls arbitrary: lo) (auto simp: min_le_iff_disj)

lemma le_fold_max: "n \<le> fold max ls (hi :: nat) \<longleftrightarrow> n \<le> hi \<or> (\<exists>x \<in> set ls. n \<le> x)"
  by (induction ls arbitrary: hi) (auto simp: le_max_iff_disj)

definition side_lines :: "hunk \<Rightarrow> note_anchor_side \<Rightarrow> u32 set" where
  "side_lines h side = {n. \<exists>l \<in> set (hunk_lines h). side_lineno side l = Some n}"

lemma set_map_filter: "set (List.map_filter f xs) = {y. \<exists>x \<in> set xs. f x = Some y}"
  by (induction xs) (auto simp: List.map_filter_def split: option.splits)

lemma zip_overlaps_iff:
  "zip_overlaps r (hunk_range h side) \<longleftrightarrow>
     (\<exists>s. r = Some s \<and> (\<exists>a \<in> side_lines h side. a \<le> lr_end s) \<and> (\<exists>b \<in> side_lines h side. lr_start s \<le> b))"
proof (cases "List.map_filter (side_lineno side) (hunk_lines h)")
  case Nil
  then have "side_lines h side = {}"
    using set_map_filter [of "side_lineno side" "hunk_lines h"] by (simp add: side_lines_def)
  with Nil show ?thesis by (simp add: zip_overlaps_def hunk_range_def split: option.split)
next
  case (Cons first ls)
  then have "side_lines h side = insert first (set ls)"
    using set_map_filter [of "side_lineno side" "hunk_lines h"] by (simp add: side_lines_def)
  with Cons show ?thesis
    by (auto simp: zip_overlaps_def hunk_range_def overlaps_def foldl_min_max fold_min_le le_fold_max
        split: option.split)
qed

text \<open>When a note's range touches a hunk: some line of its side is not after the range's end and
  some line is not before its start.\<close>

definition touches :: "line_range \<Rightarrow> note_anchor_side \<Rightarrow> hunk \<Rightarrow> bool" where
  "touches r side h \<longleftrightarrow>
     (\<exists>a \<in> side_lines h side. a \<le> lr_end r) \<and> (\<exists>b \<in> side_lines h side. lr_start r \<le> b)"

definition note_touches :: "review_note \<Rightarrow> hunk \<Rightarrow> bool" where
  "note_touches note h \<longleftrightarrow>
     (\<exists>r. rn_new_range note = Some r \<and> touches r NewSide h)
     \<or> (\<exists>r. rn_old_range note = Some r \<and> touches r OldSide h)"

lemma note_overlaps_iff: "note_overlaps_hunk note h \<longleftrightarrow> note_touches note h"
  by (auto simp: note_overlaps_hunk_def ranges_overlap_hunk_def zip_overlaps_iff note_touches_def
      touches_def)

text \<open>
  A note is attached to the first hunk of its file that shows lines on both sides of, or
  inside, one of its ranges, and to none if no hunk does; and it is anchored at the first
  line of its new range, or of its old range if it has no new one.
\<close>

lemma resolve_note_target_first:
  "(case nt_hunk_index (resolve_note_target f note) of
      None \<Rightarrow> (\<forall>h \<in> set (df_hunks f). \<not> note_touches note h)
    | Some i \<Rightarrow> i < length (df_hunks f) \<and> note_touches note (df_hunks f ! i)
        \<and> (\<forall>j < i. \<not> note_touches note (df_hunks f ! j)))
   \<and> nt_anchor_line (resolve_note_target f note) =
       map_option lr_start (or_else (rn_new_range note) (rn_old_range note))"
proof -
  have "nt_hunk_index (resolve_note_target f note) = position (note_overlaps_hunk note) (df_hunks f)"
    by (simp add: resolve_note_target_def split: prod.split)
  moreover have "nt_anchor_line (resolve_note_target f note) =
      map_option lr_start (or_else (rn_new_range note) (rn_old_range note))"
    by (simp add: resolve_note_target_def anchor_of_def or_else_def split: option.split)
  ultimately show ?thesis
    using position_SomeD [of "note_overlaps_hunk note" "df_hunks f"]
      position_None_iff [of "note_overlaps_hunk note" "df_hunks f"]
    by (auto simp: note_overlaps_iff split: option.split)
qed

text \<open>What the clamping leaves of the preferred widths.\<close>

lemma clamp_free: "clamp (max (w - 4) 34) (min 28 (max (w - 4) 1)) (max (w - 4) 1) = max (w - 4) (1 :: nat)"
  by (simp add: clamp_def)

lemma half_bounds:
  assumes "84 \<le> (w :: nat)"
  shows "28 \<le> w div 2" "w div 2 \<le> w - 4" "w - w div 2 \<le> w - 4" "28 \<le> w - w div 2"
  using assms by presburger+

lemma clamp_left: "84 \<le> w \<Longrightarrow> clamp (w div 2) (min 28 (max (w - 4) 1)) (max (w - 4) 1) = (w div 2 :: nat)"
  using half_bounds [of w] by (simp add: clamp_def not_less)

lemma clamp_right:
  "84 \<le> w \<Longrightarrow> clamp (w - w div 2) (min 28 (max (w - 4) 1)) (max (w - 4) 1) = (w - w div 2 :: nat)"
  using half_bounds [of w] by (simp add: clamp_def not_less)

definition docks :: "layout_mode \<Rightarrow> u16 \<Rightarrow> bool" where
  "docks mode w \<longleftrightarrow> 84 \<le> w \<and> (mode = LayoutSplit \<or> mode = LayoutAuto \<and> 160 \<le> w)"

lemma note_box_layout_cases:
  "note_box_layout mode side w =
     (if docks mode w \<and> side = Some OldSide then
        \<lparr>nb_box_width = w div 2, nb_box_left = 0, nb_content_width = max (w div 2 - 4) 1\<rparr>
      else if docks mode w \<and> side = Some NewSide then
        \<lparr>nb_box_width = w - w div 2, nb_box_left = w - (w - w div 2),
         nb_content_width = max (w - w div 2 - 4) 1\<rparr>
      else
        \<lparr>nb_box_width = max (w - 4) 1, nb_box_left = min 4 (w - max (w - 4) 1),
         nb_content_width = max (max (w - 4) 1 - 4) 1\<rparr>)"
proof -
  define m where "m = (case mode of LayoutAuto \<Rightarrow> if 160 \<le> w then LayoutSplit else LayoutStack
    | explicit \<Rightarrow> explicit)"
  have dock: "docks mode w \<longleftrightarrow> m = LayoutSplit \<and> 84 \<le> w"
    by (auto simp: docks_def m_def split: layout_mode.splits)
  show ?thesis
  proof (cases "m = LayoutSplit \<and> 84 \<le> w")
    case True
    then have "84 \<le> w" by simp
    note widths = clamp_free clamp_left [OF this] clamp_right [OF this]
    show ?thesis
      unfolding note_box_layout_def m_def [symmetric] Let_def dock
      using True widths
      by (cases "side = Some OldSide"; cases "side = Some NewSide")
         (simp_all only: simp_thms if_True if_False option.inject note_anchor_side.distinct)
  next
    case False
    show ?thesis
      unfolding note_box_layout_def m_def [symmetric] Let_def dock
      using False by (simp only: simp_thms if_False clamp_free)
  qed
qed

text \<open>
  A note's box always fits in a row that is at least one cell wide, its text column is
  never empty, and a box docked to a side in split view lies in that half.
\<close>

lemma note_box_fits:
  assumes "1 \<le> width"
  shows "nb_box_left (note_box_layout mode side width) + nb_box_width (note_box_layout mode side width) \<le> width
    \<and> 1 \<le> nb_content_width (note_box_layout mode side width)
    \<and> nb_content_width (note_box_layout mode side width) \<le> nb_box_width (note_box_layout mode side width)
    \<and> (mode = LayoutSplit \<and> 84 \<le> width \<and> side = Some OldSide \<longrightarrow>
         nb_box_left (note_box_layout mode side width) + nb_box_width (note_box_layout mode side width) \<le> width div 2)
    \<and> (mode = LayoutSplit \<and> 84 \<le> width \<and> side = Some NewSide \<longrightarrow>
         width div 2 \<le> nb_box_left (note_box_layout mode side width))"
proof -
  have split: "docks LayoutSplit width \<longleftrightarrow> 84 \<le> width" by (simp add: docks_def)
  let ?b = "note_box_layout mode side width"
  consider (old) "docks mode width" "side = Some OldSide" | (new) "docks mode width" "side = Some NewSide"
    | (free) "\<not> (docks mode width \<and> (side = Some OldSide \<or> side = Some NewSide))" by blast
  then show ?thesis
  proof cases
    case old
    then have b: "?b = \<lparr>nb_box_width = width div 2, nb_box_left = 0, nb_content_width = max (width div 2 - 4) 1\<rparr>"
      and "84 \<le> width" by (simp_all add: note_box_layout_cases docks_def)
    with half_bounds [of width] show ?thesis unfolding b by (simp add: old)
  next
    case new
    then have b: "?b = \<lparr>nb_box_width = width - width div 2, nb_box_left = width - (width - width div 2),
        nb_content_width = max (width - width div 2 - 4) 1\<rparr>"
      and "84 \<le> width" by (simp_all add: note_box_layout_cases docks_def)
    with half_bounds [of width] show ?thesis unfolding b by (simp add: new diff_le_mono2)
  next
    case free
    then have "?b = \<lparr>nb_box_width = max (width - 4) 1, nb_box_left = min 4 (width - max (width - 4) 1),
        nb_content_width = max (max (width - 4) 1 - 4) 1\<rparr>"
      by (auto simp: note_box_layout_cases)
    moreover from free have "\<not> (mode = LayoutSplit \<and> 84 \<le> width \<and> side = Some OldSide)"
      "\<not> (mode = LayoutSplit \<and> 84 \<le> width \<and> side = Some NewSide)" by (auto simp: docks_def)
    ultimately show ?thesis using assms by auto
  qed
qed

lemma note_box_fits_instance:
  "nb_box_left (note_box_layout LayoutSplit (Some NewSide) 100) = 50
   \<and> 50 + nb_box_width (note_box_layout LayoutSplit (Some NewSide) 100) \<le> 100"
  using note_box_fits [of 100 LayoutSplit "Some NewSide"] by (simp add: note_box_layout_cases docks_def)

definition note_at :: "u32 \<Rightarrow> review_note" where
  "note_at n =
     \<lparr>rn_id = None, rn_old_range = Some \<lparr>lr_start = n, lr_end = n\<rparr>, rn_new_range = None, rn_summary = ''note'',
      rn_rationale = None, rn_markup = None, rn_tags = [], rn_confidence = None, rn_source = Ai, rn_title = None,
      rn_author = None, rn_created_at = None, rn_updated_at = None, rn_editable = False\<rparr>"

lemma resolve_note_target_first_instance:
  "nt_hunk_index (resolve_note_target sample_diff_file (note_at 4)) = Some 0
   \<and> note_touches (note_at 4) (df_hunks sample_diff_file ! 0)
   \<and> nt_anchor_line (resolve_note_target sample_diff_file (note_at 4)) = Some 4"
proof -
  have "nt_hunk_index (resolve_note_target sample_diff_file (note_at 4)) = Some 0" by code_simp
  moreover from resolve_note_target_first [of sample_diff_file "note_at 4"]
  have "note_touches (note_at 4) (df_hunks sample_diff_file ! 0)"
    "nt_anchor_line (resolve_note_target sample_diff_file (note_at 4)) = Some 4"
    unfolding calculation by (simp_all add: note_at_def)
  ultimately show ?thesis by blast
qed

end
