(* ===== verification/Review_Row.thy ===== *)
theory Review_Row
  imports Context_Gaps Note_Target
begin

text \<open>
  The rows of a rendered review: the data of \<open>src/review/row.rs\<close> with the small operations on
  a row, and the word emphasis of \<open>src/review/emphasis.rs\<close> that fills its cells. The word
  diff itself is the \<open>similar\<close> crate: a parameter that lists the changes between two texts.
  Building the rows of a file from its hunks and notes is not modelled here.
\<close>

section \<open>Changed spans\<close>

record changed_span =
  sp_text :: string
  sp_emphasized :: bool

datatype change_tag = TagEqual | TagDelete | TagInsert

definition push_span :: "changed_span list \<Rightarrow> string \<Rightarrow> bool \<Rightarrow> changed_span list" where
  "push_span spans t emphasized =
     (if t = [] then spans
      else if spans \<noteq> [] \<and> sp_emphasized (last spans) = emphasized
        then butlast spans @ [(last spans)\<lparr>sp_text := sp_text (last spans) @ t\<rparr>]
      else spans @ [\<lparr>sp_text = t, sp_emphasized = emphasized\<rparr>])"

definition changed_runs :: "changed_span list \<Rightarrow> usize" where
  "changed_runs spans = length (filter sp_emphasized spans)"

definition visible_chars :: "string \<Rightarrow> usize" where
  "visible_chars t = length (filter (\<lambda>c. \<not> is_white c) (chars t))"

text \<open>\<open>changed_ratio(spans) > 0.6\<close>. The quotient of two 64-bit floats exceeds the literal 0.6
  exactly when five times the changed characters exceed three times all of them, as long as
  their number is below 2^50: a quotient equal to 3/5 rounds to the literal.\<close>

definition ratio_exceeds :: "changed_span list \<Rightarrow> bool" where
  "ratio_exceeds spans =
     (let total = sum_list (map (\<lambda>s. visible_chars (sp_text s)) spans);
          changed = sum_list (map (\<lambda>s. visible_chars (sp_text s)) (filter sp_emphasized spans))
      in 3 * total < 5 * changed)"

definition flatten :: "changed_span list \<Rightarrow> changed_span list" where
  "flatten spans = foldl (\<lambda>acc s. push_span acc (sp_text s) False) [] spans"

definition emphasize_step ::
  "change_tag \<times> string \<Rightarrow> changed_span list \<times> changed_span list \<Rightarrow> changed_span list \<times> changed_span list" where
  "emphasize_step change st =
     (case (change, st) of ((tag, v), (old_spans, new_spans)) \<Rightarrow>
       let emphasized = (trim v \<noteq> [])
       in (case tag of
             TagEqual \<Rightarrow> (push_span old_spans v False, push_span new_spans v False)
           | TagDelete \<Rightarrow> (push_span old_spans v emphasized, new_spans)
           | TagInsert \<Rightarrow> (old_spans, push_span new_spans v emphasized)))"

definition emphasize_pair ::
  "(string \<Rightarrow> string \<Rightarrow> (change_tag \<times> string) list) \<Rightarrow> string \<Rightarrow> string
     \<Rightarrow> changed_span list \<times> changed_span list" where
  "emphasize_pair word_diff old new =
     (let (old_spans, new_spans) = fold emphasize_step (word_diff old new) ([], []);
          fragmented = (1 < max (changed_runs old_spans) (changed_runs new_spans));
          rewritten = (fragmented \<and> trim old \<noteq> [] \<and> trim new \<noteq> []
                       \<and> (ratio_exceeds old_spans \<or> ratio_exceeds new_spans))
      in if rewritten then (flatten old_spans, flatten new_spans) else (old_spans, new_spans))"

section \<open>Rows\<close>

datatype effective_layout = SplitLayout | StackLayout

datatype review_row_kind =
    KCompactedFile | KHunkHeader | KDiffLine | KCollapsed | KExpandedContext | KPlaceholder | KNote

record review_row_key =
  rk_file_id :: string
  rk_hunk_index :: "usize option"
  rk_kind :: review_row_kind
  rk_old_line :: "u32 option"
  rk_new_line :: "u32 option"
  rk_note_id :: "string option"

datatype cell_kind = CellContext | CellAddition | CellDeletion | CellEmpty

record review_cell =
  ce_kind :: cell_kind
  ce_sign :: rchar
  ce_old_line :: "u32 option"
  ce_new_line :: "u32 option"
  ce_moved :: "moved_line_kind option"
  ce_spans :: "changed_span list"

definition cell_text :: "review_cell \<Rightarrow> string" where
  "cell_text c = concat (map sp_text (ce_spans c))"

datatype placeholder_kind = PlaceholderBinary | PlaceholderTooLarge | NoTextChanges

record stml_span =
  ss_text :: string
  ss_fg :: "string option"
  ss_bg :: "string option"
  ss_bold :: bool
  ss_italic :: bool
  ss_underline :: bool
  ss_strike :: bool
  ss_dim :: bool

type_synonym stml_line = "stml_span list"

record note_markup =
  nm_lines :: "stml_line list"
  nm_notes :: "string list"

datatype note_card_kind = CardExternal | CardHuman | CardGithub | CardAsk

record note_card =
  nc_id :: string
  nc_target :: note_target
  nc_source :: note_source
  nc_title :: string
  nc_location :: string
  nc_lines :: "string list"
  nc_markup :: "note_markup option"
  nc_tags :: "string list"
  nc_author :: "string option"
  nc_placement :: note_box_layout
  nc_kind :: note_card_kind
  nc_caret :: "(usize \<times> usize) option"

definition card_height :: "note_card \<Rightarrow> usize" where
  "card_height c = max (sat_add usize_max (length (nc_lines c)) 3) 4"

datatype review_row =
    CompactedFile review_row_key
  | HunkHeader review_row_key string
  | Split review_row_key review_cell review_cell
  | Stack review_row_key review_cell
  | Placeholder review_row_key placeholder_kind string
  | Collapsed review_row_key collapsed_gap string
  | Note review_row_key note_card

fun row_key :: "review_row \<Rightarrow> review_row_key" where
  "row_key (CompactedFile k) = k"
| "row_key (HunkHeader k _) = k"
| "row_key (Split k _ _) = k"
| "row_key (Stack k _) = k"
| "row_key (Placeholder k _ _) = k"
| "row_key (Collapsed k _ _) = k"
| "row_key (Note k _) = k"

fun is_selectable :: "review_row \<Rightarrow> bool" where
  "is_selectable (CompactedFile _) = True"
| "is_selectable (Split _ _ _) = True"
| "is_selectable (Stack _ _) = True"
| "is_selectable _ = False"

fun available_sides :: "review_row \<Rightarrow> bool \<times> bool" where
  "available_sides (Split _ l r) = (ce_kind l \<noteq> CellEmpty, ce_kind r \<noteq> CellEmpty)"
| "available_sides (Stack _ c) =
     (case ce_kind c of
        CellAddition \<Rightarrow> (False, True)
      | CellDeletion \<Rightarrow> (True, False)
      | CellContext \<Rightarrow> (True, True)
      | CellEmpty \<Rightarrow> (False, False))"
| "available_sides _ = (False, False)"

fun cursor_lines :: "review_row \<Rightarrow> bool \<Rightarrow> u32 option \<times> u32 option" where
  "cursor_lines (Split k l r) focus_right =
     (if ce_kind l = CellDeletion \<and> ce_kind r = CellAddition
      then (if focus_right then (None, ce_new_line r) else (ce_old_line l, None))
      else (rk_old_line k, rk_new_line k))"
| "cursor_lines row focus_right = (rk_old_line (row_key row), rk_new_line (row_key row))"

record row_plan =
  rp_rows :: "review_row list"
  rp_hunk_anchor_keys :: "review_row_key list"
  rp_line_number_digits :: usize

definition compacted_file_plan :: "diff_file \<Rightarrow> row_plan" where
  "compacted_file_plan f =
     \<lparr>rp_rows = [CompactedFile
        \<lparr>rk_file_id = df_id f, rk_hunk_index = None, rk_kind = KCompactedFile,
         rk_old_line = None, rk_new_line = None, rk_note_id = None\<rparr>],
      rp_hunk_anchor_keys = [], rp_line_number_digits = 1\<rparr>"

section \<open>Emphasis keeps the text\<close>

definition spans_text :: "changed_span list \<Rightarrow> string" where
  "spans_text spans = concat (map sp_text spans)"

text \<open>No empty span, and neighbours differ in emphasis.\<close>

definition spans_ok :: "changed_span list \<Rightarrow> bool" where
  "spans_ok spans \<longleftrightarrow>
     (\<forall>s \<in> set spans. sp_text s \<noteq> []) \<and> distinct_adj (map sp_emphasized spans)"

lemma push_span_text: "spans_text (push_span spans t e) = spans_text spans @ t"
proof (cases spans rule: rev_cases)
  case Nil
  then show ?thesis by (simp add: push_span_def spans_text_def)
next
  case (snoc ss s)
  then show ?thesis by (simp add: push_span_def spans_text_def)
qed

lemma push_span_ok: "spans_ok spans \<Longrightarrow> spans_ok (push_span spans t e)"
proof (cases spans rule: rev_cases)
  case Nil
  then show ?thesis by (simp add: push_span_def spans_ok_def)
next
  case (snoc ss s)
  assume "spans_ok spans"
  with snoc show ?thesis by (auto simp: push_span_def spans_ok_def distinct_adj_append_iff)
qed

lemma flatten_text: "spans_text (flatten spans) = spans_text spans"
proof -
  have "spans_text (foldl (\<lambda>acc s. push_span acc (sp_text s) False) acc spans) = spans_text acc @ spans_text spans" for acc
    by (induction spans arbitrary: acc) (simp_all add: push_span_text, simp_all add: spans_text_def)
  from this [of "[]"] show ?thesis by (simp add: flatten_def spans_text_def)
qed

lemma flatten_ok: "spans_ok (flatten spans)"
proof -
  have fold: "spans_ok acc \<Longrightarrow> spans_ok (foldl (\<lambda>acc s. push_span acc (sp_text s) False) acc spans)" for acc
    by (induction spans arbitrary: acc) (simp_all add: push_span_ok)
  have "spans_ok []" by (simp add: spans_ok_def)
  then show ?thesis unfolding flatten_def by (rule fold)
qed

definition side_text :: "change_tag \<Rightarrow> (change_tag \<times> string) list \<Rightarrow> string" where
  "side_text other changes = concat (map snd (filter (\<lambda>(tag, _). tag \<noteq> other) changes))"

lemma emphasize_fold:
  assumes "spans_ok a" and "spans_ok b"
  shows "case fold emphasize_step changes (a, b) of (a', b') \<Rightarrow>
    spans_text a' = spans_text a @ side_text TagInsert changes
    \<and> spans_text b' = spans_text b @ side_text TagDelete changes \<and> spans_ok a' \<and> spans_ok b'"
  using assms
proof (induction changes arbitrary: a b)
  case Nil
  then show ?case by (simp add: side_text_def)
next
  case (Cons c changes)
  obtain tag v where c: "c = (tag, v)" by force
  show ?case
  proof (cases tag)
    case TagEqual
    with Cons.IH [of "push_span a v False" "push_span b v False"] Cons.prems show ?thesis
      by (simp add: c emphasize_step_def push_span_text push_span_ok side_text_def split_def)
  next
    case TagDelete
    with Cons.IH [of "push_span a v (trim v \<noteq> [])" b] Cons.prems show ?thesis
      by (simp add: c emphasize_step_def push_span_text push_span_ok side_text_def split_def)
  next
    case TagInsert
    with Cons.IH [of a "push_span b v (trim v \<noteq> [])"] Cons.prems show ?thesis
      by (simp add: c emphasize_step_def push_span_text push_span_ok side_text_def split_def)
  qed
qed

text \<open>What the word differ documents: leaving out the insertions gives the old text, leaving out
  the deletions the new one.\<close>

definition differ_ok :: "(string \<Rightarrow> string \<Rightarrow> (change_tag \<times> string) list) \<Rightarrow> bool" where
  "differ_ok word_diff \<longleftrightarrow>
     (\<forall>old new. side_text TagInsert (word_diff old new) = old
        \<and> side_text TagDelete (word_diff old new) = new)"

lemma emphasize_pair_spans:
  assumes "differ_ok word_diff"
  shows "spans_text (fst (emphasize_pair word_diff old new)) = old
    \<and> spans_text (snd (emphasize_pair word_diff old new)) = new
    \<and> spans_ok (fst (emphasize_pair word_diff old new)) \<and> spans_ok (snd (emphasize_pair word_diff old new))"
proof -
  obtain a b where f: "fold emphasize_step (word_diff old new) ([], []) = (a, b)" by force
  have "spans_text a = old \<and> spans_text b = new \<and> spans_ok a \<and> spans_ok b"
    using emphasize_fold [of "[]" "[]" "word_diff old new"] assms
    unfolding f by (simp add: spans_ok_def spans_text_def differ_ok_def)
  then show ?thesis
    by (simp add: emphasize_pair_def f Let_def flatten_text flatten_ok)
qed

lemma emphasized_texts:
  assumes "differ_ok word_diff"
  shows "spans_text (fst (emphasize_pair word_diff old new)) = old
    \<and> spans_text (snd (emphasize_pair word_diff old new)) = new"
  using emphasize_pair_spans [OF assms] by blast

text \<open>
  Emphasizing a pair of changed lines never alters them: the spans of each line put
  together are the line, whether or not the pair is treated as a rewrite; no span is empty
  and two neighbouring spans never have the same emphasis.
\<close>

lemma emphasize_pair_text:
  assumes "differ_ok word_diff"
  shows "spans_text (fst (emphasize_pair word_diff old new)) = old
    \<and> spans_text (snd (emphasize_pair word_diff old new)) = new
    \<and> spans_ok (fst (emphasize_pair word_diff old new)) \<and> spans_ok (snd (emphasize_pair word_diff old new))"
  using assms by (rule emphasize_pair_spans)

definition whole_diff :: "string \<Rightarrow> string \<Rightarrow> (change_tag \<times> string) list" where
  "whole_diff old new = [(TagDelete, old), (TagInsert, new)]"

lemma emphasize_pair_text_instance:
  "differ_ok whole_diff
   \<and> spans_text (fst (emphasize_pair whole_diff ''old text'' ''new'')) = ''old text''"
proof -
  have ok: "differ_ok whole_diff" by (simp add: differ_ok_def side_text_def whole_diff_def)
  from emphasize_pair_text [OF ok, of "''old text''" "''new''"] ok show ?thesis by blast
qed

end
