(* ===== verification/Progress.thy ===== *)
theory Progress
  imports Review_Row
begin

text \<open>
  How much of a review has been seen, \<open>src/review/progress.rs\<close>: the changed lines in reading
  order, the position of each, and the set of those already reviewed. Scrolling observes the
  keys of the visible rows; everything up to the furthest of them counts as reviewed.
\<close>

section \<open>State and operations\<close>

datatype changed_side = OldLine u32 | NewLine u32

record changed_line_key =
  ck_file_id :: string
  ck_side :: changed_side

record review_progress =
  po_ordered :: "changed_line_key list"
  po_ordinal :: "changed_line_key \<rightharpoonup> usize"
  po_reviewed :: "changed_line_key set"

record review_progress_snapshot =
  ps_reviewed :: usize
  ps_total :: usize
  ps_percent :: u8

definition line_key :: "string \<Rightarrow> diff_line \<Rightarrow> changed_line_key option" where
  "line_key file_id l =
     map_option (\<lambda>side. \<lparr>ck_file_id = file_id, ck_side = side\<rparr>)
       (case dl_kind l of
          Addition \<Rightarrow> map_option NewLine (dl_new_lineno l)
        | Deletion \<Rightarrow> map_option OldLine (dl_old_lineno l)
        | Context \<Rightarrow> None)"

definition changed_lines :: "diff_file list \<Rightarrow> changed_line_key list" where
  "changed_lines files =
     concat (map (\<lambda>f. concat (map (\<lambda>h. List.map_filter (line_key (df_id f)) (hunk_lines h)) (df_hunks f))) files)"

definition rebuild_order :: "diff_file list \<Rightarrow> review_progress \<Rightarrow> review_progress" where
  "rebuild_order files p =
     p\<lparr>po_ordered := changed_lines files, po_ordinal := ordinals (changed_lines files)\<rparr>"

definition progress_new :: "diff_file list \<Rightarrow> review_progress" where
  "progress_new files =
     rebuild_order files \<lparr>po_ordered = [], po_ordinal = (\<lambda>_. None), po_reviewed = {}\<rparr>"

definition cell_key :: "string \<Rightarrow> review_cell \<Rightarrow> changed_line_key option" where
  "cell_key file_id c =
     map_option (\<lambda>side. \<lparr>ck_file_id = file_id, ck_side = side\<rparr>)
       (case ce_kind c of
          CellAddition \<Rightarrow> map_option NewLine (ce_new_line c)
        | CellDeletion \<Rightarrow> map_option OldLine (ce_old_line c)
        | _ \<Rightarrow> None)"

definition option_list :: "'a option \<Rightarrow> 'a list" where
  "option_list x = (case x of None \<Rightarrow> [] | Some y \<Rightarrow> [y])"

fun row_keys :: "string \<Rightarrow> review_row \<Rightarrow> changed_line_key list" where
  "row_keys file_id (Stack _ c) = option_list (cell_key file_id c)"
| "row_keys file_id (Split _ l r) = option_list (cell_key file_id l) @ option_list (cell_key file_id r)"
| "row_keys file_id _ = []"

definition observe_through :: "changed_line_key list \<Rightarrow> review_progress \<Rightarrow> review_progress \<times> bool" where
  "observe_through keys p =
     (case List.map_filter (po_ordinal p) keys of
        [] \<Rightarrow> (p, False)
      | i # is \<Rightarrow>
          let maximum = foldl max i is;
              reviewed = po_reviewed p \<union> set (take (sat_add usize_max maximum 1) (po_ordered p))
          in (p\<lparr>po_reviewed := reviewed\<rparr>, card reviewed \<noteq> card (po_reviewed p)))"

definition mark_file_reviewed :: "string \<Rightarrow> review_progress \<Rightarrow> review_progress \<times> bool" where
  "mark_file_reviewed file_id p =
     (let reviewed = po_reviewed p \<union> set (filter (\<lambda>k. ck_file_id k = file_id) (po_ordered p))
      in (p\<lparr>po_reviewed := reviewed\<rparr>, card reviewed \<noteq> card (po_reviewed p)))"

definition is_file_reviewed :: "string \<Rightarrow> review_progress \<Rightarrow> bool" where
  "is_file_reviewed file_id p =
     list_all (\<lambda>k. k \<in> po_reviewed p) (filter (\<lambda>k. ck_file_id k = file_id) (po_ordered p))"

definition replace_files :: "diff_file list \<Rightarrow> review_progress \<Rightarrow> review_progress" where
  "replace_files files p =
     (let p = rebuild_order files p
      in p\<lparr>po_reviewed := Set.filter (\<lambda>k. po_ordinal p k \<noteq> None) (po_reviewed p)\<rparr>)"

definition progress_snapshot :: "review_progress \<Rightarrow> review_progress_snapshot" where
  "progress_snapshot p =
     (let total = length (po_ordered p);
          reviewed = min (card (po_reviewed p)) total;
          percent = (if total = 0 then 100 else sat_mul usize_max reviewed 100 div total) mod 256
      in \<lparr>ps_reviewed = reviewed, ps_total = total, ps_percent = percent\<rparr>)"

section \<open>The invariant\<close>

datatype progress_op =
    ObserveThrough "changed_line_key list"
  | MarkFileReviewed string
  | ReplaceFiles "diff_file list"

fun progress_perform :: "progress_op \<Rightarrow> review_progress \<Rightarrow> review_progress" where
  "progress_perform (ObserveThrough keys) p = fst (observe_through keys p)"
| "progress_perform (MarkFileReviewed file_id) p = fst (mark_file_reviewed file_id p)"
| "progress_perform (ReplaceFiles files) p = replace_files files p"

definition progress_ok :: "review_progress \<Rightarrow> bool" where
  "progress_ok p \<longleftrightarrow> po_ordinal p = ordinals (po_ordered p) \<and> po_reviewed p \<subseteq> set (po_ordered p)"

lemma progress_perform_ok: "progress_ok p \<Longrightarrow> progress_ok (progress_perform operation p)"
proof (cases operation)
  case (ObserveThrough keys)
  assume "progress_ok p"
  with ObserveThrough show ?thesis
    by (auto simp: progress_ok_def observe_through_def Let_def dest: in_set_takeD split: list.split)
next
  case (MarkFileReviewed file_id)
  assume "progress_ok p"
  with MarkFileReviewed show ?thesis by (auto simp: progress_ok_def mark_file_reviewed_def Let_def)
next
  case (ReplaceFiles files)
  then show ?thesis
    by (auto simp: progress_ok_def replace_files_def rebuild_order_def Let_def dest: ordinals_Some_set)
qed

interpretation progress: op_machine progress_perform progress_ok
  by unfold_locales (rule progress_perform_ok)

lemma progress_new_ok: "progress_ok (progress_new files)"
  by (simp add: progress_ok_def progress_new_def rebuild_order_def)

lemma progress_finite: "progress_ok p \<Longrightarrow> finite (po_reviewed p)"
  by (auto simp: progress_ok_def intro: finite_subset)

lemma reviewed_le_total: "progress_ok p \<Longrightarrow> card (po_reviewed p) \<le> length (po_ordered p)"
  by (metis progress_ok_def card_mono card_length finite_set le_trans)

lemma all_reviewed_iff:
  assumes "progress_ok p" and "distinct (po_ordered p)"
  shows "card (po_reviewed p) = length (po_ordered p) \<longleftrightarrow> po_reviewed p = set (po_ordered p)"
  using assms distinct_card [OF assms(2)]
  by (metis card_subset_eq finite_set progress_ok_def)

lemma foldl_max_fold: "foldl max (i :: nat) xs = fold max xs i"
  by (induction xs arbitrary: i) (simp_all add: max.commute)

section \<open>Properties\<close>


text \<open>
  Observing rows reviews a prefix: with the lines of the diff all different, everything up
  to and including the furthest observed line becomes reviewed, nothing else changes, and
  the result says whether anything did; rows without changed lines have no effect.
\<close>

lemma observe_through_prefix:
  assumes "progress_ok p" and "distinct (po_ordered p)" and "length (po_ordered p) \<le> usize_max"
  shows "observe_through keys p =
    (let seen = {i. i < length (po_ordered p) \<and> po_ordered p ! i \<in> set keys};
         p' = p\<lparr>po_reviewed := po_reviewed p \<union> {po_ordered p ! j | j. \<exists>i \<in> seen. j \<le> i}\<rparr>
     in (p', p' \<noteq> p))"
proof -
  let ?ks = "po_ordered p"
  define seen where "seen = {i. i < length ?ks \<and> ?ks ! i \<in> set keys}"
  have ord: "po_ordinal p = ordinals ?ks" using assms(1) by (simp add: progress_ok_def)
  have positions: "set (List.map_filter (ordinals ?ks) keys) = seen"
  proof -
    have "set (List.map_filter (ordinals ?ks) keys) = {i. \<exists>k \<in> set keys. ordinals ?ks k = Some i}"
      by (rule set_map_filter)
    also have "\<dots> = seen"
      using ordinals_nth [OF assms(2)] ordinals_SomeD [of ?ks] by (force simp: seen_def)
    finally show ?thesis .
  qed
  show ?thesis
  proof (cases "List.map_filter (ordinals ?ks) keys")
    case Nil
    then have "seen = {}" using positions by simp
    with Nil show ?thesis by (simp add: observe_through_def ord seen_def [symmetric])
  next
    case (Cons i "is")
    define m where "m = foldl max i is"
    have "m = Max (set (i # is))"
      unfolding m_def Max.set_eq_fold by (simp add: foldl_max_fold)
    moreover have set_seen: "set (i # is) = seen" using positions Cons by simp
    moreover have "finite seen" "seen \<noteq> {}" using set_seen by (metis finite_set, auto)
    ultimately have m: "m \<in> seen" "\<forall>i \<in> seen. i \<le> m"
      using Max_in [of seen] Max_ge [of seen] by metis+
    then have ml: "m < length ?ks" by (simp add: seen_def)
    have "set (take (Suc m) ?ks) = {?ks ! j | j. j \<le> m}"
      using ml by (auto simp: in_set_conv_nth less_Suc_eq_le) fastforce+
    also have "\<dots> = {?ks ! j | j. \<exists>i \<in> seen. j \<le> i}" using m by (auto intro: order_trans)
    finally have take: "set (take (Suc m) ?ks) = {?ks ! j | j. \<exists>i \<in> seen. j \<le> i}" .
    have "sat_add usize_max m 1 = Suc m" using ml assms(3) by simp
    then have o: "observe_through keys p =
      (p\<lparr>po_reviewed := po_reviewed p \<union> {?ks ! j | j. \<exists>i \<in> seen. j \<le> i}\<rparr>,
       card (po_reviewed p \<union> {?ks ! j | j. \<exists>i \<in> seen. j \<le> i}) \<noteq> card (po_reviewed p))"
      by (simp add: observe_through_def ord Cons m_def [symmetric] take)
    have fin: "finite (po_reviewed p \<union> {?ks ! j | j. \<exists>i \<in> seen. j \<le> i})"
      using progress_finite [OF assms(1)] take [symmetric] by simp
    have card: "card (A \<union> B) \<noteq> card A \<longleftrightarrow> A \<union> B \<noteq> A" if "finite (A \<union> B)" for A B :: "changed_line_key set"
      using that by (metis card_subset_eq sup_ge1)
    have "p\<lparr>po_reviewed := R\<rparr> \<noteq> p \<longleftrightarrow> R \<noteq> po_reviewed p" for R
      by (metis review_progress.ext_inject review_progress.surjective review_progress.update_convs(3))
    then show ?thesis unfolding o seen_def [symmetric] Let_def by (simp add: card [OF fin])
  qed
qed

definition sample_key :: "nat \<Rightarrow> changed_line_key" where
  "sample_key n = \<lparr>ck_file_id = ''f'', ck_side = NewLine n\<rparr>"

definition sample_progress :: review_progress where
  "sample_progress =
     \<lparr>po_ordered = map sample_key [1, 2, 3], po_ordinal = ordinals (map sample_key [1, 2, 3]), po_reviewed = {}\<rparr>"

lemma observe_through_prefix_instance:
  "po_reviewed (fst (observe_through [sample_key 2, sample_key 9] sample_progress)) = {sample_key 1, sample_key 2}
   \<and> snd (observe_through [sample_key 2] sample_progress)"
proof -
  have ok: "progress_ok sample_progress" by (simp add: progress_ok_def sample_progress_def)
  have d: "distinct (po_ordered sample_progress)" by (simp add: sample_progress_def sample_key_def)
  have l: "length (po_ordered sample_progress) \<le> usize_max" by (simp add: sample_progress_def usize_max_def)
  have seen: "{i. i < length (po_ordered sample_progress) \<and> po_ordered sample_progress ! i \<in> set ks} = {1}"
    if "ks = [sample_key 2, sample_key 9] \<or> ks = [sample_key 2]" for ks
    using that by (auto simp: sample_progress_def sample_key_def nth_Cons' split: if_splits)
  have "{po_ordered sample_progress ! j | j. j \<le> 1} = (!) (po_ordered sample_progress) ` {..1}" by auto
  also have "{..1 :: nat} = {0, 1}" by auto
  finally have "{po_ordered sample_progress ! j | j. j \<le> 1} = {sample_key 1, sample_key 2}"
    by (simp add: sample_progress_def)
  then have o: "observe_through ks sample_progress =
      (let p' = sample_progress\<lparr>po_reviewed := po_reviewed sample_progress \<union> {sample_key 1, sample_key 2}\<rparr>
       in (p', p' \<noteq> sample_progress))" if "ks = [sample_key 2, sample_key 9] \<or> ks = [sample_key 2]" for ks
    using observe_through_prefix [OF ok d l, of ks] unfolding seen [OF that] by (simp only: bex_simps Let_def simp_thms)
  show ?thesis by (simp add: o) (simp add: sample_progress_def)
qed


end
