(* ===== verification/Row_Plan.thy ===== *)
theory Row_Plan
  imports Review_Row Progress
begin

text \<open>
  The rows of a file, \<open>build_row_plan_with_context\<close> of \<open>src/review/row.rs\<close>: hunk headers, the
  lines of every hunk side by side or stacked, the collapsed and the expanded context between
  them, and the row each hunk is reached at. The word differ is a parameter, as in
  \<open>Review_Row\<close>.
\<close>

type_synonym differ = "string \<Rightarrow> string \<Rightarrow> (change_tag \<times> string) list"

definition ELLIPSIS :: string where "ELLIPSIS = [CHR 0xE2, CHR 0x80, CHR 0xA6]"

section \<open>Cells\<close>

definition sanitize_line :: "string \<Rightarrow> string" where
  "sanitize_line t = replace_char TAB ''  '' (sanitize_terminal_text t False)"

definition make_row_key ::
  "diff_file \<Rightarrow> usize option \<Rightarrow> review_row_kind \<Rightarrow> u32 option \<Rightarrow> u32 option \<Rightarrow> review_row_key" where
  "make_row_key f hunk_index kind old_line new_line =
     \<lparr>rk_file_id = df_id f, rk_hunk_index = hunk_index, rk_kind = kind, rk_old_line = old_line,
      rk_new_line = new_line, rk_note_id = None\<rparr>"

definition plain_text :: "string \<Rightarrow> changed_span list" where
  "plain_text t = (if t = [] then [] else [\<lparr>sp_text = t, sp_emphasized = False\<rparr>])"

definition emphasized_text :: "string \<Rightarrow> changed_span list" where
  "emphasized_text t = (if t = [] then [] else [\<lparr>sp_text = t, sp_emphasized = True\<rparr>])"

definition empty_cell :: review_cell where
  "empty_cell =
     \<lparr>ce_kind = CellEmpty, ce_sign = '' '', ce_old_line = None, ce_new_line = None, ce_moved = None,
      ce_spans = []\<rparr>"

definition cell_from_line :: "diff_line \<Rightarrow> changed_span list option \<Rightarrow> review_cell" where
  "cell_from_line l spans =
     (let kind = (case dl_kind l of
                    Context \<Rightarrow> CellContext | Addition \<Rightarrow> CellAddition | Deletion \<Rightarrow> CellDeletion)
      in \<lparr>ce_kind = kind,
          ce_sign = (case kind of CellContext \<Rightarrow> '' '' | CellAddition \<Rightarrow> ''+'' | CellDeletion \<Rightarrow> ''-''
                     | CellEmpty \<Rightarrow> '' ''),
          ce_old_line = dl_old_lineno l, ce_new_line = dl_new_lineno l, ce_moved = dl_moved l,
          ce_spans = (case spans of None \<Rightarrow> plain_text (sanitize_line (dl_content l)) | Some s \<Rightarrow> s)\<rparr>)"

section \<open>The lines of a hunk\<close>

text \<open>The spans of the \<open>k\<close>-th removed and the \<open>k\<close>-th added line of a block.\<close>

definition pair_spans ::
  "differ \<Rightarrow> diff_line option \<Rightarrow> diff_line option \<Rightarrow> changed_span list \<times> changed_span list" where
  "pair_spans word_diff deletion addition =
     (case (deletion, addition) of
        (Some old, Some new) \<Rightarrow>
          emphasize_pair word_diff (sanitize_line (dl_content old)) (sanitize_line (dl_content new))
      | (Some old, None) \<Rightarrow> (emphasized_text (sanitize_line (dl_content old)), [])
      | (None, Some new) \<Rightarrow> ([], emphasized_text (sanitize_line (dl_content new)))
      | (None, None) \<Rightarrow> ([], []))"

definition deletions :: "diff_line list \<Rightarrow> diff_line list" where
  "deletions = filter (\<lambda>l. dl_kind l = Deletion)"

definition additions :: "diff_line list \<Rightarrow> diff_line list" where
  "additions = filter (\<lambda>l. dl_kind l = Addition)"

definition split_block :: "differ \<Rightarrow> diff_file \<Rightarrow> usize \<Rightarrow> diff_line list \<Rightarrow> review_row list" where
  "split_block word_diff f hunk_index block =
     map (\<lambda>pair_index.
        let deletion = get (deletions block) pair_index;
            addition = get (additions block) pair_index;
            (old_spans, new_spans) = pair_spans word_diff deletion addition;
            left = (case deletion of None \<Rightarrow> empty_cell | Some l \<Rightarrow> cell_from_line l (Some old_spans));
            right = (case addition of None \<Rightarrow> empty_cell | Some l \<Rightarrow> cell_from_line l (Some new_spans))
        in Split (make_row_key f (Some hunk_index) KDiffLine (ce_old_line left) (ce_new_line right)) left right)
       [0..<max (length (deletions block)) (length (additions block))]"

definition is_change :: "diff_line \<Rightarrow> bool" where
  "is_change l \<longleftrightarrow> dl_kind l \<noteq> Context"

function build_split_rows :: "differ \<Rightarrow> diff_file \<Rightarrow> usize \<Rightarrow> diff_line list \<Rightarrow> review_row list" where
  "build_split_rows word_diff f hunk_index [] = []"
| "build_split_rows word_diff f hunk_index (l # ls) =
     (if \<not> is_change l then
        let c = cell_from_line l None
        in Split (make_row_key f (Some hunk_index) KDiffLine (ce_old_line c) (ce_new_line c)) c c
           # build_split_rows word_diff f hunk_index ls
      else split_block word_diff f hunk_index (takeWhile is_change (l # ls))
           @ build_split_rows word_diff f hunk_index (dropWhile is_change (l # ls)))"
  by pat_completeness auto
termination
  by (relation "measure (\<lambda>(_, _, _, ls). length ls)")
    (simp_all add: length_dropWhile_le less_Suc_eq_le)

definition push_stack_row ::
  "diff_file \<Rightarrow> usize \<Rightarrow> diff_line \<Rightarrow> changed_span list option \<Rightarrow> review_row" where
  "push_stack_row f hunk_index l spans =
     Stack (make_row_key f (Some hunk_index) KDiffLine (dl_old_lineno l) (dl_new_lineno l)) (cell_from_line l spans)"

text \<open>The emphasized pairs of a block are computed once and indexed by the removed and the added
  lines met so far; both indices stay in range because there are as many pairs as lines of the
  more frequent kind.\<close>

definition emphasized_pairs ::
  "differ \<Rightarrow> diff_line list \<Rightarrow> (changed_span list \<times> changed_span list) list" where
  "emphasized_pairs word_diff block =
     map (\<lambda>k. pair_spans word_diff (get (deletions block) k) (get (additions block) k))
       [0..<max (length (deletions block)) (length (additions block))]"

fun stack_block ::
  "diff_file \<Rightarrow> usize \<Rightarrow> (changed_span list \<times> changed_span list) list \<Rightarrow> usize \<Rightarrow> usize
     \<Rightarrow> diff_line list \<Rightarrow> review_row list" where
  "stack_block f hunk_index emphasized deletion_index addition_index [] = []"
| "stack_block f hunk_index emphasized deletion_index addition_index (l # ls) =
     (case dl_kind l of
        Deletion \<Rightarrow>
          push_stack_row f hunk_index l (Some (fst (emphasized ! deletion_index)))
          # stack_block f hunk_index emphasized (Suc deletion_index) addition_index ls
      | Addition \<Rightarrow>
          push_stack_row f hunk_index l (Some (snd (emphasized ! addition_index)))
          # stack_block f hunk_index emphasized deletion_index (Suc addition_index) ls
      | Context \<Rightarrow> [])"

function build_stack_rows :: "differ \<Rightarrow> diff_file \<Rightarrow> usize \<Rightarrow> diff_line list \<Rightarrow> review_row list" where
  "build_stack_rows word_diff f hunk_index [] = []"
| "build_stack_rows word_diff f hunk_index (l # ls) =
     (if \<not> is_change l then
        push_stack_row f hunk_index l None # build_stack_rows word_diff f hunk_index ls
      else
        let block = takeWhile is_change (l # ls)
        in stack_block f hunk_index (emphasized_pairs word_diff block) 0 0 block
           @ build_stack_rows word_diff f hunk_index (dropWhile is_change (l # ls)))"
  by pat_completeness auto
termination
  by (relation "measure (\<lambda>(_, _, _, ls). length ls)")
    (simp_all add: length_dropWhile_le less_Suc_eq_le)

definition hunk_rows :: "differ \<Rightarrow> effective_layout \<Rightarrow> diff_file \<Rightarrow> usize \<Rightarrow> diff_line list \<Rightarrow> review_row list" where
  "hunk_rows word_diff layout f hunk_index ls =
     (case layout of
        SplitLayout \<Rightarrow> build_split_rows word_diff f hunk_index ls
      | StackLayout \<Rightarrow> build_stack_rows word_diff f hunk_index ls)"

section \<open>Collapsed context\<close>

definition unchanged_lines :: "usize \<Rightarrow> string" where
  "unchanged_lines n = nat_str n @ '' unchanged '' @ (if n = 1 then ''line'' else ''lines'')"

fun context_failure_label :: "usize \<Rightarrow> source_failure \<Rightarrow> string" where
  "context_failure_label n SourceUnavailable = ''Context unavailable for '' @ unchanged_lines n"
| "context_failure_label n SourceMissing = ''Source missing for '' @ unchanged_lines n"
| "context_failure_label n (SourceTooLarge _) = ''Source too large to expand '' @ unchanged_lines n"
| "context_failure_label n NonUtf8 = ''Non-UTF-8 source cannot expand '' @ unchanged_lines n"
| "context_failure_label n (SourceIo _) = ''Could not read '' @ unchanged_lines n"
| "context_failure_label n (SourceCommand _) = ''Source command failed for '' @ unchanged_lines n"
| "context_failure_label n ShortSource = ''Source too short for '' @ unchanged_lines n"

definition expanded_row :: "diff_file \<Rightarrow> effective_layout \<Rightarrow> collapsed_gap \<Rightarrow> context_line \<Rightarrow> review_row" where
  "expanded_row f layout gap line =
     (let c = \<lparr>ce_kind = CellContext, ce_sign = '' '', ce_old_line = Some (cl_old_line line),
               ce_new_line = Some (cl_new_line line), ce_moved = None, ce_spans = plain_text (cl_text line)\<rparr>;
          k = make_row_key f (Some (gk_hunk_index (cg_key gap))) KExpandedContext (ce_old_line c) (ce_new_line c)
      in (case layout of SplitLayout \<Rightarrow> Split k c c | StackLayout \<Rightarrow> Stack k c))"

definition gap_rows ::
  "diff_file \<Rightarrow> effective_layout \<Rightarrow> file_context_state option \<Rightarrow> collapsed_gap \<Rightarrow> review_row list" where
  "gap_rows f layout context gap =
     (let expanded = (case context of None \<Rightarrow> False | Some st \<Rightarrow> cg_key gap \<in> set (fc_expanded st));
          source = Option.bind context fc_source;
          side = (case source of Some (Inr loaded) \<Rightarrow> ls_side loaded | _ \<Rightarrow> SideNew);
          cnt = gap_line_count gap side;
          (label, expanded_lines) =
            (if expanded then
               (case source of
                  Some (Inr loaded) \<Rightarrow>
                    (case expand_gap_lines gap (ls_text loaded) (ls_side loaded) of
                       Inr ls \<Rightarrow> (''Hide '' @ unchanged_lines cnt, Some ls)
                     | Inl failure \<Rightarrow> (context_failure_label cnt failure, None))
                | Some (Inl failure) \<Rightarrow> (context_failure_label cnt failure, None)
                | None \<Rightarrow> (''Loading '' @ unchanged_lines cnt @ ELLIPSIS, None))
             else (unchanged_lines cnt, None))
      in Collapsed
           (make_row_key f (Some (gk_hunk_index (cg_key gap))) KCollapsed
             (Some (fst (cg_old_range gap))) (Some (fst (cg_new_range gap)))) gap label
         # (case expanded_lines of None \<Rightarrow> [] | Some ls \<Rightarrow> map (expanded_row f layout gap) ls))"

section \<open>The plan of a file\<close>

definition placeholder_plan :: "diff_file \<Rightarrow> row_plan" where
  "placeholder_plan f =
     (let (kind, t) = (if df_is_binary f then (PlaceholderBinary, ''Binary file'')
                       else if df_is_too_large f then (PlaceholderTooLarge, ''File is too large to display'')
                       else (NoTextChanges, ''No textual changes''))
      in \<lparr>rp_rows = [Placeholder (make_row_key f None KPlaceholder None None) kind t],
          rp_hunk_anchor_keys = [], rp_line_number_digits = 1\<rparr>)"

definition line_numbers :: "diff_file \<Rightarrow> u32 list" where
  "line_numbers f =
     concat (map (\<lambda>h. concat (map (\<lambda>l. option_list (dl_old_lineno l) @ option_list (dl_new_lineno l))
        (hunk_lines h))) (df_hunks f))"

definition max_line_number_digits :: "diff_file \<Rightarrow> usize" where
  "max_line_number_digits f =
     length (nat_str (case line_numbers f of [] \<Rightarrow> 1 | n # ns \<Rightarrow> foldl max n ns))"

definition place_gap ::
  "diff_file \<Rightarrow> effective_layout \<Rightarrow> file_context_state option \<Rightarrow> collapsed_gap option \<Rightarrow> review_row list" where
  "place_gap f layout context gap = (case gap of None \<Rightarrow> [] | Some g \<Rightarrow> gap_rows f layout context g)"

definition plan_hunk ::
  "differ \<Rightarrow> diff_file \<Rightarrow> effective_layout \<Rightarrow> bool \<Rightarrow> file_context_state option \<Rightarrow> collapsed_gap list
     \<Rightarrow> nat \<times> hunk \<Rightarrow> review_row list \<times> review_row_key list \<Rightarrow> review_row list \<times> review_row_key list" where
  "plan_hunk word_diff f layout show_hunk_headers context gaps numbered st =
     (case (numbered, st) of ((hunk_index, h), (rows, anchors)) \<Rightarrow>
       let before = List.find (\<lambda>g. gk_position (cg_key g) = Before \<and> gk_hunk_index (cg_key g) = hunk_index) gaps;
           own = (if show_hunk_headers
                  then [HunkHeader (make_row_key f (Some hunk_index) KHunkHeader None None) (sanitize_line (hunk_header h))]
                  else [])
                 @ hunk_rows word_diff layout f hunk_index (hunk_lines h)
       in (rows @ place_gap f layout context before @ own,
           anchors @ option_list (map_option row_key (List.find is_selectable own))))"

definition build_row_plan_with_context ::
  "differ \<Rightarrow> diff_file \<Rightarrow> effective_layout \<Rightarrow> bool \<Rightarrow> file_context_state option \<Rightarrow> row_plan" where
  "build_row_plan_with_context word_diff f layout show_hunk_headers context =
     (if df_hunks f = [] then placeholder_plan f
      else
        let gaps = (case context of None \<Rightarrow> derive_collapsed_gaps f None | Some st \<Rightarrow> context_gaps st f);
            (rows, anchors) =
              fold (plan_hunk word_diff f layout show_hunk_headers context gaps)
                (zip [0..<length (df_hunks f)] (df_hunks f)) ([], []);
            trailing = List.find (\<lambda>g. gk_position (cg_key g) = Trailing) gaps
        in \<lparr>rp_rows = rows @ place_gap f layout context trailing, rp_hunk_anchor_keys = anchors,
            rp_line_number_digits = max_line_number_digits f\<rparr>)"

section \<open>Every line is shown once\<close>

text \<open>What a cell shows of a line: its kind, its numbers and its sanitized text.\<close>

definition displays :: "review_cell \<Rightarrow> diff_line \<Rightarrow> bool" where
  "displays c l \<longleftrightarrow>
     ce_kind c = (case dl_kind l of Context \<Rightarrow> CellContext | Addition \<Rightarrow> CellAddition | Deletion \<Rightarrow> CellDeletion)
     \<and> ce_old_line c = dl_old_lineno l \<and> ce_new_line c = dl_new_lineno l \<and> ce_moved c = dl_moved l
     \<and> cell_text c = sanitize_line (dl_content l)"

fun left_cells :: "review_row list \<Rightarrow> review_cell list" where
  "left_cells [] = []"
| "left_cells (Split k l r # rows) = (if ce_kind l = CellEmpty then left_cells rows else l # left_cells rows)"
| "left_cells (_ # rows) = left_cells rows"

fun right_cells :: "review_row list \<Rightarrow> review_cell list" where
  "right_cells [] = []"
| "right_cells (Split k l r # rows) = (if ce_kind r = CellEmpty then right_cells rows else r # right_cells rows)"
| "right_cells (_ # rows) = right_cells rows"

fun stacked_cells :: "review_row list \<Rightarrow> review_cell list" where
  "stacked_cells [] = []"
| "stacked_cells (Stack k c # rows) = c # stacked_cells rows"
| "stacked_cells (_ # rows) = stacked_cells rows"

lemma cells_append [simp]:
  "left_cells (xs @ ys) = left_cells xs @ left_cells ys"
  "right_cells (xs @ ys) = right_cells xs @ right_cells ys"
  "stacked_cells (xs @ ys) = stacked_cells xs @ stacked_cells ys"
proof -
  show "left_cells (xs @ ys) = left_cells xs @ left_cells ys" by (induction xs rule: left_cells.induct) simp_all
  show "right_cells (xs @ ys) = right_cells xs @ right_cells ys" by (induction xs rule: right_cells.induct) simp_all
  show "stacked_cells (xs @ ys) = stacked_cells xs @ stacked_cells ys"
    by (induction xs rule: stacked_cells.induct) simp_all
qed

lemma one_sided:
  "stacked_cells (map (\<lambda>x. Split (key x) (lf x) (rt x)) xs) = []"
  "left_cells (map (\<lambda>x. Stack (key x) (lf x)) xs) = []"
  "right_cells (map (\<lambda>x. Stack (key x) (lf x)) xs) = []"
  by (induction xs) simp_all

lemma plain_text_spans [simp]: "concat (map sp_text (plain_text t)) = t"
  and emphasized_text_spans [simp]: "concat (map sp_text (emphasized_text t)) = t"
  by (simp_all add: plain_text_def emphasized_text_def)

lemma cell_from_line_displays:
  "concat (map sp_text spans) = sanitize_line (dl_content l) \<Longrightarrow> displays (cell_from_line l (Some spans)) l"
  "displays (cell_from_line l None) l"
  by (simp_all add: displays_def cell_from_line_def cell_text_def split: line_type.split)

lemma cell_from_line_kind: "ce_kind (cell_from_line l spans) \<noteq> CellEmpty"
  by (simp add: cell_from_line_def split: line_type.split)

lemma pair_spans_text:
  assumes "differ_ok word_diff"
  shows "concat (map sp_text (fst (pair_spans word_diff (Some d) addition))) = sanitize_line (dl_content d)"
    and "concat (map sp_text (snd (pair_spans word_diff deletion (Some a)))) = sanitize_line (dl_content a)"
proof -
  have "spans_text (fst (emphasize_pair word_diff old new)) = old \<and> spans_text (snd (emphasize_pair word_diff old new)) = new"
    for old new
    by (rule emphasized_texts [OF assms])
  then show "concat (map sp_text (fst (pair_spans word_diff (Some d) addition))) = sanitize_line (dl_content d)"
    and "concat (map sp_text (snd (pair_spans word_diff deletion (Some a)))) = sanitize_line (dl_content a)"
    by (simp_all add: pair_spans_def spans_text_def split: option.split)
qed

text \<open>Side-by-side rows whose cells run out on one side after \<open>m\<close> rows.\<close>

lemma side_cells_upto:
  assumes "\<And>k. row k = Split (key k) (lf k) (rt k)"
  shows "(\<And>k. ce_kind (lf k) = CellEmpty \<longleftrightarrow> m \<le> k) \<Longrightarrow> left_cells (map row [0..<n]) = map lf [0..<min n m]"
    and "(\<And>k. ce_kind (rt k) = CellEmpty \<longleftrightarrow> m \<le> k) \<Longrightarrow> right_cells (map row [0..<n]) = map rt [0..<min n m]"
proof -
  show "left_cells (map row [0..<n]) = map lf [0..<min n m]" if e: "\<And>k. ce_kind (lf k) = CellEmpty \<longleftrightarrow> m \<le> k"
    by (induction n) (auto simp: assms e min_def not_le le_Suc_eq)
  show "right_cells (map row [0..<n]) = map rt [0..<min n m]" if e: "\<And>k. ce_kind (rt k) = CellEmpty \<longleftrightarrow> m \<le> k"
    by (induction n) (auto simp: assms e min_def not_le le_Suc_eq)
qed

lemma split_block_cells:
  assumes "differ_ok word_diff"
  shows "list_all2 displays (left_cells (split_block word_diff f i block)) (deletions block)"
    and "list_all2 displays (right_cells (split_block word_diff f i block)) (additions block)"
proof -
  let ?D = "deletions block" and ?A = "additions block"
  let ?spans = "\<lambda>k. pair_spans word_diff (get ?D k) (get ?A k)"
  define lf where "lf k = (case get ?D k of None \<Rightarrow> empty_cell | Some l \<Rightarrow> cell_from_line l (Some (fst (?spans k))))" for k
  define rt where "rt k = (case get ?A k of None \<Rightarrow> empty_cell | Some l \<Rightarrow> cell_from_line l (Some (snd (?spans k))))" for k
  have block: "split_block word_diff f i block =
      map (\<lambda>k. Split (make_row_key f (Some i) KDiffLine (ce_old_line (lf k)) (ce_new_line (rt k))) (lf k) (rt k))
        [0..<max (length ?D) (length ?A)]"
    by (simp add: split_block_def lf_def rt_def split_beta Let_def)
  have empty: "ce_kind (lf k) = CellEmpty \<longleftrightarrow> length ?D \<le> k" "ce_kind (rt k) = CellEmpty \<longleftrightarrow> length ?A \<le> k" for k
    by (simp_all add: lf_def rt_def get_def cell_from_line_kind empty_cell_def)
  have "displays (lf k) (?D ! k)" if "k < length ?D" for k
    using that by (simp add: lf_def get_def cell_from_line_displays pair_spans_text(1) [OF assms])
  then show "list_all2 displays (left_cells (split_block word_diff f i block)) ?D"
    unfolding block side_cells_upto(1) [OF refl empty(1)] by (simp add: list_all2_conv_all_nth)
  have "displays (rt k) (?A ! k)" if "k < length ?A" for k
    using that by (simp add: rt_def get_def cell_from_line_displays pair_spans_text(2) [OF assms])
  then show "list_all2 displays (right_cells (split_block word_diff f i block)) ?A"
    unfolding block side_cells_upto(2) [OF refl empty(2)] by (simp add: list_all2_conv_all_nth)
qed

lemma changes_only:
  "filter (\<lambda>l. dl_kind l \<noteq> Addition) (takeWhile is_change ls) = deletions (takeWhile is_change ls)"
  "filter (\<lambda>l. dl_kind l \<noteq> Deletion) (takeWhile is_change ls) = additions (takeWhile is_change ls)"
proof -
  have k: "(dl_kind l \<noteq> Addition \<longleftrightarrow> dl_kind l = Deletion) \<and> (dl_kind l \<noteq> Deletion \<longleftrightarrow> dl_kind l = Addition)"
    if "l \<in> set (takeWhile is_change ls)" for l
    using set_takeWhileD [OF that] by (cases "dl_kind l") (simp_all add: is_change_def)
  show "filter (\<lambda>l. dl_kind l \<noteq> Addition) (takeWhile is_change ls) = deletions (takeWhile is_change ls)"
    unfolding deletions_def by (rule filter_cong [OF refl]) (simp add: k)
  show "filter (\<lambda>l. dl_kind l \<noteq> Deletion) (takeWhile is_change ls) = additions (takeWhile is_change ls)"
    unfolding additions_def by (rule filter_cong [OF refl]) (simp add: k)
qed

lemma split_rows_cells:
  assumes "differ_ok word_diff"
  shows "list_all2 displays (left_cells (build_split_rows word_diff f i ls)) (filter (\<lambda>l. dl_kind l \<noteq> Addition) ls)
    \<and> list_all2 displays (right_cells (build_split_rows word_diff f i ls)) (filter (\<lambda>l. dl_kind l \<noteq> Deletion) ls)"
  using assms
proof (induction word_diff f i ls rule: build_split_rows.induct)
  case (1 word_diff f i)
  then show ?case by simp
next
  case (2 word_diff f i l ls)
  show ?case
  proof (cases "is_change l")
    case False
    with 2 show ?thesis by (simp add: Let_def cell_from_line_kind cell_from_line_displays is_change_def)
  next
    case True
    let ?B = "takeWhile is_change (l # ls)" and ?R = "dropWhile is_change (l # ls)"
    have rows: "build_split_rows word_diff f i (l # ls) = split_block word_diff f i ?B @ build_split_rows word_diff f i ?R"
      using True by simp
    have parts: "filter p (l # ls) = filter p ?B @ filter p ?R" for p
      by (metis filter_append takeWhile_dropWhile_id)
    from 2(2) [unfolded not_not, OF True 2(3)] split_block_cells [OF 2(3), of f i ?B] show ?thesis
      unfolding rows parts changes_only cells_append by (blast intro: list_all2_appendI)
  qed
qed

lemma stack_block_cells:
  assumes "differ_ok word_diff" and "\<forall>l \<in> set ls. is_change l"
    and "drop di (deletions block) = deletions ls" and "drop ai (additions block) = additions ls"
  shows "list_all2 displays (stacked_cells (stack_block f i (emphasized_pairs word_diff block) di ai ls)) ls"
  using assms(2-)
proof (induction ls arbitrary: di ai)
  case Nil
  then show ?case by simp
next
  case (Cons l ls)
  let ?E = "emphasized_pairs word_diff block"
  have nth: "?E ! k = pair_spans word_diff (get (deletions block) k) (get (additions block) k)"
    if "k < max (length (deletions block)) (length (additions block))" for k
    using that by (simp add: emphasized_pairs_def)
  show ?case
  proof (cases "dl_kind l")
    case Context
    with Cons.prems(1) show ?thesis by (simp add: is_change_def)
  next
    case Deletion
    with Cons.prems(2) have d: "drop di (deletions block) = l # deletions ls" by (simp add: deletions_def)
    note lt = drop_Cons_get(1) [OF d] and g = drop_Cons_get(2) [OF d] and tail = drop_Cons_get(3) [OF d]
    have add: "drop ai (additions block) = additions ls" using Cons.prems(3) Deletion by (simp add: additions_def)
    show ?thesis
      using Cons.IH [OF _ tail add] Cons.prems(1) Deletion lt
      by (simp add: push_stack_row_def nth g cell_from_line_displays pair_spans_text(1) [OF assms(1)])
  next
    case Addition
    with Cons.prems(3) have a: "drop ai (additions block) = l # additions ls" by (simp add: additions_def)
    note lt = drop_Cons_get(1) [OF a] and g = drop_Cons_get(2) [OF a] and tail = drop_Cons_get(3) [OF a]
    have del: "drop di (deletions block) = deletions ls" using Cons.prems(2) Addition by (simp add: deletions_def)
    show ?thesis
      using Cons.IH [OF _ del tail] Cons.prems(1) Addition lt
      by (simp add: push_stack_row_def nth g cell_from_line_displays pair_spans_text(2) [OF assms(1)])
  qed
qed

lemma stack_rows_cells:
  assumes "differ_ok word_diff"
  shows "list_all2 displays (stacked_cells (build_stack_rows word_diff f i ls)) ls"
  using assms
proof (induction word_diff f i ls rule: build_stack_rows.induct)
  case (1 word_diff f i)
  then show ?case by simp
next
  case (2 word_diff f i l ls)
  show ?case
  proof (cases "is_change l")
    case False
    with 2 show ?thesis by (simp add: push_stack_row_def cell_from_line_displays)
  next
    case True
    let ?B = "takeWhile is_change (l # ls)" and ?R = "dropWhile is_change (l # ls)"
    have rows: "build_stack_rows word_diff f i (l # ls) =
        stack_block f i (emphasized_pairs word_diff ?B) 0 0 ?B @ build_stack_rows word_diff f i ?R"
      using True by (simp add: Let_def)
    have "list_all2 displays (stacked_cells (stack_block f i (emphasized_pairs word_diff ?B) 0 0 ?B)) ?B"
      by (rule stack_block_cells [OF 2(3)]) (auto dest: set_takeWhileD split: if_splits)
    from list_all2_appendI [OF this 2(2) [unfolded not_not, OF True refl 2(3)]] show ?thesis
      unfolding rows cells_append takeWhile_dropWhile_id .
  qed
qed

section \<open>The rows of a plan\<close>

text \<open>What the loop over the hunks contributes for one of them.\<close>

definition own_rows :: "differ \<Rightarrow> diff_file \<Rightarrow> effective_layout \<Rightarrow> bool \<Rightarrow> nat \<Rightarrow> hunk \<Rightarrow> review_row list" where
  "own_rows word_diff f layout show_hunk_headers i h =
     (if show_hunk_headers
      then [HunkHeader (make_row_key f (Some i) KHunkHeader None None) (sanitize_line (hunk_header h))] else [])
     @ hunk_rows word_diff layout f i (hunk_lines h)"

definition gap_rows_before ::
  "diff_file \<Rightarrow> effective_layout \<Rightarrow> file_context_state option \<Rightarrow> collapsed_gap list \<Rightarrow> nat \<Rightarrow> review_row list" where
  "gap_rows_before f layout context gaps i =
     place_gap f layout context
       (List.find (\<lambda>g. gk_position (cg_key g) = Before \<and> gk_hunk_index (cg_key g) = i) gaps)"

lemma plan_hunks_concat:
  "fold (plan_hunk word_diff f layout headers context gaps) nhs (rows, anchors) =
     (rows @ concat (map (\<lambda>(i, h). gap_rows_before f layout context gaps i @ own_rows word_diff f layout headers i h) nhs),
      anchors @ concat (map (\<lambda>(i, h). option_list (map_option row_key
        (List.find is_selectable (own_rows word_diff f layout headers i h)))) nhs))"
  by (induction nhs arbitrary: rows anchors)
    (auto simp: plan_hunk_def gap_rows_before_def own_rows_def Let_def)

definition plan_gaps :: "diff_file \<Rightarrow> file_context_state option \<Rightarrow> collapsed_gap list" where
  "plan_gaps f context = (case context of None \<Rightarrow> derive_collapsed_gaps f None | Some st \<Rightarrow> context_gaps st f)"

lemma row_plan_rows:
  assumes "df_hunks f \<noteq> []"
  shows "rp_rows (build_row_plan_with_context word_diff f layout headers context) =
      concat (map (\<lambda>(i, h). gap_rows_before f layout context (plan_gaps f context) i @ own_rows word_diff f layout headers i h)
        (zip [0..<length (df_hunks f)] (df_hunks f)))
      @ place_gap f layout context (List.find (\<lambda>g. gk_position (cg_key g) = Trailing) (plan_gaps f context))"
    and "rp_hunk_anchor_keys (build_row_plan_with_context word_diff f layout headers context) =
      concat (map (\<lambda>(i, h). option_list (map_option row_key
        (List.find is_selectable (own_rows word_diff f layout headers i h)))) (zip [0..<length (df_hunks f)] (df_hunks f)))"
  using assms by (simp_all add: build_row_plan_with_context_def plan_hunks_concat plan_gaps_def Let_def)

text \<open>The rows of a hunk's lines, recognised by their keys.\<close>

definition line_row_of :: "nat \<Rightarrow> review_row \<Rightarrow> bool" where
  "line_row_of i r \<longleftrightarrow> rk_kind (row_key r) = KDiffLine \<and> rk_hunk_index (row_key r) = Some i"

lemma hunk_rows_keys: "r \<in> set (hunk_rows word_diff layout f i ls) \<Longrightarrow> line_row_of i r"
proof -
  have split: "r \<in> set (build_split_rows word_diff f i ls) \<Longrightarrow> line_row_of i r"
    by (induction word_diff f i ls rule: build_split_rows.induct)
      (auto simp: line_row_of_def make_row_key_def split_block_def Let_def split: if_splits prod.splits)
  have block: "r \<in> set (stack_block f i e d a ls) \<Longrightarrow> line_row_of i r" for f i e d a ls
    by (induction f i e d a ls rule: stack_block.induct)
      (auto simp: line_row_of_def make_row_key_def push_stack_row_def split: line_type.splits)
  have stack: "r \<in> set (build_stack_rows word_diff f i ls) \<Longrightarrow> line_row_of i r"
    by (induction word_diff f i ls rule: build_stack_rows.induct)
      (auto simp: line_row_of_def make_row_key_def push_stack_row_def Let_def
        simp del: stack_block.simps dest!: block split: if_splits)
  assume "r \<in> set (hunk_rows word_diff layout f i ls)"
  with split stack show ?thesis by (cases layout) (simp_all add: hunk_rows_def)
qed

lemma place_gap_kinds:
  "r \<in> set (place_gap f layout context gap) \<Longrightarrow> rk_kind (row_key r) = KCollapsed \<or> rk_kind (row_key r) = KExpandedContext"
  by (auto simp: place_gap_def gap_rows_def expanded_row_def make_row_key_def Let_def
      split: option.splits sum.splits prod.splits if_splits effective_layout.splits)

lemma filter_own:
  "filter (line_row_of i) (gap_rows_before f layout context gaps j @ own_rows word_diff f layout headers j h) =
     (if i = j then hunk_rows word_diff layout f i (hunk_lines h) else [])"
proof -
  have gap: "filter (line_row_of i) (gap_rows_before f layout context gaps j) = []"
    unfolding gap_rows_before_def filter_empty_conv
    using place_gap_kinds by (fastforce simp: line_row_of_def)
  have own: "filter (line_row_of i) (hunk_rows word_diff layout f j ls) = (if i = j then hunk_rows word_diff layout f i ls else [])" for ls
    using hunk_rows_keys by (fastforce simp: filter_empty_conv filter_id_conv line_row_of_def)
  show ?thesis by (simp add: gap own own_rows_def) (simp add: line_row_of_def make_row_key_def)
qed

lemma concat_only:
  assumes "i < n" and "\<And>j. j < n \<Longrightarrow> g j = (if i = j then x else [])"
  shows "concat (map g [0..<n]) = x"
  using assms
proof (induction n)
  case 0
  then show ?case by simp
next
  case (Suc n)
  show ?case
  proof (cases "i = n")
    case True
    with Suc.prems(2) have "concat (map g [0..<n]) = []" by (simp add: concat_eq_Nil_conv)
    with True Suc.prems show ?thesis by simp
  next
    case False
    with Suc show ?thesis by simp
  qed
qed

lemma plan_line_rows:
  assumes "i < length (df_hunks f)"
  shows "filter (line_row_of i) (rp_rows (build_row_plan_with_context word_diff f layout headers context)) =
    hunk_rows word_diff layout f i (hunk_lines (df_hunks f ! i))"
proof -
  let ?hs = "df_hunks f"
  have ne: "?hs \<noteq> []" using assms by auto
  have zip: "zip [0..<length ?hs] ?hs = map (\<lambda>j. (j, ?hs ! j)) [0..<length ?hs]"
    by (rule nth_equalityI) simp_all
  have trailing: "filter (line_row_of i) (place_gap f layout context gap) = []" for gap
    unfolding filter_empty_conv using place_gap_kinds by (fastforce simp: line_row_of_def)
  show ?thesis
    unfolding row_plan_rows(1) [OF ne] filter_append trailing append_Nil2 filter_concat zip map_map comp_def
      prod.case filter_own
    by (rule concat_only [OF assms]) (simp only: filter_append [symmetric] filter_own, auto)
qed

text \<open>
  C4. Every line of a file's hunks is shown exactly once and unaltered. Stacked, the rows of a
  hunk are its lines in order; side by side, the non-empty cells on the left are its removed
  and unchanged lines and those on the right its added and unchanged lines, in order. A cell
  shows the kind, the line numbers and the sanitized text of its line, for whatever pairs and
  emphasis the word differ suggests.
\<close>

theorem row_plan_shows_every_line:
  assumes "differ_ok word_diff" and "i < length (df_hunks f)"
  shows "let rows = filter (line_row_of i) (rp_rows (build_row_plan_with_context word_diff f layout headers context));
             ls = hunk_lines (df_hunks f ! i)
    in (case layout of
          StackLayout \<Rightarrow> list_all2 displays (stacked_cells rows) ls
        | SplitLayout \<Rightarrow>
            list_all2 displays (left_cells rows) (filter (\<lambda>l. dl_kind l \<noteq> Addition) ls)
            \<and> list_all2 displays (right_cells rows) (filter (\<lambda>l. dl_kind l \<noteq> Deletion) ls))"
  using split_rows_cells [OF assms(1)] stack_rows_cells [OF assms(1)]
  by (simp add: Let_def plan_line_rows [OF assms(2)] hunk_rows_def split: effective_layout.split)

theorem row_plan_shows_every_line_witness:
  "map (\<lambda>r. (row_keys ''file:f'' r))
     (filter (line_row_of 0) (rp_rows (build_row_plan_with_context whole_diff sample_diff_file StackLayout True None)))
   = [[\<lparr>ck_file_id = ''file:f'', ck_side = OldLine 4\<rparr>]]
   \<and> list_all2 displays
       (stacked_cells (filter (line_row_of 0) (rp_rows (build_row_plan_with_context whole_diff sample_diff_file StackLayout True None))))
       (hunk_lines (df_hunks sample_diff_file ! 0))"
proof -
  have ok: "differ_ok whole_diff" by (simp add: differ_ok_def side_text_def whole_diff_def)
  have "0 < length (df_hunks sample_diff_file)" by (simp add: sample_diff_file_def)
  from row_plan_shows_every_line [OF ok this, of StackLayout True None]
  have "list_all2 displays
       (stacked_cells (filter (line_row_of 0) (rp_rows (build_row_plan_with_context whole_diff sample_diff_file StackLayout True None))))
       (hunk_lines (df_hunks sample_diff_file ! 0))" by (simp add: Let_def)
  moreover have "map (\<lambda>r. (row_keys ''file:f'' r))
     (filter (line_row_of 0) (rp_rows (build_row_plan_with_context whole_diff sample_diff_file StackLayout True None)))
   = [[\<lparr>ck_file_id = ''file:f'', ck_side = OldLine 4\<rparr>]]" by code_simp
  ultimately show ?thesis by blast
qed

section \<open>Rows and progress\<close>

lemma keys_of_cells:
  "mset (concat (map (row_keys file_id) rows)) =
     mset (List.map_filter (cell_key file_id) (left_cells rows))
     + mset (List.map_filter (cell_key file_id) (right_cells rows))
     + mset (List.map_filter (cell_key file_id) (stacked_cells rows))"
proof (induction rows)
  case Nil
  then show ?case by (simp add: List.map_filter_def)
next
  case (Cons row rows)
  have empty: "cell_key file_id c = None" if "ce_kind c = CellEmpty" for c
    using that by (simp add: cell_key_def)
  show ?case
    by (cases row) (auto simp: Cons.IH empty option_list_def List.map_filter_def split: option.split)
qed

lemma displays_key: "displays c l \<Longrightarrow> cell_key file_id c = line_key file_id l"
  by (simp add: displays_def cell_key_def line_key_def split: line_type.splits)

lemma displays_keys:
  "list_all2 displays cs ls \<Longrightarrow>
   List.map_filter (cell_key file_id) cs = List.map_filter (line_key file_id) ls"
  by (induction rule: list_all2_induct) (auto simp: displays_key List.map_filter_def)

lemma sides_split_changes:
  "mset (List.map_filter (line_key file_id) (filter (\<lambda>l. dl_kind l \<noteq> Addition) ls))
   + mset (List.map_filter (line_key file_id) (filter (\<lambda>l. dl_kind l \<noteq> Deletion) ls))
   = mset (List.map_filter (line_key file_id) ls)"
proof (induction ls)
  case Nil
  then show ?case by (simp add: List.map_filter_def)
next
  case (Cons l ls)
  then show ?case
    by (cases "dl_kind l") (auto simp: List.map_filter_def line_key_def split: option.splits)
qed

lemma split_only:
  "stacked_cells (build_split_rows word_diff f i ls) = []"
  by (induction word_diff f i ls rule: build_split_rows.induct)
    (simp_all add: Let_def, simp add: split_block_def split_beta Let_def one_sided)

lemma stack_only:
  "left_cells (build_stack_rows word_diff f i ls) = []" "right_cells (build_stack_rows word_diff f i ls) = []"
proof -
  have block: "left_cells (stack_block f i e d a ls) = []" "right_cells (stack_block f i e d a ls) = []" for f i e d a ls
    by (induction f i e d a ls rule: stack_block.induct) (simp_all add: push_stack_row_def split: line_type.split)
  show "left_cells (build_stack_rows word_diff f i ls) = []" "right_cells (build_stack_rows word_diff f i ls) = []"
    by (induction word_diff f i ls rule: build_stack_rows.induct)
      (simp_all add: Let_def block push_stack_row_def del: stack_block.simps)
qed

lemma hunk_rows_progress:
  assumes "differ_ok word_diff"
  shows "mset (concat (map (row_keys file_id) (hunk_rows word_diff layout f i ls))) =
    mset (List.map_filter (line_key file_id) ls)"
proof (cases layout)
  case SplitLayout
  have "list_all2 displays (left_cells (build_split_rows word_diff f i ls)) (filter (\<lambda>l. dl_kind l \<noteq> Addition) ls)"
    "list_all2 displays (right_cells (build_split_rows word_diff f i ls)) (filter (\<lambda>l. dl_kind l \<noteq> Deletion) ls)"
    using split_rows_cells [OF assms] by blast+
  note keys = this [THEN displays_keys, of file_id]
  show ?thesis
    unfolding SplitLayout hunk_rows_def effective_layout.case keys_of_cells keys split_only
    using sides_split_changes [of file_id ls] by (simp add: List.map_filter_def)
next
  case StackLayout
  note keys = stack_rows_cells [OF assms, THEN displays_keys, of file_id f i ls]
  show ?thesis
    unfolding StackLayout hunk_rows_def effective_layout.case keys_of_cells keys stack_only
    by (simp add: List.map_filter_def)
qed

lemma other_rows_keys:
  "concat (map (row_keys file_id) (place_gap f layout context gap)) = []"
proof -
  have "row_keys file_id (expanded_row f layout g line) = []" for g line
    by (simp add: expanded_row_def cell_key_def option_list_def Let_def split: effective_layout.split)
  then have "row_keys file_id r = []" if "r \<in> set (place_gap f layout context gap)" for r
    using that by (auto simp: place_gap_def gap_rows_def Let_def
      split: option.splits sum.splits prod.splits if_splits)
  then show ?thesis by (simp add: concat_eq_Nil_conv)
qed

lemma own_rows_keys:
  "concat (map (row_keys file_id) (own_rows word_diff f layout headers i h)) =
     concat (map (row_keys file_id) (hunk_rows word_diff layout f i (hunk_lines h)))"
  by (simp add: own_rows_def)

text \<open>
  The plan of a file and the progress of a review agree on what there is to read: in either
  layout, with or without headers and whatever context is expanded, the changed lines shown by
  the rows of a file are exactly its changed lines, each as often as it occurs in the diff.
\<close>

lemma row_plan_covers_progress:
  assumes "differ_ok word_diff"
  shows "mset (concat (map (row_keys (df_id f)) (rp_rows (build_row_plan_with_context word_diff f layout headers context))))
    = mset (changed_lines [f])"
proof (cases "df_hunks f = []")
  case True
  then show ?thesis
    by (simp add: build_row_plan_with_context_def placeholder_plan_def changed_lines_def split_beta Let_def)
next
  case False
  let ?hs = "df_hunks f"
  have zip: "mset (concat (map (row_keys (df_id f)) (concat (map (\<lambda>(i, h). gap_rows_before f layout context gaps i
        @ own_rows word_diff f layout headers i h) (zip is hs)))))
      = mset (concat (map (\<lambda>h. List.map_filter (line_key (df_id f)) (hunk_lines h)) hs))"
    if "length is = length hs" for gaps "is" hs
    using that
    by (induction "is" hs rule: list_induct2)
      (simp_all add: own_rows_keys gap_rows_before_def other_rows_keys hunk_rows_progress [OF assms])
  show ?thesis
    unfolding row_plan_rows(1) [OF False] map_append concat_append mset_append
    by (simp add: zip other_rows_keys changed_lines_def)
qed

lemma row_plan_covers_progress_instance:
  "mset (concat (map (row_keys ''file:f'') (rp_rows (build_row_plan_with_context whole_diff sample_diff_file SplitLayout True None))))
   = {#\<lparr>ck_file_id = ''file:f'', ck_side = OldLine 4\<rparr>#}"
proof -
  have "differ_ok whole_diff" by (simp add: differ_ok_def side_text_def whole_diff_def)
  from row_plan_covers_progress [OF this, of sample_diff_file SplitLayout True None] show ?thesis
    by (simp add: sample_diff_file_def changed_lines_def line_key_def List.map_filter_def)
qed

end
