(* ===== verification/Geometry.thy ===== *)
theory Geometry
  imports Review_Row
begin

text \<open>
  Where every row of a review is drawn, \<open>src/review/geometry.rs\<close>, and how the scroll position
  survives a new layout, \<open>src/review/anchor.rs\<close>. \<open>build_review_geometry\<close> lays the files out
  below one another; the queries find the row at an offset, the row of a key and the rows of
  the visible window by binary search. The display width of a text is the
  \<open>unicode_width\<close> crate: a parameter.
\<close>

section \<open>Columns\<close>

datatype responsive_viewport = ViewFull | ViewMedium | ViewTight

record responsive_layout =
  rl_viewport :: responsive_viewport
  rl_layout :: effective_layout
  rl_show_sidebar :: bool

definition SPLIT_MIN_WIDTH :: u16 where "SPLIT_MIN_WIDTH = 160"
definition FULL_MIN_WIDTH :: u16 where "FULL_MIN_WIDTH = 220"

definition resolve_responsive_layout :: "layout_mode \<Rightarrow> u16 \<Rightarrow> bool \<Rightarrow> responsive_layout" where
  "resolve_responsive_layout requested terminal_width sidebar_requested =
     (let viewport =
        (if FULL_MIN_WIDTH \<le> terminal_width then ViewFull
         else if SPLIT_MIN_WIDTH \<le> terminal_width then ViewMedium
         else ViewTight)
      in \<lparr>rl_viewport = viewport,
          rl_layout =
            (case requested of
               LayoutSplit \<Rightarrow> SplitLayout
             | LayoutStack \<Rightarrow> StackLayout
             | LayoutAuto \<Rightarrow> if viewport = ViewTight then StackLayout else SplitLayout),
          rl_show_sidebar = (sidebar_requested \<and> viewport = ViewFull)\<rparr>)"

record planned_file =
  pl_file_id :: string
  pl_plan :: row_plan
  pl_compacted :: bool

record geometry_options =
  go_content_width :: u16
  go_viewport_height :: u16
  go_show_line_numbers :: bool
  go_wrap_lines :: bool

record stack_columns =
  sc_gutter :: usize
  sc_code_width :: usize
  sc_text_cell :: usize

record split_columns =
  sl_gutter :: usize
  sl_left_width :: usize
  sl_right_width :: usize
  sl_left_code_width :: usize
  sl_right_code_width :: usize
  sl_divider_cell :: usize
  sl_left_text_cell :: usize
  sl_right_text_cell :: usize

definition stack_columns_of :: "u16 \<Rightarrow> usize \<Rightarrow> bool \<Rightarrow> stack_columns" where
  "stack_columns_of content_width line_digits show_line_numbers =
     (let gutter = (if show_line_numbers then sat_add usize_max (sat_mul usize_max line_digits 2) 5 else 2)
      in \<lparr>sc_gutter = gutter, sc_code_width = content_width - 1 - gutter,
          sc_text_cell = sat_add usize_max 1 gutter\<rparr>)"

definition split_columns_of :: "u16 \<Rightarrow> usize \<Rightarrow> bool \<Rightarrow> split_columns" where
  "split_columns_of content_width line_digits show_line_numbers =
     (let usable = content_width - 2;
          left_width = usable div 2;
          right_width = usable - left_width;
          gutter = (if show_line_numbers then sat_add usize_max line_digits 3 else 2);
          divider_cell = sat_add usize_max 1 left_width
      in \<lparr>sl_gutter = gutter, sl_left_width = left_width, sl_right_width = right_width,
          sl_left_code_width = left_width - gutter, sl_right_code_width = right_width - gutter,
          sl_divider_cell = divider_cell, sl_left_text_cell = sat_add usize_max 1 gutter,
          sl_right_text_cell = sat_add usize_max (sat_add usize_max divider_cell 1) gutter\<rparr>)"

section \<open>Sections, rows and the geometry\<close>

record file_section =
  fs_file_id :: string
  fs_file_index :: usize
  fs_section_top :: usize
  fs_separator_height :: usize
  fs_header_top :: usize
  fs_header_height :: usize
  fs_body_top :: usize
  fs_body_height :: usize
  fs_section_bottom :: usize

datatype row_owner = OwnedByFile usize | OwnedByTrailer

record trailer_section =
  ts_section_top :: usize
  ts_separator_height :: usize
  ts_header_top :: usize
  ts_header_height :: usize
  ts_body_top :: usize
  ts_body_height :: usize
  ts_section_bottom :: usize

record row_bounds =
  rb_key :: review_row_key
  rb_top :: usize
  rb_height :: usize
  rb_owner :: row_owner
  rb_hunk_index :: "usize option"
  rb_row_index :: usize

text \<open>The half-open \<open>range\<close> of the rows to draw is the pair of its ends.\<close>

record visible_window =
  vw_range :: "usize \<times> usize"
  vw_top_spacer :: usize
  vw_bottom_spacer :: usize

record review_geometry =
  rg_sections :: "file_section list"
  rg_trailer :: "trailer_section option"
  rg_rows :: "row_bounds list"
  rg_total_height :: usize
  rg_viewport_height :: usize
  rg_row_by_key :: "review_row_key \<rightharpoonup> usize"
  rg_file_by_id :: "string \<rightharpoonup> usize"
  rg_hunk_anchor_by_id :: "string \<times> usize \<rightharpoonup> usize"

definition row_bottom :: "row_bounds \<Rightarrow> usize" where
  "row_bottom r = sat_add usize_max (rb_top r) (rb_height r)"

definition row_at_offset :: "review_geometry \<Rightarrow> usize \<Rightarrow> row_bounds option" where
  "row_at_offset g offset =
     (if rg_rows g = [] then None
      else
        let index = partition_point (\<lambda>r. row_bottom r \<le> offset) (rg_rows g)
        in or_else (get (rg_rows g) index) (Some (last (rg_rows g))))"

definition row_by_key :: "review_geometry \<Rightarrow> review_row_key \<Rightarrow> row_bounds option" where
  "row_by_key g k = Option.bind (rg_row_by_key g k) (get (rg_rows g))"

definition hunk_anchor :: "review_geometry \<Rightarrow> string \<Rightarrow> usize \<Rightarrow> row_bounds option" where
  "hunk_anchor g file_id hunk_index =
     Option.bind (rg_hunk_anchor_by_id g (file_id, hunk_index)) (get (rg_rows g))"

definition file_section_of :: "review_geometry \<Rightarrow> string \<Rightarrow> file_section option" where
  "file_section_of g file_id = Option.bind (rg_file_by_id g file_id) (get (rg_sections g))"

definition file_at_offset :: "review_geometry \<Rightarrow> usize \<Rightarrow> usize option" where
  "file_at_offset g offset =
     (if rg_sections g = [] then None
      else
        let nxt = partition_point (\<lambda>s. fs_section_top s \<le> offset) (rg_sections g)
        in Some (min (nxt - 1) (length (rg_sections g) - 1)))"

definition window_of :: "review_geometry \<Rightarrow> usize \<Rightarrow> usize \<Rightarrow> usize \<Rightarrow> visible_window" where
  "window_of g scroll_top viewport_height overscan_rows =
     (if rg_rows g = []
      then \<lparr>vw_range = (0, 0), vw_top_spacer = 0, vw_bottom_spacer = rg_total_height g\<rparr>
      else
        let lo = scroll_top - overscan_rows;
            hi = sat_add usize_max (sat_add usize_max scroll_top viewport_height) overscan_rows;
            start = partition_point (\<lambda>r. row_bottom r \<le> lo) (rg_rows g);
            stop = max (partition_point (\<lambda>r. rb_top r < hi) (rg_rows g)) start;
            top_spacer = (case get (rg_rows g) start of None \<Rightarrow> rg_total_height g | Some r \<Rightarrow> rb_top r);
            rendered_bottom =
              (case (if stop = 0 then None else get (rg_rows g) (stop - 1)) of
                 None \<Rightarrow> top_spacer
               | Some r \<Rightarrow> row_bottom r)
        in \<lparr>vw_range = (start, stop), vw_top_spacer = top_spacer,
            vw_bottom_spacer = rg_total_height g - rendered_bottom\<rparr>)"

definition max_scroll_top :: "review_geometry \<Rightarrow> usize" where
  "max_scroll_top g = rg_total_height g - rg_viewport_height g"

section \<open>Measuring a row\<close>

definition stack_code_width :: "geometry_options \<Rightarrow> usize \<Rightarrow> usize" where
  "stack_code_width options line_digits =
     sc_code_width (stack_columns_of (go_content_width options) line_digits (go_show_line_numbers options))"

definition split_code_widths :: "geometry_options \<Rightarrow> usize \<Rightarrow> usize \<times> usize" where
  "split_code_widths options line_digits =
     (let columns = split_columns_of (go_content_width options) line_digits (go_show_line_numbers options)
      in (sl_left_code_width columns, sl_right_code_width columns))"

definition div_ceil :: "nat \<Rightarrow> nat \<Rightarrow> nat" where
  "div_ceil a b = (if a mod b = 0 then a div b else a div b + 1)"

definition wrapped_height :: "(string \<Rightarrow> usize) \<Rightarrow> review_cell \<Rightarrow> usize \<Rightarrow> usize" where
  "wrapped_height width c content_width =
     (if content_width = 0 then 1 else div_ceil (max (width (cell_text c)) 1) content_width)"

fun measure_row_height ::
  "(string \<Rightarrow> usize) \<Rightarrow> review_row \<Rightarrow> usize \<Rightarrow> geometry_options \<Rightarrow> usize" where
  "measure_row_height width (Note _ c) line_digits options = card_height c"
| "measure_row_height width (Stack _ c) line_digits options =
     (if go_wrap_lines options then wrapped_height width c (stack_code_width options line_digits) else 1)"
| "measure_row_height width (Split _ l r) line_digits options =
     (if go_wrap_lines options
      then let (left_width, right_width) = split_code_widths options line_digits
           in max (wrapped_height width l left_width) (wrapped_height width r right_width)
      else 1)"
| "measure_row_height width _ line_digits options = 1"

section \<open>Laying out a review\<close>

record layout_state =
  ly_sections :: "file_section list"
  ly_rows :: "row_bounds list"
  ly_row_by_key :: "review_row_key \<rightharpoonup> usize"
  ly_file_by_id :: "string \<rightharpoonup> usize"
  ly_hunk_anchor_by_id :: "string \<times> usize \<rightharpoonup> usize"
  ly_cursor :: usize

text \<open>One row of a body that starts at \<open>body_top\<close>; the same loop lays out a file and the trailer.\<close>

definition place_row ::
  "(string \<Rightarrow> usize) \<Rightarrow> geometry_options \<Rightarrow> usize \<Rightarrow> usize \<Rightarrow> row_owner \<Rightarrow> usize \<times> review_row
     \<Rightarrow> row_bounds list \<times> (review_row_key \<rightharpoonup> usize) \<times> usize
     \<Rightarrow> row_bounds list \<times> (review_row_key \<rightharpoonup> usize) \<times> usize" where
  "place_row width options line_digits body_top owner numbered st =
     (case (numbered, st) of ((row_index, row), (rows, by_key, body_height)) \<Rightarrow>
       let height = measure_row_height width row line_digits options;
           bound = \<lparr>rb_key = row_key row, rb_top = sat_add usize_max body_top body_height, rb_height = height,
                    rb_owner = owner, rb_hunk_index = rk_hunk_index (row_key row), rb_row_index = row_index\<rparr>
       in (rows @ [bound], by_key(rb_key bound \<mapsto> length rows), sat_add usize_max body_height height))"

definition place_rows ::
  "(string \<Rightarrow> usize) \<Rightarrow> geometry_options \<Rightarrow> usize \<Rightarrow> row_owner \<Rightarrow> row_plan
     \<Rightarrow> row_bounds list \<Rightarrow> (review_row_key \<rightharpoonup> usize)
     \<Rightarrow> row_bounds list \<times> (review_row_key \<rightharpoonup> usize) \<times> usize" where
  "place_rows width options body_top owner plan rows by_key =
     fold (place_row width options (rp_line_number_digits plan) body_top owner)
       (zip [0..<length (rp_rows plan)] (rp_rows plan)) (rows, by_key, 0)"

definition place_hunk ::
  "string \<Rightarrow> (review_row_key \<rightharpoonup> usize) \<Rightarrow> usize \<times> review_row_key
     \<Rightarrow> (string \<times> usize \<rightharpoonup> usize) \<Rightarrow> (string \<times> usize \<rightharpoonup> usize)" where
  "place_hunk file_id by_key numbered anchors =
     (case numbered of (hunk_index, k) \<Rightarrow>
       (case by_key k of None \<Rightarrow> anchors | Some index \<Rightarrow> anchors((file_id, hunk_index) \<mapsto> index)))"

definition place_file ::
  "(string \<Rightarrow> usize) \<Rightarrow> geometry_options \<Rightarrow> usize \<times> planned_file \<Rightarrow> layout_state \<Rightarrow> layout_state" where
  "place_file width options numbered st =
     (case numbered of (file_index, f) \<Rightarrow>
       let separator_height = (if 0 < file_index then 1 else 0);
           header_height = (if pl_compacted f then 0 else 1);
           section_top = ly_cursor st;
           header_top = sat_add usize_max section_top separator_height;
           body_top = sat_add usize_max header_top header_height;
           (rows, by_key, body_height) =
             place_rows width options body_top (OwnedByFile file_index) (pl_plan f) (ly_rows st) (ly_row_by_key st);
           keys = rp_hunk_anchor_keys (pl_plan f);
           anchors = fold (place_hunk (pl_file_id f) by_key) (zip [0..<length keys] keys) (ly_hunk_anchor_by_id st);
           section_bottom = sat_add usize_max body_top body_height
       in \<lparr>ly_sections = ly_sections st @
             [\<lparr>fs_file_id = pl_file_id f, fs_file_index = file_index, fs_section_top = section_top,
               fs_separator_height = separator_height, fs_header_top = header_top,
               fs_header_height = header_height, fs_body_top = body_top, fs_body_height = body_height,
               fs_section_bottom = section_bottom\<rparr>],
           ly_rows = rows, ly_row_by_key = by_key,
           ly_file_by_id = (ly_file_by_id st)(pl_file_id f \<mapsto> file_index),
           ly_hunk_anchor_by_id = anchors, ly_cursor = section_bottom\<rparr>)"

definition layout_start :: layout_state where
  "layout_start =
     \<lparr>ly_sections = [], ly_rows = [], ly_row_by_key = Map.empty, ly_file_by_id = Map.empty,
      ly_hunk_anchor_by_id = Map.empty, ly_cursor = 0\<rparr>"

definition place_trailer ::
  "(string \<Rightarrow> usize) \<Rightarrow> geometry_options \<Rightarrow> row_plan \<Rightarrow> layout_state \<Rightarrow> trailer_section \<times> layout_state" where
  "place_trailer width options plan st =
     (let section_top = ly_cursor st;
          separator_height = 1;
          header_top = sat_add usize_max section_top separator_height;
          header_height = 1;
          body_top = sat_add usize_max header_top header_height;
          (rows, by_key, body_height) =
            place_rows width options body_top OwnedByTrailer plan (ly_rows st) (ly_row_by_key st);
          section_bottom = sat_add usize_max body_top body_height
      in (\<lparr>ts_section_top = section_top, ts_separator_height = separator_height, ts_header_top = header_top,
           ts_header_height = header_height, ts_body_top = body_top, ts_body_height = body_height,
           ts_section_bottom = section_bottom\<rparr>,
          st\<lparr>ly_rows := rows, ly_row_by_key := by_key, ly_cursor := section_bottom\<rparr>))"

definition build_review_geometry ::
  "(string \<Rightarrow> usize) \<Rightarrow> planned_file list \<Rightarrow> row_plan option \<Rightarrow> geometry_options \<Rightarrow> review_geometry" where
  "build_review_geometry width files trailer options =
     (let st = fold (place_file width options) (zip [0..<length files] files) layout_start;
          (trailer_sec, st) =
            (case trailer of
               None \<Rightarrow> (None, st)
             | Some plan \<Rightarrow>
                 if rp_rows plan = [] then (None, st)
                 else let (sec, st') = place_trailer width options plan st in (Some sec, st'))
      in \<lparr>rg_sections = ly_sections st, rg_trailer = trailer_sec, rg_rows = ly_rows st,
          rg_total_height = ly_cursor st, rg_viewport_height = go_viewport_height options,
          rg_row_by_key = ly_row_by_key st, rg_file_by_id = ly_file_by_id st,
          rg_hunk_anchor_by_id = ly_hunk_anchor_by_id st\<rparr>)"

section \<open>The layout in closed form\<close>

text \<open>Positions before saturation: a plan is as high as its rows, a file as its separator, header
  and rows, and a position of the geometry is the one of the closed form, clipped.\<close>

definition clip :: "nat \<Rightarrow> usize" where
  "clip n = min usize_max n"

definition row_heights :: "(string \<Rightarrow> usize) \<Rightarrow> geometry_options \<Rightarrow> row_plan \<Rightarrow> nat list" where
  "row_heights width options plan =
     map (\<lambda>r. measure_row_height width r (rp_line_number_digits plan) options) (rp_rows plan)"

definition body_offset :: "nat \<Rightarrow> planned_file \<Rightarrow> nat" where
  "body_offset i f = (if 0 < i then 1 else 0) + (if pl_compacted f then 0 else 1)"

fun files_height :: "(string \<Rightarrow> usize) \<Rightarrow> geometry_options \<Rightarrow> nat \<Rightarrow> planned_file list \<Rightarrow> nat" where
  "files_height width options i [] = 0"
| "files_height width options i (f # fs) =
     body_offset i f + sum_list (row_heights width options (pl_plan f)) + files_height width options (Suc i) fs"

definition bounds_of ::
  "(string \<Rightarrow> usize) \<Rightarrow> geometry_options \<Rightarrow> nat \<Rightarrow> row_owner \<Rightarrow> row_plan \<Rightarrow> row_bounds list" where
  "bounds_of width options base owner plan =
     map (\<lambda>j. let k = row_key (rp_rows plan ! j)
              in \<lparr>rb_key = k, rb_top = clip (base + sum_list (take j (row_heights width options plan))),
                  rb_height = row_heights width options plan ! j, rb_owner = owner,
                  rb_hunk_index = rk_hunk_index k, rb_row_index = j\<rparr>)
       [0..<length (rp_rows plan)]"

definition section_of ::
  "(string \<Rightarrow> usize) \<Rightarrow> geometry_options \<Rightarrow> nat \<Rightarrow> nat \<Rightarrow> planned_file \<Rightarrow> file_section" where
  "section_of width options base i f =
     \<lparr>fs_file_id = pl_file_id f, fs_file_index = i, fs_section_top = clip base,
      fs_separator_height = (if 0 < i then 1 else 0),
      fs_header_top = clip (base + (if 0 < i then 1 else 0)),
      fs_header_height = (if pl_compacted f then 0 else 1),
      fs_body_top = clip (base + body_offset i f),
      fs_body_height = clip (sum_list (row_heights width options (pl_plan f))),
      fs_section_bottom = clip (base + body_offset i f + sum_list (row_heights width options (pl_plan f)))\<rparr>"

fun layout_from ::
  "(string \<Rightarrow> usize) \<Rightarrow> geometry_options \<Rightarrow> nat \<Rightarrow> nat \<Rightarrow> planned_file list
     \<Rightarrow> (file_section \<times> row_bounds list) list" where
  "layout_from width options base i [] = []"
| "layout_from width options base i (f # fs) =
     (section_of width options base i f,
      bounds_of width options (base + body_offset i f) (OwnedByFile i) (pl_plan f))
     # layout_from width options
         (base + body_offset i f + sum_list (row_heights width options (pl_plan f))) (Suc i) fs"

lemma clip_add: "sat_add usize_max (clip a) b = clip (a + b)" "sat_add usize_max (clip a) (clip b) = clip (a + b)"
  by (simp_all add: clip_def sat_add_def)

lemma clip_clip: "clip (a + clip b) = clip (a + b)"
  by (simp add: clip_def)

lemma clip_mono: "a \<le> b \<Longrightarrow> clip a \<le> clip b"
  by (simp add: clip_def)

lemma clip_0 [simp]: "clip 0 = 0" by (simp add: clip_def)

lemma bounds_of_keys: "map rb_key (bounds_of width options base owner plan) = map row_key (rp_rows plan)"
  by (rule nth_equalityI) (simp_all add: bounds_of_def Let_def)

lemma place_rows_prefix:
  assumes "n \<le> length (rp_rows plan)" and "by_key = ordinals (map rb_key rows)"
  shows "fold (place_row width options (rp_line_number_digits plan) (clip base) owner)
      (zip [0..<n] (take n (rp_rows plan))) (rows, by_key, 0)
    = (rows @ take n (bounds_of width options base owner plan),
       ordinals (map rb_key (rows @ take n (bounds_of width options base owner plan))),
       clip (sum_list (take n (row_heights width options plan))))"
  using assms(1)
proof (induction n)
  case 0
  with assms(2) show ?case by simp
next
  case (Suc n)
  let ?bs = "bounds_of width options base owner plan"
  have len: "length ?bs = length (rp_rows plan)" by (simp add: bounds_of_def)
  have zip: "zip [0..<Suc n] (take (Suc n) (rp_rows plan))
      = zip [0..<n] (take n (rp_rows plan)) @ [(n, rp_rows plan ! n)]"
    using Suc.prems by (simp add: take_Suc_conv_app_nth)
  have bs: "take (Suc n) ?bs = take n ?bs @ [?bs ! n]" using Suc.prems len by (simp add: take_Suc_conv_app_nth)
  have hs: "take (Suc n) (row_heights width options plan)
      = take n (row_heights width options plan) @ [row_heights width options plan ! n]"
    using Suc.prems by (simp add: take_Suc_conv_app_nth row_heights_def)
  have nth: "?bs ! n = \<lparr>rb_key = row_key (rp_rows plan ! n),
      rb_top = clip (base + sum_list (take n (row_heights width options plan))),
      rb_height = row_heights width options plan ! n, rb_owner = owner,
      rb_hunk_index = rk_hunk_index (row_key (rp_rows plan ! n)), rb_row_index = n\<rparr>"
    using Suc.prems by (simp add: bounds_of_def Let_def)
  have h: "row_heights width options plan ! n
      = measure_row_height width (rp_rows plan ! n) (rp_line_number_digits plan) options"
    using Suc.prems by (simp add: row_heights_def)
  show ?case
    unfolding zip fold_append comp_def Suc.IH [OF Suc_leD [OF Suc.prems]] bs hs nth
    by (simp add: place_row_def Let_def clip_add clip_clip h ordinals_snoc fun_upd_def flip: append_assoc)
      (auto simp: fun_eq_iff)
qed

lemma place_rows_eq:
  "place_rows width options (clip base) owner plan rows (ordinals (map rb_key rows)) =
     (rows @ bounds_of width options base owner plan,
      ordinals (map rb_key (rows @ bounds_of width options base owner plan)),
      clip (sum_list (row_heights width options plan)))"
  using place_rows_prefix [of "length (rp_rows plan)" plan "ordinals (map rb_key rows)" rows width options base owner]
  by (simp add: place_rows_def bounds_of_def row_heights_def)

text \<open>The state after the files so far, but for the hunk anchors.\<close>

definition laid_out :: "(file_section \<times> row_bounds list) list \<Rightarrow> string list \<Rightarrow> nat \<Rightarrow> layout_state \<Rightarrow> bool" where
  "laid_out lay ids base st \<longleftrightarrow>
     ly_sections st = map fst lay \<and> ly_rows st = concat (map snd lay)
     \<and> ly_row_by_key st = ordinals (map rb_key (ly_rows st))
     \<and> ly_file_by_id st = ordinals ids \<and> ly_cursor st = clip base"

lemma place_file_laid_out:
  assumes "laid_out lay ids base st" and "length ids = i"
  shows "laid_out
      (lay @ [(section_of width options base i f,
               bounds_of width options (base + body_offset i f) (OwnedByFile i) (pl_plan f))])
      (ids @ [pl_file_id f])
      (base + body_offset i f + sum_list (row_heights width options (pl_plan f)))
      (place_file width options (i, f) st)"
proof -
  from assms(1) have st: "ly_sections st = map fst lay" "ly_rows st = concat (map snd lay)"
    "ly_row_by_key st = ordinals (map rb_key (ly_rows st))" "ly_file_by_id st = ordinals ids"
    "ly_cursor st = clip base" by (simp_all add: laid_out_def)
  have top: "sat_add usize_max (sat_add usize_max (clip base) (if 0 < i then 1 else 0))
      (if pl_compacted f then 0 else 1) = clip (base + body_offset i f)"
    unfolding clip_add by (simp only: body_offset_def add.assoc)
  show ?thesis
    unfolding laid_out_def place_file_def Let_def prod.case st(3,5) top place_rows_eq
    by (simp add: st(1,2,4) section_of_def clip_add clip_clip ordinals_snoc assms(2))
qed

lemma place_files_laid_out:
  assumes "laid_out lay ids base st" and "length ids = i"
  shows "laid_out (lay @ layout_from width options base i files) (ids @ map pl_file_id files)
      (base + files_height width options i files)
      (fold (place_file width options) (zip [i..<i + length files] files) st)"
  using assms
proof (induction files arbitrary: lay ids base st i)
  case Nil
  then show ?case by simp
next
  case (Cons f files)
  have zip: "zip [i..<i + length (f # files)] (f # files) = (i, f) # zip [Suc i..<Suc i + length files] files"
    by (simp add: upt_conv_Cons del: upt_Suc)
  have "length (ids @ [pl_file_id f]) = Suc i" using Cons.prems(2) by simp
  from Cons.IH [OF place_file_laid_out [OF Cons.prems, of width options f] this] show ?case
    unfolding zip by (simp add: add.assoc del: upt_Suc)
qed

definition trailer_rows ::
  "(string \<Rightarrow> usize) \<Rightarrow> geometry_options \<Rightarrow> nat \<Rightarrow> row_plan option \<Rightarrow> row_bounds list" where
  "trailer_rows width options base trailer =
     (case trailer of None \<Rightarrow> [] | Some plan \<Rightarrow> bounds_of width options (base + 2) OwnedByTrailer plan)"

definition trailer_height ::
  "(string \<Rightarrow> usize) \<Rightarrow> geometry_options \<Rightarrow> row_plan option \<Rightarrow> nat" where
  "trailer_height width options trailer =
     (case trailer of
        None \<Rightarrow> 0
      | Some plan \<Rightarrow> if rp_rows plan = [] then 0 else 2 + sum_list (row_heights width options plan))"

text \<open>The closed form computes what the accumulating loop does; the lemmas below rest on it.\<close>

lemma geometry_closed_form:
  "let g = build_review_geometry width files trailer options;
       lay = layout_from width options 0 0 files;
       total = files_height width options 0 files
   in rg_sections g = map fst lay
      \<and> rg_rows g = concat (map snd lay) @ trailer_rows width options total trailer
      \<and> rg_total_height g = clip (total + trailer_height width options trailer)
      \<and> rg_viewport_height g = go_viewport_height options
      \<and> rg_row_by_key g = ordinals (map rb_key (rg_rows g))
      \<and> rg_file_by_id g = ordinals (map pl_file_id files)"
proof -
  define st where "st = fold (place_file width options) (zip [0..<length files] files) layout_start"
  have "laid_out [] [] 0 layout_start" by (simp add: laid_out_def layout_start_def)
  from place_files_laid_out [OF this, of 0 width options files]
  have l: "ly_sections st = map fst (layout_from width options 0 0 files)"
    "ly_rows st = concat (map snd (layout_from width options 0 0 files))"
    "ly_row_by_key st = ordinals (map rb_key (ly_rows st))"
    "ly_file_by_id st = ordinals (map pl_file_id files)"
    "ly_cursor st = clip (files_height width options 0 files)"
    by (simp_all add: laid_out_def st_def)
  have none: ?thesis if "trailer = None \<or> (\<exists>plan. trailer = Some plan \<and> rp_rows plan = [])"
    using that l
    by (auto simp: build_review_geometry_def st_def [symmetric] trailer_rows_def trailer_height_def bounds_of_def Let_def)
  have some: ?thesis if "trailer = Some plan" "rp_rows plan \<noteq> []" for plan
  proof -
    have top: "sat_add usize_max (sat_add usize_max (ly_cursor st) 1) 1 = clip (files_height width options 0 files + 2)"
      unfolding l(5) clip_add by (simp add: add.assoc)
    have rows: "place_rows width options (clip (files_height width options 0 files + 2)) OwnedByTrailer plan
        (ly_rows st) (ly_row_by_key st) =
       (ly_rows st @ bounds_of width options (files_height width options 0 files + 2) OwnedByTrailer plan,
        ordinals (map rb_key (ly_rows st @ bounds_of width options (files_height width options 0 files + 2) OwnedByTrailer plan)),
        clip (sum_list (row_heights width options plan)))"
      unfolding l(3) by (rule place_rows_eq)
    define st' where "st' = st\<lparr>ly_rows := ly_rows st @ bounds_of width options (files_height width options 0 files + 2) OwnedByTrailer plan,
        ly_row_by_key := ordinals (map rb_key (ly_rows st @
          bounds_of width options (files_height width options 0 files + 2) OwnedByTrailer plan)),
        ly_cursor := clip (files_height width options 0 files + (2 + sum_list (row_heights width options plan)))\<rparr>"
    have "snd (place_trailer width options plan st) = st'"
      unfolding place_trailer_def Let_def top rows prod.case clip_add clip_clip snd_conv st'_def
      unfolding add.assoc ..
    then obtain sec where pt: "place_trailer width options plan st = (sec, st')" by (metis prod.collapse)
    show ?thesis
      using that l(1,2,4)
      by (simp add: build_review_geometry_def st_def [symmetric] pt st'_def Let_def trailer_rows_def trailer_height_def)
  qed
  from none some show ?thesis by (cases trailer) blast+
qed

text \<open>
  C36. The accumulating loop that lays a review out computes the closed form: a section for
  every file, in order, one line of separator above every file but the first, one line of
  header unless the file is compacted, then its rows one below another; then the rows of the
  trailer under a separator and a header of one line each; positions stop at the largest
  \<open>usize\<close>. The index by key finds the last row with a key and the index by file the last
  section with an identifier.
\<close>

theorem build_review_geometry_layout:
  "let g = build_review_geometry width files trailer options;
       lay = layout_from width options 0 0 files;
       total = files_height width options 0 files
   in rg_sections g = map fst lay
      \<and> rg_rows g = concat (map snd lay) @ trailer_rows width options total trailer
      \<and> rg_total_height g = clip (total + trailer_height width options trailer)
      \<and> rg_viewport_height g = go_viewport_height options
      \<and> rg_row_by_key g = ordinals (map rb_key (rg_rows g))
      \<and> rg_file_by_id g = ordinals (map pl_file_id files)"
  by (rule geometry_closed_form)

section \<open>Rows in order\<close>

text \<open>Rows between two positions, one below another and each at least one line high.\<close>

definition rows_between :: "nat \<Rightarrow> nat \<Rightarrow> row_bounds list \<Rightarrow> bool" where
  "rows_between lo hi rs \<longleftrightarrow>
     sorted_wrt (\<lambda>a b. row_bottom a \<le> rb_top b) rs
     \<and> (\<forall>r \<in> set rs. lo \<le> rb_top r \<and> row_bottom r \<le> hi \<and> 1 \<le> rb_height r \<and> rb_top r \<le> usize_max)"

lemma row_top_bottom: "rb_top r \<le> usize_max \<Longrightarrow> rb_top r \<le> row_bottom r"
  by (simp add: row_bottom_def sat_add_def)

lemma rows_between_Nil: "rows_between lo hi []"
  by (simp add: rows_between_def)

lemma rows_between_append:
  assumes "rows_between lo mid xs" and "rows_between mid' hi ys" and "lo \<le> mid'" "mid \<le> mid'" "mid \<le> hi"
  shows "rows_between lo hi (xs @ ys)"
  using assms unfolding rows_between_def sorted_wrt_append by (fastforce intro: order_trans)

lemma rows_between_weaken:
  "rows_between lo hi rs \<Longrightarrow> lo' \<le> lo \<Longrightarrow> hi \<le> hi' \<Longrightarrow> rows_between lo' hi' rs"
  unfolding rows_between_def by fastforce

lemma wrapped_height_pos: "1 \<le> wrapped_height width c n"
proof (cases "n = 0")
  case False
  define w where "w = max (width (cell_text c)) 1"
  have "1 \<le> w" by (simp add: w_def)
  have "1 \<le> w div n" if "w mod n = 0"
  proof -
    from that have "w = n * (w div n)" by auto
    with \<open>1 \<le> w\<close> show ?thesis by (metis less_one mult_0_right not_le)
  qed
  then show ?thesis using False by (simp add: wrapped_height_def div_ceil_def w_def del: One_nat_def)
qed (simp add: wrapped_height_def)

lemma measure_pos: "1 \<le> measure_row_height width r n options"
  by (cases r) (auto simp: card_height_def Let_def split_def le_max_iff_disj wrapped_height_pos simp del: One_nat_def)

lemma sum_take_mono: "i \<le> j \<Longrightarrow> sum_list (take i hs) \<le> sum_list (take j hs :: nat list)"
  by (metis le_add1 le_add_diff_inverse sum_list_append take_add)

lemma bounds_of_between:
  "rows_between (clip base) (clip (base + sum_list (row_heights width options plan)))
     (bounds_of width options base owner plan)"
proof -
  let ?hs = "row_heights width options plan"
  let ?bs = "bounds_of width options base owner plan"
  have len: "length ?hs = length (rp_rows plan)" "length ?bs = length (rp_rows plan)"
    by (simp_all add: row_heights_def bounds_of_def)
  have nth: "rb_top (?bs ! j) = clip (base + sum_list (take j ?hs))" "rb_height (?bs ! j) = ?hs ! j"
    "row_bottom (?bs ! j) = clip (base + sum_list (take (Suc j) ?hs))" if "j < length ?bs" for j
    using that len
    by (simp_all add: bounds_of_def Let_def row_bottom_def clip_add take_Suc_conv_app_nth add.assoc)
  have pos: "1 \<le> ?hs ! j" if "j < length ?bs" for j
    using that len by (simp add: row_heights_def measure_pos del: One_nat_def)
  have "sorted_wrt (\<lambda>a b. row_bottom a \<le> rb_top b) ?bs"
    unfolding sorted_wrt_iff_nth_less
    by (auto simp: nth intro!: clip_mono add_left_mono sum_take_mono)
  moreover have "clip base \<le> rb_top r \<and> row_bottom r \<le> clip (base + sum_list ?hs) \<and> 1 \<le> rb_height r
      \<and> rb_top r \<le> usize_max" if r: "r \<in> set ?bs" for r
  proof -
    from r obtain j where j: "j < length ?bs" "r = ?bs ! j" by (metis in_set_conv_nth)
    have "sum_list (take (Suc j) ?hs) \<le> sum_list ?hs"
      using sum_take_mono [of "Suc j" "length ?hs" ?hs] j len by simp
    then show ?thesis
      using nth [OF j(1)] pos [OF j(1)] unfolding j(2) by (auto intro: clip_mono simp: clip_def)
  qed
  ultimately show ?thesis by (simp add: rows_between_def)
qed

lemma layout_from_between:
  "rows_between (clip base) (clip (base + files_height width options i files))
     (concat (map snd (layout_from width options base i files)))"
proof (induction files arbitrary: base i)
  case Nil
  then show ?case by (simp add: rows_between_Nil)
next
  case (Cons f files)
  let ?next = "base + body_offset i f + sum_list (row_heights width options (pl_plan f))"
  have "rows_between (clip base) (clip ?next)
      (bounds_of width options (base + body_offset i f) (OwnedByFile i) (pl_plan f))"
    by (rule rows_between_weaken [OF bounds_of_between]) (auto intro: clip_mono)
  from rows_between_append [OF this Cons.IH [of ?next "Suc i"]] show ?case
    by (simp add: clip_mono add.assoc)
qed

lemma layout_from_tops:
  "sorted (map fs_section_top (map fst (layout_from width options base i files)))
   \<and> (\<forall>s \<in> set (map fst (layout_from width options base i files)). clip base \<le> fs_section_top s)"
proof (induction files arbitrary: base i)
  case Nil
  then show ?case by simp
next
  case (Cons f files)
  let ?next = "base + body_offset i f + sum_list (row_heights width options (pl_plan f))"
  have "clip base \<le> clip ?next" by (rule clip_mono) simp
  with Cons.IH [of ?next "Suc i"] show ?case by (fastforce simp: section_of_def intro: order_trans)
qed

text \<open>What the queries rely on.\<close>

definition geometry_ok :: "review_geometry \<Rightarrow> bool" where
  "geometry_ok g \<longleftrightarrow>
     rows_between 0 (rg_total_height g) (rg_rows g)
     \<and> rg_row_by_key g = ordinals (map rb_key (rg_rows g))
     \<and> sorted (map fs_section_top (rg_sections g))"

lemma build_review_geometry_ok: "geometry_ok (build_review_geometry width files trailer options)"
proof -
  define g where "g = build_review_geometry width files trailer options"
  have l: "rg_sections g = map fst (layout_from width options 0 0 files)"
    "rg_rows g = concat (map snd (layout_from width options 0 0 files))
       @ trailer_rows width options (files_height width options 0 files) trailer"
    "rg_total_height g = clip (files_height width options 0 files + trailer_height width options trailer)"
    "rg_row_by_key g = ordinals (map rb_key (rg_rows g))"
    using geometry_closed_form [of width files trailer options]
    by (simp_all add: g_def Let_def)
  have files: "rows_between 0 (clip (files_height width options 0 files))
      (concat (map snd (layout_from width options 0 0 files)))"
    using layout_from_between [of 0 width options 0 files] by simp
  have "rows_between (clip (files_height width options 0 files)) (rg_total_height g)
      (trailer_rows width options (files_height width options 0 files) trailer)"
  proof (cases trailer)
    case None
    then show ?thesis by (simp add: trailer_rows_def rows_between_Nil)
  next
    case (Some plan)
    show ?thesis
    proof (cases "rp_rows plan = []")
      case True
      with Some show ?thesis by (simp add: trailer_rows_def bounds_of_def rows_between_Nil)
    next
      case False
      show ?thesis
        unfolding Some trailer_rows_def option.case l(3)
        by (rule rows_between_weaken [OF bounds_of_between])
          (auto intro!: clip_mono simp: trailer_height_def False)
    qed
  qed
  from rows_between_append [OF files this] have "rows_between 0 (rg_total_height g) (rg_rows g)"
    unfolding l(2,3) by (simp add: clip_mono)
  then show ?thesis
    using layout_from_tops [of width options 0 0 files] l(1,4) by (simp add: geometry_ok_def flip: g_def)
qed

section \<open>The queries\<close>

text \<open>
  An ordered column of rows, as the queries see it: the contract between the layout and the
  code that scrolls.
\<close>

locale row_column =
  fixes rows :: "'g \<Rightarrow> row_bounds list" and wf :: "'g \<Rightarrow> bool"
  assumes ordered: "wf g \<Longrightarrow> sorted_wrt (\<lambda>a b. row_bottom a \<le> rb_top b) (rows g)"
    and positive: "wf g \<Longrightarrow> r \<in> set (rows g) \<Longrightarrow> 1 \<le> rb_height r \<and> rb_top r \<le> usize_max"
begin

lemma bottom_le_top:
  assumes "wf g" and "i < j" and "j < length (rows g)"
  shows "row_bottom (rows g ! i) \<le> rb_top (rows g ! j)"
    and "rb_top (rows g ! i) \<le> row_bottom (rows g ! i)"
    and "rb_top (rows g ! j) \<le> row_bottom (rows g ! j)"
proof -
  show "row_bottom (rows g ! i) \<le> rb_top (rows g ! j)"
    using ordered [OF assms(1)] assms(2,3) by (simp add: sorted_wrt_iff_nth_less)
  have "rb_top r \<le> row_bottom r" if "r \<in> set (rows g)" for r
    using positive [OF assms(1) that] row_top_bottom by blast
  then show "rb_top (rows g ! i) \<le> row_bottom (rows g ! i)" "rb_top (rows g ! j) \<le> row_bottom (rows g ! j)"
    using assms(2,3) by simp_all
qed

lemma bottoms_partitioned: "wf g \<Longrightarrow> partitioned (\<lambda>r. row_bottom r \<le> offset) (rows g)"
  unfolding partitioned_def using bottom_le_top by (meson order_trans)

lemma tops_partitioned: "wf g \<Longrightarrow> partitioned (\<lambda>r. rb_top r < offset) (rows g)"
  unfolding partitioned_def using bottom_le_top by (meson le_less_trans)

lemma first_below:
  assumes "wf g" and "i < length (rows g)" and "rb_top (rows g ! i) \<le> offset" and "offset < row_bottom (rows g ! i)"
  shows "partition_point (\<lambda>r. row_bottom r \<le> offset) (rows g) = i"
proof -
  note pp = partition_point_iff [OF bottoms_partitioned [OF assms(1)], of _ offset]
  have "\<not> i < partition_point (\<lambda>r. row_bottom r \<le> offset) (rows g)"
    using pp [OF assms(2)] assms(4) by simp
  moreover have "j < partition_point (\<lambda>r. row_bottom r \<le> offset) (rows g)" if "j < i" for j
    using pp [of j] bottom_le_top [OF assms(1) that assms(2)] assms(2,3) that by simp
  ultimately show ?thesis by (metis not_less_iff_gr_or_eq)
qed

lemma windowed:
  assumes "wf g" and "i < length (rows g)"
  shows "(partition_point (\<lambda>r. row_bottom r \<le> lo) (rows g) \<le> i
      \<and> i < max (partition_point (\<lambda>r. rb_top r < hi) (rows g)) (partition_point (\<lambda>r. row_bottom r \<le> lo) (rows g)))
    \<longleftrightarrow> lo < row_bottom (rows g ! i) \<and> rb_top (rows g ! i) < hi"
  using partition_point_iff [OF bottoms_partitioned [OF assms(1)] assms(2), of lo]
    partition_point_iff [OF tops_partitioned [OF assms(1)] assms(2), of hi]
  by auto

lemma distinct_rows:
  assumes "wf g" and "i < length (rows g)" "j < length (rows g)"
    and "rb_top (rows g ! i) \<le> offset" "offset < row_bottom (rows g ! i)"
    and "rb_top (rows g ! j) \<le> offset" "offset < row_bottom (rows g ! j)"
  shows "i = j"
  using first_below [OF assms(1,2,4,5)] first_below [OF assms(1,3,6,7)] by simp

end

interpretation layout: row_column rg_rows geometry_ok
  by unfold_locales (auto simp: geometry_ok_def rows_between_def)

lemma row_at_offset_inside:
  assumes "geometry_ok g" and "r \<in> set (rg_rows g)" and "rb_top r \<le> offset" and "offset < row_bottom r"
  shows "row_at_offset g offset = Some r"
proof -
  from assms(2) obtain i where i: "i < length (rg_rows g)" "r = rg_rows g ! i" by (metis in_set_conv_nth)
  with layout.first_below [OF assms(1) i(1), of offset] assms(3,4)
  have "partition_point (\<lambda>r. row_bottom r \<le> offset) (rg_rows g) = i" by simp
  then show ?thesis using i by (auto simp: row_at_offset_def get_def)
qed

lemma row_at_offset_in:
  "row_at_offset g offset = Some r \<Longrightarrow> r \<in> set (rg_rows g)"
  by (auto simp: row_at_offset_def or_else_def get_def Let_def split: if_splits)

lemma row_by_key_Some_iff:
  assumes "geometry_ok g" and "distinct (map rb_key (rg_rows g))"
  shows "row_by_key g k = Some r \<longleftrightarrow> r \<in> set (rg_rows g) \<and> rb_key r = k"
proof -
  have ok: "rg_row_by_key g = ordinals (map rb_key (rg_rows g))" using assms(1) by (simp add: geometry_ok_def)
  show ?thesis
  proof
    assume "row_by_key g k = Some r"
    then show "r \<in> set (rg_rows g) \<and> rb_key r = k"
      by (auto simp: row_by_key_def ok Option.bind_eq_Some_conv get_Some_iff dest!: ordinals_SomeD)
  next
    assume r: "r \<in> set (rg_rows g) \<and> rb_key r = k"
    then obtain i where i: "i < length (rg_rows g)" "rg_rows g ! i = r" by (metis in_set_conv_nth)
    with ordinals_nth [OF assms(2), of i] r show "row_by_key g k = Some r"
      by (simp add: row_by_key_def ok get_def)
  qed
qed

text \<open>
  The row at a scroll position is the first row that ends below it: the row that covers the
  position if there is one, the next row if the position is in a separator or header, and
  the last row past the end; the binary search finds what a linear search would.
\<close>

lemma row_at_offset_first:
  "row_at_offset (build_review_geometry width files trailer options) offset =
     (let rows = rg_rows (build_review_geometry width files trailer options)
      in if rows = [] then None
         else or_else (List.find (\<lambda>r. offset < row_bottom r) rows) (Some (last rows)))"
proof -
  define g where "g = build_review_geometry width files trailer options"
  have ok: "geometry_ok g" unfolding g_def by (rule build_review_geometry_ok)
  let ?n = "partition_point (\<lambda>r. row_bottom r \<le> offset) (rg_rows g)"
  note pp = partition_point_correct [OF layout.bottoms_partitioned [OF ok, of offset]]
  have "get (rg_rows g) ?n = List.find (\<lambda>r. offset < row_bottom r) (rg_rows g)"
  proof (cases "?n < length (rg_rows g)")
    case True
    with pp(2,3) have "List.find (\<lambda>r. offset < row_bottom r) (rg_rows g) = Some (rg_rows g ! ?n)"
      unfolding find_Some_iff by (metis not_le order_refl)
    with True show ?thesis by (simp add: get_def)
  next
    case False
    with pp(1,2) have "\<forall>r \<in> set (rg_rows g). \<not> offset < row_bottom r"
      by (metis in_set_conv_nth le_antisym linorder_not_less not_less_iff_gr_or_eq)
    then have "List.find (\<lambda>r. offset < row_bottom r) (rg_rows g) = None" by (simp add: find_None_iff')
    with False show ?thesis by (simp add: get_def)
  qed
  then show ?thesis by (simp add: row_at_offset_def Let_def flip: g_def)
qed

text \<open>
  C37. The rows drawn are exactly the rows that touch the viewport widened by the overscan, and
  the space above and below them is what the scroll bar needs: the first row's top and
  the distance from the last row's bottom to the end.
\<close>

theorem visible_window_exact:
  "let g = build_review_geometry width files trailer options;
       w = window_of g scroll_top viewport_height overscan_rows;
       (start, stop) = vw_range w;
       lo = scroll_top - overscan_rows;
       hi = sat_add usize_max (sat_add usize_max scroll_top viewport_height) overscan_rows
   in start \<le> stop \<and> stop \<le> length (rg_rows g)
      \<and> (\<forall>i < length (rg_rows g). (start \<le> i \<and> i < stop) =
           (lo < row_bottom (rg_rows g ! i) \<and> rb_top (rg_rows g ! i) < hi))
      \<and> (start < stop \<longrightarrow>
           vw_top_spacer w = rb_top (rg_rows g ! start)
           \<and> row_bottom (rg_rows g ! (stop - 1)) + vw_bottom_spacer w = rg_total_height g)"
proof -
  define g where "g = build_review_geometry width files trailer options"
  define w where "w = window_of g scroll_top viewport_height overscan_rows"
  define lo where "lo = scroll_top - overscan_rows"
  define hi where "hi = sat_add usize_max (sat_add usize_max scroll_top viewport_height) overscan_rows"
  have ok: "geometry_ok g" unfolding g_def by (rule build_review_geometry_ok)
  have goal: "fst (vw_range w) \<le> snd (vw_range w) \<and> snd (vw_range w) \<le> length (rg_rows g)
      \<and> (\<forall>i < length (rg_rows g). (fst (vw_range w) \<le> i \<and> i < snd (vw_range w)) =
           (lo < row_bottom (rg_rows g ! i) \<and> rb_top (rg_rows g ! i) < hi))
      \<and> (fst (vw_range w) < snd (vw_range w) \<longrightarrow>
           vw_top_spacer w = rb_top (rg_rows g ! fst (vw_range w))
           \<and> row_bottom (rg_rows g ! (snd (vw_range w) - 1)) + vw_bottom_spacer w = rg_total_height g)"
  proof (cases "rg_rows g = []")
    case True
    then show ?thesis by (simp add: w_def window_of_def)
  next
    case False
    define start where "start = partition_point (\<lambda>r. row_bottom r \<le> lo) (rg_rows g)"
    define stop where "stop = max (partition_point (\<lambda>r. rb_top r < hi) (rg_rows g)) start"
    have range: "vw_range w = (start, stop)"
      using False by (simp add: w_def window_of_def Let_def lo_def hi_def start_def stop_def)
    have stop: "start \<le> stop" "stop \<le> length (rg_rows g)"
      using partition_point_correct(1) [OF layout.bottoms_partitioned [OF ok, of lo]]
        partition_point_correct(1) [OF layout.tops_partitioned [OF ok, of hi]]
      by (simp_all add: stop_def start_def)
    have rows: "(start \<le> i \<and> i < stop) = (lo < row_bottom (rg_rows g ! i) \<and> rb_top (rg_rows g ! i) < hi)"
      if "i < length (rg_rows g)" for i
      unfolding stop_def start_def by (rule layout.windowed [OF ok that])
    have spacers: "vw_top_spacer w = rb_top (rg_rows g ! start)
        \<and> row_bottom (rg_rows g ! (stop - 1)) + vw_bottom_spacer w = rg_total_height g" if "start < stop"
    proof -
      have nz: "\<not> (partition_point (\<lambda>r. rb_top r < hi) (rg_rows g) = 0 \<and> start = 0)"
        using that by (auto simp: stop_def)
      have last: "stop - 1 < length (rg_rows g)" using that stop by linarith
      then have "row_bottom (rg_rows g ! (stop - 1)) \<le> rg_total_height g"
        using ok nth_mem [OF last] by (simp add: geometry_ok_def rows_between_def)
      moreover have "vw_top_spacer w = rb_top (rg_rows g ! start)"
        "vw_bottom_spacer w = rg_total_height g - row_bottom (rg_rows g ! (stop - 1))"
        using False that stop last nz
        by (auto simp: w_def window_of_def Let_def get_def simp del: One_nat_def simp flip: lo_def hi_def start_def stop_def)
      ultimately show ?thesis by simp
    qed
    from stop rows spacers show ?thesis unfolding range fst_conv snd_conv by blast
  qed
  then show ?thesis unfolding Let_def split_beta g_def w_def lo_def hi_def .
qed

text \<open>A file of single-line rows, one for each hunk number.\<close>

definition plain_plan :: "nat list \<Rightarrow> row_plan" where
  "plain_plan ns =
     \<lparr>rp_rows = map (\<lambda>n. HunkHeader
        \<lparr>rk_file_id = ''f'', rk_hunk_index = Some n, rk_kind = KHunkHeader, rk_old_line = None,
         rk_new_line = None, rk_note_id = None\<rparr> []) ns,
      rp_hunk_anchor_keys = [], rp_line_number_digits = 1\<rparr>"

definition plain_geometry :: "nat list \<Rightarrow> review_geometry" where
  "plain_geometry ns =
     build_review_geometry length [\<lparr>pl_file_id = ''f'', pl_plan = plain_plan ns, pl_compacted = False\<rparr>] None
       \<lparr>go_content_width = 80, go_viewport_height = 2, go_show_line_numbers = False, go_wrap_lines = False\<rparr>"

theorem visible_window_exact_witness:
  "vw_range (window_of (plain_geometry [1, 2, 3, 4, 5]) 2 2 0) = (1, 3)
   \<and> vw_top_spacer (window_of (plain_geometry [1, 2, 3, 4, 5]) 2 2 0) = 2
   \<and> row_bottom (rg_rows (plain_geometry [1, 2, 3, 4, 5]) ! 2)
       + vw_bottom_spacer (window_of (plain_geometry [1, 2, 3, 4, 5]) 2 2 0) = 6"
proof -
  define g where "g = plain_geometry [1, 2, 3, 4, 5]"
  define w where "w = window_of g 2 2 0"
  have "vw_range w = (1, 3)" "rb_top (rg_rows g ! 1) = 2" "rg_total_height g = 6"
    unfolding w_def g_def by code_simp+
  moreover from this have "vw_top_spacer w = rb_top (rg_rows g ! 1)
      \<and> row_bottom (rg_rows g ! (3 - 1)) + vw_bottom_spacer w = rg_total_height g"
    using visible_window_exact [of length "[\<lparr>pl_file_id = ''f'', pl_plan = plain_plan [1, 2, 3, 4, 5], pl_compacted = False\<rparr>]"
        None "\<lparr>go_content_width = 80, go_viewport_height = 2, go_show_line_numbers = False, go_wrap_lines = False\<rparr>" 2 2 0]
    unfolding plain_geometry_def [symmetric] g_def [symmetric] w_def [symmetric] Let_def
    by simp
  ultimately show ?thesis unfolding w_def g_def by simp
qed

end
