(* ===== verification/Anchor.thy ===== *)
theory Anchor
  imports Geometry
begin

text \<open>
  Keeping the scroll position across a new layout, \<open>src/review/anchor.rs\<close>: the row under the
  scroll position is captured by its key together with the distance into it, and restored in
  the new geometry, with the hunk, the file and the absolute offset to fall back on.
\<close>

record viewport_anchor =
  va_row_key :: "review_row_key option"
  va_intra_row :: usize
  va_file_id :: "string option"
  va_hunk_index :: "usize option"
  va_absolute_offset :: usize

definition capture_viewport_anchor ::
  "review_geometry \<Rightarrow> usize \<Rightarrow> string option \<Rightarrow> usize option \<Rightarrow> viewport_anchor" where
  "capture_viewport_anchor g scroll_top selected_file_id selected_hunk_index =
     (let row = row_at_offset g scroll_top
      in \<lparr>va_row_key = map_option rb_key row,
          va_intra_row = (case row of None \<Rightarrow> 0 | Some r \<Rightarrow> scroll_top - rb_top r),
          va_file_id =
            or_else
              (map_option fs_file_id
                (Option.bind row (\<lambda>r. case rb_owner r of
                    OwnedByFile file_index \<Rightarrow> get (rg_sections g) file_index
                  | OwnedByTrailer \<Rightarrow> None)))
              selected_file_id,
          va_hunk_index = or_else (Option.bind row rb_hunk_index) selected_hunk_index,
          va_absolute_offset = scroll_top\<rparr>)"

definition restore_viewport_anchor :: "review_geometry \<Rightarrow> viewport_anchor \<Rightarrow> usize" where
  "restore_viewport_anchor g a =
     (let by_row =
            map_option (\<lambda>r. sat_add usize_max (rb_top r) (min (va_intra_row a) (rb_height r - 1)))
              (Option.bind (va_row_key a) (row_by_key g));
          by_hunk =
            (case (va_file_id a, va_hunk_index a) of
               (Some file_id, Some hunk) \<Rightarrow> map_option rb_top (hunk_anchor g file_id hunk)
             | _ \<Rightarrow> None);
          by_file =
            Option.bind (va_file_id a) (\<lambda>file_id. map_option fs_body_top (file_section_of g file_id));
          wanted = (case or_else (or_else by_row by_hunk) by_file of
                      None \<Rightarrow> va_absolute_offset a | Some t \<Rightarrow> t)
      in min wanted (max_scroll_top g))"

section \<open>What scrolling needs of a geometry\<close>

text \<open>
  The part of a geometry the anchor relies on: the row at a position, the row of a key, and that
  the two agree.
\<close>

locale keyed_rows =
  fixes row_at :: "'g \<Rightarrow> usize \<Rightarrow> row_bounds option"
    and by_key :: "'g \<Rightarrow> review_row_key \<Rightarrow> row_bounds option"
    and wf :: "'g \<Rightarrow> bool"
  assumes at_keyed: "wf g \<Longrightarrow> row_at g offset = Some r \<Longrightarrow> by_key g (rb_key r) = Some r"
    and keyed_at: "wf g \<Longrightarrow> by_key g k = Some r \<Longrightarrow> rb_top r \<le> offset \<Longrightarrow> offset < row_bottom r
      \<Longrightarrow> row_at g offset = Some r"
    and keyed_key: "wf g \<Longrightarrow> by_key g k = Some r \<Longrightarrow> rb_key r = k"
    and keyed_height: "wf g \<Longrightarrow> by_key g k = Some r \<Longrightarrow> 1 \<le> rb_height r"
begin

text \<open>A position inside a row, as far into it as before but not past its end.\<close>

lemma lands_in_row:
  assumes "wf g" and "by_key g k = Some r" and "rb_top r + rb_height r \<le> usize_max"
  shows "row_at g (sat_add usize_max (rb_top r) (min d (rb_height r - 1))) = Some r"
proof (rule keyed_at [OF assms(1,2)])
  have "1 \<le> rb_height r" by (rule keyed_height [OF assms(1,2)])
  then have "min d (rb_height r - 1) < rb_height r" by simp
  then show "rb_top r \<le> sat_add usize_max (rb_top r) (min d (rb_height r - 1))"
    and "sat_add usize_max (rb_top r) (min d (rb_height r - 1)) < row_bottom r"
    using assms(3) by (simp_all add: row_bottom_def sat_add_def)
qed

lemma same_row_again:
  assumes "wf g" and "row_at g offset = Some r" and "wf g'" and "by_key g' (rb_key r) = Some r'"
    and "rb_top r' + rb_height r' \<le> usize_max"
  shows "map_option rb_key (row_at g' (sat_add usize_max (rb_top r') (min d (rb_height r' - 1))))
    = map_option rb_key (row_at g offset)"
  using lands_in_row [OF assms(3,4,5)] assms(2) keyed_key [OF assms(3,4)] by simp

end

definition keyed_geometry :: "review_geometry \<Rightarrow> bool" where
  "keyed_geometry g \<longleftrightarrow> geometry_ok g \<and> distinct (map rb_key (rg_rows g))"

interpretation scrolled: keyed_rows row_at_offset row_by_key keyed_geometry
proof unfold_locales
  fix g offset r
  assume "keyed_geometry g" and "row_at_offset g offset = Some r"
  then show "row_by_key g (rb_key r) = Some r"
    by (simp add: keyed_geometry_def row_by_key_Some_iff row_at_offset_in)
next
  fix g k r offset
  assume "keyed_geometry g" and "row_by_key g k = Some r" and "rb_top r \<le> offset" and "offset < row_bottom r"
  then show "row_at_offset g offset = Some r"
    by (simp add: keyed_geometry_def row_by_key_Some_iff row_at_offset_inside)
next
  fix g k r
  assume "keyed_geometry g" and "row_by_key g k = Some r"
  then show "rb_key r = k" and "1 \<le> rb_height r"
    by (auto simp: keyed_geometry_def row_by_key_Some_iff geometry_ok_def rows_between_def)
qed

lemma restore_captured_row:
  assumes "row_at_offset g s = Some r" and "row_by_key g' (rb_key r) = Some r'"
  shows "restore_viewport_anchor g' (capture_viewport_anchor g s sel_file sel_hunk) =
    min (sat_add usize_max (rb_top r') (min (s - rb_top r) (rb_height r' - 1))) (max_scroll_top g')"
  using assms by (simp add: restore_viewport_anchor_def capture_viewport_anchor_def Let_def)

text \<open>
  C17. Scrolling survives a new layout. If the row under the scroll position still exists in the
  new layout, restoring goes to that row, as far into it as before or to its last line if it
  got shorter, unless the end of the review is reached first; and with room enough below,
  the row under the restored position has the key it had. In an unchanged layout a position
  inside a row is restored exactly.
\<close>

theorem anchor_survives_relayout:
  fixes g g' r r' s sel_file sel_hunk
  defines "t \<equiv> restore_viewport_anchor g' (capture_viewport_anchor g s sel_file sel_hunk)"
  assumes "keyed_geometry g" and "keyed_geometry g'" and "row_at_offset g s = Some r"
    and "row_by_key g' (rb_key r) = Some r'" and "rb_top r' + rb_height r' \<le> usize_max"
  shows "t = min (rb_top r' + min (s - rb_top r) (rb_height r' - 1)) (max_scroll_top g')
    \<and> (row_bottom r' \<le> max_scroll_top g' \<longrightarrow> map_option rb_key (row_at_offset g' t) = Some (rb_key r))
    \<and> (g' = g \<and> rb_top r \<le> s \<and> s < row_bottom r \<and> s \<le> max_scroll_top g \<longrightarrow> t = s)"
proof -
  have h: "1 \<le> rb_height r'" by (rule scrolled.keyed_height [OF assms(3,5)])
  have sat: "sat_add usize_max (rb_top r') (min (s - rb_top r) (rb_height r' - 1))
      = rb_top r' + min (s - rb_top r) (rb_height r' - 1)"
    using assms(6) by (simp add: sat_add_def)
  have t: "t = min (rb_top r' + min (s - rb_top r) (rb_height r' - 1)) (max_scroll_top g')"
    unfolding t_def restore_captured_row [OF assms(4,5)] sat ..
  have bottom: "row_bottom r' = rb_top r' + rb_height r'" using assms(6) by (simp add: row_bottom_def)
  have "map_option rb_key (row_at_offset g' t) = Some (rb_key r)" if "row_bottom r' \<le> max_scroll_top g'"
  proof -
    have "t = sat_add usize_max (rb_top r') (min (s - rb_top r) (rb_height r' - 1))"
      unfolding t sat using that h bottom by simp
    then show ?thesis
      using scrolled.same_row_again [OF assms(2,4,3,5,6), of "s - rb_top r"] assms(4) by simp
  qed
  moreover have "t = s" if "g' = g \<and> rb_top r \<le> s \<and> s < row_bottom r \<and> s \<le> max_scroll_top g"
  proof -
    have "row_by_key g (rb_key r) = Some r" by (rule scrolled.at_keyed [OF assms(2,4)])
    with assms(5) that have "r' = r" by simp
    have "s < rb_top r + rb_height r" using that bottom \<open>r' = r\<close> by simp
    then have "s - rb_top r \<le> rb_height r' - 1" unfolding \<open>r' = r\<close> by linarith
    then have "min (s - rb_top r) (rb_height r' - 1) = s - rb_top r" by (rule min_absorb1)
    with that \<open>r' = r\<close> show ?thesis unfolding t by simp
  qed
  ultimately show ?thesis using t by blast
qed

text \<open>Two rows are added above the row in view: the restored position moves with it.\<close>

theorem anchor_survives_relayout_witness:
  "restore_viewport_anchor (plain_geometry [8, 9, 1, 2, 3, 4])
     (capture_viewport_anchor (plain_geometry [1, 2, 3, 4]) 2 None None) = 4
   \<and> map_option (\<lambda>r. rk_hunk_index (rb_key r)) (row_at_offset (plain_geometry [8, 9, 1, 2, 3, 4]) 4) = Some (Some 2)"
proof -
  define g where "g = plain_geometry [1, 2, 3, 4]"
  define g' where "g' = plain_geometry [8, 9, 1, 2, 3, 4]"
  have key: "map rb_key (rg_rows (plain_geometry ns)) = map row_key (rp_rows (plain_plan ns))" for ns
    using geometry_closed_form [of length "[\<lparr>pl_file_id = ''f'', pl_plan = plain_plan ns, pl_compacted = False\<rparr>]"
        None "\<lparr>go_content_width = 80, go_viewport_height = 2, go_show_line_numbers = False, go_wrap_lines = False\<rparr>"]
    by (simp add: plain_geometry_def Let_def trailer_rows_def bounds_of_keys)
  have ok: "keyed_geometry g" "keyed_geometry g'"
    unfolding keyed_geometry_def g_def g'_def key
    by (simp_all add: plain_geometry_def build_review_geometry_ok plain_plan_def)
  define r where "r n base j =
    \<lparr>rb_key = row_key (hd (rp_rows (plain_plan [n]))), rb_top = base, rb_height = 1, rb_owner = OwnedByFile 0,
     rb_hunk_index = Some n, rb_row_index = j\<rparr>" for n base j :: nat
  have at: "row_at_offset g 2 = Some (r 2 2 1)" "max_scroll_top g' = 5"
    "row_by_key g' (rb_key (r 2 2 1)) = Some (r 2 4 3)"
    unfolding g_def g'_def r_def by code_simp+
  have b: "rb_top (r 2 4 3) + rb_height (r 2 4 3) \<le> usize_max" "row_bottom (r 2 4 3) \<le> max_scroll_top g'"
    by (simp_all add: r_def usize_max_def row_bottom_def at)
  from anchor_survives_relayout [OF ok at(1,3) b(1), of None None] b(2)
  have "restore_viewport_anchor g' (capture_viewport_anchor g 2 None None) = 4"
    "map_option rb_key (row_at_offset g' 4) = Some (rb_key (r 2 2 1))"
    by (auto simp: r_def at(2))
  then show ?thesis
    unfolding g_def g'_def by (auto simp: r_def plain_plan_def)
qed

end
