(* ===== verification/Review_Layout.thy ===== *)
theory Review_Layout
  imports Row_Plan Anchor
begin

text \<open>
  The row plans of a review laid out: reaching the hunks of a file by their anchors, the
  composition of \<open>build_row_plan_with_context\<close> with \<open>build_review_geometry\<close>.
\<close>

section \<open>The anchor index\<close>

lemma place_hunks_lookup:
  "fold (place_hunk fid by_key) (zip [0..<length keys] keys) anchors (fid', h) =
     (if fid' = fid \<and> h < length keys \<and> by_key (keys ! h) \<noteq> None then by_key (keys ! h)
      else anchors (fid', h))"
proof (induction keys rule: rev_induct)
  case Nil
  then show ?case by simp
next
  case (snoc k keys)
  then show ?case
    by (auto simp: place_hunk_def nth_append less_Suc_eq split: option.split)
qed

definition anchors_own_rows :: "planned_file \<Rightarrow> bool" where
  "anchors_own_rows f \<longleftrightarrow> set (rp_hunk_anchor_keys (pl_plan f)) \<subseteq> row_key ` set (rp_rows (pl_plan f))"

definition anchored :: "planned_file list \<Rightarrow> layout_state \<Rightarrow> bool" where
  "anchored fs st \<longleftrightarrow>
     (\<forall>f \<in> set fs. \<forall>h < length (rp_hunk_anchor_keys (pl_plan f)).
        \<exists>i < length (ly_rows st). ly_hunk_anchor_by_id st (pl_file_id f, h) = Some i
          \<and> rb_key (ly_rows st ! i) = rp_hunk_anchor_keys (pl_plan f) ! h)"

lemma place_file_anchored:
  assumes "anchored fs st" and "laid_out lay ids base st" and "anchors_own_rows f"
    and "pl_file_id f \<notin> pl_file_id ` set fs"
  shows "anchored (fs @ [f]) (place_file width options (i, f) st)"
proof -
  define bs where "bs = bounds_of width options (base + body_offset i f) (OwnedByFile i) (pl_plan f)"
  define keys where "keys = rp_hunk_anchor_keys (pl_plan f)"
  define by_key where "by_key = ordinals (map rb_key (ly_rows st @ bs))"
  let ?st = "place_file width options (i, f) st"
  from assms(2) have st: "ly_row_by_key st = ordinals (map rb_key (ly_rows st))" "ly_cursor st = clip base"
    by (simp_all add: laid_out_def)
  have body: "sat_add usize_max (sat_add usize_max (clip base) (if 0 < i then 1 else 0))
      (if pl_compacted f then 0 else 1) = clip (base + body_offset i f)"
    unfolding clip_add by (simp only: body_offset_def add.assoc)
  have rows: "ly_rows ?st = ly_rows st @ bs"
    and anchors: "ly_hunk_anchor_by_id ?st =
      fold (place_hunk (pl_file_id f) by_key) (zip [0..<length keys] keys) (ly_hunk_anchor_by_id st)"
    unfolding place_file_def Let_def prod.case st body place_rows_eq
    by (simp_all add: bs_def by_key_def keys_def)
  have new: "\<exists>j < length (ly_rows ?st). by_key k = Some j \<and> rb_key (ly_rows ?st ! j) = k" if "k \<in> set keys" for k
  proof -
    have "k \<in> set (map rb_key (ly_rows st @ bs))"
      using that assms(3) by (auto simp: keys_def bs_def anchors_own_rows_def bounds_of_keys simp flip: set_map)
    then obtain j where "by_key k = Some j" unfolding by_key_def by (metis not_None_eq ordinals_None_iff)
    with ordinals_SomeD [of "map rb_key (ly_rows st @ bs)" k j] show ?thesis
      by (auto simp: by_key_def rows simp del: map_append)
  qed
  show ?thesis
    unfolding anchored_def
  proof (intro ballI allI impI)
    fix f' h
    assume f': "f' \<in> set (fs @ [f])" and h: "h < length (rp_hunk_anchor_keys (pl_plan f'))"
    show "\<exists>j < length (ly_rows ?st). ly_hunk_anchor_by_id ?st (pl_file_id f', h) = Some j
        \<and> rb_key (ly_rows ?st ! j) = rp_hunk_anchor_keys (pl_plan f') ! h"
    proof (cases "f' = f")
      case True
      with h have "keys ! h \<in> set keys" by (simp add: keys_def)
      from new [OF this] True h show ?thesis
        unfolding anchors place_hunks_lookup by (auto simp: keys_def)
    next
      case False
      with f' have old: "f' \<in> set fs" by simp
      then have "pl_file_id f' \<noteq> pl_file_id f" using assms(4) by (metis imageI)
      from old assms(1) h obtain j where "j < length (ly_rows st)"
        "ly_hunk_anchor_by_id st (pl_file_id f', h) = Some j"
        "rb_key (ly_rows st ! j) = rp_hunk_anchor_keys (pl_plan f') ! h"
        by (auto simp: anchored_def)
      with \<open>pl_file_id f' \<noteq> pl_file_id f\<close> show ?thesis
        unfolding anchors place_hunks_lookup rows by (auto simp: nth_append intro!: exI [of _ j])
    qed
  qed
qed

lemma place_files_anchored:
  assumes "anchored fs st" and "laid_out lay ids base st" and "length ids = i"
    and "\<forall>f \<in> set files. anchors_own_rows f" and "distinct (map pl_file_id (fs @ files))"
  shows "anchored (fs @ files) (fold (place_file width options) (zip [i..<i + length files] files) st)"
  using assms
proof (induction files arbitrary: fs lay ids base st i)
  case Nil
  then show ?case by simp
next
  case (Cons f files)
  have zip: "zip [i..<i + length (f # files)] (f # files) = (i, f) # zip [Suc i..<Suc i + length files] files"
    by (simp add: upt_conv_Cons del: upt_Suc)
  have "anchored (fs @ [f]) (place_file width options (i, f) st)"
    by (rule place_file_anchored [OF Cons.prems(1,2)]) (use Cons.prems(4,5) in auto)
  from Cons.IH [OF this place_file_laid_out [OF Cons.prems(2,3)], of "Suc i"] Cons.prems(3,4,5) show ?case
    unfolding zip by (simp del: upt_Suc)
qed

lemma trailer_keeps_anchors:
  "ly_hunk_anchor_by_id (snd (place_trailer width options plan st)) = ly_hunk_anchor_by_id st
   \<and> (\<exists>bs. ly_rows (snd (place_trailer width options plan st)) = ly_rows st @ bs)"
proof -
  have prefix: "\<exists>bs. fst (fold (place_row width options d b owner) nrs (rows, by_key, n)) = rows @ bs"
    for d b owner nrs rows by_key n
    by (induction nrs arbitrary: rows by_key n)
      (auto simp: place_row_def Let_def split: prod.splits, metis append.assoc)
  show ?thesis
    using prefix by (simp add: place_trailer_def place_rows_def Let_def split: prod.split) (metis fst_conv)
qed

lemma geometry_hunk_anchor:
  assumes "\<forall>f \<in> set files. anchors_own_rows f" and "distinct (map pl_file_id files)" and "f \<in> set files"
    and "h < length (rp_hunk_anchor_keys (pl_plan f))"
  shows "map_option rb_key (hunk_anchor (build_review_geometry width files trailer options) (pl_file_id f) h)
    = Some (rp_hunk_anchor_keys (pl_plan f) ! h)"
proof -
  define st where "st = fold (place_file width options) (zip [0..<length files] files) layout_start"
  have "anchored [] layout_start" "laid_out [] [] 0 layout_start"
    by (simp_all add: anchored_def laid_out_def layout_start_def)
  from place_files_anchored [OF this, of 0 files width options] assms(1,2)
  have "anchored files st" by (simp add: st_def)
  with assms(3,4) obtain j where j: "j < length (ly_rows st)" "ly_hunk_anchor_by_id st (pl_file_id f, h) = Some j"
    "rb_key (ly_rows st ! j) = rp_hunk_anchor_keys (pl_plan f) ! h"
    unfolding anchored_def by blast
  define g where "g = build_review_geometry width files trailer options"
  have "rg_hunk_anchor_by_id g = ly_hunk_anchor_by_id st \<and> (\<exists>bs. rg_rows g = ly_rows st @ bs)"
    using trailer_keeps_anchors [of width options "the trailer" st]
    by (auto simp: g_def build_review_geometry_def st_def [symmetric] Let_def split: option.split prod.splits)
  with j show ?thesis by (auto simp: hunk_anchor_def get_def nth_append simp flip: g_def)
qed

section \<open>Anchors of a row plan\<close>

lemma hunk_rows_selectable:
  assumes "ls \<noteq> []"
  shows "\<exists>r rs. hunk_rows word_diff layout f i ls = r # rs \<and> is_selectable r"
proof -
  from assms obtain l rest where ls: "ls = l # rest" by (cases ls) auto
  show ?thesis
  proof (cases "is_change l")
    case False
    then show ?thesis by (cases layout) (simp_all add: ls hunk_rows_def push_stack_row_def Let_def)
  next
    case True
    let ?B = "l # takeWhile is_change rest"
    from True have "deletions ?B \<noteq> [] \<or> additions ?B \<noteq> []"
      by (cases "dl_kind l") (auto simp: deletions_def additions_def is_change_def)
    then have "[0..<max (length (deletions ?B)) (length (additions ?B))] =
        0 # [Suc 0..<max (length (deletions ?B)) (length (additions ?B))]"
      by (auto simp: upt_conv_Cons less_max_iff_disj)
    with True show ?thesis
      by (cases layout; cases "dl_kind l")
        (auto simp: ls hunk_rows_def split_block_def split_beta push_stack_row_def is_change_def Let_def)
  qed
qed

lemma first_selectable:
  assumes "hunk_lines h \<noteq> []"
  shows "\<exists>r \<in> set (hunk_rows word_diff layout f i (hunk_lines h)).
    List.find is_selectable (own_rows word_diff f layout headers i h) = Some r"
  using hunk_rows_selectable [OF assms, of word_diff layout f i] by (auto simp: own_rows_def)

text \<open>The files of a review, planned without notes.\<close>

definition planned_of ::
  "differ \<Rightarrow> effective_layout \<Rightarrow> bool \<Rightarrow> file_context_state option \<Rightarrow> diff_file \<Rightarrow> planned_file" where
  "planned_of word_diff layout headers context f =
     \<lparr>pl_file_id = df_id f, pl_plan = build_row_plan_with_context word_diff f layout headers context,
      pl_compacted = False\<rparr>"

lemma anchor_keys_of_plan:
  assumes "\<forall>h \<in> set (df_hunks f). hunk_lines h \<noteq> []" and "df_hunks f \<noteq> []"
  shows "length (rp_hunk_anchor_keys (build_row_plan_with_context word_diff f layout headers context)) = length (df_hunks f)"
    and "i < length (df_hunks f) \<Longrightarrow>
      \<exists>r \<in> set (filter (line_row_of i) (rp_rows (build_row_plan_with_context word_diff f layout headers context))).
        rp_hunk_anchor_keys (build_row_plan_with_context word_diff f layout headers context) ! i = row_key r"
proof -
  let ?hs = "df_hunks f"
  define pick where "pick i = the (List.find is_selectable (own_rows word_diff f layout headers i (?hs ! i)))" for i
  have pick: "List.find is_selectable (own_rows word_diff f layout headers i (?hs ! i)) = Some (pick i)
      \<and> pick i \<in> set (hunk_rows word_diff layout f i (hunk_lines (?hs ! i)))" if "i < length ?hs" for i
    using first_selectable [of "?hs ! i" word_diff layout f i headers] that assms(1)
    by (auto simp: pick_def)
  have zip: "zip [0..<length ?hs] ?hs = map (\<lambda>j. (j, ?hs ! j)) [0..<length ?hs]"
    by (rule nth_equalityI) simp_all
  have single: "concat (map (\<lambda>j. option_list (map_option row_key (p j))) js) = map (\<lambda>j. row_key (q j)) js"
    if "\<And>j. j \<in> set js \<Longrightarrow> p j = Some (q j)" for p :: "nat \<Rightarrow> review_row option" and q js
    using that by (induction js) (auto simp: option_list_def)
  have keys: "rp_hunk_anchor_keys (build_row_plan_with_context word_diff f layout headers context) =
      map (\<lambda>j. row_key (pick j)) [0..<length ?hs]"
    unfolding row_plan_rows(2) [OF assms(2)] zip map_map comp_def prod.case
    by (rule single) (simp add: pick)
  show "length (rp_hunk_anchor_keys (build_row_plan_with_context word_diff f layout headers context)) = length ?hs"
    by (simp add: keys)
  show "\<exists>r \<in> set (filter (line_row_of i) (rp_rows (build_row_plan_with_context word_diff f layout headers context))).
      rp_hunk_anchor_keys (build_row_plan_with_context word_diff f layout headers context) ! i = row_key r"
    if "i < length ?hs"
    using pick [OF that] that unfolding plan_line_rows [OF that] by (auto simp: keys)
qed

text \<open>
  Jumping to a hunk reaches it: in a review of files with different identifiers, whose hunks
  all have lines, the anchor of hunk \<open>i\<close> of a file is a row that shows a line of that hunk.
\<close>

lemma hunk_anchor_reaches_hunk:
  assumes "distinct (map df_id files)" and "f \<in> set files" and "i < length (df_hunks f)"
    and "\<forall>f \<in> set files. \<forall>h \<in> set (df_hunks f). hunk_lines h \<noteq> []"
  shows "\<exists>r row. hunk_anchor
      (build_review_geometry width (map (planned_of word_diff layout headers context) files) trailer options) (df_id f) i
      = Some r
    \<and> row \<in> set (hunk_rows word_diff layout f i (hunk_lines (df_hunks f ! i))) \<and> rb_key r = row_key row"
proof -
  let ?fs = "map (planned_of word_diff layout headers context) files"
  let ?plan = "\<lambda>f. build_row_plan_with_context word_diff f layout headers context"
  have own: "\<forall>p \<in> set ?fs. anchors_own_rows p"
  proof
    fix p assume "p \<in> set ?fs"
    then obtain f where f: "f \<in> set files" "p = planned_of word_diff layout headers context f" by auto
    show "anchors_own_rows p"
    proof (cases "df_hunks f = []")
      case True
      then show ?thesis
        by (simp add: f(2) anchors_own_rows_def planned_of_def build_row_plan_with_context_def placeholder_plan_def
            split_beta Let_def)
    next
      case False
      note keys = anchor_keys_of_plan [OF bspec [OF assms(4) f(1)] False, where word_diff = word_diff
          and layout = layout and headers = headers]
      show ?thesis
        unfolding anchors_own_rows_def f(2) planned_of_def planned_file.simps
        using keys by (auto simp: in_set_conv_nth) fastforce
    qed
  qed
  have ne: "df_hunks f \<noteq> []" using assms(3) by auto
  note keys = anchor_keys_of_plan [OF bspec [OF assms(4,2)] ne, where word_diff = word_diff
      and layout = layout and headers = headers]
  have len: "length (rp_hunk_anchor_keys (?plan f)) = length (df_hunks f)" by (rule keys(1))
  obtain row where row: "row \<in> set (hunk_rows word_diff layout f i (hunk_lines (df_hunks f ! i)))"
    "rp_hunk_anchor_keys (?plan f) ! i = row_key row"
    using keys(2) [OF assms(3)] unfolding plan_line_rows [OF assms(3)] by blast
  have ids: "distinct (map pl_file_id ?fs)" using assms(1) by (simp add: comp_def planned_of_def)
  have "planned_of word_diff layout headers context f \<in> set ?fs" using assms(2) by simp
  from geometry_hunk_anchor [OF own ids this, of i width trailer options] len assms(3)
  have "map_option rb_key (hunk_anchor (build_review_geometry width ?fs trailer options) (df_id f) i) = Some (row_key row)"
    by (simp add: planned_of_def row(2))
  then obtain r where "hunk_anchor (build_review_geometry width ?fs trailer options) (df_id f) i = Some r"
    "rb_key r = row_key row" by auto
  with row(1) show ?thesis by blast
qed

definition two_hunks :: "diff_line list \<Rightarrow> diff_file" where
  "two_hunks first_lines =
     sample_diff_file\<lparr>df_hunks :=
       [\<lparr>hunk_old_start = 1, hunk_new_start = 1, hunk_header = [], hunk_lines = first_lines\<rparr>,
        \<lparr>hunk_old_start = 9, hunk_new_start = 9, hunk_header = [],
          hunk_lines = [\<lparr>dl_kind = Addition, dl_content = ''x'', dl_old_lineno = None,
                        dl_new_lineno = Some 9, dl_moved = None\<rparr>]\<rparr>]\<rparr>"

definition two_hunk_anchor :: "diff_line list \<Rightarrow> nat \<Rightarrow> usize option option" where
  "two_hunk_anchor first_lines i =
     map_option rb_hunk_index (hunk_anchor
       (build_review_geometry length [planned_of whole_diff StackLayout True None (two_hunks first_lines)] None
         \<lparr>go_content_width = 80, go_viewport_height = 20, go_show_line_numbers = False, go_wrap_lines = False\<rparr>)
       ''file:f'' i)"

definition unchanged_line :: "u32 \<Rightarrow> diff_line" where
  "unchanged_line n = \<lparr>dl_kind = Context, dl_content = ''y'', dl_old_lineno = Some n, dl_new_lineno = Some n, dl_moved = None\<rparr>"

lemma hunk_anchor_reaches_hunk_instance:
  "\<exists>r row. hunk_anchor
      (build_review_geometry length (map (planned_of whole_diff StackLayout True None) [two_hunks [unchanged_line 1]]) None
        \<lparr>go_content_width = 80, go_viewport_height = 20, go_show_line_numbers = False, go_wrap_lines = False\<rparr>)
      ''file:f'' 1 = Some r
    \<and> row \<in> set (hunk_rows whole_diff StackLayout (two_hunks [unchanged_line 1]) 1
        (hunk_lines (df_hunks (two_hunks [unchanged_line 1]) ! 1)))
    \<and> rb_key r = row_key row"
proof -
  let ?f = "two_hunks [unchanged_line 1]"
  have id: "df_id ?f = ''file:f''" by (simp add: two_hunks_def sample_diff_file_def)
  show ?thesis
    unfolding id [symmetric]
    by (rule hunk_anchor_reaches_hunk) (simp_all add: two_hunks_def)
qed

text \<open>
  The anchors of a plan are numbered by the hunks that have lines, but looked up by the number
  of the hunk: after a hunk without lines every later hunk is missed. Its own anchor is the
  next hunk's, and the last hunk has none.
\<close>

lemma empty_hunk_shifts_anchors:
  "two_hunk_anchor [] 0 = Some (Some 1) \<and> two_hunk_anchor [] 1 = None
   \<and> two_hunk_anchor [unchanged_line 1] 0 = Some (Some 0) \<and> two_hunk_anchor [unchanged_line 1] 1 = Some (Some 1)"
  by code_simp

end
