(* ===== verification/Text_Input.thy ===== *)
theory Text_Input
  imports Rust_Str
begin

text \<open>
  The edit buffer behind every text entry, \<open>src/ui/text_input.rs\<close>: a text and a caret counted in
  characters. The operations work on the bytes of the text; the specification is a pair of
  character lists, what is left and what is right of the caret.

  Which characters are letters or digits beyond ASCII is Unicode's table behind
  \<open>char::is_alphanumeric\<close>: the parameter \<open>alphanumeric\<close> of the word motions. The caret never
  exceeds the number of characters, so adding one to it cannot overflow.
\<close>

section \<open>The buffer\<close>

record text_input =
  ti_value :: string
  ti_caret :: usize

definition text_input_new :: text_input where
  "text_input_new = \<lparr>ti_value = [], ti_caret = 0\<rparr>"

definition with_value :: "string \<Rightarrow> text_input" where
  "with_value v = \<lparr>ti_value = v, ti_caret = char_count v\<rparr>"

definition ti_is_empty :: "text_input \<Rightarrow> bool" where
  "ti_is_empty t \<longleftrightarrow> ti_value t = []"

definition ti_char_count :: "text_input \<Rightarrow> usize" where
  "ti_char_count t = char_count (ti_value t)"

definition clear :: "text_input \<Rightarrow> text_input" where
  "clear t = \<lparr>ti_value = [], ti_caret = 0\<rparr>"

definition set_value :: "string \<Rightarrow> text_input \<Rightarrow> text_input" where
  "set_value v t = \<lparr>ti_value = v, ti_caret = min (ti_caret t) (char_count v)\<rparr>"

definition byte_index :: "text_input \<Rightarrow> usize \<Rightarrow> usize" where
  "byte_index t caret =
     (if caret < length (chars (ti_value t)) then length (concat (take caret (chars (ti_value t))))
      else length (ti_value t))"

definition insert_char :: "rchar \<Rightarrow> text_input \<Rightarrow> text_input" where
  "insert_char c t =
     (let at = byte_index t (ti_caret t)
      in \<lparr>ti_value = take at (ti_value t) @ c @ drop at (ti_value t), ti_caret = ti_caret t + 1\<rparr>)"

text \<open>\<open>replace_range(start..end, "")\<close>\<close>

definition remove_range :: "nat \<Rightarrow> nat \<Rightarrow> string \<Rightarrow> string" where
  "remove_range start stop v = take start v @ drop stop v"

definition backspace :: "text_input \<Rightarrow> text_input \<times> bool" where
  "backspace t =
     (if ti_caret t = 0 then (t, False)
      else
        let stop = byte_index t (ti_caret t);
            start = byte_index t (ti_caret t - 1)
        in (\<lparr>ti_value = remove_range start stop (ti_value t), ti_caret = ti_caret t - 1\<rparr>, True))"

definition delete_forward :: "text_input \<Rightarrow> text_input \<times> bool" where
  "delete_forward t =
     (if ti_char_count t \<le> ti_caret t then (t, False)
      else
        let start = byte_index t (ti_caret t);
            stop = byte_index t (ti_caret t + 1)
        in (t\<lparr>ti_value := remove_range start stop (ti_value t)\<rparr>, True))"

definition move_home :: "text_input \<Rightarrow> text_input" where
  "move_home t = t\<lparr>ti_caret := 0\<rparr>"

definition move_end :: "text_input \<Rightarrow> text_input" where
  "move_end t = t\<lparr>ti_caret := ti_char_count t\<rparr>"

definition move_left :: "text_input \<Rightarrow> text_input" where
  "move_left t = t\<lparr>ti_caret := ti_caret t - 1\<rparr>"

definition move_right :: "text_input \<Rightarrow> text_input" where
  "move_right t = t\<lparr>ti_caret := min (ti_caret t + 1) (ti_char_count t)\<rparr>"

text \<open>\<open>while at > 0 && p(chars[at - 1]) { at -= 1 }\<close> and its mirror image\<close>

fun skip_back :: "(rchar \<Rightarrow> bool) \<Rightarrow> rchar list \<Rightarrow> nat \<Rightarrow> nat" where
  "skip_back p cs 0 = 0"
| "skip_back p cs (Suc at) = (if p (cs ! at) then skip_back p cs at else Suc at)"

function skip_forward :: "(rchar \<Rightarrow> bool) \<Rightarrow> rchar list \<Rightarrow> nat \<Rightarrow> nat" where
  "skip_forward p cs at = (if at < length cs \<and> p (cs ! at) then skip_forward p cs (Suc at) else at)"
  by pat_completeness auto
termination
  by (relation "measure (\<lambda>(p, cs, at). length cs - at)") auto

declare skip_forward.simps [simp del]

definition is_word :: "(rchar \<Rightarrow> bool) \<Rightarrow> rchar \<Rightarrow> bool" where
  "is_word alphanumeric c \<longleftrightarrow> alphanumeric c \<or> c = ''_''"

definition move_word_left :: "(rchar \<Rightarrow> bool) \<Rightarrow> text_input \<Rightarrow> text_input" where
  "move_word_left alphanumeric t =
     (let cs = chars (ti_value t);
          at = skip_back (\<lambda>c. \<not> is_word alphanumeric c) cs (ti_caret t);
          at = skip_back (is_word alphanumeric) cs at
      in t\<lparr>ti_caret := at\<rparr>)"

definition move_word_right :: "(rchar \<Rightarrow> bool) \<Rightarrow> text_input \<Rightarrow> text_input" where
  "move_word_right alphanumeric t =
     (let cs = chars (ti_value t);
          at = skip_forward (\<lambda>c. \<not> is_word alphanumeric c) cs (ti_caret t);
          at = skip_forward (is_word alphanumeric) cs at
      in t\<lparr>ti_caret := at\<rparr>)"

definition kill_to_start :: "text_input \<Rightarrow> text_input \<times> bool" where
  "kill_to_start t =
     (if ti_caret t = 0 then (t, False)
      else (\<lparr>ti_value = drop (byte_index t (ti_caret t)) (ti_value t), ti_caret = 0\<rparr>, True))"

definition kill_to_end :: "text_input \<Rightarrow> text_input \<times> bool" where
  "kill_to_end t =
     (if ti_char_count t \<le> ti_caret t then (t, False)
      else (t\<lparr>ti_value := take (byte_index t (ti_caret t)) (ti_value t)\<rparr>, True))"

definition delete_word_back :: "text_input \<Rightarrow> text_input \<times> bool" where
  "delete_word_back t =
     (let cs = chars (ti_value t);
          at = skip_back is_white cs (ti_caret t);
          at = skip_back (\<lambda>c. \<not> is_white c) cs at
      in if at = ti_caret t then (t, False)
         else
           let stop = byte_index t (ti_caret t);
               start = byte_index t at
           in (\<lparr>ti_value = remove_range start stop (ti_value t), ti_caret = at\<rparr>, True))"

section \<open>The specification\<close>

text \<open>The characters left and right of the caret, and each operation on them.\<close>

type_synonym zipper = "rchar list \<times> rchar list"

datatype edit =
    InsertChar rchar | Backspace | DeleteForward | MoveHome | MoveEnd | MoveLeft | MoveRight
  | MoveWordLeft | MoveWordRight | KillToStart | KillToEnd | DeleteWordBack | Clear | SetValue string

fun edit_zipper :: "(rchar \<Rightarrow> bool) \<Rightarrow> edit \<Rightarrow> zipper \<Rightarrow> zipper" where
  "edit_zipper an (InsertChar c) (l, r) = (l @ [c], r)"
| "edit_zipper an Backspace (l, r) = (butlast l, r)"
| "edit_zipper an DeleteForward (l, r) = (l, tl r)"
| "edit_zipper an MoveHome (l, r) = ([], l @ r)"
| "edit_zipper an MoveEnd (l, r) = (l @ r, [])"
| "edit_zipper an MoveLeft (l, r) = (if l = [] then ([], r) else (butlast l, last l # r))"
| "edit_zipper an MoveRight (l, r) = (case r of [] \<Rightarrow> (l, []) | c # cs \<Rightarrow> (l @ [c], cs))"
| "edit_zipper an MoveWordLeft (l, r) =
     (let kept = rev (dropWhile (is_word an) (dropWhile (\<lambda>c. \<not> is_word an c) (rev l)))
      in (kept, drop (length kept) (l @ r)))"
| "edit_zipper an MoveWordRight (l, r) =
     (let rest = dropWhile (is_word an) (dropWhile (\<lambda>c. \<not> is_word an c) r)
      in (take (length (l @ r) - length rest) (l @ r), rest))"
| "edit_zipper an KillToStart (l, r) = ([], r)"
| "edit_zipper an KillToEnd (l, r) = (l, [])"
| "edit_zipper an DeleteWordBack (l, r) =
     (rev (dropWhile (\<lambda>c. \<not> is_white c) (dropWhile is_white (rev l))), r)"
| "edit_zipper an Clear (l, r) = ([], [])"
| "edit_zipper an (SetValue v) (l, r) = (take (length l) (chars v), drop (length l) (chars v))"

fun edit_text :: "(rchar \<Rightarrow> bool) \<Rightarrow> edit \<Rightarrow> text_input \<Rightarrow> text_input" where
  "edit_text an (InsertChar c) t = insert_char c t"
| "edit_text an Backspace t = fst (backspace t)"
| "edit_text an DeleteForward t = fst (delete_forward t)"
| "edit_text an MoveHome t = move_home t"
| "edit_text an MoveEnd t = move_end t"
| "edit_text an MoveLeft t = move_left t"
| "edit_text an MoveRight t = move_right t"
| "edit_text an MoveWordLeft t = move_word_left an t"
| "edit_text an MoveWordRight t = move_word_right an t"
| "edit_text an KillToStart t = fst (kill_to_start t)"
| "edit_text an KillToEnd t = fst (kill_to_end t)"
| "edit_text an DeleteWordBack t = fst (delete_word_back t)"
| "edit_text an Clear t = clear t"
| "edit_text an (SetValue v) t = set_value v t"

definition text_zipper :: "text_input \<Rightarrow> zipper" where
  "text_zipper t = (take (ti_caret t) (chars (ti_value t)), drop (ti_caret t) (chars (ti_value t)))"

definition text_ok :: "string \<Rightarrow> bool" where
  "text_ok v \<longleftrightarrow> (\<forall>c \<in> set (chars v). rchar_ok c)"

definition text_input_ok :: "text_input \<Rightarrow> bool" where
  "text_input_ok t \<longleftrightarrow> text_ok (ti_value t) \<and> ti_caret t \<le> length (chars (ti_value t))"

fun edit_ok :: "edit \<Rightarrow> bool" where
  "edit_ok (InsertChar c) = rchar_ok c"
| "edit_ok (SetValue v) = text_ok v"
| "edit_ok _ = True"

section \<open>The operations meet the specification\<close>

text \<open>A buffer put together from the two halves of its text.\<close>

definition joined :: "rchar list \<Rightarrow> rchar list \<Rightarrow> text_input" where
  "joined l r = \<lparr>ti_value = concat (l @ r), ti_caret = length l\<rparr>"

definition chars_ok :: "rchar list \<Rightarrow> bool" where
  "chars_ok cs \<longleftrightarrow> (\<forall>c \<in> set cs. rchar_ok c)"

lemma chars_ok_simps [simp]:
  "chars_ok []" "chars_ok (xs @ ys) \<longleftrightarrow> chars_ok xs \<and> chars_ok ys" "chars_ok (c # cs) \<longleftrightarrow> rchar_ok c \<and> chars_ok cs"
  by (auto simp: chars_ok_def)

lemma chars_ok_parts:
  "chars_ok cs \<Longrightarrow> chars_ok (take n cs)" "chars_ok cs \<Longrightarrow> chars_ok (drop n cs)" "chars_ok cs \<Longrightarrow> chars_ok (butlast cs)"
  "chars_ok cs \<Longrightarrow> chars_ok (tl cs)" "chars_ok cs \<Longrightarrow> chars_ok (dropWhile p cs)" "chars_ok (rev cs) \<longleftrightarrow> chars_ok cs"
  by (auto simp: chars_ok_def dest: in_set_takeD in_set_dropD in_set_butlastD list.set_sel(2) set_dropWhileD)
     (metis list.sel(2) list.set_sel(2))

lemma joined_chars: "chars_ok l \<Longrightarrow> chars_ok r \<Longrightarrow> chars (concat l @ concat r) = l @ r"
  using chars_concat_ok [of "l @ r"] by (auto simp: chars_ok_def)

lemma joined_ok: "chars_ok l \<Longrightarrow> chars_ok r \<Longrightarrow> text_input_ok (joined l r) \<and> text_zipper (joined l r) = (l, r)"
  by (auto simp: text_input_ok_def text_ok_def text_zipper_def joined_def joined_chars chars_ok_def)

lemma text_input_ok_joined:
  assumes "text_input_ok t"
  obtains l r where "t = joined l r" "text_zipper t = (l, r)" "chars_ok l" "chars_ok r"
proof
  let ?cs = "chars (ti_value t)"
  show "t = joined (take (ti_caret t) ?cs) (drop (ti_caret t) ?cs)"
    using assms by (cases t) (simp add: joined_def text_input_ok_def chars_concat flip: concat_append)
  show "text_zipper t = (take (ti_caret t) ?cs, drop (ti_caret t) ?cs)" by (simp add: text_zipper_def)
  have "chars_ok ?cs" using assms by (simp add: text_input_ok_def text_ok_def chars_ok_def)
  then show "chars_ok (take (ti_caret t) ?cs)" "chars_ok (drop (ti_caret t) ?cs)"
    by (simp_all add: chars_ok_parts)
qed

lemma byte_index_joined:
  assumes "chars_ok l" and "chars_ok r" and "k \<le> length (l @ r)"
  shows "byte_index (joined l r) k = length (concat (take k (l @ r)))"
  using assms by (auto simp: byte_index_def joined_def joined_chars not_less)

lemma skip_back_rev: "at \<le> length cs \<Longrightarrow> skip_back p cs at = length (dropWhile p (rev (take at cs)))"
proof (induction at)
  case 0
  then show ?case by simp
next
  case (Suc at)
  then show ?case by (simp add: take_Suc_conv_app_nth)
qed

lemma skip_forward_drop:
  "at \<le> length cs \<Longrightarrow> skip_forward p cs at = length cs - length (dropWhile p (drop at cs))"
proof (induction p cs at rule: skip_forward.induct)
  case (1 p cs at)
  show ?case
  proof (cases "at < length cs \<and> p (cs ! at)")
    case True
    with "1.IH" [OF True] show ?thesis
      by (subst skip_forward.simps) (simp add: Cons_nth_drop_Suc [symmetric])
  next
    case False
    then show ?thesis
    proof (cases "at < length cs")
      case True
      with False "1.prems" show ?thesis
        by (subst skip_forward.simps) (simp add: Cons_nth_drop_Suc [symmetric])
    next
      case False
      with "1.prems" show ?thesis by (subst skip_forward.simps) simp
    qed
  qed
qed

lemma dropWhile_rev_take: "rev (dropWhile p (rev l)) = take (length (dropWhile p (rev l))) l"
  by (metis append_eq_conv_conj length_rev rev_append rev_rev_ident takeWhile_dropWhile_id)

lemma take_concat: "take (length (concat (take k cs))) (concat cs) = concat (take k cs)"
  by (metis append_eq_conv_conj append_take_drop_id concat_append)

lemma drop_concat: "drop (length (concat (take k cs))) (concat cs) = concat (drop k cs)"
  by (metis append_eq_conv_conj append_take_drop_id concat_append)

lemma remove_range_joined:
  assumes "chars_ok l" and "chars_ok r" and "i \<le> k" and "k \<le> length (l @ r)"
  shows "remove_range (byte_index (joined l r) i) (byte_index (joined l r) k) (ti_value (joined l r))
    = concat (take i (l @ r) @ drop k (l @ r))"
proof -
  have i: "i \<le> length (l @ r)" using assms(3,4) by simp
  have v: "ti_value (joined l r) = concat (l @ r)" by (simp add: joined_def)
  show ?thesis
    unfolding remove_range_def byte_index_joined [OF assms(1,2,4)] byte_index_joined [OF assms(1,2) i] v
      take_concat drop_concat by (rule concat_append [symmetric])
qed

lemma byte_index_caret:
  assumes "chars_ok l" and "chars_ok r"
  shows "byte_index (joined l r) (length l) = length (concat l)"
  using byte_index_joined [OF assms, of "length l"] by simp

lemma joined_simps:
  "ti_value (joined l r) = concat l @ concat r" "ti_caret (joined l r) = length l"
  by (simp_all add: joined_def)

lemma joined_split: "n \<le> length cs \<Longrightarrow> \<lparr>ti_value = concat cs, ti_caret = n\<rparr> = joined (take n cs) (drop n cs)"
  by (simp add: joined_def flip: concat_append)

lemma caret_moved:
  assumes "n \<le> length (l @ r)"
  shows "(joined l r)\<lparr>ti_caret := n\<rparr> = joined (take n (l @ r)) (drop n (l @ r))"
  using joined_split [OF assms] by (simp add: joined_def)

lemma removed_joined:
  assumes "chars_ok l" and "chars_ok r" and "i \<le> k" and "k \<le> length (l @ r)"
  shows "\<lparr>ti_value = remove_range (byte_index (joined l r) i) (byte_index (joined l r) k) (ti_value (joined l r)),
      ti_caret = i\<rparr> = joined (take i (l @ r)) (drop k (l @ r))"
  unfolding remove_range_joined [OF assms] using assms(3,4) by (simp add: joined_def)

lemma deletions_joined:
  assumes "chars_ok l" and "chars_ok r"
  shows "fst (backspace (joined l r)) = joined (butlast l) r"
    and "fst (delete_forward (joined l r)) = joined l (tl r)"
    and "fst (kill_to_start (joined l r)) = joined [] r"
    and "fst (kill_to_end (joined l r)) = joined l []"
proof -
  show "fst (backspace (joined l r)) = joined (butlast l) r"
  proof (cases "l = []")
    case False
    with removed_joined [OF assms, of "length l - 1" "length l"] show ?thesis
      by (simp add: backspace_def joined_simps(2) butlast_conv_take del: One_nat_def)
  qed (simp add: backspace_def joined_def)
  show "fst (delete_forward (joined l r)) = joined l (tl r)"
  proof (cases r)
    case (Cons c cs)
    with removed_joined [OF assms, of "length l" "length l + 1"] assms joined_chars [of l "c # cs"] show ?thesis
      by (auto simp: delete_forward_def ti_char_count_def char_count_def joined_simps) (simp add: joined_def)
  next
    case Nil
    then show ?thesis
      using assms joined_chars [of l "[]"] by (simp add: delete_forward_def ti_char_count_def char_count_def joined_def)
  qed
  show "fst (kill_to_start (joined l r)) = joined [] r"
    using byte_index_caret [OF assms] by (simp add: kill_to_start_def joined_def)
  show "fst (kill_to_end (joined l r)) = joined l []"
    using assms byte_index_caret [OF assms]
    by (auto simp: kill_to_end_def ti_char_count_def char_count_def joined_def joined_chars)
qed

lemma word_motions_joined:
  assumes "chars_ok l" and "chars_ok r"
  shows "move_word_left an (joined l r) =
      (let kept = rev (dropWhile (is_word an) (dropWhile (\<lambda>c. \<not> is_word an c) (rev l)))
       in joined kept (drop (length kept) (l @ r)))"
    and "move_word_right an (joined l r) =
      (let rest = dropWhile (is_word an) (dropWhile (\<lambda>c. \<not> is_word an c) r)
       in joined (take (length (l @ r) - length rest) (l @ r)) rest)"
    and "fst (delete_word_back (joined l r)) =
      joined (rev (dropWhile (\<lambda>c. \<not> is_white c) (dropWhile is_white (rev l)))) r"
proof -
  have bk: "skip_back q (l @ r) (skip_back p (l @ r) (length l)) = length (dropWhile q (dropWhile p (rev l)))"
    "rev (dropWhile q (dropWhile p (rev l))) = take (length (dropWhile q (dropWhile p (rev l)))) l"
    "length (dropWhile q (dropWhile p (rev l))) \<le> length l" for p q
  proof -
    have l1: "length (dropWhile p (rev l)) \<le> length l" by (metis length_dropWhile_le length_rev)
    show "length (dropWhile q (dropWhile p (rev l))) \<le> length l"
      using l1 length_dropWhile_le [of q "dropWhile p (rev l)"] by linarith
    have t: "take (length (dropWhile p (rev l))) l = rev (dropWhile p (rev l))" for p l
      by (simp add: dropWhile_rev_take)
    show "skip_back q (l @ r) (skip_back p (l @ r) (length l)) = length (dropWhile q (dropWhile p (rev l)))"
      using l1 by (simp add: skip_back_rev t)
    show "rev (dropWhile q (dropWhile p (rev l))) = take (length (dropWhile q (dropWhile p (rev l)))) l"
    proof -
      have "suffix (dropWhile q (dropWhile p (rev l))) (rev l)"
        by (meson suffix_dropWhile suffix_order.trans)
      then have "prefix (rev (dropWhile q (dropWhile p (rev l)))) l" by (simp add: suffix_to_prefix)
      then show ?thesis by (metis append_eq_conv_conj length_rev prefix_def)
    qed
  qed
  have cs: "chars (ti_value (joined l r)) = l @ r" by (simp add: joined_simps joined_chars assms)
  show "move_word_left an (joined l r) =
      (let kept = rev (dropWhile (is_word an) (dropWhile (\<lambda>c. \<not> is_word an c) (rev l)))
       in joined kept (drop (length kept) (l @ r)))"
    unfolding move_word_left_def Let_def cs joined_simps(2) bk(1)
    using bk(3) [of "is_word an" "\<lambda>c. \<not> is_word an c"]
    by (subst caret_moved) (simp_all add: bk(2))
  let ?D = "dropWhile (\<lambda>c. \<not> is_white c) (dropWhile is_white (rev l))"
  have le: "length ?D \<le> length l" by (rule bk(3))
  have moved: "joined (take (length ?D) (l @ r)) (drop (length l) (l @ r)) = joined (rev ?D) r"
    using le by (simp add: bk(2))
  show "fst (delete_word_back (joined l r)) = joined (rev ?D) r"
  proof (cases "length ?D = length l")
    case True
    then have "rev ?D = l" by (simp add: bk(2))
    then show ?thesis
      unfolding delete_word_back_def Let_def cs joined_simps(2) bk(1) True by simp
  next
    case False
    then show ?thesis
      unfolding delete_word_back_def Let_def cs joined_simps(2) bk(1)
      using removed_joined [OF assms le] moved by simp
  qed
  let ?R = "dropWhile (is_word an) (dropWhile (\<lambda>c. \<not> is_word an c) r)"
  have suffix: "suffix (dropWhile (\<lambda>c. \<not> is_word an c) r) (l @ r)" "suffix ?R (l @ r)"
    by (meson suffix_dropWhile suffix_appendI suffix_order.trans)+
  have tail: "drop (length (l @ r) - length S) (l @ r) = S" if "suffix S (l @ r)" for S
  proof -
    from that obtain zs where zs: "l @ r = zs @ S" by (auto simp: suffix_def)
    show ?thesis unfolding zs by simp
  qed
  have "skip_forward (is_word an) (l @ r) (skip_forward (\<lambda>c. \<not> is_word an c) (l @ r) (length l))
      = length (l @ r) - length ?R"
    by (subst skip_forward_drop [of "length l"], simp, subst skip_forward_drop, simp)
      (simp add: tail [OF suffix(1), simplified])
  then have "move_word_right an (joined l r) = (joined l r)\<lparr>ti_caret := length (l @ r) - length ?R\<rparr>"
    unfolding move_word_right_def Let_def cs joined_simps(2) by simp
  then show "move_word_right an (joined l r) =
      (let rest = ?R in joined (take (length (l @ r) - length rest) (l @ r)) rest)"
    unfolding Let_def by (subst (asm) caret_moved) (simp_all only: tail [OF suffix(2)] diff_le_self)
qed

lemma edit_joined:
  assumes "chars_ok l" and "chars_ok r" and "edit_ok e"
  shows "edit_text an e (joined l r) = joined (fst (edit_zipper an e (l, r))) (snd (edit_zipper an e (l, r)))"
proof (cases e)
  case (InsertChar c)
  then show ?thesis
    using byte_index_caret [OF assms(1,2)] by (simp add: insert_char_def joined_def)
next
  case MoveLeft
  show ?thesis
  proof (cases l rule: rev_cases)
    case Nil
    with MoveLeft show ?thesis by (simp add: move_left_def joined_def)
  next
    case (snoc ys y)
    with MoveLeft show ?thesis by (simp add: move_left_def joined_def)
  qed
next
  case MoveRight
  have "length (chars (concat l @ concat r)) = length l + length r" using assms by (simp add: joined_chars)
  with MoveRight show ?thesis
    by (cases r) (auto simp: move_right_def ti_char_count_def char_count_def joined_def min_def)
next
  case MoveHome
  then show ?thesis by (simp add: move_home_def joined_def)
next
  case MoveEnd
  with assms show ?thesis
    by (simp add: move_end_def ti_char_count_def char_count_def joined_simps joined_chars joined_def)
next
  case (SetValue v)
  then show ?thesis
    using joined_split [of "min (length l) (length (chars v))" "chars v"]
    by (simp add: set_value_def joined_simps chars_concat char_count_def min_def split: if_splits)
next
  case Clear
  then show ?thesis by (simp add: clear_def joined_def)
qed (simp_all add: deletions_joined [OF assms(1,2)] word_motions_joined [OF assms(1,2)] Let_def)

lemma edit_zipper_ok:
  assumes "chars_ok l" and "chars_ok r" and "edit_ok e"
  shows "chars_ok (fst (edit_zipper an e (l, r))) \<and> chars_ok (snd (edit_zipper an e (l, r)))"
proof (cases e)
  case MoveLeft
  show ?thesis
    using assms MoveLeft by (cases l rule: rev_cases) simp_all
next
  case (SetValue v)
  with assms(3) have "chars_ok (chars v)" by (simp add: text_ok_def chars_ok_def)
  with SetValue show ?thesis by (simp add: chars_ok_parts)
qed (use assms in \<open>auto simp: chars_ok_parts Let_def split: list.splits\<close>)

lemma edit_refines:
  assumes "text_input_ok t" and "edit_ok e"
  shows "text_input_ok (edit_text an e t) \<and> text_zipper (edit_text an e t) = edit_zipper an e (text_zipper t)"
proof -
  from assms(1) obtain l r where t: "t = joined l r" "text_zipper t = (l, r)" "chars_ok l" "chars_ok r"
    by (rule text_input_ok_joined)
  note e = edit_joined [OF t(3,4) assms(2)] edit_zipper_ok [OF t(3,4) assms(2)]
  show ?thesis unfolding t(2) unfolding t(1) e(1) using joined_ok e(2) by (metis prod.collapse)
qed

section \<open>Typing\<close>

text \<open>
  What a text-entry surface relies on: inserting puts a character left of the caret, rubbing out
  removes it, and the two sides of the caret are all there is to a buffer.
\<close>

locale edit_buffer =
  fixes insert_at :: "'c \<Rightarrow> 's \<Rightarrow> 's" and rub_out :: "'s \<Rightarrow> 's"
    and view :: "'s \<Rightarrow> 'c list \<times> 'c list" and wf :: "'s \<Rightarrow> bool" and ok :: "'c \<Rightarrow> bool"
  assumes insert_law: "wf s \<Longrightarrow> ok c \<Longrightarrow>
      wf (insert_at c s) \<and> view (insert_at c s) = (fst (view s) @ [c], snd (view s))"
    and rub_law: "wf s \<Longrightarrow> wf (rub_out s) \<and> view (rub_out s) = (butlast (fst (view s)), snd (view s))"
    and view_inject: "wf s \<Longrightarrow> wf s' \<Longrightarrow> view s = view s' \<Longrightarrow> s = s'"
begin

lemma typed:
  "wf s \<Longrightarrow> \<forall>c \<in> set cs. ok c \<Longrightarrow>
   wf (fold insert_at cs s) \<and> view (fold insert_at cs s) = (fst (view s) @ cs, snd (view s))"
proof (induction cs arbitrary: s)
  case Nil
  then show ?case by simp
next
  case (Cons c cs)
  from insert_law [OF Cons.prems(1)] Cons.prems(2)
  have i: "wf (insert_at c s)" "view (insert_at c s) = (fst (view s) @ [c], snd (view s))" by auto
  from Cons.IH [OF i(1)] Cons.prems(2) show ?case by (simp add: i(2))
qed

lemma rub_inverse:
  assumes "wf s" and "ok c"
  shows "rub_out (insert_at c s) = s"
proof -
  from insert_law [OF assms] have i: "wf (insert_at c s)" "view (insert_at c s) = (fst (view s) @ [c], snd (view s))"
    by blast+
  from rub_law [OF i(1)] have "wf (rub_out (insert_at c s))" "view (rub_out (insert_at c s)) = view s"
    by (simp_all add: i(2))
  then show ?thesis using assms(1) using view_inject by blast
qed

lemma typing_undone:
  "wf s \<Longrightarrow> \<forall>c \<in> set cs. ok c \<Longrightarrow> (rub_out ^^ length cs) (fold insert_at cs s) = s"
proof (induction cs rule: rev_induct)
  case Nil
  then show ?case by simp
next
  case (snoc c cs)
  from typed [OF snoc.prems(1), of cs] snoc.prems(2) have "wf (fold insert_at cs s)" "ok c" by auto
  from rub_inverse [OF this] snoc show ?case
    by (simp add: funpow_swap1)
qed

end

interpretation input: edit_buffer insert_char "\<lambda>t. fst (backspace t)" text_zipper text_input_ok rchar_ok
proof unfold_locales
  fix t c
  assume "text_input_ok t" and "rchar_ok c"
  with edit_refines [of t "InsertChar c"]
  show "text_input_ok (insert_char c t) \<and>
      text_zipper (insert_char c t) = (fst (text_zipper t) @ [c], snd (text_zipper t))"
    by (cases "text_zipper t") simp
next
  fix t
  assume "text_input_ok t"
  with edit_refines [of t Backspace]
  show "text_input_ok (fst (backspace t)) \<and>
      text_zipper (fst (backspace t)) = (butlast (fst (text_zipper t)), snd (text_zipper t))"
    by (cases "text_zipper t") simp
next
  fix t t'
  assume "text_input_ok t" and "text_input_ok t'" and "text_zipper t = text_zipper t'"
  then show "t = t'" by (metis Pair_inject text_input_ok_joined)
qed

text \<open>
  C11. Editing works on characters, not bytes. From an empty buffer, after any sequence of
  insertions of characters, replacements by texts, motions and deletions, the text is a
  sequence of whole characters, the caret is on one of their boundaries, and the characters
  left and right of it are what the specification computes on the pair of character lists.
\<close>

theorem text_input_refines_zipper:
  assumes "\<forall>e \<in> set es. edit_ok e"
  shows "text_zipper (fold (edit_text an) es text_input_new) = fold (edit_zipper an) es ([], [])
    \<and> text_input_ok (fold (edit_text an) es text_input_new)"
proof -
  have "text_input_ok t \<Longrightarrow> text_input_ok (fold (edit_text an) es t)
      \<and> text_zipper (fold (edit_text an) es t) = fold (edit_zipper an) es (text_zipper t)" for t
    using assms
  proof (induction es arbitrary: t)
    case Nil
    then show ?case by simp
  next
    case (Cons e es)
    then show ?case using edit_refines [of t e an] by simp
  qed
  from this [of text_input_new] show ?thesis
    by (simp add: text_input_new_def text_input_ok_def text_ok_def text_zipper_def)
qed

definition accented :: rchar where "accented = [CHR 0xC3, CHR 0xA9]"

theorem text_input_refines_zipper_witness:
  "text_zipper (fold (edit_text (\<lambda>_. True)) [InsertChar ''a'', InsertChar accented, MoveLeft, Backspace] text_input_new)
     = ([], [accented])"
proof -
  have "\<forall>e \<in> set [InsertChar ''a'', InsertChar accented, MoveLeft, Backspace]. edit_ok e"
    by (simp add: accented_def rchar_ok_def lead_width_def is_cont_def)
  from text_input_refines_zipper [OF this, of "\<lambda>_. True"] show ?thesis by simp
qed

text \<open>
  Typing is undone by backspacing: after typing any characters at the caret of any buffer and
  pressing backspace as many times, text and caret are as before.
\<close>

lemma backspace_undoes_typing:
  assumes "text_input_ok t" and "\<forall>c \<in> set cs. rchar_ok c"
  shows "((\<lambda>t. fst (backspace t)) ^^ length cs) (fold insert_char cs t) = t"
  using assms by (rule input.typing_undone)

lemma backspace_undoes_typing_instance:
  "((\<lambda>t. fst (backspace t)) ^^ 2) (fold insert_char [accented, ''b''] (move_left (with_value ''xy'')))
     = \<lparr>ti_value = ''xy'', ti_caret = 1\<rparr>"
proof -
  have t: "move_left (with_value ''xy'') = \<lparr>ti_value = ''xy'', ti_caret = 1\<rparr>" by code_simp
  have "text_input_ok \<lparr>ti_value = ''xy'', ti_caret = 1\<rparr>" by code_simp
  moreover have "\<forall>c \<in> set [accented, ''b'']. rchar_ok c"
    by (simp add: accented_def rchar_ok_def lead_width_def is_cont_def)
  ultimately show ?thesis
    using backspace_undoes_typing [of "\<lparr>ti_value = ''xy'', ti_caret = 1\<rparr>" "[accented, ''b'']"]
    unfolding t by (simp add: numeral_2_eq_2)
qed

end
