(* ===== verification/Watch.thy ===== *)
theory Watch
  imports Prelude
begin

text \<open>
  The watch coordinator, \<open>src/watch/coordinator.rs\<close>: it turns hints that files changed into
  numbered reloads, one at a time, after a quiet period but never later than a maximum delay,
  and at the latest after a safety interval. Points in time and durations are natural numbers;
  the code's \<open>Instant\<close> arithmetic cannot leave its type in practice and panics if it does.
\<close>


type_synonym instant = nat
type_synonym duration = nat

section \<open>State and operations\<close>

record watch_coordinator =
  wc_next_generation :: u64
  wc_latest_requested :: u64
  wc_in_flight :: "u64 option"
  wc_dirty :: bool
  wc_quiet_delay :: duration
  wc_maximum_delay :: duration
  wc_quiet_deadline :: "instant option"
  wc_maximum_deadline :: "instant option"
  wc_safety_deadline :: instant
  wc_safety_interval :: duration

definition DEFAULT_SAFETY_INTERVAL :: duration where
  "DEFAULT_SAFETY_INTERVAL = 10 * 1000000000"

definition with_safety_interval :: "instant \<Rightarrow> duration \<Rightarrow> duration \<Rightarrow> duration \<Rightarrow> watch_coordinator" where
  "with_safety_interval start quiet_delay maximum_delay safety_interval =
     \<lparr>wc_next_generation = 0, wc_latest_requested = 0, wc_in_flight = None, wc_dirty = False,
      wc_quiet_delay = quiet_delay, wc_maximum_delay = maximum_delay, wc_quiet_deadline = None,
      wc_maximum_deadline = None, wc_safety_deadline = start + safety_interval,
      wc_safety_interval = safety_interval\<rparr>"

definition watch_new :: "instant \<Rightarrow> duration \<Rightarrow> duration \<Rightarrow> watch_coordinator" where
  "watch_new start quiet_delay maximum_delay =
     with_safety_interval start quiet_delay maximum_delay DEFAULT_SAFETY_INTERVAL"

definition event_hint :: "instant \<Rightarrow> watch_coordinator \<Rightarrow> watch_coordinator" where
  "event_hint now c =
     (if wc_in_flight c \<noteq> None then c\<lparr>wc_dirty := True\<rparr>
      else c\<lparr>wc_quiet_deadline := Some (now + wc_quiet_delay c),
             wc_maximum_deadline := or_else (wc_maximum_deadline c) (Some (now + wc_maximum_delay c))\<rparr>)"

definition manual_hint :: "instant \<Rightarrow> watch_coordinator \<Rightarrow> watch_coordinator" where
  "manual_hint now c =
     (if wc_in_flight c \<noteq> None then c\<lparr>wc_dirty := True\<rparr>
      else c\<lparr>wc_quiet_deadline := Some now, wc_maximum_deadline := Some now\<rparr>)"

definition due :: "instant \<Rightarrow> instant option \<Rightarrow> bool" where
  "due now deadline = (case deadline of None \<Rightarrow> False | Some d \<Rightarrow> d \<le> now)"

definition tick :: "instant \<Rightarrow> watch_coordinator \<Rightarrow> watch_coordinator \<times> u64 option" where
  "tick now c =
     (if wc_in_flight c \<noteq> None then (c, None)
      else
        let event_due = (due now (wc_quiet_deadline c) \<or> due now (wc_maximum_deadline c))
        in if \<not> event_due \<and> now < wc_safety_deadline c then (c, None)
           else
             let generation = sat_add u64_max (wc_next_generation c) 1
             in (c\<lparr>wc_next_generation := generation, wc_latest_requested := generation,
                   wc_in_flight := Some generation, wc_quiet_deadline := None,
                   wc_maximum_deadline := None\<rparr>, Some generation))"

definition finish :: "u64 \<Rightarrow> instant \<Rightarrow> watch_coordinator \<Rightarrow> watch_coordinator" where
  "finish generation now c =
     (if wc_in_flight c \<noteq> Some generation then c
      else
        let c = c\<lparr>wc_in_flight := None, wc_safety_deadline := now + wc_safety_interval c\<rparr>
        in if wc_dirty c
           then c\<lparr>wc_dirty := False, wc_quiet_deadline := Some now, wc_maximum_deadline := Some now\<rparr>
           else c)"

definition accept_result :: "u64 \<Rightarrow> watch_coordinator \<Rightarrow> bool" where
  "accept_result generation c \<longleftrightarrow>
     wc_in_flight c = Some generation \<and> generation = wc_latest_requested c"

section \<open>Runs\<close>

text \<open>What the event loop does with the coordinator, each call with its time, and a tick with
  its answer.\<close>

datatype watch_event =
    Hinted instant
  | HintedByHand instant
  | Ticked instant "u64 option"
  | Finished u64 instant

fun event_time :: "watch_event \<Rightarrow> instant" where
  "event_time (Hinted now) = now"
| "event_time (HintedByHand now) = now"
| "event_time (Ticked now _) = now"
| "event_time (Finished _ now) = now"

inductive watch_step :: "watch_coordinator \<Rightarrow> watch_event \<Rightarrow> watch_coordinator \<Rightarrow> bool" where
  step_hint: "watch_step c (Hinted now) (event_hint now c)"
| step_manual: "watch_step c (HintedByHand now) (manual_hint now c)"
| step_tick: "tick now c = (c', answer) \<Longrightarrow> watch_step c (Ticked now answer) c'"
| step_finish: "watch_step c (Finished generation now) (finish generation now c)"

inductive_cases watch_step_cases: "watch_step c e c'"

inductive_simps watch_step_simps:
  "watch_step c (Hinted now) c'"
  "watch_step c (HintedByHand now) c'"
  "watch_step c (Ticked now answer) c'"
  "watch_step c (Finished generation now) c'"

inductive watch_run :: "watch_coordinator \<Rightarrow> watch_event list \<Rightarrow> watch_coordinator \<Rightarrow> bool" where
  run_start: "watch_run c [] c"
| run_step: "watch_run c es c' \<Longrightarrow> watch_step c' e c'' \<Longrightarrow> watch_run c (es @ [e]) c''"

text \<open>The reload that is under way after some events, and the reloads started.\<close>

definition outstanding_step :: "watch_event \<Rightarrow> u64 option \<Rightarrow> u64 option" where
  "outstanding_step e current =
     (case e of
        Ticked _ (Some generation) \<Rightarrow> Some generation
      | Finished generation _ \<Rightarrow> if current = Some generation then None else current
      | _ \<Rightarrow> current)"

definition outstanding :: "watch_event list \<Rightarrow> u64 option" where
  "outstanding es = fold outstanding_step es None"

fun started :: "watch_event list \<Rightarrow> u64 list" where
  "started [] = []"
| "started (Ticked _ (Some generation) # es) = generation # started es"
| "started (_ # es) = started es"

lemma started_append [simp]: "started (xs @ ys) = started xs @ started ys"
  by (induction xs rule: started.induct) simp_all

lemma outstanding_snoc [simp]: "outstanding (es @ [e]) = outstanding_step e (outstanding es)"
  by (simp add: outstanding_def)

text \<open>What holds between calls: a reload under way is the latest, nothing is scheduled besides it,
  and the note to run again is only taken while one is under way.\<close>

definition watch_ok :: "watch_coordinator \<Rightarrow> bool" where
  "watch_ok c \<longleftrightarrow>
     wc_latest_requested c = wc_next_generation c
     \<and> wc_next_generation c \<le> u64_max
     \<and> (case wc_in_flight c of
          Some g \<Rightarrow> g = wc_next_generation c \<and> wc_quiet_deadline c = None \<and> wc_maximum_deadline c = None
        | None \<Rightarrow> \<not> wc_dirty c)
     \<and> (wc_quiet_deadline c = None \<longleftrightarrow> wc_maximum_deadline c = None)"

lemmas watch_op_defs = event_hint_def manual_hint_def tick_def finish_def Let_def

lemma watch_step_ok: "watch_step c e c' \<Longrightarrow> watch_ok c \<Longrightarrow> watch_ok c'"
  by (induction rule: watch_step.induct)
    (auto simp: watch_ok_def watch_op_defs or_else_def sat_add_bound split: if_splits option.splits)

lemma watch_step_outstanding:
  "watch_step c e c' \<Longrightarrow> wc_in_flight c' = outstanding_step e (wc_in_flight c)"
  by (induction rule: watch_step.induct)
    (auto simp: watch_op_defs outstanding_step_def split: if_splits option.splits)

lemma watch_run_ok: "watch_run c es c' \<Longrightarrow> watch_ok c \<Longrightarrow> watch_ok c'"
  by (induction rule: watch_run.induct) (auto dest: watch_step_ok)

lemma watch_run_outstanding:
  "watch_run c es c' \<Longrightarrow> wc_in_flight c = None \<Longrightarrow> wc_in_flight c' = outstanding es"
  by (induction rule: watch_run.induct) (auto simp: outstanding_def dest: watch_step_outstanding)

lemma fresh_ok: "watch_ok (with_safety_interval start quiet longest safety)"
  by (simp add: watch_ok_def with_safety_interval_def)

lemma watch_run_started:
  "watch_run c es c' \<Longrightarrow> wc_next_generation c = 0 \<Longrightarrow> length (started es) \<le> u64_max \<Longrightarrow>
   started es = [1..<Suc (length (started es))] \<and> wc_next_generation c' = length (started es)"
proof (induction rule: watch_run.induct)
  case (run_start c)
  then show ?case by simp
next
  case (run_step c es c' e c'')
  from run_step.prems(2) have "length (started es) \<le> u64_max" by simp
  with run_step.IH run_step.prems(1)
  have ih: "started es = [1..<Suc (length (started es))]" "wc_next_generation c' = length (started es)" by blast+
  show ?case
    using run_step.hyps(2) run_step.prems(2)
  proof (cases rule: watch_step.cases)
    case (step_tick now answer)
    show ?thesis
    proof (cases answer)
      case None
      with step_tick ih show ?thesis by (auto simp: tick_def Let_def split: if_splits)
    next
      case (Some g)
      with step_tick have g: "g = sat_add u64_max (wc_next_generation c') 1" "wc_next_generation c'' = g"
        by (auto simp: tick_def Let_def split: if_splits)
      from run_step.prems(2) step_tick Some have "length (started es) + 1 \<le> u64_max" by simp
      then have "g = Suc (length (started es))" using g ih(2) by simp
      with step_tick Some g ih(1) show ?thesis by simp
    qed
  qed (use ih in \<open>auto simp: event_hint_def manual_hint_def finish_def Let_def\<close>)
qed

text \<open>
  C15. Reloads run one at a time and in order. In every run of the event loop with fewer than
  2^64 reloads they are numbered 1, 2, 3, and so on; a tick starts one only while none is under
  way; and a result is accepted exactly if it is of the reload that is under way, so neither a
  finished nor an overtaken reload can replace the view.
\<close>

theorem reloads_single_flight:
  assumes "watch_run (with_safety_interval start quiet longest safety) es c" and "length (started es) \<le> u64_max"
  shows "started es = [1..<Suc (length (started es))]
    \<and> accept_result g c = (outstanding es = Some g)
    \<and> (snd (tick now c) \<noteq> None \<longrightarrow> outstanding es = None)
    \<and> (outstanding es = Some g \<longrightarrow> started es \<noteq> [] \<and> g = last (started es))"
proof -
  let ?c = "with_safety_interval start quiet longest safety"
  have none: "wc_in_flight ?c = None" "wc_next_generation ?c = 0" by (simp_all add: with_safety_interval_def)
  have flight: "wc_in_flight c = outstanding es" by (rule watch_run_outstanding [OF assms(1) none(1)])
  have ok: "watch_ok c" by (rule watch_run_ok [OF assms(1) fresh_ok])
  have num: "started es = [1..<Suc (length (started es))]" "wc_next_generation c = length (started es)"
    using watch_run_started [OF assms(1) none(2) assms(2)] by blast+
  have last: "started es \<noteq> [] \<and> g = last (started es)" if o: "outstanding es = Some g"
  proof -
    from ok o have g: "g = wc_next_generation c" by (simp add: watch_ok_def flight)
    have "outstanding es = None" if "started es = []"
    proof -
      have "started xs = [] \<Longrightarrow> fold outstanding_step xs None = None" for xs
        by (induction xs rule: started.induct) (auto simp: outstanding_step_def)
      with that show ?thesis by (simp add: outstanding_def)
    qed
    with o have ne: "started es \<noteq> []" by auto
    then have "last (started es) = length (started es)"
      by (subst num(1)) (auto simp: Suc_le_eq)
    with ne g num(2) show ?thesis by simp
  qed
  have "accept_result g c = (outstanding es = Some g)"
    using ok by (auto simp: accept_result_def flight watch_ok_def)
  moreover have "snd (tick now c) \<noteq> None \<longrightarrow> outstanding es = None"
    by (simp add: tick_def flight)
  ultimately show ?thesis using num(1) last by blast
qed

section \<open>No hint is lost\<close>

inductive_cases watch_run_snocE: "watch_run c (es @ [e]) c'"
inductive_cases watch_run_NilE: "watch_run c [] c'"

lemma watch_run_append:
  "watch_run c (es @ fs) c' \<Longrightarrow> \<exists>m. watch_run c es m \<and> watch_run m fs c'"
proof (induction fs arbitrary: c' rule: rev_induct)
  case Nil
  then show ?case using run_start by auto
next
  case (snoc f fs)
  from snoc.prems have "watch_run c ((es @ fs) @ [f]) c'" by simp
  then obtain m' where "watch_run c (es @ fs) m'" "watch_step m' f c'" by (rule watch_run_snocE)
  with snoc.IH show ?case using run_step by blast
qed

text \<open>A deadline is never further away than the maximum delay.\<close>

definition scheduled_within :: "duration \<Rightarrow> instant \<Rightarrow> watch_coordinator \<Rightarrow> bool" where
  "scheduled_within longest t c \<longleftrightarrow>
     wc_maximum_delay c = longest \<and> (\<forall>d. wc_maximum_deadline c = Some d \<longrightarrow> d \<le> t + longest)"

lemma step_scheduled:
  "watch_step c e c' \<Longrightarrow> scheduled_within longest t c \<Longrightarrow> event_time e \<le> t \<Longrightarrow> scheduled_within longest t c'"
  by (induction rule: watch_step.induct)
    (auto simp: scheduled_within_def watch_op_defs or_else_def split: if_splits option.splits)

lemma run_scheduled:
  "watch_run c es c' \<Longrightarrow> scheduled_within longest t c \<Longrightarrow> \<forall>e \<in> set es. event_time e \<le> t \<Longrightarrow>
   scheduled_within longest t c'"
  by (induction rule: watch_run.induct) (auto dest: step_scheduled)

text \<open>A hint that has not been served: it waits for its deadline or for the reload under way.\<close>

definition waiting :: "instant \<Rightarrow> watch_coordinator \<Rightarrow> bool" where
  "waiting bound c \<longleftrightarrow>
     (case wc_in_flight c of
        None \<Rightarrow> \<exists>d. wc_maximum_deadline c = Some d \<and> d \<le> bound
      | Some _ \<Rightarrow> wc_dirty c)"

lemma step_waiting:
  "watch_step c e c' \<Longrightarrow> waiting bound c \<Longrightarrow> event_time e \<le> bound \<Longrightarrow> started [e] = [] \<Longrightarrow> waiting bound c'"
  by (induction rule: watch_step.induct)
    (auto simp: waiting_def watch_op_defs split: if_splits option.splits)

lemma run_waiting:
  "watch_run c es c' \<Longrightarrow> waiting bound c \<Longrightarrow> \<forall>e \<in> set es. event_time e \<le> bound \<Longrightarrow> started es = [] \<Longrightarrow>
   waiting bound c'"
  by (induction rule: watch_run.induct) (auto dest: step_waiting)

lemma hint_waits:
  assumes "watch_step c h c'" and "h = Hinted t \<or> h = HintedByHand t" and "scheduled_within longest t c"
    and "t + longest \<le> bound"
  shows "waiting bound c'"
  using assms
  by (cases "wc_in_flight c"; cases "wc_maximum_deadline c")
    (auto simp: watch_step_simps event_hint_def manual_hint_def waiting_def scheduled_within_def)

text \<open>
  C16. No hint is lost, and none waits longer than the maximum delay. Take any run whose times do
  not go backwards, and a hint in it at time \<open>t\<close> after which no reload was started. Then, unless
  a reload is still under way, the next tick at least the maximum delay after \<open>t\<close> starts one:
  later hints postpone a reload only up to that limit, and a hint during a reload counts when
  it finishes.
\<close>

theorem hint_is_served:
  assumes "watch_run (with_safety_interval start quiet longest safety) (before @ [h] @ after) c"
    and "h = Hinted t \<or> h = HintedByHand t"
    and "sorted (map event_time (before @ [h] @ after))"
    and "started after = []" and "outstanding (before @ [h] @ after) = None"
    and "t + longest \<le> now" and "\<forall>e \<in> set after. event_time e \<le> now"
  shows "snd (tick now c) \<noteq> None"
proof -
  let ?c0 = "with_safety_interval start quiet longest safety"
  from watch_run_append [OF assms(1)] obtain c1 where c1: "watch_run ?c0 before c1" "watch_run c1 ([h] @ after) c"
    by blast
  from watch_run_append [OF c1(2)] obtain c2 where c2: "watch_run c1 ([] @ [h]) c2" "watch_run c2 after c"
    by auto
  from c2(1) obtain m where m: "watch_run c1 [] m" "watch_step m h c2" by (rule watch_run_snocE)
  then have h: "watch_step c1 h c2" by (auto elim: watch_run_NilE)
  have "event_time h = t" using assms(2) by auto
  then have "\<forall>e \<in> set before. event_time e \<le> t" using assms(3) by (auto simp: sorted_append)
  moreover have "scheduled_within longest t ?c0" by (simp add: scheduled_within_def with_safety_interval_def)
  ultimately have "scheduled_within longest t c1" using run_scheduled [OF c1(1)] by blast
  then have "waiting now c2" by (rule hint_waits [OF h assms(2) _ assms(6)])
  then have w: "waiting now c" by (rule run_waiting [OF c2(2) _ assms(7,4)])
  have "wc_in_flight c = None"
    using watch_run_outstanding [OF assms(1)] assms(5) by (simp add: with_safety_interval_def)
  with w show ?thesis by (auto simp: waiting_def tick_def due_def Let_def)
qed

definition sample_run :: "watch_event list" where
  "sample_run = [Hinted 5, Ticked 6 None, Hinted 7]"

lemma sample_run_runs:
  "watch_run (with_safety_interval 0 3 10 100) sample_run
     (event_hint 7 (event_hint 5 (with_safety_interval 0 3 10 100)))"
proof -
  let ?c = "event_hint 5 (with_safety_interval 0 3 10 100)"
  have "watch_run (with_safety_interval 0 3 10 100) ([] @ [Hinted 5]) ?c"
    by (rule run_step [OF run_start step_hint])
  moreover have "watch_step ?c (Ticked 6 None) ?c" by (rule step_tick) code_simp
  ultimately have "watch_run (with_safety_interval 0 3 10 100) ([Hinted 5] @ [Ticked 6 None]) ?c"
    using run_step by fastforce
  from run_step [OF this step_hint] show ?thesis by (simp add: sample_run_def)
qed

theorem hint_is_served_witness:
  "snd (tick 15 (event_hint 7 (event_hint 5 (with_safety_interval 0 3 10 100)))) \<noteq> None"
  using hint_is_served [of 0 3 10 100 "[]" "Hinted 5" "[Ticked 6 None, Hinted 7]" _ 5 15] sample_run_runs
  by (simp add: sample_run_def outstanding_def outstanding_step_def)

theorem reloads_single_flight_witness:
  "started sample_run = [] \<and> \<not> accept_result 1 (event_hint 7 (event_hint 5 (with_safety_interval 0 3 10 100)))"
proof -
  have "length (started sample_run) \<le> u64_max" by (simp add: sample_run_def)
  from reloads_single_flight [OF sample_run_runs this, of 1 0] show ?thesis
    by (simp add: sample_run_def outstanding_def outstanding_step_def)
qed

end
