(* ===== verification/Map_Controller.thy ===== *)
theory Map_Controller
  imports Planner
begin

text \<open>
  The controller of the review map screen, \<open>src/review_map/state.rs\<close>: the selection, the expanded
  groups, the filter and the reviewed files over a review map, and the rows they make visible.
  Lowercasing uses Unicode's tables (\<open>str::to_lowercase\<close>): the parameter \<open>lowercase\<close>.
\<close>

section \<open>Data\<close>

datatype review_map_action =
    Move int
  | Select string
  | Collapse
  | Expand
  | ToggleExpanded
  | SetFilter string
  | OpenSelected
  | RetryAction
  | DismissFailure
  | OpenHelpAction

datatype review_map_effect =
    NoEffect
  | Redraw
  | OpenFile string
  | RetryEffect
  | OpenHelpEffect

record failure_notice =
  fn_code :: review_map_failure_code
  fn_message :: string

record group_row =
  gr_id :: string
  gr_label :: string
  gr_kind :: review_file_kind
  gr_additions :: usize
  gr_deletions :: usize
  gr_expanded :: bool
  gr_summary :: "string option"
  gr_risk :: "string option"

record file_row =
  fr_id :: string
  fr_path :: string
  fr_kind :: review_file_kind
  fr_additions :: usize
  fr_deletions :: usize
  fr_reviewed :: bool
  fr_recommended_order :: "usize option"
  fr_summary :: "string option"
  fr_risk :: "string option"

datatype review_map_row = GroupRow group_row | FileRow file_row

fun row_id :: "review_map_row \<Rightarrow> string" where
  "row_id (GroupRow g) = gr_id g"
| "row_id (FileRow f) = fr_id f"

record map_snapshot =
  sn_status :: review_map_status
  sn_totals :: review_map_totals
  sn_rows :: "review_map_row list"
  sn_selected_id :: "string option"
  sn_filter :: string
  sn_reviewed_percent :: u8
  sn_failure :: "failure_notice option"
  sn_analysis_model :: "string option"

datatype replace_error = DifferentRevision

definition replace_error_display :: "replace_error \<Rightarrow> string" where
  "replace_error_display e = (case e of DifferentRevision \<Rightarrow> ''review map belongs to a different revision'')"

record map_controller =
  mc_map :: review_map
  mc_selected_id :: "string option"
  mc_expansion_overrides :: "string \<rightharpoonup> bool"
  mc_filter :: string
  mc_reviewed_paths :: "string set"
  mc_failure :: "failure_notice option"

section \<open>The visible rows\<close>

definition group_expanded :: "map_controller \<Rightarrow> string \<Rightarrow> bool" where
  "group_expanded c group_id =
     (case or_else (mc_expansion_overrides c group_id)
             (map_option (\<lambda>g. \<not> mg_collapsed_by_default g)
               (List.find (\<lambda>g. mg_id g = group_id) (rm_groups (mc_map c)))) of
        None \<Rightarrow> False | Some expanded \<Rightarrow> expanded)"

definition opt_str :: "string option \<Rightarrow> string" where
  "opt_str s = (case s of None \<Rightarrow> [] | Some t \<Rightarrow> t)"

definition group_text :: "review_map_group \<Rightarrow> string" where
  "group_text g =
     mg_label g @ '' '' @ opt_str (map_option gi_summary (mg_insight g)) @ '' ''
     @ opt_str (Option.bind (mg_insight g) gi_risk)"

definition file_matches :: "(string \<Rightarrow> string) \<Rightarrow> string \<Rightarrow> review_map_file \<Rightarrow> bool" where
  "file_matches lowercase query f \<longleftrightarrow>
     contains (lowercase (mf_path f)) query
     \<or> (case mf_insight f of
          None \<Rightarrow> False
        | Some i \<Rightarrow> contains (lowercase (fi_summary i)) query
            \<or> (case fi_risk i of None \<Rightarrow> False | Some r \<Rightarrow> contains (lowercase r) query))"

definition make_group_row :: "map_controller \<Rightarrow> review_map_group \<Rightarrow> review_map_row" where
  "make_group_row c g =
     GroupRow \<lparr>gr_id = mg_id g, gr_label = mg_label g, gr_kind = mg_kind g, gr_additions = mg_additions g,
       gr_deletions = mg_deletions g, gr_expanded = group_expanded c (mg_id g),
       gr_summary = map_option gi_summary (mg_insight g), gr_risk = Option.bind (mg_insight g) gi_risk\<rparr>"

definition make_file_row :: "map_controller \<Rightarrow> review_map_file \<Rightarrow> review_map_row" where
  "make_file_row c f =
     FileRow \<lparr>fr_id = mf_id f, fr_path = mf_path f, fr_kind = mf_kind f, fr_additions = mf_additions f,
       fr_deletions = mf_deletions f, fr_reviewed = (mf_path f \<in> mc_reviewed_paths c),
       fr_recommended_order = mf_recommended_order f, fr_summary = map_option fi_summary (mf_insight f),
       fr_risk = Option.bind (mf_insight f) fi_risk\<rparr>"

text \<open>The query of a filter; the rows one group contributes.\<close>

definition filter_query :: "(string \<Rightarrow> string) \<Rightarrow> map_controller \<Rightarrow> string" where
  "filter_query lowercase c = lowercase (trim (mc_filter c))"

definition group_rows :: "(string \<Rightarrow> string) \<Rightarrow> map_controller \<Rightarrow> review_map_group \<Rightarrow> review_map_row list" where
  "group_rows lowercase c g =
     (let query = filter_query lowercase c;
          by_id = collect_map (map (\<lambda>f. (mf_id f, f)) (rm_files (mc_map c)));
          group_matches = (query = [] \<or> contains (lowercase (group_text g)) query);
          matching_files = filter (\<lambda>f. group_matches \<or> file_matches lowercase query f)
            (List.map_filter by_id (mg_file_ids g))
      in if \<not> group_matches \<and> matching_files = [] then []
         else make_group_row c g
              # (if group_expanded c (mg_id g) \<or> query \<noteq> [] then map (make_file_row c) matching_files else []))"

definition visible_rows :: "(string \<Rightarrow> string) \<Rightarrow> map_controller \<Rightarrow> review_map_row list" where
  "visible_rows lowercase c = concat (map (group_rows lowercase c) (rm_groups (mc_map c)))"

section \<open>Operations\<close>

definition ensure_visible_selection :: "(string \<Rightarrow> string) \<Rightarrow> map_controller \<Rightarrow> map_controller" where
  "ensure_visible_selection lowercase c =
     (let rows = visible_rows lowercase c
      in if (case mc_selected_id c of None \<Rightarrow> False | Some i \<Rightarrow> list_ex (\<lambda>r. row_id r = i) rows) then c
         else c\<lparr>mc_selected_id := (case rows of [] \<Rightarrow> None | r # _ \<Rightarrow> Some (row_id r))\<rparr>)"

definition controller_new :: "(string \<Rightarrow> string) \<Rightarrow> review_map \<Rightarrow> map_controller" where
  "controller_new lowercase m =
     ensure_visible_selection lowercase
       \<lparr>mc_map = m, mc_selected_id = None, mc_expansion_overrides = Map.empty, mc_filter = [],
        mc_reviewed_paths = {}, mc_failure = None\<rparr>"

definition move_selection :: "(string \<Rightarrow> string) \<Rightarrow> int \<Rightarrow> map_controller \<Rightarrow> map_controller" where
  "move_selection lowercase delta c =
     (let rows = visible_rows lowercase c
      in if rows = [] then c\<lparr>mc_selected_id := None\<rparr>
         else
           let current = (case Option.bind (mc_selected_id c) (\<lambda>i. position (\<lambda>r. row_id r = i) rows) of
                            None \<Rightarrow> 0 | Some k \<Rightarrow> k);
               nxt = (if delta < 0 then current - nat (- delta)
                      else min (sat_add usize_max current (nat delta)) (length rows - 1))
           in c\<lparr>mc_selected_id := Some (row_id (rows ! nxt))\<rparr>)"

definition selected_group_id :: "map_controller \<Rightarrow> string option" where
  "selected_group_id c =
     Option.bind (mc_selected_id c) (\<lambda>i. map_option mg_id (List.find (\<lambda>g. mg_id g = i) (rm_groups (mc_map c))))"

definition selected_file_id :: "map_controller \<Rightarrow> string option" where
  "selected_file_id c =
     Option.bind (mc_selected_id c) (\<lambda>i. map_option mf_id (List.find (\<lambda>f. mf_id f = i) (rm_files (mc_map c))))"

definition set_selected_expanded ::
  "(string \<Rightarrow> string) \<Rightarrow> bool \<Rightarrow> map_controller \<Rightarrow> map_controller \<times> review_map_effect" where
  "set_selected_expanded lowercase expanded c =
     (case selected_group_id c of
        None \<Rightarrow> (c, NoEffect)
      | Some group_id \<Rightarrow>
          (ensure_visible_selection lowercase
             (c\<lparr>mc_expansion_overrides := (mc_expansion_overrides c)(group_id \<mapsto> expanded)\<rparr>), Redraw))"

definition toggle_selected_expanded ::
  "(string \<Rightarrow> string) \<Rightarrow> map_controller \<Rightarrow> map_controller \<times> review_map_effect" where
  "toggle_selected_expanded lowercase c =
     (case selected_group_id c of
        None \<Rightarrow> (c, NoEffect)
      | Some group_id \<Rightarrow>
          let expanded = group_expanded c group_id
          in (ensure_visible_selection lowercase
                (c\<lparr>mc_expansion_overrides := (mc_expansion_overrides c)(group_id \<mapsto> \<not> expanded)\<rparr>), Redraw))"

definition apply_action ::
  "(string \<Rightarrow> string) \<Rightarrow> review_map_action \<Rightarrow> map_controller \<Rightarrow> map_controller \<times> review_map_effect" where
  "apply_action lowercase action c =
     (case action of
        Move delta \<Rightarrow> (move_selection lowercase delta c, Redraw)
      | Select i \<Rightarrow>
          (if list_ex (\<lambda>r. row_id r = i) (visible_rows lowercase c) then c\<lparr>mc_selected_id := Some i\<rparr> else c, Redraw)
      | Collapse \<Rightarrow> set_selected_expanded lowercase False c
      | Expand \<Rightarrow> set_selected_expanded lowercase True c
      | ToggleExpanded \<Rightarrow> toggle_selected_expanded lowercase c
      | SetFilter f \<Rightarrow> (ensure_visible_selection lowercase (c\<lparr>mc_filter := f\<rparr>), Redraw)
      | OpenSelected \<Rightarrow> (c, (case selected_file_id c of None \<Rightarrow> NoEffect | Some file_id \<Rightarrow> OpenFile file_id))
      | RetryAction \<Rightarrow> (c, RetryEffect)
      | DismissFailure \<Rightarrow> (c\<lparr>mc_failure := None\<rparr>, Redraw)
      | OpenHelpAction \<Rightarrow> (c, OpenHelpEffect))"

definition replace_map ::
  "(string \<Rightarrow> string) \<Rightarrow> review_map \<Rightarrow> map_controller \<Rightarrow> replace_error + map_controller" where
  "replace_map lowercase m c =
     (if ri_head_sha (rm_identity (mc_map c)) \<noteq> ri_head_sha (rm_identity m)
         \<or> ri_repository (rm_identity (mc_map c)) \<noteq> ri_repository (rm_identity m)
         \<or> ri_pull_request (rm_identity (mc_map c)) \<noteq> ri_pull_request (rm_identity m)
      then Inl DifferentRevision
      else Inr (ensure_visible_selection lowercase (c\<lparr>mc_map := m, mc_failure := None\<rparr>)))"

definition is_reviewed :: "map_controller \<Rightarrow> string \<Rightarrow> bool" where
  "is_reviewed c path \<longleftrightarrow> path \<in> mc_reviewed_paths c"

definition mark_reviewed :: "string \<Rightarrow> map_controller \<Rightarrow> map_controller" where
  "mark_reviewed path c =
     (if list_ex (\<lambda>f. mf_path f = path) (rm_files (mc_map c))
      then c\<lparr>mc_reviewed_paths := insert path (mc_reviewed_paths c)\<rparr> else c)"

definition mark_unreviewed :: "string \<Rightarrow> map_controller \<Rightarrow> map_controller" where
  "mark_unreviewed path c = c\<lparr>mc_reviewed_paths := mc_reviewed_paths c - {path}\<rparr>"

definition set_failure :: "review_map_failure_code \<Rightarrow> string \<Rightarrow> map_controller \<Rightarrow> map_controller" where
  "set_failure failure_code message c = c\<lparr>mc_failure := Some \<lparr>fn_code = failure_code, fn_message = message\<rparr>\<rparr>"

definition set_status :: "review_map_status \<Rightarrow> map_controller \<Rightarrow> map_controller" where
  "set_status status c = c\<lparr>mc_map := (mc_map c)\<lparr>rm_status := status\<rparr>\<rparr>"

definition reviewed_percent :: "map_controller \<Rightarrow> u8" where
  "reviewed_percent c =
     (let total = length (rm_files (mc_map c))
      in if total = 0 then 100
         else
           let reviewed = length (filter (\<lambda>f. mf_path f \<in> mc_reviewed_paths c) (rm_files (mc_map c)))
           in min (sat_mul usize_max reviewed 100 div total) 100)"

definition map_snapshot_of :: "(string \<Rightarrow> string) \<Rightarrow> map_controller \<Rightarrow> map_snapshot" where
  "map_snapshot_of lowercase c =
     \<lparr>sn_status = rm_status (mc_map c), sn_totals = rm_totals (mc_map c), sn_rows = visible_rows lowercase c,
      sn_selected_id = mc_selected_id c, sn_filter = mc_filter c, sn_reviewed_percent = reviewed_percent c,
      sn_failure = mc_failure c, sn_analysis_model = map_option ma_model (rm_analysis (mc_map c))\<rparr>"

section \<open>The selection is always visible\<close>

datatype controller_op =
    Act review_map_action
  | ReplaceMap review_map
  | MarkReviewed string
  | MarkUnreviewed string
  | SetFailure review_map_failure_code string
  | SetStatus review_map_status

fun controller_perform :: "(string \<Rightarrow> string) \<Rightarrow> controller_op \<Rightarrow> map_controller \<Rightarrow> map_controller" where
  "controller_perform lowercase (Act a) c = fst (apply_action lowercase a c)"
| "controller_perform lowercase (ReplaceMap m) c =
     (case replace_map lowercase m c of Inl _ \<Rightarrow> c | Inr c' \<Rightarrow> c')"
| "controller_perform lowercase (MarkReviewed path) c = mark_reviewed path c"
| "controller_perform lowercase (MarkUnreviewed path) c = mark_unreviewed path c"
| "controller_perform lowercase (SetFailure failure_code message) c = set_failure failure_code message c"
| "controller_perform lowercase (SetStatus status) c = set_status status c"

definition row_ids :: "(string \<Rightarrow> string) \<Rightarrow> map_controller \<Rightarrow> string list" where
  "row_ids lowercase c = map row_id (visible_rows lowercase c)"

definition selection_ok :: "(string \<Rightarrow> string) \<Rightarrow> map_controller \<Rightarrow> bool" where
  "selection_ok lowercase c \<longleftrightarrow>
     (case mc_selected_id c of
        None \<Rightarrow> row_ids lowercase c = []
      | Some i \<Rightarrow> i \<in> set (row_ids lowercase c))"

text \<open>What the rows show of a file does not decide which rows there are.\<close>

lemma row_id_rows [simp]:
  "row_id (make_group_row c g) = mg_id g" "row_id (make_file_row c f) = mf_id f"
  by (simp_all add: make_group_row_def make_file_row_def)

lemma row_ids_cong:
  assumes "rm_groups (mc_map c') = rm_groups (mc_map c)" and "rm_files (mc_map c') = rm_files (mc_map c)"
    and "mc_expansion_overrides c' = mc_expansion_overrides c" and "mc_filter c' = mc_filter c"
  shows "row_ids lowercase c' = row_ids lowercase c"
proof -
  have "filter_query lowercase c' = filter_query lowercase c" "group_expanded c' = group_expanded c"
    by (simp_all add: filter_query_def group_expanded_def assms fun_eq_iff)
  then have "map row_id (group_rows lowercase c' g) = map row_id (group_rows lowercase c g)" for g
    by (auto simp: group_rows_def Let_def assms(2) comp_def filter_empty_conv)
  then show ?thesis
    by (simp add: row_ids_def visible_rows_def map_concat comp_def assms(1))
qed

lemma ensure_selection: "selection_ok lowercase (ensure_visible_selection lowercase c)"
proof -
  have same: "row_ids lowercase (c\<lparr>mc_selected_id := i\<rparr>) = row_ids lowercase c" for i
    by (rule row_ids_cong) simp_all
  show ?thesis
    by (cases "visible_rows lowercase c"; cases "mc_selected_id c")
      (auto simp: ensure_visible_selection_def selection_ok_def Let_def list_ex_iff same,
       auto simp: row_ids_def)
qed

lemma selection_ok_cong:
  assumes "selection_ok lowercase c" and "row_ids lowercase c' = row_ids lowercase c"
    and "mc_selected_id c' = mc_selected_id c"
  shows "selection_ok lowercase c'"
  using assms by (auto simp: selection_ok_def split: option.splits)

lemma move_selection_ok: "selection_ok lowercase (move_selection lowercase delta c)"
proof -
  have same: "row_ids lowercase (c\<lparr>mc_selected_id := i\<rparr>) = row_ids lowercase c" for i
    by (rule row_ids_cong) simp_all
  show ?thesis
  proof (cases "visible_rows lowercase c = []")
    case True
    then show ?thesis by (simp add: move_selection_def selection_ok_def same) (simp add: row_ids_def)
  next
    case False
    define current where "current = (case Option.bind (mc_selected_id c)
        (\<lambda>i. position (\<lambda>r. row_id r = i) (visible_rows lowercase c)) of None \<Rightarrow> 0 | Some k \<Rightarrow> k)"
    define nxt where "nxt = (if delta < 0 then current - nat (- delta)
        else min (sat_add usize_max current (nat delta)) (length (visible_rows lowercase c) - 1))"
    have "current < length (visible_rows lowercase c)"
      using False by (auto simp: current_def bind_eq_Some_conv dest!: position_SomeD split: option.split)
    then have "nxt < length (visible_rows lowercase c)"
      using False by (auto simp: nxt_def min_less_iff_disj)
    then have "row_id (visible_rows lowercase c ! nxt) \<in> set (row_ids lowercase c)" by (simp add: row_ids_def)
    moreover have "move_selection lowercase delta c = c\<lparr>mc_selected_id := Some (row_id (visible_rows lowercase c ! nxt))\<rparr>"
      using False by (simp add: move_selection_def nxt_def current_def Let_def)
    ultimately show ?thesis by (simp add: selection_ok_def same)
  qed
qed

lemma apply_action_ok:
  assumes "selection_ok lowercase c"
  shows "selection_ok lowercase (fst (apply_action lowercase action c))"
proof (cases action)
  case (Select i)
  have same: "row_ids lowercase (c\<lparr>mc_selected_id := i\<rparr>) = row_ids lowercase c" for i
    by (rule row_ids_cong) simp_all
  from assms Select show ?thesis
    by (auto simp: apply_action_def selection_ok_def same list_ex_iff) (auto simp: row_ids_def)
next
  case DismissFailure
  from assms show ?thesis
    by (rule selection_ok_cong) (auto simp: DismissFailure apply_action_def intro!: row_ids_cong)
next
  case Collapse
  with assms show ?thesis
    by (simp add: apply_action_def set_selected_expanded_def ensure_selection split: option.split)
next
  case Expand
  with assms show ?thesis
    by (simp add: apply_action_def set_selected_expanded_def ensure_selection split: option.split)
next
  case ToggleExpanded
  with assms show ?thesis
    by (simp add: apply_action_def toggle_selected_expanded_def ensure_selection Let_def split: option.split)
next
  case (SetFilter f)
  then show ?thesis by (simp add: apply_action_def ensure_selection)
next
  case (Move delta)
  then show ?thesis by (simp add: apply_action_def move_selection_ok)
qed (use assms in \<open>simp_all add: apply_action_def\<close>)

lemma controller_perform_ok:
  assumes "selection_ok lowercase c"
  shows "selection_ok lowercase (controller_perform lowercase operation c)"
proof (cases operation)
  case (Act a)
  with assms show ?thesis by (simp add: apply_action_ok)
next
  case (ReplaceMap m)
  with assms show ?thesis by (simp add: replace_map_def ensure_selection)
qed (rule selection_ok_cong [OF assms], auto simp: mark_reviewed_def mark_unreviewed_def set_failure_def
      set_status_def intro!: row_ids_cong)+

interpretation map_screen: op_machine "controller_perform lowercase" "selection_ok lowercase" for lowercase
  by unfold_locales (rule controller_perform_ok)

text \<open>
  Whatever the reviewer does on the map screen, filtering, moving, collapsing and expanding
  groups, marking files or receiving a new map, the selection is a visible row, and there is
  none only when no row is visible.
\<close>

lemma map_selection_visible:
  "case mc_selected_id (fold (controller_perform lowercase) operations (controller_new lowercase m)) of
     None \<Rightarrow> visible_rows lowercase (fold (controller_perform lowercase) operations (controller_new lowercase m)) = []
   | Some i \<Rightarrow> \<exists>r. r \<in> set (visible_rows lowercase (fold (controller_perform lowercase) operations (controller_new lowercase m)))
       \<and> row_id r = i"
proof -
  have "selection_ok lowercase (controller_new lowercase m)" by (simp add: controller_new_def ensure_selection)
  from map_screen.run_inv [OF this, of operations] show ?thesis
    by (auto simp: selection_ok_def row_ids_def split: option.splits)
qed

section \<open>Filtering\<close>

fun file_ids_of :: "review_map_row list \<Rightarrow> string list" where
  "file_ids_of [] = []"
| "file_ids_of (FileRow f # rows) = fr_id f # file_ids_of rows"
| "file_ids_of (GroupRow g # rows) = file_ids_of rows"

lemma file_ids_append [simp]: "file_ids_of (xs @ ys) = file_ids_of xs @ file_ids_of ys"
  by (induction xs rule: file_ids_of.induct) simp_all

lemma file_ids_files [simp]: "file_ids_of (map (make_file_row c) fs) = map mf_id fs"
  by (induction fs) (simp_all add: make_file_row_def)

lemma file_ids_concat: "file_ids_of (concat rss) = concat (map file_ids_of rss)"
  by (induction rss) simp_all

text \<open>Whether a file of a group is shown: everything that matches while a filter is set, and
  otherwise the files of the expanded groups.\<close>

definition file_shown :: "(string \<Rightarrow> string) \<Rightarrow> map_controller \<Rightarrow> review_map_group \<Rightarrow> review_map_file \<Rightarrow> bool" where
  "file_shown lowercase c g f \<longleftrightarrow>
     (let query = filter_query lowercase c
      in if query = [] then group_expanded c (mg_id g)
         else contains (lowercase (group_text g)) query \<or> file_matches lowercase query f)"

lemma group_rows_files:
  assumes "distinct (map mf_id (rm_files (mc_map c)))"
    and "set (mg_file_ids g) \<subseteq> mf_id ` set (rm_files (mc_map c))"
  shows "file_ids_of (group_rows lowercase c g) =
    filter (\<lambda>i. \<exists>f \<in> set (rm_files (mc_map c)). mf_id f = i \<and> file_shown lowercase c g f) (mg_file_ids g)"
proof -
  define by_id where "by_id = collect_map (map (\<lambda>f. (mf_id f, f)) (rm_files (mc_map c)))"
  have by_id: "by_id (mf_id f) = Some f" if "f \<in> set (rm_files (mc_map c))" for f
    unfolding by_id_def by (rule collect_map_distinct) (use assms(1) that in \<open>auto simp: comp_def\<close>)
  have same: "f' = f" if "f \<in> set (rm_files (mc_map c))" "f' \<in> set (rm_files (mc_map c))" "mf_id f' = mf_id f" for f f'
    using by_id that by (metis option.inject)
  have files: "map mf_id (filter p (List.map_filter by_id is)) =
      filter (\<lambda>i. \<exists>f \<in> set (rm_files (mc_map c)). mf_id f = i \<and> p f) is"
    if "set is \<subseteq> mf_id ` set (rm_files (mc_map c))" for p "is"
    using that
  proof (induction "is")
    case Nil
    then show ?case by (simp add: List.map_filter_def)
  next
    case (Cons i "is")
    then obtain f where f: "f \<in> set (rm_files (mc_map c))" "i = mf_id f" by auto
    then have "by_id i = Some f" by (simp add: by_id)
    moreover have "(\<exists>f' \<in> set (rm_files (mc_map c)). mf_id f' = i \<and> p f') = p f" using same f by blast
    ultimately show ?case using Cons by (simp add: List.map_filter_simps f(2))
  qed
  define gm where "gm \<longleftrightarrow> filter_query lowercase c = [] \<or> contains (lowercase (group_text g)) (filter_query lowercase c)"
  define p where "p = (\<lambda>f. gm \<or> file_matches lowercase (filter_query lowercase c) f)"
  have "group_rows lowercase c g =
      (if \<not> gm \<and> filter p (List.map_filter by_id (mg_file_ids g)) = [] then []
       else make_group_row c g # (if group_expanded c (mg_id g) \<or> filter_query lowercase c \<noteq> []
         then map (make_file_row c) (filter p (List.map_filter by_id (mg_file_ids g))) else []))"
    by (simp only: group_rows_def Let_def gm_def p_def by_id_def)
  then have rows: "file_ids_of (group_rows lowercase c g) =
      (if group_expanded c (mg_id g) \<or> filter_query lowercase c \<noteq> []
       then map mf_id (filter p (List.map_filter by_id (mg_file_ids g))) else [])"
    by (simp add: make_group_row_def)
  show ?thesis
    unfolding rows files [OF assms(2), of p]
    by (auto simp: file_shown_def p_def gm_def Let_def intro!: filter_cong)
qed

text \<open>
  C25. A filter finds exactly what it should. In an exact map whose files have different
  identifiers the file rows are, group by group and in the order of the groups, the files that
  match the filter or belong to a matching group, collapsed or not, and without a filter the
  files of the expanded groups; so no file is ever shown twice.
\<close>

theorem map_rows_exact:
  assumes "exact_map (mc_map c)" and "distinct (map mf_id (rm_files (mc_map c)))"
  shows "file_ids_of (visible_rows lowercase c) =
      concat (map (\<lambda>g. filter (\<lambda>i. \<exists>f \<in> set (rm_files (mc_map c)). mf_id f = i \<and> file_shown lowercase c g f)
        (mg_file_ids g)) (rm_groups (mc_map c)))
    \<and> distinct (file_ids_of (visible_rows lowercase c))"
proof -
  have members: "set (mg_file_ids g) \<subseteq> mf_id ` set (rm_files (mc_map c))" if "g \<in> set (rm_groups (mc_map c))" for g
    using assms(1) that by (auto simp: exact_map_def all_members_def)
  have eq: "file_ids_of (visible_rows lowercase c) =
      concat (map (\<lambda>g. filter (\<lambda>i. \<exists>f \<in> set (rm_files (mc_map c)). mf_id f = i \<and> file_shown lowercase c g f)
        (mg_file_ids g)) (rm_groups (mc_map c)))"
    unfolding visible_rows_def file_ids_concat map_map
    by (rule arg_cong [where f = concat]) (simp add: group_rows_files [OF assms(2)] members)
  have "distinct (concat (map (\<lambda>g. filter (q g) (mg_file_ids g)) gs))" if "distinct (all_members gs)" for q gs
    using that
  proof (induction gs)
    case Nil
    then show ?case by simp
  next
    case (Cons g gs)
    then show ?case by (auto simp: all_members_def)
  qed
  with assms(1) show ?thesis unfolding eq by (simp add: exact_map_def)
qed

theorem map_rows_exact_witness:
  "file_ids_of (visible_rows (\<lambda>s. s) ((controller_new (\<lambda>s. s)
      (projr (built [(None, ''src/a.rs''), (None, ''Cargo.lock'')])))\<lparr>mc_filter := ''a.rs''\<rparr>)) = [''file:h:src/a.rs'']
   \<and> distinct (file_ids_of (visible_rows (\<lambda>s. s) ((controller_new (\<lambda>s. s)
      (projr (built [(None, ''src/a.rs''), (None, ''Cargo.lock'')])))\<lparr>mc_filter := ''a.rs''\<rparr>)))"
proof -
  define m where "m = projr (built [(None, ''src/a.rs''), (None, ''Cargo.lock'')])"
  define c where "c = (controller_new (\<lambda>s. s) m)\<lparr>mc_filter := ''a.rs''\<rparr>"
  have map: "mc_map c = m" by (simp add: c_def controller_new_def ensure_visible_selection_def Let_def)
  have "validate_exact_map hd m = Inr ()" unfolding m_def by code_simp
  then have "exact_map (mc_map c)" by (simp add: map validate_iff)
  moreover have "distinct (map mf_id (rm_files (mc_map c)))" unfolding map m_def by code_simp
  ultimately have "distinct (file_ids_of (visible_rows (\<lambda>s. s) c))" using map_rows_exact by blast
  moreover have "file_ids_of (visible_rows (\<lambda>s. s) c) = [''file:h:src/a.rs'']"
    unfolding c_def m_def by code_simp
  ultimately show ?thesis unfolding c_def m_def by blast
qed

text \<open>
  A new map is taken only for the same revision: replacing fails exactly if head, repository
  or pull request differ, and otherwise keeps the filter, the expanded groups and the files
  already reviewed, clears the failure, and selects a visible row.
\<close>

lemma replace_map_same_revision:
  "case replace_map lowercase m c of
     Inl _ \<Rightarrow> ri_head_sha (rm_identity m) \<noteq> ri_head_sha (rm_identity (mc_map c))
       \<or> ri_repository (rm_identity m) \<noteq> ri_repository (rm_identity (mc_map c))
       \<or> ri_pull_request (rm_identity m) \<noteq> ri_pull_request (rm_identity (mc_map c))
   | Inr c' \<Rightarrow> ri_head_sha (rm_identity m) = ri_head_sha (rm_identity (mc_map c))
       \<and> mc_map c' = m \<and> mc_filter c' = mc_filter c \<and> mc_failure c' = None
       \<and> mc_expansion_overrides c' = mc_expansion_overrides c \<and> mc_reviewed_paths c' = mc_reviewed_paths c
       \<and> (mc_selected_id c' = None) = (visible_rows lowercase c' = [])"
proof -
  have e: "mc_map (ensure_visible_selection lowercase d) = mc_map d"
    "mc_filter (ensure_visible_selection lowercase d) = mc_filter d"
    "mc_failure (ensure_visible_selection lowercase d) = mc_failure d"
    "mc_expansion_overrides (ensure_visible_selection lowercase d) = mc_expansion_overrides d"
    "mc_reviewed_paths (ensure_visible_selection lowercase d) = mc_reviewed_paths d" for d
    by (simp_all add: ensure_visible_selection_def Let_def)
  have "(mc_selected_id (ensure_visible_selection lowercase d) = None)
      = (visible_rows lowercase (ensure_visible_selection lowercase d) = [])" for d
    using ensure_selection [of lowercase d]
    by (auto simp: selection_ok_def row_ids_def split: option.splits)
  then show ?thesis by (auto simp: replace_map_def e)
qed

lemma replace_map_same_revision_instance:
  "case replace_map (\<lambda>s. s) (projr (built [(None, ''b.rs'')]))
      (set_failure ResultStale ''old'' (controller_new (\<lambda>s. s) (projr (built [(None, ''a.rs'')])))) of
     Inl _ \<Rightarrow> False
   | Inr c \<Rightarrow> mc_failure c = None \<and> mc_map c = projr (built [(None, ''b.rs'')])"
proof -
  have "ri_head_sha (rm_identity (projr (built [(None, p)]))) = ''h''
      \<and> ri_repository (rm_identity (projr (built [(None, p)]))) = ''o/r''
      \<and> ri_pull_request (rm_identity (projr (built [(None, p)]))) = 1" if "p = ''a.rs'' \<or> p = ''b.rs''" for p
  proof -
    have "list_all (\<lambda>p. ri_head_sha (rm_identity (projr (built [(None, p)]))) = ''h''
      \<and> ri_repository (rm_identity (projr (built [(None, p)]))) = ''o/r''
      \<and> ri_pull_request (rm_identity (projr (built [(None, p)]))) = 1) [''a.rs'', ''b.rs'']" by code_simp
    with that show ?thesis by auto
  qed
  note same = this [of "''a.rs''", simplified] this [of "''b.rs''", simplified]
  let ?c = "set_failure ResultStale ''old'' (controller_new (\<lambda>s. s) (projr (built [(None, ''a.rs'')])))"
  have "mc_map ?c = projr (built [(None, ''a.rs'')])"
    by (simp add: set_failure_def controller_new_def ensure_visible_selection_def Let_def)
  then show ?thesis
    using replace_map_same_revision [where lowercase = "\<lambda>s. s" and m = "projr (built [(None, ''b.rs'')])" and c = ?c]
    by (auto simp: same split: sum.splits)
qed

text \<open>
  The percentage shown on the map is 100 exactly when every file is marked as reviewed, and
  never above it.
\<close>

lemma map_percent_full:
  "reviewed_percent c \<le> 100
   \<and> (100 * length (rm_files (mc_map c)) \<le> usize_max \<longrightarrow>
       (reviewed_percent c = 100) = (mf_path ` set (rm_files (mc_map c)) \<subseteq> mc_reviewed_paths c))"
proof -
  let ?fs = "rm_files (mc_map c)"
  define r where "r = length (filter (\<lambda>f. mf_path f \<in> mc_reviewed_paths c) ?fs)"
  have r: "r \<le> length ?fs" by (simp add: r_def)
  have all: "r = length ?fs \<longleftrightarrow> mf_path ` set ?fs \<subseteq> mc_reviewed_paths c"
  proof
    assume "r = length ?fs"
    then have "\<forall>f \<in> set ?fs. mf_path f \<in> mc_reviewed_paths c"
      unfolding r_def by (metis length_filter_less less_irrefl)
    then show "mf_path ` set ?fs \<subseteq> mc_reviewed_paths c" by auto
  next
    assume "mf_path ` set ?fs \<subseteq> mc_reviewed_paths c"
    then have "filter (\<lambda>f. mf_path f \<in> mc_reviewed_paths c) ?fs = ?fs" by (auto simp: filter_id_conv)
    then show "r = length ?fs" by (simp add: r_def)
  qed
  have "reviewed_percent c \<le> 100" by (simp add: reviewed_percent_def Let_def)
  moreover have "(reviewed_percent c = 100) = (mf_path ` set ?fs \<subseteq> mc_reviewed_paths c)"
    if b: "100 * length ?fs \<le> usize_max"
  proof (cases "length ?fs = 0")
    case True
    then show ?thesis by (simp add: reviewed_percent_def)
  next
    case False
    have "r * 100 \<le> usize_max" using r b by linarith
    then have p: "reviewed_percent c = min (r * 100 div length ?fs) 100"
      using False by (simp add: reviewed_percent_def Let_def sat_mul_def r_def)
    have "r * 100 div length ?fs \<le> 100"
      using r by (metis div_le_mono mult_le_mono1 nonzero_mult_div_cancel_left False)
    then show ?thesis using p percent_full [OF r False] all by simp
  qed
  ultimately show ?thesis by blast
qed

lemma map_percent_full_instance:
  "reviewed_percent (mark_reviewed ''a.rs'' (controller_new (\<lambda>s. s) (projr (built [(None, ''a.rs'')])))) = 100"
proof -
  let ?c = "mark_reviewed ''a.rs'' (controller_new (\<lambda>s. s) (projr (built [(None, ''a.rs'')])))"
  have "map mf_path (rm_files (projr (built [(None, ''a.rs'')]))) = [''a.rs'']" by code_simp
  then obtain f where f: "rm_files (projr (built [(None, ''a.rs'')])) = [f]" "mf_path f = ''a.rs''" by auto
  have files: "rm_files (mc_map ?c) = [f]" and paths: "''a.rs'' \<in> mc_reviewed_paths ?c"
    by (simp_all add: mark_reviewed_def controller_new_def ensure_visible_selection_def Let_def f)
  show ?thesis
    using map_percent_full [of ?c] paths by (simp add: files f(2) usize_max_def)
qed

end
