(* ===== verification/Threads.thy ===== *)
theory Threads
  imports Note_Target
begin

text \<open>
  Where the review threads of a pull request appear: \<open>review/github_threads.rs\<close> puts each thread
  under the file and hunk that show all of its lines, or lists it as unplaced with the reason.
\<close>

section \<open>Placing threads\<close>

record placed_thread =
  pg_thread :: github_review_thread
  pg_target :: note_target
  pg_file_level :: bool

record unplaced_thread =
  ug_thread :: github_review_thread
  ug_reason :: string

record thread_placement =
  tp_by_file :: "string \<rightharpoonup> placed_thread list"
  tp_unplaced :: "unplaced_thread list"

definition thread_placement_default :: thread_placement where
  "thread_placement_default = \<lparr>tp_by_file = Map.empty, tp_unplaced = []\<rparr>"

definition thread_file :: "diff_file list \<Rightarrow> github_review_thread \<Rightarrow> diff_file option" where
  "thread_file files t =
     or_else (List.find (\<lambda>f. df_path f = gt_path t) files)
       (List.find (\<lambda>f. df_previous_path f = Some (gt_path t)) files)"

definition remote_lineno :: "remote_line_side \<Rightarrow> diff_line \<Rightarrow> u32 option" where
  "remote_lineno side l = (case side of RemoteLeft \<Rightarrow> dl_old_lineno l | RemoteRight \<Rightarrow> dl_new_lineno l)"

definition hunk_shows :: "remote_line_side \<Rightarrow> u32 \<Rightarrow> u32 \<Rightarrow> hunk \<Rightarrow> bool" where
  "hunk_shows side start stop h =
     list_all (\<lambda>wanted. list_ex (\<lambda>l. remote_lineno side l = Some wanted) (hunk_lines h))
       [start..<Suc stop]"

definition missing_lines :: "remote_line_side \<Rightarrow> u32 \<Rightarrow> u32 \<Rightarrow> string" where
  "missing_lines side start stop =
     (let pfx = (case side of RemoteLeft \<Rightarrow> ''L'' | RemoteRight \<Rightarrow> ''R'')
      in if start = stop then ''line '' @ pfx @ nat_str stop @ '' is not present in the frozen diff''
         else ''range '' @ pfx @ nat_str start @ ''-'' @ pfx @ nat_str stop
           @ '' is not present in one frozen diff hunk'')"

definition place_line ::
  "diff_file \<Rightarrow> remote_line_side option \<Rightarrow> remote_line_side option \<Rightarrow> u32 option \<Rightarrow> u32 option
     \<Rightarrow> string + note_target" where
  "place_line f side start_side start_line end_line =
     (case side of
        None \<Rightarrow> Inl ''line thread has no supported diff side''
      | Some side \<Rightarrow>
          if start_side \<noteq> None \<and> start_side \<noteq> Some side
          then Inl ''line thread starts and ends on different diff sides''
          else
            (case end_line of
               None \<Rightarrow> Inl ''line thread has no end line''
             | Some stop \<Rightarrow>
                 let start = (case start_line of Some l \<Rightarrow> l | None \<Rightarrow> stop) in
                 if stop < start then Inl ''line thread range starts after it ends''
                 else
                   (case position (hunk_shows side start stop) (df_hunks f) of
                      None \<Rightarrow> Inl (missing_lines side start stop)
                    | Some hunk_index \<Rightarrow>
                        let r = \<lparr>lr_start = start, lr_end = stop\<rparr>;
                            (old_range, new_range, anchor_side) =
                              (case side of
                                 RemoteLeft \<Rightarrow> (Some r, None, OldSide)
                               | RemoteRight \<Rightarrow> (None, Some r, NewSide))
                        in Inr \<lparr>nt_file_id = df_id f, nt_old_range = old_range, nt_new_range = new_range,
                                nt_hunk_index = Some hunk_index, nt_anchor_side = Some anchor_side,
                                nt_anchor_line = Some stop\<rparr>)))"

definition place_thread :: "diff_file list \<Rightarrow> github_review_thread \<Rightarrow> string + (string \<times> placed_thread)" where
  "place_thread files t =
     (case thread_file files t of
        None \<Rightarrow> Inl ''file is not present in the frozen diff''
      | Some f \<Rightarrow>
          (case gt_subject t of
             FileSubject \<Rightarrow>
               Inr (df_id f,
                 \<lparr>pg_thread = t,
                  pg_target = \<lparr>nt_file_id = df_id f, nt_old_range = None, nt_new_range = None,
                    nt_hunk_index = None, nt_anchor_side = None, nt_anchor_line = None\<rparr>,
                  pg_file_level = True\<rparr>)
           | Unsupported subject \<Rightarrow> Inl (''unsupported GitHub thread subject '' @ subject)
           | LineSubject side start_side start_line end_line \<Rightarrow>
               (case place_line f side start_side start_line end_line of
                  Inl reason \<Rightarrow> Inl reason
                | Inr target \<Rightarrow>
                    Inr (df_id f, \<lparr>pg_thread = t, pg_target = target, pg_file_level = False\<rparr>))))"

definition add_thread :: "diff_file list \<Rightarrow> github_review_thread \<Rightarrow> thread_placement \<Rightarrow> thread_placement" where
  "add_thread files t p =
     (case place_thread files t of
        Inr (file_id, placed) \<Rightarrow>
          p\<lparr>tp_by_file := (tp_by_file p)(file_id \<mapsto>
              (case tp_by_file p file_id of None \<Rightarrow> [] | Some placed_before \<Rightarrow> placed_before) @ [placed])\<rparr>
      | Inl reason \<Rightarrow> p\<lparr>tp_unplaced := tp_unplaced p @ [\<lparr>ug_thread = t, ug_reason = reason\<rparr>]\<rparr>)"

definition place_github_threads :: "diff_file list \<Rightarrow> github_review_thread list \<Rightarrow> thread_placement" where
  "place_github_threads files threads = fold (add_thread files) threads thread_placement_default"

section \<open>No thread is lost and none is misplaced\<close>

definition threads_at :: "thread_placement \<Rightarrow> string \<Rightarrow> placed_thread list" where
  "threads_at p file_id = (case tp_by_file p file_id of None \<Rightarrow> [] | Some placed \<Rightarrow> placed)"

definition placed_in :: "diff_file list \<Rightarrow> string \<Rightarrow> github_review_thread \<Rightarrow> placed_thread option" where
  "placed_in files file_id t =
     (case place_thread files t of
        Inr (i, placed) \<Rightarrow> if i = file_id then Some placed else None
      | Inl _ \<Rightarrow> None)"

definition refused :: "diff_file list \<Rightarrow> github_review_thread \<Rightarrow> unplaced_thread option" where
  "refused files t =
     (case place_thread files t of
        Inr _ \<Rightarrow> None
      | Inl reason \<Rightarrow> Some \<lparr>ug_thread = t, ug_reason = reason\<rparr>)"

lemma add_threads_contents:
  "threads_at (fold (add_thread files) threads p) file_id
     = threads_at p file_id @ List.map_filter (placed_in files file_id) threads
   \<and> tp_unplaced (fold (add_thread files) threads p) = tp_unplaced p @ List.map_filter (refused files) threads"
proof (induction threads arbitrary: p)
  case (Cons t threads)
  have "threads_at (add_thread files t p) file_id
      = threads_at p file_id @ (case placed_in files file_id t of None \<Rightarrow> [] | Some x \<Rightarrow> [x])"
    "tp_unplaced (add_thread files t p)
      = tp_unplaced p @ (case refused files t of None \<Rightarrow> [] | Some x \<Rightarrow> [x])"
    by (auto simp: add_thread_def threads_at_def placed_in_def refused_def split: sum.splits option.splits)
  with Cons.IH [of "add_thread files t p"] show ?case
    by (simp add: map_filter_simps split: option.splits)
qed (simp add: map_filter_simps)

lemma placement_contents:
  "threads_at (place_github_threads files threads) file_id = List.map_filter (placed_in files file_id) threads"
  "tp_unplaced (place_github_threads files threads) = List.map_filter (refused files) threads"
  using add_threads_contents [of files threads thread_placement_default file_id]
  by (simp_all add: place_github_threads_def threads_at_def thread_placement_default_def)

lemma placed_in_thread: "placed_in files file_id t = Some x \<Longrightarrow> pg_thread x = t"
  by (auto simp: placed_in_def place_thread_def split: sum.splits option.splits github_thread_subject.splits if_splits)

lemma refused_thread: "refused files t = Some x \<Longrightarrow> ug_thread x = t"
  by (auto simp: refused_def split: sum.splits)

text \<open>What a placed thread promises: the lines it is about are lines of the hunk it is put at.\<close>

definition line_placed :: "diff_file \<Rightarrow> note_target \<Rightarrow> bool" where
  "line_placed f target \<longleftrightarrow>
     (\<exists>side start stop i. nt_hunk_index target = Some i \<and> i < length (df_hunks f)
        \<and> nt_anchor_line target = Some stop \<and> start \<le> stop
        \<and> {start..stop} \<subseteq> {n. \<exists>l \<in> set (hunk_lines (df_hunks f ! i)). remote_lineno side l = Some n}
        \<and> (side = RemoteLeft \<longrightarrow> nt_old_range target = Some \<lparr>lr_start = start, lr_end = stop\<rparr>)
        \<and> (side = RemoteRight \<longrightarrow> nt_new_range target = Some \<lparr>lr_start = start, lr_end = stop\<rparr>))"

definition placed_well :: "diff_file list \<Rightarrow> string \<Rightarrow> placed_thread \<Rightarrow> bool" where
  "placed_well files file_id x \<longleftrightarrow>
     (\<exists>f \<in> set files. df_id f = file_id \<and> nt_file_id (pg_target x) = file_id
        \<and> gt_path (pg_thread x) \<in> insert (df_path f) (set_option (df_previous_path f))
        \<and> (if pg_file_level x then nt_hunk_index (pg_target x) = None else line_placed f (pg_target x)))"

lemma hunk_shows_iff:
  "hunk_shows side start stop h \<longleftrightarrow>
     {start..stop} \<subseteq> {n. \<exists>l \<in> set (hunk_lines h). remote_lineno side l = Some n}"
  by (auto simp: hunk_shows_def list_all_iff list_ex_iff subset_iff less_Suc_eq_le simp del: upt_Suc)

lemma thread_file_SomeD:
  "thread_file files t = Some f \<Longrightarrow>
     f \<in> set files \<and> gt_path t \<in> insert (df_path f) (set_option (df_previous_path f))"
  by (auto simp: thread_file_def or_else_def find_Some_iff split: option.splits)

lemma place_line_ok:
  assumes "place_line f side start_side start_line end_line = Inr target"
  shows "nt_file_id target = df_id f \<and> line_placed f target"
proof -
  obtain s stop where s: "side = Some s" and stop: "end_line = Some stop"
    using assms by (auto simp: place_line_def split: option.splits if_splits)
  define start where "start = (case start_line of Some l \<Rightarrow> l | None \<Rightarrow> stop)"
  have eq: "\<not> stop < start \<and> (case position (hunk_shows s start stop) (df_hunks f) of
      None \<Rightarrow> Inl (missing_lines s start stop)
    | Some i \<Rightarrow> Inr \<lparr>nt_file_id = df_id f,
        nt_old_range = (if s = RemoteLeft then Some \<lparr>lr_start = start, lr_end = stop\<rparr> else None),
        nt_new_range = (if s = RemoteRight then Some \<lparr>lr_start = start, lr_end = stop\<rparr> else None),
        nt_hunk_index = Some i, nt_anchor_side = Some (if s = RemoteLeft then OldSide else NewSide),
        nt_anchor_line = Some stop\<rparr>) = Inr target"
    using assms
    by (cases s; cases "position (hunk_shows s start stop) (df_hunks f)")
       (simp_all add: place_line_def s stop Let_def flip: start_def split: if_splits)
  then have le: "start \<le> stop" by simp
  from eq obtain i where i: "position (hunk_shows s start stop) (df_hunks f) = Some i"
    by (auto split: option.splits)
  from eq have target: "target = \<lparr>nt_file_id = df_id f,
      nt_old_range = (if s = RemoteLeft then Some \<lparr>lr_start = start, lr_end = stop\<rparr> else None),
      nt_new_range = (if s = RemoteRight then Some \<lparr>lr_start = start, lr_end = stop\<rparr> else None),
      nt_hunk_index = Some i, nt_anchor_side = Some (if s = RemoteLeft then OldSide else NewSide),
      nt_anchor_line = Some stop\<rparr>"
    unfolding i by simp
  from position_SomeD [OF i] have "i < length (df_hunks f)" "hunk_shows s start stop (df_hunks f ! i)"
    by auto
  with le show ?thesis
    unfolding line_placed_def target by (auto simp: hunk_shows_iff intro!: exI [of _ s] exI [of _ start])
qed

lemma placed_in_well:
  assumes "placed_in files file_id t = Some x"
  shows "placed_well files file_id x"
proof -
  obtain f where f: "thread_file files t = Some f"
    using assms by (auto simp: placed_in_def place_thread_def split: option.splits)
  note found = thread_file_SomeD [OF f]
  show ?thesis
  proof (cases "gt_subject t")
    case FileSubject
    then have "df_id f = file_id" "pg_thread x = t" "pg_file_level x"
      "nt_hunk_index (pg_target x) = None" "nt_file_id (pg_target x) = df_id f"
      using assms by (auto simp: placed_in_def place_thread_def f split: if_splits)
    with found show ?thesis unfolding placed_well_def by (intro bexI [of _ f]) simp_all
  next
    case (LineSubject side start_side start_line end_line)
    then obtain target where target: "place_line f side start_side start_line end_line = Inr target"
      and x: "df_id f = file_id" "x = \<lparr>pg_thread = t, pg_target = target, pg_file_level = False\<rparr>"
      using assms by (auto simp: placed_in_def place_thread_def f split: sum.splits if_splits)
    show ?thesis
      using place_line_ok [OF target] found unfolding placed_well_def x(2)
      by (intro bexI [of _ f]) (simp_all add: x(1))
  next
    case (Unsupported subject)
    then show ?thesis using assms by (simp add: placed_in_def place_thread_def f)
  qed
qed


end
