(* ===== verification/Selection.thy ===== *)
theory Selection
  imports Rust_Str
begin

text \<open>
  Moving by index (\<open>review/navigation.rs\<close>) and the text a mouse selection copies
  (\<open>review/selection.rs\<close>).

  Display widths are the \<open>unicode_width\<close> crate: \<open>char_width c\<close> is \<open>c.width().unwrap_or(0)\<close> and
  \<open>width s\<close> is the width of a string, which need not be the sum of its characters' widths.
  \<open>alphanumeric\<close> is \<open>char::is_alphanumeric\<close>.
\<close>

section \<open>Moving by index\<close>

text \<open>The code computes in \<open>i64\<close>; an index of a vector plus an \<open>i32\<close> stays in range.\<close>

definition wrapping_index :: "usize \<Rightarrow> usize \<Rightarrow> int \<Rightarrow> usize option" where
  "wrapping_index current len delta =
     (if len = 0 then None
      else Some (nat ((int (min current (len - 1)) + delta) mod int len)))"

definition signed_offset :: "usize \<Rightarrow> int \<Rightarrow> usize \<Rightarrow> usize" where
  "signed_offset value delta amount =
     (let distance = sat_mul usize_max amount (nat \<bar>delta\<bar>)
      in if delta < 0 then value - distance else sat_add usize_max value distance)"

lemma wrapping_index_bound: "wrapping_index current len delta = Some i \<Longrightarrow> i < len"
  by (auto simp: wrapping_index_def nat_less_iff split: if_splits)

lemma wrapping_index_None [simp]: "wrapping_index current len delta = None \<longleftrightarrow> len = 0"
  by (simp add: wrapping_index_def)

text \<open>A step back undoes a step.\<close>

lemma wrapping_index_undo:
  assumes "i < len"
  shows "wrapping_index (the (wrapping_index i len d)) len (- d) = Some i"
proof -
  define k where "k = nat ((int i + d) mod int len)"
  have len: "0 < len" using assms by simp
  then have k: "int k = (int i + d) mod int len" by (simp add: k_def)
  then have "k < len" using len by (metis of_nat_less_iff pos_mod_bound of_nat_0_less_iff)
  moreover have "wrapping_index i len d = Some k"
    using assms by (simp add: wrapping_index_def k_def)
  moreover have "(int k + - d) mod int len = int i"
    unfolding k using assms by (simp add: mod_add_left_eq mod_diff_left_eq)
  ultimately show ?thesis using len by (simp add: wrapping_index_def)
qed

lemma wrapping_index_one: "i < len \<Longrightarrow> wrapping_index i len 1 = Some (if i + 1 = len then 0 else i + 1)"
proof (cases "i + 1 = len")
  case True
  then have "(int i + 1) mod int len = 0" by (metis mod_self of_nat_Suc Suc_eq_plus1 add.commute)
  with True show ?thesis by (simp add: wrapping_index_def)
next
  case False
  moreover assume "i < len"
  ultimately have "(int i + 1) mod int len = int i + 1" "min i (len - 1) = i" by simp_all
  with False \<open>i < len\<close> show ?thesis by (simp add: wrapping_index_def)
qed

section \<open>Selections\<close>

record selection_point =
  pt_row :: usize
  pt_cell :: usize

definition selection_point_new :: "usize \<Rightarrow> usize \<Rightarrow> selection_point" where
  "selection_point_new row cell = \<lparr>pt_row = row, pt_cell = cell\<rparr>"

datatype selection_row =
    SelStack string usize
  | SelSplit string string usize usize usize

definition sel_stack :: "string \<Rightarrow> selection_row" where
  "sel_stack s = SelStack s 0"

definition sel_split :: "string \<Rightarrow> string \<Rightarrow> usize \<Rightarrow> selection_row" where
  "sel_split l r divider_cell = SelSplit l r divider_cell 0 (sat_add usize_max divider_cell 1)"

datatype selection_side = SideStack | SideLeft | SideRight

text \<open>The loop of \<open>cell_slice\<close>: the cell reached and whether the last wide character was selected.\<close>

fun slice_from :: "(rchar \<Rightarrow> usize) \<Rightarrow> usize \<Rightarrow> usize \<Rightarrow> usize \<Rightarrow> bool \<Rightarrow> rchar list \<Rightarrow> string" where
  "slice_from char_width start stop cell selected [] = []"
| "slice_from char_width start stop cell selected (c # cs) =
     (let w = char_width c;
          finish = sat_add usize_max cell w;
          overlaps = (0 < w \<and> cell < stop \<and> start < finish);
          taken = (overlaps \<or> w = 0 \<and> selected)
      in (if taken then c else []) @
         (if 0 < w then slice_from char_width start stop finish overlaps cs
          else slice_from char_width start stop cell selected cs))"

definition cell_slice :: "(rchar \<Rightarrow> usize) \<Rightarrow> string \<Rightarrow> usize \<Rightarrow> usize \<Rightarrow> string" where
  "cell_slice char_width s start stop =
     (if stop \<le> start then [] else slice_from char_width start stop 0 False (chars s))"

text \<open>The cells of every character, as the \<open>scan\<close> of \<open>word_cell_range\<close> lists them.\<close>

fun char_cells :: "(rchar \<Rightarrow> usize) \<Rightarrow> usize \<Rightarrow> rchar list \<Rightarrow> (rchar \<times> usize \<times> usize) list" where
  "char_cells char_width cell [] = []"
| "char_cells char_width cell (c # cs) =
     (let finish = sat_add usize_max cell (char_width c)
      in (c, cell, finish) # char_cells char_width finish cs)"

definition word_cell_range ::
  "(rchar \<Rightarrow> usize) \<Rightarrow> (rchar \<Rightarrow> bool) \<Rightarrow> string \<Rightarrow> usize \<Rightarrow> usize \<times> usize" where
  "word_cell_range char_width alphanumeric s target_cell =
     (let cells = char_cells char_width 0 (chars s);
          word = (\<lambda>(c, _). alphanumeric c \<or> c = ''_'')
      in case position (\<lambda>(_, start, finish). start \<le> target_cell \<and> target_cell < finish) cells of
           None \<Rightarrow> (target_cell, target_cell)
         | Some index \<Rightarrow>
             if \<not> word (cells ! index) then snd (cells ! index)
             else
               let start = (case rposition (\<lambda>x. \<not> word x) (take index cells) of
                              None \<Rightarrow> 0 | Some boundary \<Rightarrow> boundary + 1);
                   stop = (case position (\<lambda>x. \<not> word x) (drop (index + 1) cells) of
                              None \<Rightarrow> length cells | Some boundary \<Rightarrow> index + 1 + boundary)
               in (fst (snd (cells ! start)), snd (snd (cells ! (stop - 1)))))"

definition line_cell_range :: "(string \<Rightarrow> usize) \<Rightarrow> string \<Rightarrow> usize \<times> usize" where
  "line_cell_range width s = (0, width s)"

fun side_at :: "selection_row \<Rightarrow> usize \<Rightarrow> selection_side" where
  "side_at (SelStack _ _) cell = SideStack"
| "side_at (SelSplit _ _ divider_cell _ _) cell = (if divider_cell < cell then SideRight else SideLeft)"

fun text_for_side :: "selection_row \<Rightarrow> selection_side \<Rightarrow> string" where
  "text_for_side (SelStack s _) side = s"
| "text_for_side (SelSplit l r _ _ _) SideRight = r"
| "text_for_side (SelSplit l r _ _ _) SideLeft = l"
| "text_for_side (SelSplit l r _ _ _) SideStack = l"

fun local_cell :: "selection_row \<Rightarrow> selection_side \<Rightarrow> usize \<Rightarrow> usize" where
  "local_cell (SelStack _ text_cell) side cell = cell - text_cell"
| "local_cell (SelSplit _ _ _ left_text_cell right_text_cell) SideRight cell = cell - right_text_cell"
| "local_cell (SelSplit _ _ _ left_text_cell right_text_cell) SideLeft cell = cell - left_text_cell"
| "local_cell (SelSplit _ _ _ left_text_cell right_text_cell) SideStack cell = cell - left_text_cell"

definition point_le :: "selection_point \<Rightarrow> selection_point \<Rightarrow> bool" where
  "point_le a b \<longleftrightarrow> pt_row a < pt_row b \<or> pt_row a = pt_row b \<and> pt_cell a \<le> pt_cell b"

definition project_row ::
  "(rchar \<Rightarrow> usize) \<Rightarrow> (string \<Rightarrow> usize) \<Rightarrow> selection_side \<Rightarrow> selection_point \<Rightarrow> selection_point
     \<Rightarrow> usize \<Rightarrow> usize \<Rightarrow> selection_row \<Rightarrow> string" where
  "project_row char_width width side start stop last_row row_index row =
     (let s = text_for_side row side;
          w = width s;
          from = (if row_index = pt_row start then min (local_cell row side (pt_cell start)) w else 0);
          upto = (if row_index = last_row then min (local_cell row side (pt_cell stop)) w else w)
      in cell_slice char_width s (min from upto) (max upto from))"

definition project_selection ::
  "(rchar \<Rightarrow> usize) \<Rightarrow> (string \<Rightarrow> usize) \<Rightarrow> selection_row list \<Rightarrow> selection_point \<Rightarrow> selection_point \<Rightarrow> string" where
  "project_selection char_width width rows anchor focus =
     (case get rows (pt_row anchor) of
        None \<Rightarrow> []
      | Some anchor_row \<Rightarrow>
          let side = side_at anchor_row (pt_cell anchor);
              (start, stop) = (if point_le anchor focus then (anchor, focus) else (focus, anchor))
          in if length rows \<le> pt_row start then []
             else
               let last_row = min (pt_row stop) (length rows - 1)
               in join [NL]
                    (map (\<lambda>i. project_row char_width width side start stop last_row i (rows ! i))
                       [pt_row start..<Suc last_row]))"

section \<open>What a slice contains\<close>

text \<open>
  The reference: a text is a sequence of clusters, each a character of positive width with the
  zero-width characters after it. A slice is the clusters whose cells meet the range; zero-width
  characters before the first cluster belong to none.
\<close>

fun clusters_from :: "(rchar \<Rightarrow> usize) \<Rightarrow> nat \<Rightarrow> rchar list \<Rightarrow> (string \<times> nat \<times> nat) list" where
  "clusters_from char_width cell [] = []"
| "clusters_from char_width cell (c # cs) =
     (if char_width c = 0 then clusters_from char_width cell cs
      else (c @ concat (takeWhile (\<lambda>d. char_width d = 0) cs), cell, cell + char_width c)
           # clusters_from char_width (cell + char_width c) cs)"

definition meets :: "nat \<Rightarrow> nat \<Rightarrow> string \<times> nat \<times> nat \<Rightarrow> bool" where
  "meets start stop cluster \<longleftrightarrow> fst (snd cluster) < stop \<and> start < snd (snd cluster)"

definition cells_of :: "(rchar \<Rightarrow> usize) \<Rightarrow> rchar list \<Rightarrow> nat" where
  "cells_of char_width cs = sum_list (map char_width cs)"

lemma slice_from_clusters:
  assumes "cell + cells_of char_width cs \<le> usize_max"
  shows "slice_from char_width start stop cell selected cs =
    (if selected then concat (takeWhile (\<lambda>d. char_width d = 0) cs) else [])
    @ concat (map fst (filter (meets start stop) (clusters_from char_width cell cs)))"
  using assms
proof (induction cs arbitrary: cell selected)
  case (Cons c cs)
  show ?case
  proof (cases "char_width c = 0")
    case True
    with Cons.prems have "cell + cells_of char_width cs \<le> usize_max" by (simp add: cells_of_def)
    from Cons.IH [OF this] True show ?thesis by (simp add: Let_def)
  next
    case False
    from Cons.prems have bound: "cell + char_width c + cells_of char_width cs \<le> usize_max"
      by (simp add: cells_of_def)
    from Cons.IH [OF this] False bound show ?thesis by (simp add: Let_def meets_def)
  qed
qed simp

lemma cell_slice_clusters:
  assumes "cells_of char_width (chars s) \<le> usize_max"
  shows "cell_slice char_width s start stop =
    (if start < stop then concat (map fst (filter (meets start stop) (clusters_from char_width 0 (chars s))))
     else [])"
  using assms by (auto simp: cell_slice_def slice_from_clusters)

section \<open>A selection stays on one side\<close>

text \<open>The column a selection reads: the text of one side and the cell it starts at.\<close>

fun column_row :: "selection_side \<Rightarrow> selection_row \<Rightarrow> selection_row" where
  "column_row side (SelStack s text_cell) = SelStack s text_cell"
| "column_row SideRight (SelSplit l r _ _ right_text_cell) = SelStack r right_text_cell"
| "column_row _ (SelSplit l r _ left_text_cell _) = SelStack l left_text_cell"

lemma column_row_view [simp]:
  "text_for_side (column_row side row) any = text_for_side row side"
  "local_cell (column_row side row) any cell = local_cell row side cell"
  by (cases "(side, row)" rule: column_row.cases; cases side; simp)+

lemma project_row_column:
  "project_row char_width width any start stop last_row i (column_row side row)
    = project_row char_width width side start stop last_row i row"
  by (simp add: project_row_def Let_def)

lemma point_le_total: "point_le a b \<or> point_le b a"
  by (auto simp: point_le_def)

lemma point_le_antisym: "point_le a b \<Longrightarrow> point_le b a \<Longrightarrow> a = b"
  by (auto simp: point_le_def)

text \<open>The selected text, once the ends are ordered and the side is known.\<close>

definition copied ::
  "(rchar \<Rightarrow> usize) \<Rightarrow> (string \<Rightarrow> usize) \<Rightarrow> selection_row list \<Rightarrow> selection_side
     \<Rightarrow> selection_point \<Rightarrow> selection_point \<Rightarrow> string" where
  "copied char_width width rows side start stop =
     join [NL] (map (\<lambda>i. project_row char_width width side start stop (pt_row stop) i (rows ! i))
       [pt_row start..<Suc (pt_row stop)])"

lemma project_selection_copied:
  assumes "pt_row a < length rows" and "pt_row b < length rows"
  shows "project_selection char_width width rows a b =
    (if point_le a b then copied char_width width rows (side_at (rows ! pt_row a) (pt_cell a)) a b
     else copied char_width width rows (side_at (rows ! pt_row a) (pt_cell a)) b a)"
proof -
  have "get rows (pt_row a) = Some (rows ! pt_row a)" using assms by (simp add: get_def)
  moreover have "min (pt_row a) (length rows - 1) = pt_row a" "min (pt_row b) (length rows - 1) = pt_row b"
    using assms by auto
  ultimately show ?thesis using assms by (simp add: project_selection_def copied_def Let_def del: upt_Suc)
qed

lemma copied_column:
  assumes "pt_row a \<le> pt_row b" and "pt_row b < length rows"
  shows "copied char_width width (map (column_row side) rows) any a b = copied char_width width rows side a b"
proof -
  have "map (\<lambda>i. project_row char_width width any a b (pt_row b) i (map (column_row side) rows ! i))
        [pt_row a..<Suc (pt_row b)]
    = map (\<lambda>i. project_row char_width width side a b (pt_row b) i (rows ! i)) [pt_row a..<Suc (pt_row b)]"
    using assms by (auto simp: project_row_column simp del: upt_Suc)
  then show ?thesis unfolding copied_def by (rule arg_cong)
qed

text \<open>
  C26. A selection never mixes the sides of a split view: it copies what the same selection copies
  from the plain column of the side it started on. And when it ends on that side it does not
  matter in which direction it was dragged.
\<close>

theorem selection_one_side:
  assumes "pt_row a < length rows" and "pt_row b < length rows"
  shows "project_selection char_width width rows a b
      = project_selection char_width width
          (map (column_row (side_at (rows ! pt_row a) (pt_cell a))) rows) a b
    \<and> (side_at (rows ! pt_row b) (pt_cell b) = side_at (rows ! pt_row a) (pt_cell a) \<longrightarrow>
         project_selection char_width width rows a b = project_selection char_width width rows b a)"
proof
  let ?side = "side_at (rows ! pt_row a) (pt_cell a)"
  have rows: "pt_row a < length (map (column_row ?side) rows)" "pt_row b < length (map (column_row ?side) rows)"
    using assms by simp_all
  show "project_selection char_width width rows a b
      = project_selection char_width width (map (column_row ?side) rows) a b"
    unfolding project_selection_copied [OF assms] project_selection_copied [OF rows]
    using assms by (auto simp: copied_column point_le_def)
  show "side_at (rows ! pt_row b) (pt_cell b) = ?side \<longrightarrow>
      project_selection char_width width rows a b = project_selection char_width width rows b a"
  proof
    assume "side_at (rows ! pt_row b) (pt_cell b) = ?side"
    then show "project_selection char_width width rows a b = project_selection char_width width rows b a"
      unfolding project_selection_copied [OF assms] project_selection_copied [OF assms(2,1)]
      using point_le_total [of a b] point_le_antisym [of a b] by auto
  qed
qed

definition sample_rows :: "selection_row list" where
  "sample_rows = [SelSplit ''old a'' ''new a'' 10 2 12, SelSplit ''old b'' ''new b'' 10 2 12]"

theorem selection_one_side_witness:
  "project_selection (\<lambda>_. 1) length sample_rows (selection_point_new 0 16) (selection_point_new 1 15)
      = ''a'' @ [NL] @ ''new''
   \<and> project_selection (\<lambda>_. 1) length sample_rows (selection_point_new 1 15) (selection_point_new 0 16)
      = ''a'' @ [NL] @ ''new''"
proof -
  have rows: "pt_row (selection_point_new 0 16) < length sample_rows"
    "pt_row (selection_point_new 1 15) < length sample_rows"
    by (simp_all add: selection_point_new_def sample_rows_def)
  have "project_selection (\<lambda>_. 1) length sample_rows (selection_point_new 0 16) (selection_point_new 1 15)
      = project_selection (\<lambda>_. 1) length sample_rows (selection_point_new 1 15) (selection_point_new 0 16)"
    using conjunct2 [OF selection_one_side [OF rows, of "\<lambda>_. 1" length]]
    by (rule mp) (simp add: selection_point_new_def sample_rows_def)
  moreover have "project_selection (\<lambda>_. 1) length sample_rows (selection_point_new 0 16) (selection_point_new 1 15)
      = ''a'' @ [NL] @ ''new''"
    by code_simp
  ultimately show ?thesis by simp
qed

end
