(* ===== verification/Note_Cards.thy ===== *)
theory Note_Cards
  imports Row_Plan Threads Selection
begin

text \<open>
  The cards of notes between the rows of a file: wrapping their text, building a card for every
  kind of note and weaving the cards into the row plan (the second half of \<open>review/row.rs\<close>).

  \<open>width\<close> and \<open>char_width\<close> are the \<open>unicode_width\<close> crate on strings and characters. \<open>stml\<close> is the
  layout of a note's markup (\<open>markup::layout_stml_cached\<close>), of which this part only uses the
  lines and messages it returns. Sums of widths and positions of one text cannot overflow, as
  the text is in memory; where the code saturates, the model does too.
\<close>

definition MIDDOT :: string where "MIDDOT = [CHR '' '', CHR 0xC2, CHR 0xB7, CHR '' '']"
definition RARROW :: string where "RARROW = [CHR '' '', CHR 0xE2, CHR 0x86, CHR 0x92, CHR '' '']"
definition REPLY :: string where "REPLY = [CHR 0xE2, CHR 0x86, CHR 0xB3]"

section \<open>Wrapping\<close>

record wrapped_line =
  wl_text :: string
  wl_sources :: "usize list"

text \<open>What a line starts with: the kept indentation, its characters, its width and the position
  of the source line.\<close>

record wrap_indent =
  wi_text :: string
  wi_chars :: usize
  wi_width :: usize
  wi_origin :: usize

record wrap_state =
  ws_output :: "wrapped_line list"
  ws_current :: string
  ws_sources :: "usize list"
  ws_width :: usize

definition wrap_start :: "wrap_indent \<Rightarrow> wrapped_line list \<Rightarrow> wrap_state" where
  "wrap_start ind out =
     \<lparr>ws_output = out, ws_current = wi_text ind, ws_sources = replicate (wi_chars ind) (wi_origin ind),
      ws_width = wi_width ind\<rparr>"

definition current_line :: "wrap_state \<Rightarrow> wrapped_line" where
  "current_line st = \<lparr>wl_text = ws_current st, wl_sources = ws_sources st\<rparr>"

definition emit_line :: "wrap_indent \<Rightarrow> wrap_state \<Rightarrow> wrap_state" where
  "emit_line ind st = wrap_start ind (ws_output st @ [current_line st])"

definition push_char :: "usize \<Rightarrow> rchar \<Rightarrow> usize \<Rightarrow> wrap_state \<Rightarrow> wrap_state" where
  "push_char source c w st =
     st\<lparr>ws_current := ws_current st @ c, ws_sources := ws_sources st @ [source],
        ws_width := sat_add usize_max (ws_width st) w\<rparr>"

text \<open>Before a word: a space if the word still fits, else a new line.\<close>

definition separate_word :: "usize \<Rightarrow> wrap_indent \<Rightarrow> usize \<Rightarrow> usize \<Rightarrow> wrap_state \<Rightarrow> wrap_state" where
  "separate_word width ind word_width source st =
     (if wi_width ind < ws_width st \<and> sat_add usize_max (ws_width st) (1 + word_width) \<le> width
      then push_char source '' '' 1 st
      else if wi_width ind < ws_width st then emit_line ind st
      else st)"

text \<open>One character of a word; a word longer than the pane is broken.\<close>

definition wrap_char ::
  "(rchar \<Rightarrow> usize) \<Rightarrow> usize \<Rightarrow> wrap_indent \<Rightarrow> usize \<times> rchar \<Rightarrow> wrap_state \<Rightarrow> wrap_state" where
  "wrap_char char_width width ind numbered st =
     (case numbered of (source, c) \<Rightarrow>
       let w = char_width c;
           st = (if wi_width ind < ws_width st \<and> width < sat_add usize_max (ws_width st) w
                 then emit_line ind st else st)
       in push_char source c w st)"

definition word_of :: "rchar list \<Rightarrow> rchar list" where
  "word_of rest = takeWhile (\<lambda>c. \<not> is_white c) (dropWhile is_white rest)"

definition after_word :: "rchar list \<Rightarrow> rchar list" where
  "after_word rest = dropWhile (\<lambda>c. \<not> is_white c) (dropWhile is_white rest)"

lemma dropWhile_shorter: "length (dropWhile p xs) \<le> length xs"
  by (induction xs) auto

lemma after_word_shorter:
  assumes "dropWhile is_white rest \<noteq> []"
  shows "length (after_word rest) < length rest"
proof -
  obtain c cs where cs: "dropWhile is_white rest = c # cs" using assms by (cases "dropWhile is_white rest") auto
  then have "\<not> is_white c" by (metis dropWhile_eq_Cons_conv)
  then have "length (after_word rest) \<le> length cs"
    by (simp add: after_word_def cs dropWhile_shorter)
  also have "length cs < length rest" using dropWhile_shorter [of is_white rest] by (simp add: cs)
  finally show ?thesis .
qed

function wrap_words ::
  "(string \<Rightarrow> usize) \<Rightarrow> (rchar \<Rightarrow> usize) \<Rightarrow> usize \<Rightarrow> wrap_indent \<Rightarrow> usize \<Rightarrow> rchar list \<Rightarrow> wrap_state \<Rightarrow> wrap_state" where
  "wrap_words str_width char_width width ind cursor rest st =
     (if dropWhile is_white rest = [] then st
      else
        let leading = length (takeWhile is_white rest);
            cursor = cursor + leading;
            word = word_of rest;
            st = separate_word width ind (str_width (concat word)) (wi_origin ind + cursor - leading) st;
            first = wi_origin ind + cursor;
            st = fold (wrap_char char_width width ind) (zip [first..<first + length word] word) st
        in wrap_words str_width char_width width ind (cursor + length word) (after_word rest) st)"
  by pat_completeness auto
termination
  by (relation "measure (\<lambda>(_, _, _, _, _, rest, _). length rest)") (auto simp: after_word_shorter)

declare wrap_words.simps [simp del]

definition line_indent :: "(string \<Rightarrow> usize) \<Rightarrow> usize \<Rightarrow> usize \<Rightarrow> rchar list \<Rightarrow> wrap_indent" where
  "line_indent str_width width line_origin cs =
     (let lead = takeWhile is_white cs;
          kept = (if sat_add usize_max (str_width (concat lead)) 4 \<le> width then lead else [])
      in \<lparr>wi_text = concat kept, wi_chars = length kept, wi_width = str_width (concat kept),
          wi_origin = line_origin\<rparr>)"

definition wrap_line ::
  "(string \<Rightarrow> usize) \<Rightarrow> (rchar \<Rightarrow> usize) \<Rightarrow> usize \<Rightarrow> string
     \<Rightarrow> wrapped_line list \<times> usize \<Rightarrow> wrapped_line list \<times> usize" where
  "wrap_line str_width char_width width source_line st =
     (case st of (out, line_origin) \<Rightarrow>
       let cs = chars source_line;
           trimmed = dropWhile is_white cs;
           ind = line_indent str_width width line_origin cs;
           done = wrap_words str_width char_width width ind (length cs - length trimmed) trimmed
                    (wrap_start ind out);
           out = (if wi_width ind < ws_width done then ws_output done @ [current_line done]
                  else if source_line = [] then ws_output done @ [\<lparr>wl_text = [], wl_sources = []\<rparr>]
                  else ws_output done)
       in (out, line_origin + (length cs + 1)))"

definition wrap_note_text_indexed ::
  "(string \<Rightarrow> usize) \<Rightarrow> (rchar \<Rightarrow> usize) \<Rightarrow> string \<Rightarrow> usize \<Rightarrow> wrapped_line list" where
  "wrap_note_text_indexed str_width char_width s width =
     (let out = fst (fold (wrap_line str_width char_width (max width 1)) (lines s) ([], 0))
      in if out = [] then [\<lparr>wl_text = [], wl_sources = []\<rparr>] else out)"

definition wrap_note_text :: "(string \<Rightarrow> usize) \<Rightarrow> (rchar \<Rightarrow> usize) \<Rightarrow> string \<Rightarrow> usize \<Rightarrow> string list" where
  "wrap_note_text str_width char_width s width = map wl_text (wrap_note_text_indexed str_width char_width s width)"

fun caret_row :: "usize \<Rightarrow> usize \<Rightarrow> wrapped_line list \<Rightarrow> (usize \<times> wrapped_line \<times> usize) option" where
  "caret_row caret row [] = None"
| "caret_row caret row (l # ls) =
     (case position (\<lambda>source. caret \<le> source) (wl_sources l) of
        Some i \<Rightarrow> Some (row, l, i)
      | None \<Rightarrow> caret_row caret (Suc row) ls)"

definition caret_cell ::
  "(string \<Rightarrow> usize) \<Rightarrow> (rchar \<Rightarrow> usize) \<Rightarrow> wrapped_line list \<Rightarrow> usize \<Rightarrow> usize \<times> usize" where
  "caret_cell str_width char_width ls caret =
     (case caret_row caret 0 ls of
        Some (row, l, i) \<Rightarrow> (row, sum_list (map char_width (take i (chars (wl_text l)))))
      | None \<Rightarrow> (length ls - 1, if ls = [] then 0 else str_width (wl_text (last ls))))"

section \<open>Wrapping fits and loses nothing\<close>

text \<open>The widths a terminal gives: those of a string add up, a character has at most two cells.\<close>

definition widths_ok :: "(string \<Rightarrow> usize) \<Rightarrow> (rchar \<Rightarrow> usize) \<Rightarrow> bool" where
  "widths_ok str_width char_width \<longleftrightarrow>
     (\<forall>s. str_width s = cells_of char_width (chars s)) \<and> (\<forall>c. char_width c \<le> 2) \<and> char_width '' '' = 1"

definition line_fits :: "(rchar \<Rightarrow> usize) \<Rightarrow> nat \<Rightarrow> wrapped_line \<Rightarrow> bool" where
  "line_fits char_width B l \<longleftrightarrow> encoded (wl_text l) \<and> cells_of char_width (chars (wl_text l)) \<le> B"

definition shown_chars :: "wrapped_line list \<Rightarrow> rchar list" where
  "shown_chars ls = concat (map (\<lambda>l. visible (chars (wl_text l))) ls)"

definition indent_ok :: "(rchar \<Rightarrow> usize) \<Rightarrow> nat \<Rightarrow> wrap_indent \<Rightarrow> bool" where
  "indent_ok char_width B ind \<longleftrightarrow>
     encoded (wi_text ind) \<and> wi_width ind = cells_of char_width (chars (wi_text ind))
     \<and> visible (chars (wi_text ind)) = [] \<and> wi_width ind + 2 \<le> B"

definition wrap_ok :: "(rchar \<Rightarrow> usize) \<Rightarrow> nat \<Rightarrow> wrap_indent \<Rightarrow> wrap_state \<Rightarrow> bool" where
  "wrap_ok char_width B ind st \<longleftrightarrow>
     list_all (line_fits char_width B) (ws_output st)
     \<and> encoded (ws_current st) \<and> ws_width st = cells_of char_width (chars (ws_current st))
     \<and> ws_width st \<le> B \<and> wi_width ind \<le> ws_width st
     \<and> (ws_width st = wi_width ind \<longrightarrow> visible (chars (ws_current st)) = [])"

definition wrapped :: "wrap_state \<Rightarrow> rchar list" where
  "wrapped st = shown_chars (ws_output st) @ visible (chars (ws_current st))"

lemma shown_chars_simps [simp]: "shown_chars [] = []" "shown_chars (a @ b) = shown_chars a @ shown_chars b"
  "shown_chars [l] = visible (chars (wl_text l))"
  by (simp_all add: shown_chars_def)

lemma space_facts [simp]: "is_white '' ''" "rchar_ok '' ''"
  by (simp_all add: is_white_def white_space_def)

lemma emit_line_ok:
  assumes "indent_ok char_width B ind" and "wrap_ok char_width B ind st"
  shows "wrap_ok char_width B ind (emit_line ind st)" and "wrapped (emit_line ind st) = wrapped st"
    and "ws_width (emit_line ind st) = wi_width ind"
  using assms
  by (auto simp: emit_line_def wrap_start_def current_line_def wrap_ok_def indent_ok_def line_fits_def wrapped_def)

lemma push_char_ok:
  assumes "wrap_ok char_width B ind st" and "rchar_ok c" and "is_white c \<or> 0 < char_width c"
    and "ws_width st + char_width c \<le> B" and "B \<le> usize_max"
  shows "wrap_ok char_width B ind (push_char source c (char_width c) st)"
    and "wrapped (push_char source c (char_width c) st) = wrapped st @ visible [c]"
  using assms
  by (auto simp: wrap_ok_def push_char_def wrapped_def chars_append chars_rchar encoded_append encoded_rchar cells_of_def)

lemma separate_word_ok:
  assumes "widths_ok str_width char_width" and "indent_ok char_width B ind" and "wrap_ok char_width B ind st"
    and "width \<le> B" and "B < usize_max"
  shows "wrap_ok char_width B ind (separate_word width ind word_width source st)
    \<and> wrapped (separate_word width ind word_width source st) = wrapped st"
proof -
  have one: "char_width '' '' = 1" using assms(1) by (simp add: widths_ok_def)
  show ?thesis
  proof (cases "wi_width ind < ws_width st \<and> sat_add usize_max (ws_width st) (1 + word_width) \<le> width")
    case True
    then have "ws_width st + char_width '' '' \<le> B" using assms(4,5) one by (auto simp: sat_add_def)
    from push_char_ok [OF assms(3) _ _ this, of source] assms(5) True show ?thesis
      by (simp add: separate_word_def one)
  next
    case False
    then show ?thesis using assms(3) emit_line_ok [OF assms(2,3)] by (auto simp: separate_word_def)
  qed
qed

lemma wrap_char_ok:
  assumes "widths_ok str_width char_width" and "indent_ok char_width B ind" and "wrap_ok char_width B ind st"
    and "width \<le> B" and "B < usize_max" and "rchar_ok c" and "is_white c \<or> 0 < char_width c"
  shows "wrap_ok char_width B ind (wrap_char char_width width ind (source, c) st)
    \<and> wrapped (wrap_char char_width width ind (source, c) st) = wrapped st @ visible [c]"
proof -
  have two: "char_width c \<le> 2" using assms(1) by (simp add: widths_ok_def)
  define st' where "st' = (if wi_width ind < ws_width st \<and> width < sat_add usize_max (ws_width st) (char_width c)
      then emit_line ind st else st)"
  have st': "wrap_ok char_width B ind st'" "wrapped st' = wrapped st"
    using emit_line_ok [OF assms(2,3)] assms(3) by (simp_all add: st'_def)
  have "ws_width st' + char_width c \<le> B"
  proof (cases "wi_width ind < ws_width st \<and> width < sat_add usize_max (ws_width st) (char_width c)")
    case True
    then show ?thesis using emit_line_ok(3) [OF assms(2,3)] assms(2) two by (simp add: st'_def indent_ok_def)
  next
    case False
    then show ?thesis using assms(2-5) two
      by (auto simp: st'_def indent_ok_def wrap_ok_def sat_add_def split: if_splits)
  qed
  from push_char_ok [OF st'(1) assms(6,7) this, of source] assms(5) st'(2) show ?thesis
    by (simp add: wrap_char_def Let_def flip: st'_def)
qed

lemma wrap_chars_ok:
  assumes "widths_ok str_width char_width" and "indent_ok char_width B ind" and "wrap_ok char_width B ind st"
    and "width \<le> B" and "B < usize_max"
    and "list_all (\<lambda>(_, c). rchar_ok c \<and> (is_white c \<or> 0 < char_width c)) ncs"
  shows "wrap_ok char_width B ind (fold (wrap_char char_width width ind) ncs st)
    \<and> wrapped (fold (wrap_char char_width width ind) ncs st) = wrapped st @ visible (map snd ncs)"
  using assms(3,6)
proof (induction ncs arbitrary: st)
  case (Cons nc ncs)
  obtain n c where nc: "nc = (n, c)" by (cases nc)
  from Cons.prems have c: "rchar_ok c" "is_white c \<or> 0 < char_width c" by (auto simp: nc)
  note step = wrap_char_ok [OF assms(1,2) Cons.prems(1) assms(4,5) c, of n]
  with Cons.IH [of "wrap_char char_width width ind nc st"] Cons.prems(2) show ?case
    by (simp add: nc)
qed simp

lemma visible_word: "visible (word_of rest) @ visible (after_word rest) = visible rest"
proof -
  have "visible rest = visible (takeWhile is_white rest) @ visible (dropWhile is_white rest)"
    by (metis filter_append takeWhile_dropWhile_id)
  also have "visible (takeWhile is_white rest) = []" by (auto simp: filter_empty_conv dest: set_takeWhileD)
  also have "visible (dropWhile is_white rest) = visible (word_of rest) @ visible (after_word rest)"
    unfolding word_of_def after_word_def by (metis filter_append takeWhile_dropWhile_id)
  finally show ?thesis by simp
qed

lemma word_subset: "set (word_of rest) \<subseteq> set rest" "set (after_word rest) \<subseteq> set rest"
  by (auto simp: word_of_def after_word_def dest!: set_takeWhileD set_dropWhileD)

lemma wrap_words_ok:
  assumes "widths_ok str_width char_width" and "indent_ok char_width B ind"
    and "width \<le> B" and "B < usize_max"
    and "wrap_ok char_width B ind st" and "\<forall>c \<in> set rest. rchar_ok c \<and> (is_white c \<or> 0 < char_width c)"
  shows "wrap_ok char_width B ind (wrap_words str_width char_width width ind cursor rest st)
    \<and> wrapped (wrap_words str_width char_width width ind cursor rest st) = wrapped st @ visible rest"
  using assms(5,6)
proof (induction "length rest" arbitrary: rest cursor st rule: less_induct)
  case less
  show ?case
  proof (cases "dropWhile is_white rest = []")
    case True
    then have "visible rest = []" by (auto simp: filter_empty_conv dropWhile_eq_Nil_conv)
    with True less.prems(1) show ?thesis by (subst (1 2) wrap_words.simps) simp
  next
    case False
    define cursor' where "cursor' = cursor + length (takeWhile is_white rest)"
    define sep where "sep = separate_word width ind (str_width (concat (word_of rest)))
      (wi_origin ind + cursor' - length (takeWhile is_white rest)) st"
    define ncs where "ncs = zip [wi_origin ind + cursor'..<wi_origin ind + cursor' + length (word_of rest)] (word_of rest)"
    define st' where "st' = fold (wrap_char char_width width ind) ncs sep"
    have step: "wrap_words str_width char_width width ind cursor rest st
        = wrap_words str_width char_width width ind (cursor' + length (word_of rest)) (after_word rest) st'"
      by (subst wrap_words.simps) (simp only: False if_False Let_def cursor'_def sep_def ncs_def st'_def)
    have sep: "wrap_ok char_width B ind sep" "wrapped sep = wrapped st"
      using separate_word_ok [OF assms(1,2) less.prems(1) assms(3,4)] by (simp_all add: sep_def)
    have "list_all (\<lambda>(_, c). rchar_ok c \<and> (is_white c \<or> 0 < char_width c)) ncs"
      using less.prems(2) word_subset(1) [of rest]
      by (auto simp: ncs_def list_all_iff dest!: set_zip_rightD)
    from wrap_chars_ok [OF assms(1,2) sep(1) assms(3,4) this] sep(2)
    have st': "wrap_ok char_width B ind st'" "wrapped st' = wrapped st @ visible (word_of rest)"
      by (simp_all add: st'_def ncs_def)
    have "\<forall>c \<in> set (after_word rest). rchar_ok c \<and> (is_white c \<or> 0 < char_width c)"
      using less.prems(2) word_subset(2) [of rest] by auto
    from less.hyps [OF after_word_shorter [OF False] st'(1) this] st'(2) visible_word [of rest] show ?thesis
      unfolding step by simp
  qed
qed

lemma line_indent_ok:
  assumes "widths_ok str_width char_width" and "\<forall>c \<in> set cs. rchar_ok c" and "max width 2 < usize_max"
  shows "indent_ok char_width (max width 2) (line_indent str_width width origin cs)"
proof -
  define lead where "lead = takeWhile is_white cs"
  have lead: "\<forall>c \<in> set lead. rchar_ok c \<and> is_white c"
    using assms(2) by (auto simp: lead_def dest: set_takeWhileD)
  then have ok: "encoded (concat lead)" "chars (concat lead) = lead" "visible lead = []"
    by (simp_all add: encoded_concat chars_concat_ok filter_empty_conv)
  have "str_width s = cells_of char_width (chars s)" for s using assms(1) by (simp add: widths_ok_def)
  with ok assms(3) show ?thesis
    by (auto simp: indent_ok_def line_indent_def Let_def sat_add_def cells_of_def simp flip: lead_def)
qed

lemma wrap_line_ok:
  assumes "widths_ok str_width char_width" and "encoded l" and "max width 2 < usize_max"
    and "\<forall>c \<in> set (chars l). is_white c \<or> 0 < char_width c"
    and "list_all (line_fits char_width (max width 2)) out"
  shows "list_all (line_fits char_width (max width 2)) (fst (wrap_line str_width char_width width l (out, origin)))
    \<and> shown_chars (fst (wrap_line str_width char_width width l (out, origin))) = shown_chars out @ visible (chars l)"
proof -
  let ?B = "max width 2"
  let ?cs = "chars l"
  have cs: "\<forall>c \<in> set ?cs. rchar_ok c" using assms(2) by (simp add: encoded_def)
  define ind where "ind = line_indent str_width width origin ?cs"
  have ind: "indent_ok char_width ?B ind"
    unfolding ind_def by (rule line_indent_ok [OF assms(1) cs assms(3)])
  have start: "wrap_ok char_width ?B ind (wrap_start ind out)" "wrapped (wrap_start ind out) = shown_chars out"
    using ind assms(5) by (auto simp: wrap_ok_def wrap_start_def wrapped_def indent_ok_def)
  define trimmed where "trimmed = dropWhile is_white ?cs"
  have trimmed: "visible trimmed = visible ?cs"
    using takeWhile_dropWhile_id [of is_white ?cs] set_takeWhileD [of _ is_white ?cs]
    by (metis (no_types, lifting) filter_False filter_append append_Nil trimmed_def)
  have rest: "\<forall>c \<in> set trimmed. rchar_ok c \<and> (is_white c \<or> 0 < char_width c)"
    using cs assms(4) by (auto simp: trimmed_def dest: set_dropWhileD)
  define fin where "fin = wrap_words str_width char_width width ind (length ?cs - length trimmed) trimmed (wrap_start ind out)"
  have "width \<le> ?B" by simp
  from wrap_words_ok [OF assms(1) ind this assms(3) start(1) rest] start(2) trimmed
  have fin: "wrap_ok char_width ?B ind fin" "wrapped fin = shown_chars out @ visible ?cs"
    by (simp_all add: fin_def)
  have eq: "fst (wrap_line str_width char_width width l (out, origin)) =
      (if wi_width ind < ws_width fin then ws_output fin @ [current_line fin]
       else if l = [] then ws_output fin @ [\<lparr>wl_text = [], wl_sources = []\<rparr>] else ws_output fin)"
    by (simp add: wrap_line_def Let_def ind_def fin_def trimmed_def)
  show ?thesis
  proof (cases "wi_width ind < ws_width fin")
    case True
    with fin show ?thesis unfolding eq by (auto simp: wrap_ok_def wrapped_def current_line_def line_fits_def)
  next
    case False
    with fin(1) have "visible (chars (ws_current fin)) = []" by (auto simp: wrap_ok_def)
    with fin False show ?thesis unfolding eq
      by (auto simp: wrap_ok_def wrapped_def line_fits_def cells_of_def)
  qed
qed

lemma wrap_lines_ok:
  assumes "widths_ok str_width char_width" and "max width 2 < usize_max"
    and "\<forall>l \<in> set ls. encoded l \<and> (\<forall>c \<in> set (chars l). is_white c \<or> 0 < char_width c)"
    and "list_all (line_fits char_width (max width 2)) (fst st)"
  shows "list_all (line_fits char_width (max width 2)) (fst (fold (wrap_line str_width char_width width) ls st))
    \<and> shown_chars (fst (fold (wrap_line str_width char_width width) ls st))
        = shown_chars (fst st) @ concat (map (\<lambda>l. visible (chars l)) ls)"
  using assms(3,4)
proof (induction ls arbitrary: st)
  case (Cons l ls)
  obtain out origin where st: "st = (out, origin)" by (cases st)
  have "list_all (line_fits char_width (max width 2)) (fst (wrap_line str_width char_width width l st))
      \<and> shown_chars (fst (wrap_line str_width char_width width l st)) = shown_chars (fst st) @ visible (chars l)"
    using wrap_line_ok [OF assms(1) _ assms(2), of l out origin] Cons.prems by (simp add: st)
  with Cons.IH [of "wrap_line str_width char_width width l st"] Cons.prems(1) show ?case by simp
qed simp



end
