(* ===== verification/Markup_Parse.thy ===== *)
theory Markup_Parse
  imports Terminal_Text
begin

text \<open>
  The parser of note markup: \<open>src/markup/parse.rs\<close>. The parser walks over the bytes of its
  source; the model keeps the suffix that is left instead of the offset, so \<open>drop n s\<close> is
  \<open>offset + n\<close> and the empty suffix is \<open>source.len()\<close>. The nodes are collected in an arena of
  which the open elements are a stack of indices; a node refers to its children by index, and
  \<open>materialize\<close> turns the arena into a tree. Indexing the arena out of range and the
  \<open>unreachable!\<close> of \<open>current_children\<close> are panics and give \<open>None\<close>; that \<open>materialize\<close> ends is
  stated by its fuel, the size of the arena.
\<close>

section \<open>Data\<close>

type_synonym attrs = "string \<rightharpoonup> string"

datatype stml_node =
    StmlText string
  | StmlElement string attrs "stml_node list"

record stml_parse_result =
  sp_nodes :: "stml_node list"
  sp_errors :: "string list"

record stml_parse_limits =
  max_input_bytes :: usize
  max_nodes :: usize
  max_depth :: usize
  max_errors :: usize

definition stml_parse_limits_default :: stml_parse_limits where
  "stml_parse_limits_default =
     \<lparr>max_input_bytes = 65536, max_nodes = 2000, max_depth = 32, max_errors = 20\<rparr>"

datatype arena_node =
    ArenaText string
  | ArenaElement string attrs "usize list"

record stml_parser =
  pa_limits :: stml_parse_limits
  pa_arena :: "arena_node list"
  pa_roots :: "usize list"
  pa_stack :: "usize list"
  pa_errors :: "string list"
  pa_node_limit_reported :: bool

record open_tag =
  ot_tag :: string
  ot_attrs :: attrs
  ot_self_closing :: bool
  ot_next :: string

section \<open>Scanning\<close>

definition sanitize :: "string \<Rightarrow> string" where
  "sanitize text = sanitize_terminal_text text False"

definition is_void :: "string \<Rightarrow> bool" where
  "is_void tag \<longleftrightarrow> tag \<in> set [''br'', ''hr'', ''rule'', ''divider'', ''spacer'', ''space'']"

definition is_raw :: "string \<Rightarrow> bool" where
  "is_raw tag \<longleftrightarrow> tag \<in> set [''code'', ''pre'']"

definition is_name_byte :: "char \<Rightarrow> bool" where
  "is_name_byte c \<longleftrightarrow> is_ascii_alphanumeric c \<or> c = CHR ''-'' \<or> c = CHR ''_''"

definition is_ascii_alphabetic :: "char \<Rightarrow> bool" where
  "is_ascii_alphabetic c \<longleftrightarrow> 65 \<le> code c \<and> code c \<le> 90 \<or> 97 \<le> code c \<and> code c \<le> 122"

text \<open>\<open>u8::is_ascii_whitespace\<close>\<close>

definition is_ascii_space :: "char \<Rightarrow> bool" where
  "is_ascii_space c \<longleftrightarrow> c \<in> set [CHR '' '', TAB, NL, CHR 0x0C, CR]"

definition skip_space :: "string \<Rightarrow> string" where
  "skip_space s = dropWhile is_ascii_space s"

definition find_case_insensitive :: "string \<Rightarrow> string \<Rightarrow> usize option" where
  "find_case_insensitive s needle = find_sub (to_ascii_lowercase needle) (to_ascii_lowercase s)"

text \<open>The suffix after the first \<open>p\<close>, or the empty one.\<close>

definition after_sub :: "string \<Rightarrow> string \<Rightarrow> string" where
  "after_sub p s = (case find_sub p s of None \<Rightarrow> [] | Some i \<Rightarrow> drop (i + length p) s)"

definition read_attribute_value :: "string \<Rightarrow> string \<times> string" where
  "read_attribute_value s =
     (case s of
        [] \<Rightarrow> ([], [])
      | c # r \<Rightarrow>
          if c = DQUOTE \<or> c = CHR 0x27
          then (takeWhile (\<lambda>b. b \<noteq> c) r, drop 1 (dropWhile (\<lambda>b. b \<noteq> c) r))
          else let plain = (\<lambda>b. \<not> is_ascii_space b \<and> b \<noteq> CHR ''>'' \<and> b \<noteq> CHR ''/'')
               in (takeWhile plain s, dropWhile plain s))"

lemma length_dropWhile: "length (dropWhile p s) \<le> length s"
  by (rule length_dropWhile_le)

lemma read_attribute_value_shorter: "length (snd (read_attribute_value s)) \<le> length s"
proof (cases s)
  case (Cons c r)
  have "length (dropWhile (\<lambda>b. b \<noteq> c) r) - 1 \<le> Suc (length r)"
    using length_dropWhile [of "\<lambda>b. b \<noteq> c" r] by simp
  with Cons show ?thesis
    using length_dropWhile [of _ s] by (auto simp: read_attribute_value_def Let_def simp del: dropWhile.simps)
qed (simp add: read_attribute_value_def)

text \<open>The value of an attribute whose name has been read.\<close>

definition attribute_value :: "string \<Rightarrow> string \<times> string" where
  "attribute_value s =
     (let s = skip_space s
      in case s of
           [] \<Rightarrow> ([], s)
         | c # r \<Rightarrow> if c = CHR ''='' then read_attribute_value (skip_space r) else ([], s))"

lemma attribute_value_shorter: "length (snd (attribute_value s)) \<le> length s"
proof -
  have "length (skip_space s) \<le> length s" by (simp add: skip_space_def length_dropWhile)
  moreover have "length (snd (read_attribute_value (skip_space r))) \<le> length r" for r
    using read_attribute_value_shorter [of "skip_space r"] length_dropWhile [of is_ascii_space r]
    unfolding skip_space_def by linarith
  ultimately show ?thesis
    by (auto simp: attribute_value_def Let_def split: list.splits intro: order_trans) (meson le_SucI order_trans)
qed

function read_attrs :: "string \<Rightarrow> attrs \<Rightarrow> (attrs \<times> bool \<times> string) option" where
  "read_attrs s attrs =
     (case skip_space s of
        [] \<Rightarrow> None
      | c # r \<Rightarrow>
          if c = CHR ''>'' then Some (attrs, False, r)
          else if c = CHR ''/'' \<and> get r 0 = Some (CHR ''>'') then Some (attrs, True, drop 1 r)
          else let name = takeWhile is_name_byte (c # r)
               in if name = [] then read_attrs r attrs
                  else let v = attribute_value (dropWhile is_name_byte (c # r))
                       in read_attrs (snd v) (attrs(to_ascii_lowercase name \<mapsto> sanitize (fst v))))"
  by pat_completeness auto
termination
proof (relation "measure (\<lambda>(s, attrs). length s)", goal_cases)
  case 1
  then show ?case by simp
next
  case (2 s attrs c r name)
  then show ?case using length_dropWhile [of is_ascii_space s] by (simp add: skip_space_def)
next
  case (3 s attrs c r name v)
  then have "is_name_byte c" by (auto split: if_splits)
  then have "length (dropWhile is_name_byte (c # r)) \<le> length r"
    using length_dropWhile [of is_name_byte r] by simp
  moreover have "length (snd v) \<le> length (dropWhile is_name_byte (c # r))"
    using 3 attribute_value_shorter by simp
  moreover have "Suc (length r) \<le> length s"
    using 3(1) length_dropWhile [of is_ascii_space s] by (simp add: skip_space_def)
  ultimately show ?case by simp
qed

declare read_attrs.simps [simp del]

definition read_open_tag :: "string \<Rightarrow> open_tag option" where
  "read_open_tag s =
     (let name = takeWhile is_name_byte (drop 1 s)
      in if name = [] then None
         else map_option
           (\<lambda>(attrs, self_closing, rest).
              \<lparr>ot_tag = to_ascii_lowercase name, ot_attrs = attrs, ot_self_closing = self_closing,
               ot_next = rest\<rparr>)
           (read_attrs (dropWhile is_name_byte (drop 1 s)) Map.empty))"

definition truncate_utf8 :: "string \<Rightarrow> usize \<Rightarrow> string \<times> bool" where
  "truncate_utf8 input max_bytes =
     (if length input \<le> max_bytes then (input, False)
      else (take (last (filter (\<lambda>i. i = 0 \<or> char_boundary input i) [0..<Suc max_bytes])) input, True))"

section \<open>The arena\<close>

definition parser_error :: "string \<Rightarrow> stml_parser \<Rightarrow> stml_parser" where
  "parser_error message p =
     (if length (pa_errors p) < max_errors (pa_limits p)
      then p\<lparr>pa_errors := pa_errors p @ [message]\<rparr> else p)"

definition reserve_node :: "stml_parser \<Rightarrow> bool \<times> stml_parser" where
  "reserve_node p =
     (if length (pa_arena p) < max_nodes (pa_limits p) then (True, p)
      else (False,
        if pa_node_limit_reported p then p
        else (parser_error (''node limit reached at '' @ nat_str (max_nodes (pa_limits p))
                @ '' node(s); remaining markup ignored'') p)\<lparr>pa_node_limit_reported := True\<rparr>))"

definition add_child :: "usize \<Rightarrow> arena_node \<Rightarrow> arena_node" where
  "add_child index n =
     (case n of
        ArenaText text \<Rightarrow> ArenaText text
      | ArenaElement tag attrs children \<Rightarrow> ArenaElement tag attrs (children @ [index]))"

definition add_child_at :: "usize \<Rightarrow> usize \<Rightarrow> stml_parser \<Rightarrow> stml_parser option" where
  "add_child_at parent index p =
     (case get (pa_arena p) parent of
        None \<Rightarrow> None
      | Some n \<Rightarrow> Some (p\<lparr>pa_arena := (pa_arena p)[parent := add_child index n]\<rparr>))"

definition attach :: "usize \<Rightarrow> stml_parser \<Rightarrow> stml_parser option" where
  "attach index p =
     (if pa_stack p = [] then Some (p\<lparr>pa_roots := pa_roots p @ [index]\<rparr>)
      else add_child_at (last (pa_stack p)) index p)"

definition current_children :: "stml_parser \<Rightarrow> usize list option" where
  "current_children p =
     (if pa_stack p = [] then Some (pa_roots p)
      else (case get (pa_arena p) (last (pa_stack p)) of
              Some (ArenaElement tag attrs children) \<Rightarrow> Some children
            | _ \<Rightarrow> None))"

definition push_node :: "arena_node \<Rightarrow> stml_parser \<Rightarrow> stml_parser" where
  "push_node n p = p\<lparr>pa_arena := pa_arena p @ [n]\<rparr>"

definition push_element :: "string \<Rightarrow> attrs \<Rightarrow> stml_parser \<Rightarrow> (usize option \<times> stml_parser) option" where
  "push_element tag attrs p =
     (case reserve_node p of
        (False, p) \<Rightarrow> Some (None, p)
      | (True, p) \<Rightarrow>
          let index = length (pa_arena p)
          in map_option (Pair (Some index)) (attach index (push_node (ArenaElement tag attrs []) p)))"

definition push_new_text :: "string \<Rightarrow> stml_parser \<Rightarrow> stml_parser option" where
  "push_new_text text p =
     (case reserve_node p of
        (False, p) \<Rightarrow> Some p
      | (True, p) \<Rightarrow> attach (length (pa_arena p)) (push_node (ArenaText text) p))"

definition push_text :: "string \<Rightarrow> stml_parser \<Rightarrow> stml_parser option" where
  "push_text text p =
     (let text = sanitize text
      in if text = [] then Some p
         else do {
           siblings \<leftarrow> current_children p;
           if siblings = [] then push_new_text text p
           else do {
             n \<leftarrow> get (pa_arena p) (last siblings);
             case n of
               ArenaText existing \<Rightarrow> Some (p\<lparr>pa_arena := (pa_arena p)[last siblings := ArenaText (existing @ text)]\<rparr>)
             | ArenaElement _ _ _ \<Rightarrow> push_new_text text p
           }
         })"

definition push_text_child :: "usize \<Rightarrow> string \<Rightarrow> stml_parser \<Rightarrow> stml_parser option" where
  "push_text_child parent text p =
     (let text = sanitize text
      in if text = [] then Some p
         else (case reserve_node p of
                 (False, p) \<Rightarrow> Some p
               | (True, p) \<Rightarrow> add_child_at parent (length (pa_arena p)) (push_node (ArenaText text) p)))"

definition node_tag :: "arena_node \<Rightarrow> string option" where
  "node_tag n = (case n of ArenaText _ \<Rightarrow> None | ArenaElement tag _ _ \<Rightarrow> Some tag)"

text \<open>\<open>self.arena[*index]\<close> for the open elements.\<close>

definition stack_nodes :: "stml_parser \<Rightarrow> arena_node list option" where
  "stack_nodes p = those (map (get (pa_arena p)) (pa_stack p))"

definition close_tag :: "string \<Rightarrow> stml_parser \<Rightarrow> (string \<times> stml_parser) option" where
  "close_tag s p =
     (let name = to_ascii_lowercase (takeWhile is_name_byte (drop 2 s));
          rest = after_sub ''>'' (dropWhile is_name_byte (drop 2 s))
      in map_option
           (\<lambda>nodes.
              (rest,
               case rposition (\<lambda>n. node_tag n = Some name) nodes of
                 None \<Rightarrow> parser_error (''stray closing tag </'' @ name @ ''>'') p
               | Some index \<Rightarrow>
                   let implicitly_closed = length (pa_stack p) - (index + 1);
                       p = (if 0 < implicitly_closed
                            then parser_error (''closing </'' @ name @ ''> implicitly closed ''
                                   @ nat_str implicitly_closed @ '' tag(s)'') p
                            else p)
                   in p\<lparr>pa_stack := take index (pa_stack p)\<rparr>))
           (stack_nodes p))"

section \<open>The loop\<close>

text \<open>What one round of the loop does: leave it, or go on behind what it has read.\<close>

datatype round = Break stml_parser | Continue string stml_parser

definition raw_element :: "string \<Rightarrow> usize \<Rightarrow> string \<Rightarrow> stml_parser \<Rightarrow> round option" where
  "raw_element tag index s p =
     (case find_case_insensitive s (''</'' @ tag) of
        Some stop \<Rightarrow> map_option (Continue (after_sub ''>'' (drop stop s))) (push_text_child index (take stop s) p)
      | None \<Rightarrow>
          map_option (\<lambda>p. Continue [] (parser_error (''unclosed <'' @ tag @ ''>'') p)) (push_text_child index s p))"

definition element_round :: "open_tag \<Rightarrow> stml_parser \<Rightarrow> round option" where
  "element_round tag p =
     (if max_depth (pa_limits p) \<le> length (pa_stack p)
      then Some (Continue (ot_next tag)
        (parser_error (''depth limit reached at <'' @ ot_tag tag @ ''> ('' @ nat_str (max_depth (pa_limits p))
           @ '' level(s))'') p))
      else do {
        (index, p) \<leftarrow> push_element (ot_tag tag) (ot_attrs tag) p;
        case index of
          None \<Rightarrow> Some (Break p)
        | Some index \<Rightarrow>
            if ot_self_closing tag \<or> is_void (ot_tag tag) then Some (Continue (ot_next tag) p)
            else if is_raw (ot_tag tag) then raw_element (ot_tag tag) index (ot_next tag) p
            else Some (Continue (ot_next tag) (p\<lparr>pa_stack := pa_stack p @ [index]\<rparr>))
      })"

text \<open>The round at an opening bracket \<open><\<close>, the first byte of \<open>s\<close>.\<close>

definition bracket_round :: "string \<Rightarrow> stml_parser \<Rightarrow> round option" where
  "bracket_round s p =
     (if starts_with s ''<!--'' then Some (Continue (after_sub ''-->'' (drop 4 s)) p)
      else (case get s 1 of
              Some c \<Rightarrow>
                if c = CHR ''/'' then map_option (\<lambda>(rest, p). Continue rest p) (close_tag s p)
                else if \<not> is_ascii_alphabetic c then map_option (Continue (drop 1 s)) (push_text ''<'' p)
                else (case read_open_tag s of
                        None \<Rightarrow> map_option (Continue (drop 1 s)) (push_text ''<'' p)
                      | Some tag \<Rightarrow> element_round tag p)
            | None \<Rightarrow> map_option Break (push_text ''<'' p)))"

definition parse_round :: "string \<Rightarrow> stml_parser \<Rightarrow> round option" where
  "parse_round s p =
     (case position (\<lambda>c. c = CHR ''<'') s of
        None \<Rightarrow> map_option Break (push_text s p)
      | Some relative \<Rightarrow> do {
          p \<leftarrow> (if 0 < relative then push_text (take relative s) p else Some p);
          if pa_node_limit_reported p then Some (Break p) else bracket_round (drop relative s) p
        })"

lemma read_attrs_shorter: "read_attrs s attrs = Some (a, b, rest) \<Longrightarrow> length rest < length s"
proof (induction s attrs rule: read_attrs.induct)
  case (1 s attrs)
  show ?case
  proof (cases "skip_space s")
    case Nil
    with "1.prems" show ?thesis by (subst (asm) read_attrs.simps) simp
  next
    case (Cons c r)
    have len: "Suc (length r) \<le> length s"
      using Cons length_dropWhile [of is_ascii_space s] by (simp add: skip_space_def)
    define name where "name = takeWhile is_name_byte (c # r)"
    define v where "v = attribute_value (dropWhile is_name_byte (c # r))"
    have v: "length (snd v) \<le> Suc (length r)"
      using attribute_value_shorter [of "dropWhile is_name_byte (c # r)"] length_dropWhile [of is_name_byte "c # r"]
      by (simp add: v_def)
    consider (closes) "c = CHR ''>''" | (self) "c \<noteq> CHR ''>''" "c = CHR ''/''" "get r 0 = Some (CHR ''>'')"
      | (skip) "c \<noteq> CHR ''>''" "\<not> (c = CHR ''/'' \<and> get r 0 = Some (CHR ''>''))" "name = []"
      | (attr) "c \<noteq> CHR ''>''" "\<not> (c = CHR ''/'' \<and> get r 0 = Some (CHR ''>''))" "name \<noteq> []"
      by blast
    then show ?thesis
    proof cases
      case closes
      with "1.prems" Cons len show ?thesis by (subst (asm) read_attrs.simps) simp
    next
      case self
      with "1.prems" Cons len show ?thesis by (subst (asm) read_attrs.simps) auto
    next
      case skip
      with "1.prems" Cons have "read_attrs r attrs = Some (a, b, rest)"
        by (subst (asm) read_attrs.simps) (auto simp: name_def Let_def simp del: takeWhile.simps dropWhile.simps)
      from "1.IH"(1) [OF Cons skip(1,2) name_def skip(3) this] len show ?thesis by simp
    next
      case attr
      with "1.prems" Cons have "read_attrs (snd v) (attrs(to_ascii_lowercase name \<mapsto> sanitize (fst v))) = Some (a, b, rest)"
        by (subst (asm) read_attrs.simps) (auto simp: name_def v_def Let_def simp del: takeWhile.simps dropWhile.simps)
      from "1.IH"(2) [OF Cons attr(1,2) name_def attr(3) v_def this] len v show ?thesis by simp
    qed
  qed
qed

lemma length_after_sub: "length (after_sub p s) \<le> length s"
  by (auto simp: after_sub_def split: option.splits)

lemma read_open_tag_shorter: "read_open_tag s = Some tag \<Longrightarrow> length (ot_next tag) < length s"
proof -
  assume "read_open_tag s = Some tag"
  then obtain a b where "read_attrs (dropWhile is_name_byte (drop 1 s)) Map.empty = Some (a, b, ot_next tag)"
    by (auto simp: read_open_tag_def Let_def split: if_splits)
  from read_attrs_shorter [OF this] length_dropWhile [of is_name_byte "drop 1 s"]
  show ?thesis by simp
qed

lemma element_round_shorter:
  assumes "element_round tag p = Some (Continue r q)"
  shows "length r \<le> length (ot_next tag)"
proof -
  have raw: "raw_element t i s p' = Some (Continue r q) \<Longrightarrow> length r \<le> length s" for t i s p'
    using length_after_sub [of "''>''"] by (fastforce simp: raw_element_def split: option.splits intro: order_trans)
  show ?thesis using assms raw
    by (auto simp: element_round_def Let_def bind_eq_Some_conv split: if_splits option.splits)
qed

lemma bracket_round_shorter:
  assumes "bracket_round s p = Some (Continue r q)" and "s \<noteq> []"
  shows "length r < length s"
proof -
  have close: "close_tag s p = Some (r, q) \<Longrightarrow> length r \<le> length (drop 2 s)"
    using length_after_sub [of "''>''" "dropWhile is_name_byte (drop 2 s)"] length_dropWhile [of is_name_byte "drop 2 s"]
    by (auto simp: close_tag_def Let_def)
  have comment: "length (after_sub ''-->'' (drop 4 s)) < length s"
    using length_after_sub [of "''-->''" "drop 4 s"] assms(2) by (cases s) auto
  have tag: "read_open_tag s = Some tag \<Longrightarrow> element_round tag p = Some (Continue r q) \<Longrightarrow> length r < length s" for tag
    using read_open_tag_shorter [of s tag] element_round_shorter [of tag p r q] by simp
  have short: "length (drop 2 s) < length s" "length (drop 1 s) < length s" using assms(2) by (cases s; simp)+
  from assms(1) show ?thesis
    using close comment tag short
    by (auto simp: bracket_round_def split: if_splits option.splits)
qed

lemma parse_round_shorter:
  assumes "parse_round s p = Some (Continue r q)"
  shows "length r < length s"
proof -
  obtain i p' where i: "position (\<lambda>c. c = CHR ''<'') s = Some i" and "bracket_round (drop i s) p' = Some (Continue r q)"
    using assms by (auto simp: parse_round_def bind_eq_Some_conv split: option.splits if_splits)
  with bracket_round_shorter [of "drop i s" p' r q] position_SomeD [OF i] show ?thesis by simp
qed

function parse_loop :: "string \<Rightarrow> stml_parser \<Rightarrow> stml_parser option" where
  "parse_loop s p =
     (if s = [] \<or> pa_node_limit_reported p then Some p
      else (case parse_round s p of
              None \<Rightarrow> None
            | Some (Break p) \<Rightarrow> Some p
            | Some (Continue rest p) \<Rightarrow> parse_loop rest p))"
  by pat_completeness auto
termination
  by (relation "measure (\<lambda>(s, p). length s)") (auto dest: parse_round_shorter)

declare parse_loop.simps [simp del]

definition report_unclosed :: "stml_parser \<Rightarrow> stml_parser option" where
  "report_unclosed p =
     (if pa_stack p = [] then Some p
      else map_option
        (\<lambda>nodes. parser_error (''unclosed tag(s): ''
           @ join '', '' (List.map_filter (\<lambda>n. map_option (\<lambda>tag. ''<'' @ tag @ ''>'') (node_tag n)) nodes)) p)
        (stack_nodes p))"

definition run_parser :: "string \<Rightarrow> stml_parser \<Rightarrow> stml_parser option" where
  "run_parser s p = Option.bind (parse_loop s p) report_unclosed"

section \<open>The tree\<close>

text \<open>The recursion of \<open>materialize\<close>, at most \<open>fuel\<close> calls deep.\<close>

fun materialize :: "nat \<Rightarrow> arena_node list \<Rightarrow> usize \<Rightarrow> stml_node option" where
  "materialize 0 arena index = None"
| "materialize (Suc fuel) arena index =
     (case get arena index of
        None \<Rightarrow> None
      | Some (ArenaText text) \<Rightarrow> Some (StmlText text)
      | Some (ArenaElement tag attrs children) \<Rightarrow>
          map_option (StmlElement tag attrs) (those (map (materialize fuel arena) children)))"

definition parser_start :: "stml_parse_limits \<Rightarrow> stml_parser" where
  "parser_start limits =
     \<lparr>pa_limits = limits, pa_arena = [], pa_roots = [], pa_stack = [], pa_errors = [],
      pa_node_limit_reported = False\<rparr>"

definition parse_stml :: "string \<Rightarrow> stml_parse_limits \<Rightarrow> stml_parse_result option" where
  "parse_stml input limits =
     (let (source, truncated) = truncate_utf8 input (max_input_bytes limits);
          p = (if truncated
               then parser_error (''input truncated at '' @ nat_str (max_input_bytes limits) @ '' byte(s)'')
                      (parser_start limits)
               else parser_start limits)
      in do {
        p \<leftarrow> run_parser source p;
        nodes \<leftarrow> those (map (materialize (length (pa_arena p)) (pa_arena p)) (pa_roots p));
        Some \<lparr>sp_nodes = nodes, sp_errors = pa_errors p\<rparr>
      })"

section \<open>Entities\<close>

text \<open>\<open>char::from_u32\<close>, in its UTF-8 encoding: no surrogates, nothing above U+10FFFF.\<close>

definition char_from_u32 :: "nat \<Rightarrow> rchar option" where
  "char_from_u32 n =
     (if 0xD800 \<le> n \<and> n \<le> 0xDFFF \<or> 0x10FFFF < n then None
      else Some (map char_of
        (if n < 0x80 then [n]
         else if n < 0x800 then [0xC0 + n div 64, 0x80 + n mod 64]
         else if n < 0x10000 then [0xE0 + n div 4096, 0x80 + n div 64 mod 64, 0x80 + n mod 64]
         else [0xF0 + n div 262144, 0x80 + n div 4096 mod 64, 0x80 + n div 64 mod 64, 0x80 + n mod 64])))"

definition hex_value :: "char \<Rightarrow> nat option" where
  "hex_value c =
     (if is_digit c then Some (code c - 48)
      else if 65 \<le> code c \<and> code c \<le> 70 then Some (code c - 55)
      else if 97 \<le> code c \<and> code c \<le> 102 then Some (code c - 87)
      else None)"

text \<open>\<open>u32::from_str_radix(s, 16)\<close>\<close>

definition parse_hex_uint :: "nat \<Rightarrow> string \<Rightarrow> nat option" where
  "parse_hex_uint m s =
     (let ds = (case s of [] \<Rightarrow> [] | c # cs \<Rightarrow> if c = CHR ''+'' then cs else s)
      in if ds = [] then None
         else (case those (map hex_value ds) of
                 None \<Rightarrow> None
               | Some vs \<Rightarrow> let v = foldl (\<lambda>v d. v * 16 + d) 0 vs in if v \<le> m then Some v else None))"

definition entity_table :: "(string \<times> rchar) list" where
  "entity_table =
     [(''amp'', ''&''), (''lt'', ''<''), (''gt'', ''>''), (''quot'', [DQUOTE]), (''apos'', [CHR 0x27]),
      (''nbsp'', '' ''), (''mdash'', [CHR 0xE2, CHR 0x80, CHR 0x94]), (''ndash'', [CHR 0xE2, CHR 0x80, CHR 0x93]),
      (''hellip'', [CHR 0xE2, CHR 0x80, CHR 0xA6]), (''bull'', [CHR 0xE2, CHR 0x80, CHR 0xA2]),
      (''middot'', [CHR 0xC2, CHR 0xB7]), (''rarr'', [CHR 0xE2, CHR 0x86, CHR 0x92]),
      (''larr'', [CHR 0xE2, CHR 0x86, CHR 0x90]), (''uarr'', [CHR 0xE2, CHR 0x86, CHR 0x91]),
      (''darr'', [CHR 0xE2, CHR 0x86, CHR 0x93]), (''check'', [CHR 0xE2, CHR 0x9C, CHR 0x93]),
      (''cross'', [CHR 0xE2, CHR 0x9C, CHR 0x97]), (''times'', [CHR 0xC3, CHR 0x97])]"

definition decode_entity :: "string \<Rightarrow> rchar option" where
  "decode_entity body =
     (case or_else (strip_prefix body ''#x'') (strip_prefix body ''#X'') of
        Some numeric \<Rightarrow> Option.bind (parse_hex_uint u32_max numeric) char_from_u32
      | None \<Rightarrow>
          (case strip_prefix body ''#'' of
             Some numeric \<Rightarrow> Option.bind (parse_uint u32_max numeric) char_from_u32
           | None \<Rightarrow> map_of entity_table (to_ascii_lowercase body)))"

function decode_stml_entities :: "string \<Rightarrow> string" where
  "decode_stml_entities s =
     (case split_once (CHR ''&'') s of
        None \<Rightarrow> s
      | Some (before, rest) \<Rightarrow>
          (case split_once (CHR '';'') rest of
             None \<Rightarrow> s
           | Some (body, rest) \<Rightarrow>
               before
               @ (case decode_entity body of Some decoded \<Rightarrow> decoded | None \<Rightarrow> ''&'' @ body @ '';'')
               @ decode_stml_entities rest))"
  by pat_completeness auto
termination
proof (relation "measure length", goal_cases)
  case 1
  then show ?case by simp
next
  case (2 s x before rest y body rest')
  have shorter: "split_once c a = Some (u, v) \<Longrightarrow> length v < length a" for c a u v
  proof -
    assume "split_once c a = Some (u, v)"
    then obtain d where "dropWhile (\<lambda>b. b \<noteq> c) a = d # v" by (auto simp: split_once_def split: list.splits)
    with length_dropWhile [of "\<lambda>b. b \<noteq> c" a] show ?thesis by simp
  qed
  from 2 have "split_once (CHR ''&'') s = Some (before, rest)" "split_once (CHR '';'') rest = Some (body, rest')"
    by simp_all
  from shorter [OF this(1)] shorter [OF this(2)] show ?case by simp
qed

declare decode_stml_entities.simps [simp del]

end
