(* ===== verification/Markup_Spans.thy ===== *)
theory Markup_Spans
  imports Markup_Parse Review_Row
begin

text \<open>
  Styled spans of text and their wrapping into lines: the inline half of \<open>src/markup/layout.rs\<close>.
  The widths of the \<open>unicode_width\<close> crate on strings and characters are the parameter \<open>u\<close>.
\<close>

record unicode_widths =
  un_width :: "string \<Rightarrow> usize"
  un_char_width :: "rchar \<Rightarrow> usize"

record stml_style =
  ms_fg :: "string option"
  ms_bg :: "string option"
  ms_bold :: bool
  ms_italic :: bool
  ms_underline :: bool
  ms_strike :: bool
  ms_dim :: bool

definition plain_style :: stml_style where
  "plain_style =
     \<lparr>ms_fg = None, ms_bg = None, ms_bold = False, ms_italic = False, ms_underline = False,
      ms_strike = False, ms_dim = False\<rparr>"

definition style_span :: "stml_style \<Rightarrow> string \<Rightarrow> stml_span" where
  "style_span st text =
     \<lparr>ss_text = text, ss_fg = ms_fg st, ss_bg = ms_bg st, ss_bold = ms_bold st, ss_italic = ms_italic st,
      ss_underline = ms_underline st, ss_strike = ms_strike st, ss_dim = ms_dim st\<rparr>"

definition span_style :: "stml_span \<Rightarrow> stml_style" where
  "span_style s =
     \<lparr>ms_fg = ss_fg s, ms_bg = ss_bg s, ms_bold = ss_bold s, ms_italic = ss_italic s,
      ms_underline = ss_underline s, ms_strike = ss_strike s, ms_dim = ss_dim s\<rparr>"

definition truthy :: "string \<Rightarrow> bool" where
  "truthy value \<longleftrightarrow> value \<in> set ['''', ''true'', ''yes'', ''on'']"

definition flag_attr :: "attrs \<Rightarrow> string \<Rightarrow> bool \<Rightarrow> bool" where
  "flag_attr at name old = (case at name of None \<Rightarrow> old | Some value \<Rightarrow> truthy value)"

definition merge_attrs :: "attrs \<Rightarrow> stml_style \<Rightarrow> stml_style" where
  "merge_attrs at st =
     st\<lparr>ms_fg := or_else (or_else (at ''fg'') (at ''color'')) (ms_fg st),
        ms_bg := or_else (at ''bg'') (ms_bg st),
        ms_bold := flag_attr at ''bold'' (ms_bold st),
        ms_italic := flag_attr at ''italic'' (ms_italic st),
        ms_underline := flag_attr at ''underline'' (ms_underline st),
        ms_strike := flag_attr at ''strike'' (ms_strike st),
        ms_dim := flag_attr at ''dim'' (ms_dim st)\<rparr>"

definition styled :: "stml_span \<Rightarrow> string \<Rightarrow> stml_span" where
  "styled template text = template\<lparr>ss_text := text\<rparr>"

text \<open>Spans of one style are joined.\<close>

definition push_styled :: "stml_span list \<Rightarrow> stml_span \<Rightarrow> stml_span list" where
  "push_styled spans s =
     (if ss_text s = [] then spans
      else if spans \<noteq> [] \<and> ss_fg (last spans) = ss_fg s \<and> ss_bg (last spans) = ss_bg s
           \<and> ss_bold (last spans) = ss_bold s \<and> ss_italic (last spans) = ss_italic s
           \<and> ss_underline (last spans) = ss_underline s \<and> ss_strike (last spans) = ss_strike s
           \<and> ss_dim (last spans) = ss_dim s
      then butlast spans @ [(last spans)\<lparr>ss_text := ss_text (last spans) @ ss_text s\<rparr>]
      else spans @ [s])"

definition append_line :: "stml_line \<Rightarrow> stml_line \<Rightarrow> stml_line" where
  "append_line target source = foldl push_styled target source"

definition line_width :: "unicode_widths \<Rightarrow> stml_line \<Rightarrow> usize" where
  "line_width u l = sum_list (map (\<lambda>s. un_width u (ss_text s)) l)"

definition spaces :: "usize \<Rightarrow> string" where
  "spaces n = replicate n (CHR '' '')"

text \<open>As many whole characters as fit in \<open>width\<close> cells, and how many bytes they take.\<close>

fun fitting_bytes :: "unicode_widths \<Rightarrow> usize \<Rightarrow> usize \<Rightarrow> rchar list \<Rightarrow> usize" where
  "fitting_bytes u width cells [] = 0"
| "fitting_bytes u width cells (c # cs) =
     (let new_cells = cells + un_char_width u c
      in if width < new_cells then 0 else length c + fitting_bytes u width new_cells cs)"

definition truncate_cells_with_bytes :: "unicode_widths \<Rightarrow> string \<Rightarrow> usize \<Rightarrow> string \<times> usize" where
  "truncate_cells_with_bytes u text width =
     (let bytes = fitting_bytes u width 0 (chars text) in (take bytes text, bytes))"

definition truncate_cells :: "unicode_widths \<Rightarrow> string \<Rightarrow> usize \<Rightarrow> string" where
  "truncate_cells u text width = fst (truncate_cells_with_bytes u text width)"

section \<open>Tokens\<close>

datatype token_kind = TWord | TSpace | TBreak

record token =
  tk_span :: stml_span
  tk_kind :: token_kind
  tk_width :: usize

record tokenizer =
  tz_output :: "token list"
  tz_current :: string
  tz_mode :: "token_kind option"

text \<open>Spaces on a background are visible, so they count as a word.\<close>

definition flush_token :: "unicode_widths \<Rightarrow> stml_span \<Rightarrow> tokenizer \<Rightarrow> tokenizer" where
  "flush_token u s t =
     (case tz_mode t of
        None \<Rightarrow> t
      | Some kind \<Rightarrow>
          let kind = (if kind = TSpace \<and> ss_bg s \<noteq> None then TWord else kind)
          in t\<lparr>tz_output := tz_output t
                 @ [\<lparr>tk_span = styled s (tz_current t), tk_kind = kind, tk_width = un_width u (tz_current t)\<rparr>],
               tz_current := [], tz_mode := None\<rparr>)"

definition char_kind :: "rchar \<Rightarrow> token_kind" where
  "char_kind c = (if c = [NL] then TBreak else if c = '' '' then TSpace else TWord)"

definition token_step :: "unicode_widths \<Rightarrow> stml_span \<Rightarrow> rchar \<Rightarrow> tokenizer \<Rightarrow> tokenizer" where
  "token_step u s c t =
     (if c = [NL]
      then (let t = flush_token u s t
            in t\<lparr>tz_output := tz_output t @ [\<lparr>tk_span = styled s [NL], tk_kind = TBreak, tk_width = 0\<rparr>]\<rparr>)
      else if tz_mode t \<noteq> None \<and> tz_mode t \<noteq> Some (char_kind c)
      then (flush_token u s t)\<lparr>tz_mode := Some (char_kind c), tz_current := c\<rparr>
      else t\<lparr>tz_mode := Some (char_kind c), tz_current := tz_current t @ c\<rparr>)"

definition tokenize_span :: "unicode_widths \<Rightarrow> stml_span \<Rightarrow> token list" where
  "tokenize_span u s =
     tz_output (flush_token u s
       (fold (token_step u s) (chars (ss_text s)) \<lparr>tz_output = [], tz_current = [], tz_mode = None\<rparr>))"

definition tokenize :: "unicode_widths \<Rightarrow> stml_span list \<Rightarrow> token list" where
  "tokenize u spans = concat (map (tokenize_span u) spans)"

section \<open>Wrapping\<close>

text \<open>\<open>trim_plain_end\<close>: the spaces at the end of a line, unless they have a background.\<close>

definition trim_spaces_end :: "string \<Rightarrow> string" where
  "trim_spaces_end s = rev (dropWhile (\<lambda>c. c = CHR '' '') (rev s))"

function trim_plain_end :: "stml_line \<Rightarrow> stml_line" where
  "trim_plain_end l =
     (if l = [] \<or> ss_bg (last l) \<noteq> None then l
      else if \<forall>c \<in> set (ss_text (last l)). c = CHR '' '' then trim_plain_end (butlast l)
      else butlast l @ [(last l)\<lparr>ss_text := trim_spaces_end (ss_text (last l))\<rparr>])"
  by pat_completeness auto
termination
  by (relation "measure length") auto

declare trim_plain_end.simps [simp del]

lemma trim_plain_end_simps [simp]:
  "trim_plain_end [] = []"
  "trim_plain_end (l @ [s]) =
     (if ss_bg s \<noteq> None then l @ [s]
      else if \<forall>c \<in> set (ss_text s). c = CHR '' '' then trim_plain_end l
      else l @ [s\<lparr>ss_text := trim_spaces_end (ss_text s)\<rparr>])"
  by (subst trim_plain_end.simps; simp)+

record wrap_line_state =
  wr_lines :: "stml_line list"
  wr_current :: stml_line
  wr_width :: usize
  wr_started :: bool

definition flush_line :: "wrap_line_state \<Rightarrow> wrap_line_state" where
  "flush_line w = w\<lparr>wr_lines := wr_lines w @ [trim_plain_end (wr_current w)], wr_current := []\<rparr>"

text \<open>The slices of a word that is wider than the pane.\<close>

function slice_word ::
  "unicode_widths \<Rightarrow> usize \<Rightarrow> stml_span \<Rightarrow> string \<Rightarrow> wrap_line_state \<Rightarrow> string \<times> wrap_line_state" where
  "slice_word u width s rest w =
     (if width < un_width u rest
      then (let (piece, bytes) = truncate_cells_with_bytes u rest width
            in if bytes = 0 then (rest, w)
               else slice_word u width s (drop bytes rest)
                      (flush_line (w\<lparr>wr_current := push_styled (wr_current w) (styled s piece)\<rparr>)))
      else (rest, w))"
  by pat_completeness auto
termination
proof (relation "measure (\<lambda>(u, width, s, rest, w). length rest)", goal_cases)
  case 1
  then show ?case by simp
next
  case (2 u width s rest w x piece bytes)
  then have "rest \<noteq> []" by (auto simp: truncate_cells_with_bytes_def)
  with 2 show ?case by simp
qed

declare slice_word.simps [simp del]

definition wrap_token :: "unicode_widths \<Rightarrow> usize \<Rightarrow> token \<Rightarrow> wrap_line_state \<Rightarrow> wrap_line_state" where
  "wrap_token u width t w =
     (case tk_kind t of
        TBreak \<Rightarrow> (flush_line w)\<lparr>wr_width := 0, wr_started := False\<rparr>
      | TSpace \<Rightarrow>
          if \<not> wr_started w then w
          else if width < wr_width w + tk_width t then (flush_line w)\<lparr>wr_width := 0, wr_started := False\<rparr>
          else w\<lparr>wr_current := push_styled (wr_current w) (tk_span t), wr_width := wr_width w + tk_width t\<rparr>
      | TWord \<Rightarrow>
          if wr_width w + tk_width t \<le> width
          then w\<lparr>wr_current := push_styled (wr_current w) (tk_span t), wr_width := wr_width w + tk_width t,
                 wr_started := True\<rparr>
          else (let w = (if wr_started w then (flush_line w)\<lparr>wr_width := 0\<rparr> else w);
                    (rest, w) = slice_word u width (tk_span t) (ss_text (tk_span t)) w
                in if rest \<noteq> []
                   then w\<lparr>wr_current := push_styled (wr_current w) (styled (tk_span t) rest),
                          wr_width := un_width u rest, wr_started := True\<rparr>
                   else w\<lparr>wr_started := False\<rparr>))"

definition wrap_spans :: "unicode_widths \<Rightarrow> stml_span list \<Rightarrow> usize \<Rightarrow> stml_line list" where
  "wrap_spans u spans width =
     (let w = fold (wrap_token u width) (tokenize u spans)
                \<lparr>wr_lines = [], wr_current = [], wr_width = 0, wr_started = False\<rparr>
      in if wr_current w \<noteq> [] \<or> wr_lines w = [] then wr_lines w @ [trim_plain_end (wr_current w)]
         else wr_lines w)"

definition collapse_step :: "rchar \<Rightarrow> string \<times> bool \<Rightarrow> string \<times> bool" where
  "collapse_step c st =
     (case st of (output, whitespace) \<Rightarrow>
        if is_white c then (if whitespace then st else (output @ '' '', True)) else (output @ c, False))"

definition collapse_whitespace :: "string \<Rightarrow> string" where
  "collapse_whitespace text = fst (fold collapse_step (chars text) ([], False))"

section \<open>Lines\<close>

definition fill_line :: "unicode_widths \<Rightarrow> usize \<Rightarrow> string option \<Rightarrow> stml_line \<Rightarrow> stml_line" where
  "fill_line u width background l =
     (let l = (case background of
                 None \<Rightarrow> l
               | Some bg \<Rightarrow> map (\<lambda>s. if ss_bg s = None then s\<lparr>ss_bg := Some bg\<rparr> else s) l);
          used = line_width u l
      in if used < width
         then push_styled l (style_span (plain_style\<lparr>ms_bg := background\<rparr>) (spaces (width - used)))
         else l)"

definition blank_line :: "unicode_widths \<Rightarrow> stml_line \<Rightarrow> bool" where
  "blank_line u l \<longleftrightarrow> line_width u l = 0 \<and> (\<forall>s \<in> set l. trim (ss_text s) = [])"

end
