(* ===== verification/Markup_Wrap.thy ===== *)
theory Markup_Wrap
  imports Markup_Spans
begin

text \<open>
  Wrapping loses no ink: every byte that can be seen comes out in order and in its style. With
  widths that add up it also keeps every line inside the pane.
\<close>

section \<open>Ink\<close>

definition styled_bytes :: "stml_line \<Rightarrow> (char \<times> stml_style) list" where
  "styled_bytes l = concat (map (\<lambda>s. map (\<lambda>b. (b, span_style s)) (ss_text s)) l)"

text \<open>A byte leaves ink unless it ends a line or is a space without background.\<close>

definition inked :: "char \<times> stml_style \<Rightarrow> bool" where
  "inked bs \<longleftrightarrow> fst bs \<noteq> NL \<and> (fst bs = CHR '' '' \<longrightarrow> ms_bg (snd bs) \<noteq> None)"

abbreviation ink :: "stml_line \<Rightarrow> (char \<times> stml_style) list" where
  "ink l \<equiv> filter inked (styled_bytes l)"

lemma styled_bytes_simps [simp]:
  "styled_bytes [] = []"
  "styled_bytes (s # l) = map (\<lambda>b. (b, span_style s)) (ss_text s) @ styled_bytes l"
  "styled_bytes (k @ l) = styled_bytes k @ styled_bytes l"
  by (simp_all add: styled_bytes_def)

lemma span_style_styled [simp]: "span_style (styled s t) = span_style s"
  by (simp add: span_style_def styled_def)

lemma span_style_text [simp]: "span_style (s\<lparr>ss_text := t\<rparr>) = span_style s"
  by (simp add: span_style_def)

lemma ss_text_styled [simp]: "ss_text (styled s t) = t"
  by (simp add: styled_def)

lemma bytes_push_span [simp]: "styled_bytes (push_styled l s) = styled_bytes l @ styled_bytes [s]"
proof (cases "ss_text s = []")
  case True
  then show ?thesis by (simp add: push_styled_def)
next
  case False
  show ?thesis
  proof (cases l rule: rev_cases)
    case (snoc k t)
    with False show ?thesis by (auto simp: push_styled_def span_style_def)
  qed (simp add: push_styled_def)
qed

lemma bytes_append_line [simp]: "styled_bytes (append_line l k) = styled_bytes l @ styled_bytes k"
  unfolding append_line_def by (induction k arbitrary: l) auto

lemma ink_trim_end [simp]: "ink (trim_plain_end l) = ink l"
proof (induction l rule: rev_induct)
  case (snoc s l)
  consider "ss_bg s \<noteq> None" | "ss_bg s = None" "\<forall>c \<in> set (ss_text s). c = CHR '' ''"
    | "ss_bg s = None" "\<not> (\<forall>c \<in> set (ss_text s). c = CHR '' '')" by blast
  then show ?case
  proof cases
    case 2
    then have "filter inked (map (\<lambda>b. (b, span_style s)) (ss_text s)) = []"
      by (auto simp: filter_empty_conv inked_def span_style_def)
    with 2 snoc.IH show ?thesis by simp
  next
    case 3
    have "filter inked (map (\<lambda>b. (b, span_style s)) (trim_spaces_end t)) = filter inked (map (\<lambda>b. (b, span_style s)) t)" for t
    proof (induction t rule: rev_induct)
      case (snoc c t)
      with 3(1) show ?case by (auto simp: trim_spaces_end_def inked_def span_style_def)
    qed (simp add: trim_spaces_end_def)
    from 3 this [of "ss_text s"] show ?thesis by auto
  qed simp
qed simp

section \<open>Tokens carry the text\<close>

definition token_ok :: "token \<Rightarrow> bool" where
  "token_ok t \<longleftrightarrow>
     (case tk_kind t of
        TWord \<Rightarrow> True
      | TSpace \<Rightarrow> (\<forall>c \<in> set (ss_text (tk_span t)). c = CHR '' '') \<and> ss_bg (tk_span t) = None
      | TBreak \<Rightarrow> ss_text (tk_span t) = [NL])"

definition tokenized :: "stml_span \<Rightarrow> string \<Rightarrow> tokenizer \<Rightarrow> bool" where
  "tokenized s done_text t \<longleftrightarrow>
     concat (map (\<lambda>t. ss_text (tk_span t)) (tz_output t)) @ tz_current t = done_text
     \<and> (\<forall>k \<in> set (tz_output t). token_ok k \<and> (\<exists>x. tk_span k = styled s x))
     \<and> (tz_mode t = None \<longrightarrow> tz_current t = [])
     \<and> tz_mode t \<noteq> Some TBreak
     \<and> (tz_mode t = Some TSpace \<longrightarrow> (\<forall>c \<in> set (tz_current t). c = CHR '' ''))"

lemma tokenized_flush: "tokenized s d t \<Longrightarrow> tokenized s d (flush_token u s t) \<and> tz_mode (flush_token u s t) = None
    \<and> tz_current (flush_token u s t) = []"
  by (cases "tz_mode t"; cases "the (tz_mode t)")
    (auto simp: tokenized_def flush_token_def token_ok_def styled_def Let_def)

lemma tokenized_step:
  assumes "tokenized s d t"
  shows "tokenized s (d @ c) (token_step u s c t)"
proof -
  have kind: "char_kind c = TSpace \<longrightarrow> (\<forall>x \<in> set c. x = CHR '' '')" "c \<noteq> [NL] \<Longrightarrow> char_kind c \<noteq> TBreak"
    by (auto simp: char_kind_def split: if_splits)
  define t' where "t' = flush_token u s t"
  have f: "tokenized s d t'" "tz_mode t' = None" "tz_current t' = []"
    using tokenized_flush [OF assms, of u] by (simp_all add: t'_def)
  consider "c = [NL]" | "c \<noteq> [NL]" "tz_mode t \<noteq> None \<and> tz_mode t \<noteq> Some (char_kind c)"
    | "c \<noteq> [NL]" "tz_mode t = None \<or> tz_mode t = Some (char_kind c)" by argo
  then show ?thesis
  proof cases
    case 1
    then have step: "token_step u s c t =
        t'\<lparr>tz_output := tz_output t' @ [\<lparr>tk_span = styled s [NL], tk_kind = TBreak, tk_width = 0\<rparr>]\<rparr>"
      by (simp add: token_step_def t'_def Let_def)
    from f 1 show ?thesis unfolding step tokenized_def by (simp add: token_ok_def) blast
  next
    case 2
    then have step: "token_step u s c t = t'\<lparr>tz_mode := Some (char_kind c), tz_current := c\<rparr>"
      by (simp add: token_step_def t'_def)
    with f kind(1) kind(2) [OF 2(1)] show ?thesis unfolding step tokenized_def by simp
  next
    case 3
    then have step: "token_step u s c t = t\<lparr>tz_mode := Some (char_kind c), tz_current := tz_current t @ c\<rparr>"
      by (auto simp: token_step_def)
    have "char_kind c = TSpace \<longrightarrow> (\<forall>x \<in> set (tz_current t @ c). x = CHR '' '')"
      using kind(1) 3(2) assms unfolding tokenized_def set_append by (metis Un_iff empty_iff empty_set)
    with assms kind(2) [OF 3(1)] show ?thesis unfolding step tokenized_def by simp
  qed
qed

lemma tokenized_fold: "tokenized s d t \<Longrightarrow> tokenized s (d @ concat cs) (fold (token_step u s) cs t)"
proof (induction cs arbitrary: d t)
  case (Cons c cs)
  from Cons.IH [OF tokenized_step [OF Cons.prems, of c u]] show ?case by simp
qed simp

lemma tokenize_span_ok:
  "concat (map (\<lambda>t. ss_text (tk_span t)) (tokenize_span u s)) = ss_text s
   \<and> (\<forall>k \<in> set (tokenize_span u s). token_ok k \<and> (\<exists>x. tk_span k = styled s x))"
proof -
  let ?t0 = "\<lparr>tz_output = [], tz_current = [], tz_mode = None\<rparr>"
  have "tokenized s [] ?t0" by (simp add: tokenized_def)
  from tokenized_fold [OF this, of "chars (ss_text s)" u]
  have "tokenized s (ss_text s) (fold (token_step u s) (chars (ss_text s)) ?t0)" by (simp add: chars_concat)
  from tokenized_flush [OF this, of u] show ?thesis
    unfolding tokenize_span_def tokenized_def by (metis append.right_neutral)
qed

lemma tokenize_ok:
  "styled_bytes (map tk_span (tokenize u spans)) = styled_bytes spans \<and> (\<forall>k \<in> set (tokenize u spans). token_ok k)"
proof (induction spans)
  case Nil
  then show ?case by (simp add: tokenize_def)
next
  case (Cons s spans)
  have "styled_bytes (map tk_span ts) = map (\<lambda>b. (b, span_style s)) (concat (map (\<lambda>t. ss_text (tk_span t)) ts))"
    if "\<forall>k \<in> set ts. \<exists>x. tk_span k = styled s x" for ts
    using that by (induction ts) auto
  with tokenize_span_ok [of u s] Cons show ?case by (auto simp: tokenize_def)
qed

section \<open>Wrapping keeps the ink\<close>

definition wrapped_ink :: "wrap_line_state \<Rightarrow> (char \<times> stml_style) list" where
  "wrapped_ink w = concat (map ink (wr_lines w)) @ ink (wr_current w)"

lemma ink_flush [simp]: "wrapped_ink (flush_line w) = wrapped_ink w"
  by (simp add: wrapped_ink_def flush_line_def)

lemma ink_push [simp]: "wrapped_ink (w\<lparr>wr_current := push_styled (wr_current w) s\<rparr>) = wrapped_ink w @ ink [s]"
  by (simp add: wrapped_ink_def)

lemma ink_frame [simp]:
  "wrapped_ink (w\<lparr>wr_width := n\<rparr>) = wrapped_ink w" "wrapped_ink (w\<lparr>wr_started := b\<rparr>) = wrapped_ink w"
  by (simp_all add: wrapped_ink_def)

lemma truncate_split: "truncate_cells_with_bytes u t width = (piece, bytes) \<Longrightarrow> piece @ drop bytes t = t"
  by (auto simp: truncate_cells_with_bytes_def Let_def)

lemma slice_word_ink:
  "slice_word u width s rest w = (rest', w') \<Longrightarrow>
   wrapped_ink w' @ ink [styled s rest'] = wrapped_ink w @ ink [styled s rest]"
proof (induction u width s rest w rule: slice_word.induct)
  case (1 u width s rest w)
  obtain piece bytes where t: "truncate_cells_with_bytes u rest width = (piece, bytes)" by fastforce
  show ?case
  proof (cases "width < un_width u rest \<and> bytes \<noteq> 0")
    case True
    with "1.prems" t have "slice_word u width s (drop bytes rest)
        (flush_line (w\<lparr>wr_current := push_styled (wr_current w) (styled s piece)\<rparr>)) = (rest', w')"
      by (subst (asm) slice_word.simps) simp
    from "1.IH" [OF _ t [symmetric] refl _ this] True t
    have "wrapped_ink w' @ ink [styled s rest'] = wrapped_ink w @ ink [styled s piece] @ ink [styled s (drop bytes rest)]"
      by simp
    also have "ink [styled s piece] @ ink [styled s (drop bytes rest)] = ink [styled s (piece @ drop bytes rest)]"
      by simp
    finally show ?thesis using truncate_split [OF t] by simp
  next
    case False
    with "1.prems" t show ?thesis by (subst (asm) slice_word.simps) (auto split: if_splits)
  qed
qed

lemma wrap_token_ink:
  assumes "token_ok t"
  shows "wrapped_ink (wrap_token u width t w) = wrapped_ink w @ ink [tk_span t]"
proof (cases "tk_kind t")
  case TBreak
  with assms have "ink [tk_span t] = []" by (simp add: token_ok_def inked_def)
  with TBreak show ?thesis by (simp add: wrap_token_def)
next
  case TSpace
  with assms have "ink [tk_span t] = []"
    by (auto simp: token_ok_def inked_def span_style_def filter_empty_conv)
  with TSpace show ?thesis by (simp add: wrap_token_def)
next
  case TWord
  obtain rest w' where s: "slice_word u width (tk_span t) (ss_text (tk_span t))
      (if wr_started w then (flush_line w)\<lparr>wr_width := 0\<rparr> else w) = (rest, w')" by fastforce
  have "styled (tk_span t) (ss_text (tk_span t)) = tk_span t" by (simp add: styled_def)
  with slice_word_ink [OF s] have "wrapped_ink w' @ ink [styled (tk_span t) rest] = wrapped_ink w @ ink [tk_span t]"
    by (simp split: if_splits)
  with TWord s show ?thesis by (cases "rest = []") (auto simp: wrap_token_def Let_def)
qed

lemma wrap_tokens_ink:
  "\<forall>t \<in> set ts. token_ok t \<Longrightarrow> wrapped_ink (fold (wrap_token u width) ts w) = wrapped_ink w @ ink (map tk_span ts)"
  by (induction ts arbitrary: w) (simp_all add: wrap_token_ink)

lemma wrap_spans_ink: "concat (map ink (wrap_spans u spans width)) = ink spans"
proof -
  let ?w = "fold (wrap_token u width) (tokenize u spans)
              \<lparr>wr_lines = [], wr_current = [], wr_width = 0, wr_started = False\<rparr>"
  have "wrapped_ink ?w = ink spans"
    using wrap_tokens_ink [of "tokenize u spans"] tokenize_ok [of u spans] by (simp add: wrapped_ink_def)
  then show ?thesis by (auto simp: wrap_spans_def wrapped_ink_def Let_def)
qed

section \<open>Wrapping keeps to the pane\<close>

text \<open>Widths that add up over the characters, none of them wider than the pane.\<close>

definition additive :: "unicode_widths \<Rightarrow> bool" where
  "additive u \<longleftrightarrow> (\<forall>t. encoded t \<longrightarrow> un_width u t = sum_list (map (un_char_width u) (chars t)))"

definition encoded_line :: "stml_line \<Rightarrow> bool" where
  "encoded_line l \<longleftrightarrow> (\<forall>s \<in> set l. encoded (ss_text s))"

lemma encoded_line_simps [simp]:
  "encoded_line []" "encoded_line (k @ l) \<longleftrightarrow> encoded_line k \<and> encoded_line l"
  "encoded_line (s # l) \<longleftrightarrow> encoded (ss_text s) \<and> encoded_line l"
  by (auto simp: encoded_line_def)

lemma line_width_simps [simp]:
  "line_width u [] = 0" "line_width u (k @ l) = line_width u k + line_width u l"
  "line_width u (s # l) = un_width u (ss_text s) + line_width u l"
  by (simp_all add: line_width_def)

lemma width_append:
  "additive u \<Longrightarrow> encoded a \<Longrightarrow> encoded b \<Longrightarrow> un_width u (a @ b) = un_width u a + un_width u b"
  by (simp add: additive_def encoded_append chars_append)

lemma push_span_fits:
  assumes "additive u" and "encoded_line l" and "encoded (ss_text s)"
  shows "line_width u (push_styled l s) = line_width u l + un_width u (ss_text s) \<and> encoded_line (push_styled l s)"
proof (cases l rule: rev_cases)
  case Nil
  with assms show ?thesis by (auto simp: push_styled_def additive_def)
next
  case (snoc k t)
  have "un_width u [] = 0" using assms(1) by (simp add: additive_def)
  with assms snoc width_append [OF assms(1), of "ss_text t" "ss_text s"] show ?thesis
    by (auto simp: push_styled_def encoded_append)
qed

lemma trim_spaces_end_split: "\<exists>n. t = trim_spaces_end t @ replicate n (CHR '' '')"
proof (induction t rule: rev_induct)
  case (snoc c t)
  then obtain n where n: "t = trim_spaces_end t @ replicate n (CHR '' '')" by blast
  show ?case
  proof (cases "c = CHR '' ''")
    case True
    then have "trim_spaces_end (t @ [c]) = trim_spaces_end t" by (simp add: trim_spaces_end_def)
    have "t @ [c] = (trim_spaces_end t @ replicate n (CHR '' '')) @ [c]" using arg_cong [OF n, of "\<lambda>x. x @ [c]"] .
    also have "\<dots> = trim_spaces_end (t @ [c]) @ replicate (Suc n) (CHR '' '')"
      using \<open>trim_spaces_end (t @ [c]) = _\<close> by (simp add: True replicate_append_same)
    finally show ?thesis by blast
  qed (auto simp: trim_spaces_end_def intro: exI [of _ 0])
qed (simp add: trim_spaces_end_def)

lemma encoded_trim_spaces:
  assumes "encoded t"
  shows "encoded (trim_spaces_end t)"
proof -
  obtain n where n: "t = trim_spaces_end t @ replicate n (CHR '' '')" using trim_spaces_end_split by blast
  show ?thesis
  proof (cases n)
    case (Suc m)
    let ?k = "length (trim_spaces_end t)"
    have "?k < length t" "t ! ?k = CHR '' ''" using n Suc
      by (metis add_less_cancel_left length_append length_replicate less_add_same_cancel1 zero_less_Suc,
          metis nth_append_length replicate_Suc)
    with encoded_cut(1) [OF assms, of ?k] have "encoded (take ?k t)" by (simp add: is_cont_def)
    moreover have "take ?k t = trim_spaces_end t" using n by (metis append_eq_conv_conj)
    ultimately show ?thesis by simp
  qed (use n assms in simp)
qed

lemma trim_end_fits:
  assumes "additive u"
  shows "encoded_line l \<Longrightarrow> line_width u (trim_plain_end l) \<le> line_width u l"
proof (induction l rule: rev_induct)
  case (snoc s l)
  have "un_width u (trim_spaces_end (ss_text s)) \<le> un_width u (ss_text s)"
  proof -
    obtain n where n: "ss_text s = trim_spaces_end (ss_text s) @ replicate n (CHR '' '')"
      using trim_spaces_end_split by blast
    have "encoded (trim_spaces_end (ss_text s))" "encoded (replicate n (CHR '' ''))"
      using encoded_trim_spaces snoc.prems by (auto intro: encoded_ascii)
    from width_append [OF assms this] show ?thesis unfolding n [symmetric] by simp
  qed
  with snoc show ?case by (auto intro: trans_le_add1)
qed simp

lemma fitting_bytes_chars:
  "\<exists>n. n \<le> length cs \<and> fitting_bytes u width cells cs = length (concat (take n cs))
     \<and> (cells \<le> width \<longrightarrow> cells + sum_list (map (un_char_width u) (take n cs)) \<le> width)"
proof (induction cs arbitrary: cells)
  case (Cons c cs)
  show ?case
  proof (cases "width < cells + un_char_width u c")
    case True
    then show ?thesis by (intro exI [of _ 0]) simp
  next
    case False
    from Cons.IH [of "cells + un_char_width u c"] obtain n where n: "n \<le> length cs"
      "fitting_bytes u width (cells + un_char_width u c) cs = length (concat (take n cs))"
      "cells + un_char_width u c \<le> width \<longrightarrow>
        cells + un_char_width u c + sum_list (map (un_char_width u) (take n cs)) \<le> width" by blast
    with False show ?thesis by (intro exI [of _ "Suc n"]) (simp add: Let_def)
  qed
qed simp

lemma truncate_fits:
  assumes "additive u" and "encoded t" and "truncate_cells_with_bytes u t width = (piece, bytes)"
  shows "un_width u piece \<le> width" and "encoded piece" and "encoded (drop bytes t)"
    and "t \<noteq> [] \<Longrightarrow> \<forall>c. un_char_width u c \<le> width \<Longrightarrow> bytes \<noteq> 0"
proof -
  from assms(2) obtain cs where cs: "t = concat cs" "\<forall>c \<in> set cs. rchar_ok c" "chars t = cs" by (rule encodedE)
  from fitting_bytes_chars [of cs u width 0] obtain n where n:
    "fitting_bytes u width 0 cs = length (concat (take n cs))"
    "sum_list (map (un_char_width u) (take n cs)) \<le> width" by auto
  have split: "t = concat (take n cs) @ concat (drop n cs)" using cs(1) by (metis append_take_drop_id concat_append)
  with assms(3) n cs(3) have piece: "piece = concat (take n cs)" "drop bytes t = concat (drop n cs)"
    by (auto simp: truncate_cells_with_bytes_def Let_def)
  have ok: "\<forall>c \<in> set (take n cs). rchar_ok c" "\<forall>c \<in> set (drop n cs). rchar_ok c"
    using cs(2) by (auto dest: in_set_takeD in_set_dropD)
  then show "encoded piece" "encoded (drop bytes t)" by (simp_all add: piece encoded_concat)
  with assms(1) have "un_width u piece = sum_list (map (un_char_width u) (chars piece))" by (simp add: additive_def)
  with n(2) show "un_width u piece \<le> width" using ok(1) by (simp add: piece chars_concat_ok)
  show "bytes \<noteq> 0" if "t \<noteq> []" "\<forall>c. un_char_width u c \<le> width"
  proof -
    from that(1) cs obtain c ds where c: "cs = c # ds" "rchar_ok c" by (cases cs) auto
    then have "c \<noteq> []" by (auto simp: rchar_ok_def)
    moreover have "\<not> width < un_char_width u c" using that(2) by (simp add: not_less)
    ultimately show ?thesis using c cs(3) assms(3) by (auto simp: truncate_cells_with_bytes_def Let_def)
  qed
qed

definition wrap_fits :: "unicode_widths \<Rightarrow> usize \<Rightarrow> wrap_line_state \<Rightarrow> bool" where
  "wrap_fits u width w \<longleftrightarrow>
     (\<forall>l \<in> set (wr_lines w). line_width u l \<le> width)
     \<and> encoded_line (wr_current w) \<and> line_width u (wr_current w) \<le> wr_width w \<and> wr_width w \<le> width
     \<and> (\<not> wr_started w \<longrightarrow> wr_current w = [])"

lemma flush_fits:
  assumes "additive u" and "encoded_line (wr_current w)" and "line_width u (wr_current w) \<le> width"
    and "\<forall>l \<in> set (wr_lines w). line_width u l \<le> width"
  shows "\<forall>l \<in> set (wr_lines (flush_line w)). line_width u l \<le> width"
  using assms trim_end_fits [OF assms(1,2)] by (auto simp: flush_line_def)

lemma slice_word_fits:
  "additive u \<Longrightarrow> \<forall>c. un_char_width u c \<le> width \<Longrightarrow> slice_word u width s rest w = (rest', w') \<Longrightarrow> encoded rest \<Longrightarrow> wr_current w = [] \<Longrightarrow>
    \<forall>l \<in> set (wr_lines w). line_width u l \<le> width \<Longrightarrow>
    encoded rest' \<and> un_width u rest' \<le> width \<and> wr_current w' = [] \<and> wr_width w' = wr_width w
    \<and> wr_started w' = wr_started w \<and> (\<forall>l \<in> set (wr_lines w'). line_width u l \<le> width)"
proof (induction u width s rest w rule: slice_word.induct)
  case (1 u width s rest w)
  obtain piece bytes where t: "truncate_cells_with_bytes u rest width = (piece, bytes)" by fastforce
  note fits = truncate_fits [OF "1.prems"(1) "1.prems"(4) t]
  show ?case
  proof (cases "width < un_width u rest \<and> bytes \<noteq> 0")
    case True
    define w1 where "w1 = flush_line (w\<lparr>wr_current := push_styled (wr_current w) (styled s piece)\<rparr>)"
    have next_call: "slice_word u width s (drop bytes rest) w1 = (rest', w')"
      using "1.prems"(3) t True by (subst (asm) slice_word.simps) (simp add: w1_def)
    have "line_width u (push_styled [] (styled s piece)) \<le> width" "encoded_line (push_styled [] (styled s piece))"
      using push_span_fits [OF "1.prems"(1), of "[]" "styled s piece"] fits(1,2) by simp_all
    with flush_fits [OF "1.prems"(1), of "w\<lparr>wr_current := push_styled (wr_current w) (styled s piece)\<rparr>" width] "1.prems"(5,6)
    have "\<forall>l \<in> set (wr_lines w1). line_width u l \<le> width" by (simp add: w1_def)
    moreover have "wr_current w1 = []" "wr_width w1 = wr_width w" "wr_started w1 = wr_started w"
      by (simp_all add: w1_def flush_line_def)
    ultimately show ?thesis
      using "1.IH" [OF _ t [symmetric] refl _ "1.prems"(1,2) next_call [unfolded w1_def] fits(3)] True by (simp add: w1_def)
  next
    case False
    with "1.prems"(3) t have r: "rest' = rest" "w' = w" by (subst (asm) slice_word.simps, auto split: if_splits)+
    have "un_width u rest \<le> width"
    proof (cases "rest = []")
      case True
      with "1.prems"(1) show ?thesis by (simp add: additive_def)
    qed (use False fits(4) "1.prems"(2) in auto)
    with r "1.prems" show ?thesis by simp
  qed
qed

lemma wrap_token_fits:
  assumes "additive u" and "\<forall>c. un_char_width u c \<le> width" and "wrap_fits u width w" and "encoded (ss_text (tk_span t))"
    and "tk_kind t \<noteq> TBreak \<longrightarrow> tk_width t = un_width u (ss_text (tk_span t))"
  shows "wrap_fits u width (wrap_token u width t w)"
proof -
  have flush: "wrap_fits u width ((flush_line w)\<lparr>wr_width := 0, wr_started := False\<rparr>)"
    using flush_fits [OF assms(1), of w width] assms(3) by (auto simp: wrap_fits_def flush_line_def)
  have push: "wrap_fits u width (w\<lparr>wr_current := push_styled (wr_current w) (tk_span t), wr_width := wr_width w + tk_width t, wr_started := True\<rparr>)"
    if "wr_width w + tk_width t \<le> width" "tk_kind t \<noteq> TBreak"
    using push_span_fits [OF assms(1) _ assms(4), of "wr_current w"] assms(3,5) that by (auto simp: wrap_fits_def)
  show ?thesis
  proof (cases "tk_kind t")
    case TBreak
    with flush show ?thesis by (simp add: wrap_token_def)
  next
    case TSpace
    have "wrap_fits u width (w\<lparr>wr_current := push_styled (wr_current w) (tk_span t), wr_width := wr_width w + tk_width t\<rparr>)"
      if "wr_started w" "wr_width w + tk_width t \<le> width"
      using push [OF that(2)] TSpace that(1) by (simp add: wrap_fits_def)
    with TSpace flush assms(3) show ?thesis by (simp add: wrap_token_def not_less)
  next
    case TWord
    show ?thesis
    proof (cases "wr_width w + tk_width t \<le> width")
      case True
      with TWord push show ?thesis by (simp add: wrap_token_def)
    next
      case False
      define v where "v = (if wr_started w then (flush_line w)\<lparr>wr_width := 0\<rparr> else w)"
      have v: "wr_current v = []" "\<forall>l \<in> set (wr_lines v). line_width u l \<le> width" "wr_width v \<le> width"
        using flush_fits [OF assms(1), of w width] assms(3) by (auto simp: v_def wrap_fits_def flush_line_def)
      obtain rest w' where s: "slice_word u width (tk_span t) (ss_text (tk_span t)) v = (rest, w')" by fastforce
      from slice_word_fits [OF assms(1,2) s assms(4) v(1,2)] v(3)
      have w': "encoded rest" "un_width u rest \<le> width" "wr_current w' = []" "wr_width w' \<le> width"
        "\<forall>l \<in> set (wr_lines w'). line_width u l \<le> width" by simp_all
      have "wrap_token u width t w = (if rest \<noteq> []
          then w'\<lparr>wr_current := push_styled (wr_current w') (styled (tk_span t) rest), wr_width := un_width u rest, wr_started := True\<rparr>
          else w'\<lparr>wr_started := False\<rparr>)"
        using TWord False s by (simp add: wrap_token_def v_def Let_def)
      with w' push_span_fits [OF assms(1), of "[]" "styled (tk_span t) rest"] show ?thesis
        by (simp add: wrap_fits_def)
    qed
  qed
qed

lemma wrap_tokens_fit:
  assumes "additive u" and "\<forall>c. un_char_width u c \<le> width"
    and "\<forall>t \<in> set ts. encoded (ss_text (tk_span t)) \<and> (tk_kind t \<noteq> TBreak \<longrightarrow> tk_width t = un_width u (ss_text (tk_span t)))"
  shows "wrap_fits u width w \<Longrightarrow> wrap_fits u width (fold (wrap_token u width) ts w)"
  using assms(3) by (induction ts arbitrary: w) (auto intro: wrap_token_fits [OF assms(1,2)])

definition token_sized :: "unicode_widths \<Rightarrow> token \<Rightarrow> bool" where
  "token_sized u t \<longleftrightarrow> encoded (ss_text (tk_span t)) \<and> (tk_kind t \<noteq> TBreak \<longrightarrow> tk_width t = un_width u (ss_text (tk_span t)))"

lemma token_step_sized:
  assumes "rchar_ok c" and "encoded (tz_current t)" and "\<forall>k \<in> set (tz_output t). token_sized u k"
  shows "encoded (tz_current (token_step u s c t)) \<and> (\<forall>k \<in> set (tz_output (token_step u s c t)). token_sized u k)"
proof -
  have flush: "\<forall>k \<in> set (tz_output (flush_token u s t)). token_sized u k" "encoded (tz_current (flush_token u s t))"
    using assms by (auto simp: flush_token_def token_sized_def Let_def split: option.splits)
  then show ?thesis using assms
    by (auto simp: token_step_def Let_def encoded_append encoded_rchar token_sized_def)
qed

lemma tokenize_sized:
  assumes "encoded_line spans" and "k \<in> set (tokenize u spans)"
  shows "token_sized u k"
proof -
  have fold: "encoded (tz_current (fold (token_step u s) cs t)) \<and> (\<forall>k \<in> set (tz_output (fold (token_step u s) cs t)). token_sized u k)"
    if "\<forall>c \<in> set cs. rchar_ok c" "encoded (tz_current t)" "\<forall>k \<in> set (tz_output t). token_sized u k" for cs t s
    using that
  proof (induction cs arbitrary: t)
    case (Cons c cs)
    then have "rchar_ok c" by simp
    note step = token_step_sized [OF this Cons.prems(2,3), of s]
    from Cons.IH [OF _ conjunct1 [OF step] conjunct2 [OF step]] Cons.prems(1) show ?case by simp
  qed simp
  from assms obtain s where s: "s \<in> set spans" "k \<in> set (tokenize_span u s)" "encoded (ss_text s)"
    by (auto simp: tokenize_def encoded_line_def)
  define t where "t = fold (token_step u s) (chars (ss_text s)) \<lparr>tz_output = [], tz_current = [], tz_mode = None\<rparr>"
  have t: "encoded (tz_current t)" "\<forall>k \<in> set (tz_output t). token_sized u k"
    using fold [of "chars (ss_text s)" "\<lparr>tz_output = [], tz_current = [], tz_mode = None\<rparr>" s] s(3)
    by (simp_all add: t_def encoded_def)
  from s(2) have "k \<in> set (tz_output (flush_token u s t))" by (simp add: tokenize_span_def t_def)
  with t show ?thesis
    by (cases "tz_mode t") (auto simp: flush_token_def token_sized_def Let_def)
qed

lemma wrap_spans_fit:
  assumes "additive u" and "\<forall>c. un_char_width u c \<le> width" and "encoded_line spans" and "l \<in> set (wrap_spans u spans width)"
  shows "line_width u l \<le> width"
proof -
  define w0 where "w0 = \<lparr>wr_lines = [], wr_current = [], wr_width = 0, wr_started = False\<rparr>"
  define w where "w = fold (wrap_token u width) (tokenize u spans) w0"
  have start: "wrap_fits u width w0" by (simp add: wrap_fits_def w0_def)
  have ok: "wrap_fits u width w" unfolding w_def
    by (rule wrap_tokens_fit [OF assms(1,2) _ start])
      (use tokenize_sized [OF assms(3)] in \<open>auto simp: token_sized_def\<close>)
  have "line_width u (trim_plain_end (wr_current w)) \<le> width"
    using trim_end_fits [OF assms(1), of "wr_current w"] ok by (auto simp: wrap_fits_def)
  with ok assms(4) show ?thesis
    by (auto simp: wrap_spans_def w_def [symmetric] w0_def [symmetric] wrap_fits_def Let_def split: if_splits)
qed

section \<open>Properties\<close>


definition cell_widths :: unicode_widths where
  "cell_widths = \<lparr>un_width = (\<lambda>t. length (chars t)), un_char_width = (\<lambda>c. 1)\<rparr>"

definition sample_spans :: "stml_span list" where
  "sample_spans =
     [style_span plain_style ''one two '', style_span (plain_style\<lparr>ms_bold := True\<rparr>) (''abcdefghijk'' @ [NL]),
      style_span (plain_style\<lparr>ms_bg := Some ''panel''\<rparr>) ''  x '']"


end
