(* ===== verification/Markup_Tree.thy ===== *)
theory Markup_Tree
  imports Markup_Parse
begin

text \<open>
  What the arena of the markup parser stands for: \<open>forest\<close> relates a run of cells to the trees
  they hold, \<open>opened\<close> does so while elements are open, and \<open>represents\<close> says what a parser has
  read so far as an \<open>open_tree\<close>, on which every operation has its plain meaning.
\<close>

section \<open>Forests\<close>

text \<open>The children \<open>xs\<close> occupy exactly the cells from \<open>lo\<close> to \<open>hi\<close>, each node before its
  children and each child before the next.\<close>

inductive forest :: "arena_node list \<Rightarrow> usize list \<Rightarrow> usize \<Rightarrow> usize \<Rightarrow> stml_node list \<Rightarrow> bool" for a where
  forest_Nil: "forest a [] lo lo []"
| forest_Text: "get a lo = Some (ArenaText t) \<Longrightarrow> forest a xs (Suc lo) hi ts \<Longrightarrow>
    forest a (lo # xs) lo hi (StmlText t # ts)"
| forest_Element: "get a lo = Some (ArenaElement t at cs) \<Longrightarrow> forest a cs (Suc lo) mid us \<Longrightarrow>
    forest a xs mid hi ts \<Longrightarrow> forest a (lo # xs) lo hi (StmlElement t at us # ts)"

inductive_cases forest_NilE: "forest a xs lo hi []"
inductive_cases forest_TextE: "forest a xs lo hi (StmlText t # ts)"
inductive_cases forest_ElementE: "forest a xs lo hi (StmlElement t at us # ts)"

inductive_simps forest_Nil_iff: "forest a xs lo hi []"

lemma forest_le: "forest a xs lo hi ts \<Longrightarrow> lo \<le> hi"
  by (induction rule: forest.induct) auto

lemma forest_frame:
  "forest a xs lo hi ts \<Longrightarrow> (\<And>i. lo \<le> i \<Longrightarrow> i < hi \<Longrightarrow> get b i = get a i) \<Longrightarrow> forest b xs lo hi ts"
proof (induction rule: forest.induct)
  case (forest_Nil lo)
  then show ?case by (simp add: forest.forest_Nil)
next
  case (forest_Text lo t xs hi ts)
  with forest_le [OF forest_Text.hyps(2)] show ?case by (intro forest.forest_Text) auto
next
  case (forest_Element lo t at cs mid us xs hi ts)
  with forest_le [OF forest_Element.hyps(2)] forest_le [OF forest_Element.hyps(3)] show ?case
    by (intro forest.forest_Element) auto
qed

lemma forest_append:
  "forest a xs lo mid ts \<Longrightarrow> forest a ys mid hi us \<Longrightarrow> forest a (xs @ ys) lo hi (ts @ us)"
  by (induction rule: forest.induct) (auto intro: forest.intros)

lemma forest_appendD:
  "forest a xs lo hi (ts @ us) \<Longrightarrow> \<exists>ys zs mid. xs = ys @ zs \<and> forest a ys lo mid ts \<and> forest a zs mid hi us"
proof (induction ts arbitrary: xs lo)
  case Nil
  then show ?case by (auto intro: forest_Nil)
next
  case (Cons t ts)
  show ?case
  proof (cases t)
    case (StmlText x)
    with Cons.prems obtain xs' where "get a lo = Some (ArenaText x)" "xs = lo # xs'" "forest a xs' (Suc lo) hi (ts @ us)"
      by (auto elim!: forest_TextE)
    with Cons.IH [OF this(3)] show ?thesis unfolding StmlText by (metis append_Cons forest_Text)
  next
    case (StmlElement tag at vs)
    with Cons.prems obtain cs mid xs' where "get a lo = Some (ArenaElement tag at cs)" "xs = lo # xs'"
      "forest a cs (Suc lo) mid vs" "forest a xs' mid hi (ts @ us)"
      by (auto elim!: forest_ElementE)
    with Cons.IH [OF this(4)] show ?thesis unfolding StmlElement by (metis append_Cons forest_Element)
  qed
qed

lemma forest_snocD:
  assumes "forest a xs lo hi (ts @ [u])"
  obtains ys k where "xs = ys @ [k]" and "forest a ys lo k ts" and "forest a [k] k hi [u]" and "lo \<le> k" "k < hi"
proof -
  from forest_appendD [OF assms] obtain ys zs mid where s: "xs = ys @ zs" "forest a ys lo mid ts" "forest a zs mid hi [u]"
    by blast
  from s(3) have "zs = [mid] \<and> mid < hi"
    by (cases u) (auto elim!: forest_TextE forest_ElementE forest_NilE dest: forest_le)
  with s forest_le [OF s(2)] that show thesis by blast
qed

lemma forest_leaf_Text: "get a lo = Some (ArenaText t) \<Longrightarrow> forest a [lo] lo (Suc lo) [StmlText t]"
  by (intro forest.intros)

lemma forest_leaf_Element: "get a lo = Some (ArenaElement t at []) \<Longrightarrow> forest a [lo] lo (Suc lo) [StmlElement t at []]"
  by (rule forest_Element [OF _ forest_Nil forest_Nil])

section \<open>Open elements\<close>

text \<open>What has been read while elements are open: the trees before the open element, and what
  has been read inside it.\<close>

datatype open_tree =
    Closed "stml_node list"
  | Open "stml_node list" string attrs open_tree

inductive opened :: "arena_node list \<Rightarrow> usize list \<Rightarrow> usize list \<Rightarrow> usize \<Rightarrow> usize \<Rightarrow> open_tree \<Rightarrow> bool" for a where
  opened_Nil: "forest a xs lo hi ts \<Longrightarrow> opened a xs [] lo hi (Closed ts)"
| opened_Cons: "forest a xs lo s ts \<Longrightarrow> get a s = Some (ArenaElement t at cs) \<Longrightarrow> opened a cs st (Suc s) hi z \<Longrightarrow>
    opened a (xs @ [s]) (s # st) lo hi (Open ts t at z)"

inductive_cases opened_NilE: "opened a xs [] lo hi z"

fun inner :: "open_tree \<Rightarrow> stml_node list" where
  "inner (Closed ts) = ts"
| "inner (Open ts t at z) = inner z"

fun set_inner :: "stml_node list \<Rightarrow> open_tree \<Rightarrow> open_tree" where
  "set_inner us (Closed ts) = Closed us"
| "set_inner us (Open ts t at z) = Open ts t at (set_inner us z)"

abbreviation add_inner :: "stml_node \<Rightarrow> open_tree \<Rightarrow> open_tree" where
  "add_inner u z \<equiv> set_inner (inner z @ [u]) z"

fun enter :: "string \<Rightarrow> attrs \<Rightarrow> open_tree \<Rightarrow> open_tree" where
  "enter t at (Closed ts) = Open ts t at (Closed [])"
| "enter t at (Open ts t' at' z) = Open ts t' at' (enter t at z)"

fun collapse :: "open_tree \<Rightarrow> stml_node list" where
  "collapse (Closed ts) = ts"
| "collapse (Open ts t at z) = ts @ [StmlElement t at (collapse z)]"

fun close_to :: "nat \<Rightarrow> open_tree \<Rightarrow> open_tree" where
  "close_to n (Closed ts) = Closed ts"
| "close_to 0 (Open ts t at z) = Closed (collapse (Open ts t at z))"
| "close_to (Suc n) (Open ts t at z) = Open ts t at (close_to n z)"

fun open_tags :: "open_tree \<Rightarrow> string list" where
  "open_tags (Closed ts) = []"
| "open_tags (Open ts t at z) = t # open_tags z"

lemma inner_set_inner [simp]: "inner (set_inner us z) = us"
  by (induction z) auto

lemma set_inner_set_inner [simp]: "set_inner us (set_inner vs z) = set_inner us z"
  by (induction z) auto

lemma set_inner_inner [simp]: "set_inner (inner z) z = z"
  by (induction z) auto

lemma open_tags_set_inner [simp]: "open_tags (set_inner us z) = open_tags z"
  by (induction z) auto

lemma open_tags_enter [simp]: "open_tags (enter t at z) = open_tags z @ [t]"
  by (induction z) auto

lemma inner_enter [simp]: "inner (enter t at z) = []"
  by (induction z) auto

lemma close_enter: "n = length (open_tags z) \<Longrightarrow>
    close_to n (set_inner us (enter t at z)) = add_inner (StmlElement t at us) z"
  by (induction n z rule: close_to.induct) auto

lemma forest_collapse: "opened a xs st lo hi z \<Longrightarrow> forest a xs lo hi (collapse z)"
proof (induction rule: opened.induct)
  case (opened_Cons xs lo s ts t at cs st hi z)
  then have "forest a [s] s hi [StmlElement t at (collapse z)]" by (auto intro: forest.intros)
  with opened_Cons(1) show ?case using forest_append by fastforce
qed simp

lemma opened_bounds: "opened a xs st lo hi z \<Longrightarrow> lo \<le> hi \<and> (\<forall>s \<in> set st. lo \<le> s \<and> s < hi)"
  by (induction rule: opened.induct) (fastforce dest: forest_le)+

lemma opened_close: "opened a xs st lo hi z \<Longrightarrow> opened a xs (take n st) lo hi (close_to n z)"
proof (induction arbitrary: n rule: opened.induct)
  case (opened_Nil xs lo hi ts)
  then show ?case by (simp add: opened.opened_Nil)
next
  case (opened_Cons xs lo s ts t at cs st hi z)
  show ?case
  proof (cases n)
    case 0
    have "opened a (xs @ [s]) (s # st) lo hi (Open ts t at z)" using opened_Cons by (auto intro: opened.intros)
    from forest_collapse [OF this] 0 show ?thesis by (simp add: opened.opened_Nil)
  next
    case (Suc m)
    with opened_Cons show ?thesis by (auto intro: opened.opened_Cons)
  qed
qed

lemma opened_stack_nodes:
  "opened a xs st lo hi z \<Longrightarrow> \<exists>ns. those (map (get a) st) = Some ns \<and> map node_tag ns = map Some (open_tags z)"
  by (induction rule: opened.induct) (auto simp: node_tag_def)

lemma opened_length: "opened a xs st lo hi z \<Longrightarrow> length (open_tags z) = length st"
  by (induction rule: opened.induct) auto

text \<open>The innermost open element: its children, and how they may be replaced.\<close>

definition kids :: "arena_node list \<Rightarrow> usize list \<Rightarrow> usize list \<Rightarrow> usize list" where
  "kids a xs st =
     (if st = [] then xs
      else (case get a (last st) of Some (ArenaElement t at cs) \<Rightarrow> cs | _ \<Rightarrow> []))"

definition first_kid :: "usize list \<Rightarrow> usize \<Rightarrow> usize" where
  "first_kid st lo = (if st = [] then lo else Suc (last st))"

lemma opened_inner: "opened a xs st lo hi z \<Longrightarrow> forest a (kids a xs st) (first_kid st lo) hi (inner z)"
proof (induction rule: opened.induct)
  case (opened_Nil xs lo hi ts)
  then show ?case by (simp add: kids_def first_kid_def)
next
  case (opened_Cons xs lo s ts t at cs st hi z)
  then show ?case by (cases "st = []") (auto simp: kids_def first_kid_def)
qed

lemma opened_last:
  "opened a xs st lo hi z \<Longrightarrow> st \<noteq> [] \<Longrightarrow> \<exists>t at. get a (last st) = Some (ArenaElement t at (kids a xs st))"
proof (induction rule: opened.induct)
  case (opened_Nil xs lo hi ts)
  then show ?case by simp
next
  case (opened_Cons xs lo s ts t at cs st hi z)
  then show ?case by (cases "st = []") (auto simp: kids_def)
qed

lemma opened_replace:
  assumes "opened a xs st lo hi z"
    and "\<And>i. lo \<le> i \<Longrightarrow> i < first_kid st lo \<Longrightarrow> st = [] \<or> i \<noteq> last st \<Longrightarrow> get b i = get a i"
    and "st \<noteq> [] \<Longrightarrow>
      \<exists>t at cs. get a (last st) = Some (ArenaElement t at cs) \<and> get b (last st) = Some (ArenaElement t at ks)"
    and "forest b ks (first_kid st lo) hi' ts"
  shows "opened b (if st = [] then ks else xs) st lo hi' (set_inner ts z)"
  using assms
proof (induction rule: opened.induct)
  case (opened_Nil xs lo hi us)
  then show ?case by (simp add: first_kid_def opened.opened_Nil)
next
  case (opened_Cons xs lo s us t at cs st hi z)
  note bounds = opened_bounds [OF opened_Cons.hyps(3)] forest_le [OF opened_Cons.hyps(1)]
  have outer: "forest b xs lo s us"
  proof (rule forest_frame [OF opened_Cons.hyps(1)])
    fix i assume "lo \<le> i" "i < s"
    with bounds show "get b i = get a i"
      by (intro opened_Cons.prems(1)) (auto simp: first_kid_def dest!: last_in_set)
  qed
  show ?case
  proof (cases "st = []")
    case True
    with opened_Cons.hyps have "get b s = Some (ArenaElement t at ks)" using opened_Cons.prems(2) by auto
    moreover have "opened b ks [] (Suc s) hi' (Closed ts)"
      using opened_Cons.prems(3) True by (simp add: first_kid_def opened.opened_Nil)
    moreover have "set_inner ts z = Closed ts" using opened_Cons.hyps(3) True by (auto elim: opened_NilE)
    ultimately show ?thesis using outer True by (auto intro: opened.opened_Cons)
  next
    case False
    with bounds have "s < last st" by (auto dest!: last_in_set)
    then have "get b s = Some (ArenaElement t at cs)"
      using opened_Cons.prems(1) [of s] opened_Cons.hyps(2) bounds False by (simp add: first_kid_def)
    moreover have "opened b cs st (Suc s) hi' (set_inner ts z)"
      using opened_Cons.IH opened_Cons.prems False bounds by (simp add: first_kid_def)
    ultimately show ?thesis using outer False by (auto intro: opened.opened_Cons)
  qed
qed

lemma opened_enter:
  "opened a xs st lo hi z' \<Longrightarrow> z' = add_inner (StmlElement t at []) z \<Longrightarrow>
   get a k = Some (ArenaElement t at []) \<Longrightarrow> hi = Suc k \<Longrightarrow> opened a xs (st @ [k]) lo hi (enter t at z)"
proof (induction arbitrary: z rule: opened.induct)
  case (opened_Nil xs lo hi ts)
  then obtain us where z: "z = Closed us" "ts = us @ [StmlElement t at []]" by (cases z) auto
  from opened_Nil(1) [unfolded z(2)] obtain ys j where j: "xs = ys @ [j]" "forest a ys lo j us"
    "forest a [j] j hi [StmlElement t at []]" by (rule forest_snocD)
  from j(3) have "hi = Suc j" by (auto elim!: forest_ElementE forest_NilE elim: forest.cases)
  with opened_Nil(4) have "j = k" by simp
  with j opened_Nil(3,4) z show ?case
    by (auto intro!: opened.opened_Cons opened.opened_Nil forest.forest_Nil)
next
  case (opened_Cons xs lo s ts t' at' cs st hi z')
  then obtain us z0 where "z = Open us t' at' z0" "us = ts" "z' = add_inner (StmlElement t at []) z0"
    by (cases z) auto
  with opened_Cons show ?case by (auto intro: opened.opened_Cons)
qed

section \<open>The parser\<close>

definition represents :: "stml_parser \<Rightarrow> open_tree \<Rightarrow> bool" where
  "represents p z \<longleftrightarrow> opened (pa_arena p) (pa_roots p) (pa_stack p) 0 (length (pa_arena p)) z"

definition same_outside :: "stml_parser \<Rightarrow> stml_parser \<Rightarrow> bool" where
  "same_outside p q \<longleftrightarrow>
     pa_limits q = pa_limits p \<and> pa_stack q = pa_stack p \<and> pa_errors q = pa_errors p
     \<and> pa_node_limit_reported q = pa_node_limit_reported p"

lemma get_append: "get (a @ b) i = (if i < length a then get a i else get b (i - length a))"
  by (auto simp: get_def nth_append)

lemma get_list_update: "get (a[k := v]) i = (if i = k \<and> k < length a then Some v else get a i)"
  by (auto simp: get_def)

lemma kids_of_parser:
  assumes "represents p z"
  shows "current_children p = Some (kids (pa_arena p) (pa_roots p) (pa_stack p))"
proof (cases "pa_stack p = []")
  case False
  then obtain t at where "get (pa_arena p) (last (pa_stack p)) = Some (ArenaElement t at (kids (pa_arena p) (pa_roots p) (pa_stack p)))"
    using opened_last [OF assms [unfolded represents_def]] by blast
  with False show ?thesis by (simp add: current_children_def)
qed (simp add: current_children_def kids_def)

lemma represents_inner:
  assumes "represents p z"
  shows "forest (pa_arena p) (kids (pa_arena p) (pa_roots p) (pa_stack p)) (first_kid (pa_stack p) 0)
    (length (pa_arena p)) (inner z)"
  using opened_inner [OF assms [unfolded represents_def]] .

lemma attach_ok:
  assumes "represents p z" and "\<And>b k. get b k = Some cell \<Longrightarrow> forest b [k] k (Suc k) [t]"
  shows "\<exists>q. attach (length (pa_arena p)) (push_node cell p) = Some q \<and> represents q (add_inner t z)
    \<and> same_outside p q \<and> length (pa_arena q) = Suc (length (pa_arena p))
    \<and> get (pa_arena q) (length (pa_arena p)) = Some cell"
proof -
  define a where "a = pa_arena p"
  define n where "n = length a"
  define st where "st = pa_stack p"
  define ks where "ks = kids a (pa_roots p) st"
  note o = assms(1) [unfolded represents_def, folded a_def st_def n_def]
  note inside = opened_inner [OF o, folded ks_def]
  note bounds = opened_bounds [OF o]
  show ?thesis
  proof (cases "st = []")
    case True
    let ?b = "a @ [cell]"
    have "get ?b n = Some cell" by (simp add: n_def get_append get_def)
    from assms(2) [OF this] have cell: "forest ?b [n] n (Suc n) [t]" .
    have "forest ?b ks (first_kid st 0) n (inner z)"
      by (rule forest_frame [OF inside]) (simp add: get_append n_def)
    then have "forest ?b (ks @ [n]) (first_kid st 0) (Suc n) (inner z @ [t])"
      using cell by (rule forest_append)
    from opened_replace [OF o _ _ this] True
    have "opened ?b (ks @ [n]) [] 0 (Suc n) (add_inner t z)"
      by (simp add: first_kid_def)
    with True show ?thesis
      by (auto simp: attach_def push_node_def represents_def same_outside_def st_def [symmetric] a_def [symmetric]
          n_def [symmetric] ks_def kids_def get_append) (simp add: get_def)
  next
    case False
    then obtain tag at where parent: "get a (last st) = Some (ArenaElement tag at ks)"
      using opened_last [OF o] by (auto simp: ks_def)
    let ?b = "(a @ [cell])[last st := ArenaElement tag at (ks @ [n])]"
    have lt: "last st < n" using False bounds by (auto dest!: last_in_set)
    then have b: "get ?b n = Some cell" by (simp add: n_def get_append get_list_update) (simp add: get_def)
    from assms(2) [OF b] have cell: "forest ?b [n] n (Suc n) [t]" .
    have "forest ?b ks (first_kid st 0) n (inner z)"
      by (rule forest_frame [OF inside]) (use False in \<open>simp add: get_append get_list_update n_def first_kid_def\<close>)
    then have "forest ?b (ks @ [n]) (first_kid st 0) (Suc n) (inner z @ [t])"
      using cell by (rule forest_append)
    moreover have "\<exists>t at cs. get a (last st) = Some (ArenaElement t at cs) \<and> get ?b (last st) = Some (ArenaElement t at (ks @ [n]))"
      using parent lt by (simp add: get_list_update n_def)
    moreover have "get ?b i = get a i" if "i < first_kid st 0" "st = [] \<or> i \<noteq> last st" for i
      using that False lt by (simp add: get_append get_list_update first_kid_def n_def)
    ultimately have "opened ?b (pa_roots p) st 0 (Suc n) (add_inner t z)"
      using opened_replace [OF o, of ?b "ks @ [n]" "Suc n" "inner z @ [t]"] False by simp
    moreover have "get (a @ [cell]) (last st) = Some (ArenaElement tag at ks)"
      using parent lt by (simp add: get_append n_def)
    ultimately show ?thesis using False b
      by (simp add: attach_def add_child_at_def add_child_def push_node_def represents_def same_outside_def
          st_def [symmetric] a_def [symmetric] n_def [symmetric])
  qed
qed

lemma last_text_ok:
  assumes "represents p z" and "inner z = ts @ [StmlText e]"
  obtains siblings k where "current_children p = Some siblings" and "siblings \<noteq> []" and "last siblings = k"
    and "get (pa_arena p) k = Some (ArenaText e)"
    and "represents (p\<lparr>pa_arena := (pa_arena p)[k := ArenaText x]\<rparr>) (set_inner (ts @ [StmlText x]) z)"
proof -
  let ?a = "pa_arena p" and ?st = "pa_stack p"
  note o = assms(1) [unfolded represents_def]
  from represents_inner [OF assms(1)] assms(2)
  obtain ys k where k: "kids ?a (pa_roots p) ?st = ys @ [k]" "forest ?a ys (first_kid ?st 0) k ts"
    "forest ?a [k] k (length ?a) [StmlText e]" "first_kid ?st 0 \<le> k" "k < length ?a"
    by (metis forest_snocD)
  from k(3) have cell: "get ?a k = Some (ArenaText e)" and n: "length ?a = Suc k"
    by (auto elim!: forest_TextE forest_NilE elim: forest.cases)
  let ?b = "?a[k := ArenaText x]"
  have "forest ?b ys (first_kid ?st 0) k ts"
    by (rule forest_frame [OF k(2)]) (simp add: get_list_update)
  moreover have "forest ?b [k] k (length ?a) [StmlText x]"
    unfolding n by (rule forest_leaf_Text) (simp add: get_list_update k(5))
  ultimately have "forest ?b (ys @ [k]) (first_kid ?st 0) (length ?a) (ts @ [StmlText x])"
    by (rule forest_append)
  moreover have "get ?b i = get ?a i" if "i < first_kid ?st 0" for i
    using that k(4) by (simp add: get_list_update)
  moreover have "?st \<noteq> [] \<Longrightarrow> \<exists>t at cs. get ?a (last ?st) = Some (ArenaElement t at cs)
      \<and> get ?b (last ?st) = Some (ArenaElement t at (ys @ [k]))"
    using opened_last [OF o] k(1,4) by (auto simp: get_list_update first_kid_def)
  ultimately have "opened ?b (if ?st = [] then ys @ [k] else pa_roots p) ?st 0 (length ?a) (set_inner (ts @ [StmlText x]) z)"
    using opened_replace [OF o, of ?b "ys @ [k]" "length ?a" "ts @ [StmlText x]"] by blast
  moreover have "?st = [] \<Longrightarrow> pa_roots p = ys @ [k]" using k(1) by (simp add: kids_def)
  ultimately have "represents (p\<lparr>pa_arena := ?b\<rparr>) (set_inner (ts @ [StmlText x]) z)"
    by (auto simp: represents_def split: if_splits)
  with kids_of_parser [OF assms(1)] k(1) cell show thesis by (intro that [of "ys @ [k]" k]) simp_all
qed

lemma child_text_ok:
  assumes "represents p (add_inner (StmlElement t at []) z)"
    and "get (pa_arena p) k = Some (ArenaElement t at [])" and "Suc k = length (pa_arena p)"
  shows "\<exists>q. add_child_at k (Suc k) (push_node (ArenaText x) p) = Some q
    \<and> represents q (add_inner (StmlElement t at [StmlText x]) z) \<and> same_outside p q
    \<and> length (pa_arena q) = Suc (length (pa_arena p))"
proof -
  let ?a = "pa_arena p" and ?st = "pa_stack p"
  note o = assms(1) [unfolded represents_def]
  from represents_inner [OF assms(1)]
  obtain ys j where j: "kids ?a (pa_roots p) ?st = ys @ [j]" "forest ?a ys (first_kid ?st 0) j (inner z)"
    "forest ?a [j] j (length ?a) [StmlElement t at []]" "first_kid ?st 0 \<le> j" "j < length ?a"
    unfolding inner_set_inner by (metis forest_snocD)
  from j(3) have "length ?a = Suc j" by (auto elim!: forest_ElementE forest_NilE elim: forest.cases)
  with assms(3) have jk: "j = k" by simp
  let ?b = "(?a @ [ArenaText x])[k := ArenaElement t at [Suc k]]"
  have k: "k < length ?a" using assms(3) by simp
  have "forest ?b ys (first_kid ?st 0) k (inner z)"
    by (rule forest_frame [OF j(2) [unfolded jk]]) (use k in \<open>simp add: get_list_update get_append\<close>)
  moreover have "forest ?b [k] k (Suc (Suc k)) [StmlElement t at [StmlText x]]"
  proof (rule forest_Element [OF _ _ forest_Nil])
    show "get ?b k = Some (ArenaElement t at [Suc k])" using k by (simp add: get_list_update)
    show "forest ?b [Suc k] (Suc k) (Suc (Suc k)) [StmlText x]"
      by (rule forest_leaf_Text) (simp add: get_list_update get_append assms(3), simp add: get_def)
  qed
  ultimately have "forest ?b (ys @ [k]) (first_kid ?st 0) (Suc (Suc k)) (inner z @ [StmlElement t at [StmlText x]])"
    by (rule forest_append)
  moreover have "get ?b i = get ?a i" if "i < first_kid ?st 0" for i
    using that j(4,5) jk by (simp add: get_list_update get_append)
  moreover have "?st \<noteq> [] \<Longrightarrow> \<exists>t at cs. get ?a (last ?st) = Some (ArenaElement t at cs)
      \<and> get ?b (last ?st) = Some (ArenaElement t at (ys @ [k]))"
    using opened_last [OF o] j(1,4,5) jk by (auto simp: get_list_update get_append first_kid_def)
  ultimately have "opened ?b (if ?st = [] then ys @ [k] else pa_roots p) ?st 0 (Suc (Suc k))
      (set_inner (inner z @ [StmlElement t at [StmlText x]]) (add_inner (StmlElement t at []) z))"
    using opened_replace [OF o, of ?b "ys @ [k]" "Suc (Suc k)" "inner z @ [StmlElement t at [StmlText x]]"] by blast
  moreover have "?st = [] \<Longrightarrow> pa_roots p = ys @ [k]" using j(1) jk by (simp add: kids_def)
  ultimately have "opened ?b (pa_roots p) ?st 0 (length ?b) (add_inner (StmlElement t at [StmlText x]) z)"
    using assms(3) by (auto split: if_splits)
  moreover have "get (?a @ [ArenaText x]) k = Some (ArenaElement t at [])"
    using assms(2) k by (simp add: get_append)
  ultimately show ?thesis
    by (simp add: add_child_at_def add_child_def push_node_def represents_def same_outside_def)
qed

lemma materialize_forest:
  "forest a xs lo hi ts \<Longrightarrow> hi - lo \<le> fuel \<Longrightarrow> those (map (materialize fuel a) xs) = Some ts"
proof (induction arbitrary: fuel rule: forest.induct)
  case (forest_Nil lo)
  then show ?case by simp
next
  case (forest_Text lo t xs hi ts)
  then have "those (map (materialize fuel a) xs) = Some ts" by simp
  moreover obtain f where f: "fuel = Suc f"
    using forest_Text.prems forest_le [OF forest_Text.hyps(2)] by (cases fuel) auto
  moreover have "materialize fuel a lo = Some (StmlText t)" using forest_Text.hyps f by simp
  ultimately show ?case by (simp del: materialize.simps)
next
  case (forest_Element lo t at cs mid us xs hi ts)
  note le = forest_le [OF forest_Element.hyps(2)] forest_le [OF forest_Element.hyps(3)]
  then obtain f where f: "fuel = Suc f"
    using forest_Element.prems by (cases fuel) auto
  have "those (map (materialize fuel a) xs) = Some ts" using forest_Element.IH(2) forest_Element.prems le by simp
  moreover have "those (map (materialize f a) cs) = Some us"
    using forest_Element.IH(1) [of f] forest_Element.prems le f by simp
  then have "materialize fuel a lo = Some (StmlElement t at us)" using forest_Element.hyps f by simp
  ultimately show ?case by (simp del: materialize.simps)
qed

fun node_count :: "stml_node \<Rightarrow> nat" where
  "node_count (StmlText t) = 1"
| "node_count (StmlElement t at cs) = Suc (sum_list (map node_count cs))"

lemma forest_count: "forest a xs lo hi ts \<Longrightarrow> lo + sum_list (map node_count ts) = hi"
  by (induction rule: forest.induct) auto

end
