(* ===== verification/Markup_Props.thy ===== *)
theory Markup_Props
  imports Markup_Tree
begin

text \<open>
  What the markup parser guarantees: on any text it neither panics nor exceeds its limits, and
  nothing it returns can reach the terminal as a control sequence (before entities are decoded);
  on a well-formed document it returns the document.
\<close>

section \<open>Cutting encoded texts\<close>

lemma encoded_until:
  assumes "encoded s" and "\<And>b. \<not> P b \<Longrightarrow> code b < 0x80"
  shows "encoded (takeWhile P s)" and "encoded (dropWhile P s)"
proof -
  let ?n = "length (takeWhile P s)"
  have "encoded (takeWhile P s) \<and> encoded (dropWhile P s)"
  proof (cases "?n < length s")
    case True
    then have "\<not> P (s ! ?n)" by (rule nth_length_takeWhile)
    from encoded_cut [OF assms(1) True ascii_not_cont [OF assms(2) [OF this]]]
    show ?thesis by (simp add: takeWhile_eq_take [symmetric] dropWhile_eq_drop [symmetric])
  next
    case False
    then have "takeWhile P s = s"
      using length_takeWhile_le [of P s] by (metis le_neq_implies_less takeWhile_eq_take take_all_iff linorder_le_less_linear)
    moreover from this have "dropWhile P s = []" by (metis append_self_conv takeWhile_dropWhile_id)
    ultimately show ?thesis using assms(1) by (metis encoded_Nil)
  qed
  then show "encoded (takeWhile P s)" "encoded (dropWhile P s)" by blast+
qed

lemma encoded_while:
  assumes "encoded s" and "\<And>b. P b \<Longrightarrow> code b < 0x80"
  shows "encoded (dropWhile P s)"
  using assms by (induction s) (auto dest: encoded_tail)

lemma name_byte_ascii: "is_name_byte c \<Longrightarrow> code c < 0x80"
  by (auto simp: is_name_byte_def is_ascii_alphanumeric_def)

lemma space_ascii: "is_ascii_space c \<Longrightarrow> code c < 0x80"
  by (auto simp: is_ascii_space_def)

lemma encoded_takeWhile_name: "encoded (takeWhile is_name_byte s)"
  by (rule encoded_ascii) (auto dest: set_takeWhileD name_byte_ascii)

lemma encoded_skip_space: "encoded s \<Longrightarrow> encoded (skip_space s)"
  unfolding skip_space_def by (rule encoded_while) (auto dest: space_ascii)

lemma encoded_after_sub:
  assumes "encoded s" and "p \<noteq> []" and "\<forall>c \<in> set p. code c < 0x80"
  shows "encoded (after_sub p s)"
proof (cases "find_sub p s")
  case None
  then show ?thesis by (simp add: after_sub_def)
next
  case (Some i)
  then obtain r where r: "drop i s = p @ r" using find_sub_SomeD by (auto simp: starts_with_iff dest!: find_sub_SomeD)
  obtain c p' where p: "p = c # p'" using assms(2) by (cases p) auto
  from r p have "i < length s" and "s ! i = c" by (auto simp: get_Some_iff dest: drop_Cons_get)
  with encoded_cut(2) [OF assms(1)] assms(3) p have "encoded (p @ r)"
    by (metis ascii_not_cont list.set_intros(1) r)
  moreover have "\<forall>c \<in> set p. code c < 0x80 \<Longrightarrow> encoded (p @ r) \<Longrightarrow> encoded r" for p r
    by (induction p) (auto dest: encoded_tail)
  ultimately have "encoded r" using assms(3) by blast
  moreover have "drop (i + length p) s = r"
    using r by (metis append_eq_conv_conj drop_drop add.commute)
  ultimately show ?thesis using Some by (simp add: after_sub_def)
qed

text \<open>A suffix of an encoded text that may start inside a character, as it does where the
  parser steps over a byte it does not know.\<close>

definition suffix_of_text :: "string \<Rightarrow> bool" where
  "suffix_of_text s \<longleftrightarrow> (\<exists>p. encoded (p @ s))"

lemma suffix_of_text_encoded: "encoded s \<Longrightarrow> suffix_of_text s"
  unfolding suffix_of_text_def by (rule exI [of _ "[]"]) simp

lemma suffix_of_text_append: "suffix_of_text (a @ s) \<Longrightarrow> suffix_of_text s"
  unfolding suffix_of_text_def by (metis append.assoc)

lemma suffix_of_text_ascii:
  assumes "suffix_of_text (c # s)" and "code c < 0x80"
  shows "encoded (c # s)"
proof -
  obtain p where p: "encoded (p @ c # s)" using assms(1) by (auto simp: suffix_of_text_def)
  from encoded_cut(2) [OF p, of "length p"] ascii_not_cont [OF assms(2)] show ?thesis by (simp add: nth_append)
qed

lemma suffix_of_text_skip_space:
  assumes "suffix_of_text s"
  shows "suffix_of_text (skip_space s)"
  using assms takeWhile_dropWhile_id [of is_ascii_space s] unfolding skip_space_def
  by (metis suffix_of_text_append)

lemma read_attribute_value_encoded:
  assumes "encoded s"
  shows "encoded (fst (read_attribute_value s)) \<and> encoded (snd (read_attribute_value s))"
proof (cases s)
  case (Cons c r)
  show ?thesis
  proof (cases "c = DQUOTE \<or> c = CHR 0x27")
    case True
    then have c: "code c < 0x80" by auto
    with assms Cons have r: "encoded r" by (auto dest: encoded_tail)
    have "encoded (drop 1 (dropWhile (\<lambda>b. b \<noteq> c) r))"
    proof (cases "dropWhile (\<lambda>b. b \<noteq> c) r")
      case (Cons d q)
      then have "d = c" using hd_dropWhile [of "\<lambda>b. b \<noteq> c" r] by simp
      with Cons encoded_until(2) [OF r, of "\<lambda>b. b \<noteq> c"] c show ?thesis by (auto dest: encoded_tail)
    next
      case Nil
      show ?thesis unfolding Nil by simp
    qed
    with True Cons encoded_until(1) [OF r, of "\<lambda>b. b \<noteq> c"] c show ?thesis
      by (simp add: read_attribute_value_def)
  next
    case False
    let ?P = "\<lambda>b. \<not> is_ascii_space b \<and> b \<noteq> CHR ''>'' \<and> b \<noteq> CHR ''/''"
    have "encoded (takeWhile ?P s)" "encoded (dropWhile ?P s)"
      using assms by (rule encoded_until, auto dest: space_ascii)+
    with False Cons show ?thesis
      by (simp add: read_attribute_value_def Let_def del: takeWhile.simps dropWhile.simps)
  qed
qed (simp add: read_attribute_value_def)

lemma attribute_value_encoded:
  assumes "encoded s"
  shows "encoded (fst (attribute_value s)) \<and> encoded (snd (attribute_value s))"
proof -
  note sk = encoded_skip_space [OF assms]
  show ?thesis
  proof (cases "skip_space s")
    case (Cons c r)
    show ?thesis
    proof (cases "c = CHR ''=''")
      case True
      with sk Cons have "encoded r" by (auto dest: encoded_tail)
      from read_attribute_value_encoded [OF encoded_skip_space [OF this]] True Cons show ?thesis
        by (simp add: attribute_value_def)
    qed (use sk Cons in \<open>simp add: attribute_value_def\<close>)
  qed (simp add: attribute_value_def)
qed

lemma read_attrs_good:
  assumes "suffix_of_text s" and "\<forall>v \<in> ran attrs. harmless v" and "read_attrs s attrs = Some (a, b, rest)"
  shows "encoded rest \<and> (\<forall>v \<in> ran a. harmless v)"
  using assms
proof (induction s attrs rule: read_attrs.induct)
  case (1 s attrs)
  show ?case
  proof (cases "skip_space s")
    case Nil
    with "1.prems"(3) show ?thesis by (subst (asm) read_attrs.simps) simp
  next
    case (Cons c r)
    have cr: "suffix_of_text (c # r)" using suffix_of_text_skip_space [OF "1.prems"(1)] Cons by simp
    then have r: "suffix_of_text r" using suffix_of_text_append [of "[c]" r] by simp
    define name where "name = takeWhile is_name_byte (c # r)"
    define v where "v = attribute_value (dropWhile is_name_byte (c # r))"
    consider (closes) "c = CHR ''>''" | (self) "c \<noteq> CHR ''>''" "c = CHR ''/''" "get r 0 = Some (CHR ''>'')"
      | (skip) "c \<noteq> CHR ''>''" "\<not> (c = CHR ''/'' \<and> get r 0 = Some (CHR ''>''))" "name = []"
      | (attr) "c \<noteq> CHR ''>''" "\<not> (c = CHR ''/'' \<and> get r 0 = Some (CHR ''>''))" "name \<noteq> []"
      by blast
    then show ?thesis
    proof cases
      case closes
      then have "encoded (c # r)" by (intro suffix_of_text_ascii [OF cr]) simp
      with closes have "encoded r" by (auto dest: encoded_tail)
      with closes "1.prems" Cons show ?thesis by (subst (asm) read_attrs.simps) simp
    next
      case self
      then obtain r' where r': "r = CHR ''>'' # r'" by (cases r) (auto simp: get_def)
      with suffix_of_text_ascii [OF r [unfolded r']] have "encoded r'" by (auto dest: encoded_tail)
      with self "1.prems" Cons r' show ?thesis by (subst (asm) read_attrs.simps) auto
    next
      case skip
      with "1.prems"(3) Cons have "read_attrs r attrs = Some (a, b, rest)"
        by (subst (asm) read_attrs.simps) (auto simp: name_def Let_def simp del: takeWhile.simps dropWhile.simps)
      from "1.IH"(1) [OF Cons skip(1,2) name_def skip(3) r "1.prems"(2) this] show ?thesis .
    next
      case attr
      have "is_name_byte c" using attr(3) by (auto simp: name_def split: if_splits)
      then have "encoded (c # r)" by (intro suffix_of_text_ascii [OF cr] name_byte_ascii)
      then have "encoded (dropWhile is_name_byte (c # r))" by (rule encoded_while) (rule name_byte_ascii)
      from attribute_value_encoded [OF this] have v: "encoded (fst v)" "encoded (snd v)" by (simp_all add: v_def)
      from sanitize_harmless [OF v(1)] "1.prems"(2)
      have "\<forall>x \<in> ran (attrs(to_ascii_lowercase name \<mapsto> sanitize (fst v))). harmless x"
        by (auto simp: ran_def sanitize_def)
      moreover have "read_attrs (snd v) (attrs(to_ascii_lowercase name \<mapsto> sanitize (fst v))) = Some (a, b, rest)"
        using attr "1.prems"(3) Cons
        by (subst (asm) read_attrs.simps) (auto simp: name_def v_def Let_def simp del: takeWhile.simps dropWhile.simps)
      ultimately show ?thesis
        by (intro "1.IH"(2) [OF Cons attr(1,2) name_def attr(3) v_def suffix_of_text_encoded [OF v(2)]])
    qed
  qed
qed

section \<open>What the nodes satisfy\<close>

fun harmless_node :: "stml_node \<Rightarrow> bool" where
  "harmless_node (StmlText t) = harmless t"
| "harmless_node (StmlElement t at cs) = (harmless t \<and> (\<forall>v \<in> ran at. harmless v) \<and> (\<forall>c \<in> set cs. harmless_node c))"

fun element_depth :: "stml_node \<Rightarrow> nat" where
  "element_depth (StmlText t) = 0"
| "element_depth (StmlElement t at cs) = Suc (fold max (map element_depth cs) 0)"

definition neat_nodes :: "nat \<Rightarrow> stml_node list \<Rightarrow> bool" where
  "neat_nodes d ts \<longleftrightarrow> (\<forall>t \<in> set ts. harmless_node t \<and> element_depth t \<le> d)"

fun neat :: "nat \<Rightarrow> open_tree \<Rightarrow> bool" where
  "neat d (Closed ts) = neat_nodes d ts"
| "neat d (Open ts t at z) =
     (neat_nodes d ts \<and> harmless t \<and> (\<forall>v \<in> ran at. harmless v) \<and> 0 < d \<and> neat (d - 1) z)"

lemma fold_max_le: "fold max xs (m::nat) \<le> d \<longleftrightarrow> m \<le> d \<and> (\<forall>x \<in> set xs. x \<le> d)"
  by (induction xs arbitrary: m) auto

lemma neat_element:
  "neat_nodes d [StmlElement t at cs] \<longleftrightarrow>
     harmless t \<and> (\<forall>v \<in> ran at. harmless v) \<and> 0 < d \<and> neat_nodes (d - 1) cs"
  by (cases d) (auto simp: neat_nodes_def fold_max_le)

lemma neat_nodes_append [simp]: "neat_nodes d (xs @ ys) \<longleftrightarrow> neat_nodes d xs \<and> neat_nodes d ys"
  by (auto simp: neat_nodes_def)

lemma neat_nodes_Nil [simp]: "neat_nodes d []"
  by (simp add: neat_nodes_def)

lemma neat_text [simp]: "neat_nodes d [StmlText t] \<longleftrightarrow> harmless t"
  by (simp add: neat_nodes_def)

lemma neat_collapse: "neat d z \<Longrightarrow> neat_nodes d (collapse z)"
  by (induction z arbitrary: d) (auto simp: neat_element)

lemma neat_close: "neat d z \<Longrightarrow> neat d (close_to n z)"
  by (induction n z arbitrary: d rule: close_to.induct) (auto simp: neat_element dest: neat_collapse)

lemma neat_length: "neat d z \<Longrightarrow> length (open_tags z) \<le> d"
  by (induction z arbitrary: d) force+

lemma neat_set_inner: "neat d z \<Longrightarrow> neat_nodes (d - length (open_tags z)) us \<Longrightarrow> neat d (set_inner us z)"
  by (induction z arbitrary: d) auto

lemma neat_inner: "neat d z \<Longrightarrow> neat_nodes (d - length (open_tags z)) (inner z)"
proof (induction z arbitrary: d)
  case (Open ts t at z)
  from Open.prems have "neat (d - 1) z" by simp
  from Open.IH [OF this] show ?case by simp
qed simp

lemma neat_enter:
  "neat d z \<Longrightarrow> length (open_tags z) < d \<Longrightarrow> harmless t \<Longrightarrow> \<forall>v \<in> ran at. harmless v \<Longrightarrow> neat d (enter t at z)"
  by (induction z arbitrary: d) auto

definition good_parser :: "stml_parse_limits \<Rightarrow> stml_parser \<Rightarrow> bool" where
  "good_parser limits p \<longleftrightarrow>
     pa_limits p = limits \<and> length (pa_arena p) \<le> max_nodes limits \<and> length (pa_errors p) \<le> max_errors limits
     \<and> (\<exists>z. represents p z \<and> neat (max_depth limits) z)"

lemma represents_length: "represents p z \<Longrightarrow> length (open_tags z) = length (pa_stack p)"
  by (simp add: represents_def opened_length)

lemma good_error: "good_parser limits p \<Longrightarrow> good_parser limits (parser_error message p)"
  by (auto simp: good_parser_def parser_error_def represents_def)

lemma good_reported: "good_parser limits p \<Longrightarrow> good_parser limits (p\<lparr>pa_node_limit_reported := r\<rparr>)"
  by (simp add: good_parser_def represents_def)

lemma reserve_node_cases:
  assumes "good_parser limits p"
  obtains "reserve_node p = (True, p)" and "length (pa_arena p) < max_nodes limits"
  | q where "reserve_node p = (False, q)" and "good_parser limits q" and "pa_node_limit_reported q"
proof (cases "length (pa_arena p) < max_nodes (pa_limits p)")
  case True
  with assms that(1) show thesis by (simp add: reserve_node_def good_parser_def)
next
  case False
  with assms show thesis
    by (intro that(2) [of "snd (reserve_node p)"]) (auto simp: reserve_node_def intro: good_reported good_error)
qed

lemma good_attach:
  assumes "good_parser limits p" and "length (pa_arena p) < max_nodes limits"
    and "\<And>b k. get b k = Some cell \<Longrightarrow> forest b [k] k (Suc k) [t]"
    and "neat_nodes (max_depth limits - length (pa_stack p)) [t]"
  shows "\<exists>q z. attach (length (pa_arena p)) (push_node cell p) = Some q \<and> good_parser limits q
    \<and> represents q (add_inner t z) \<and> same_outside p q \<and> length (pa_arena q) = Suc (length (pa_arena p))
    \<and> get (pa_arena q) (length (pa_arena p)) = Some cell \<and> represents p z \<and> neat (max_depth limits) z"
proof -
  from assms(1) obtain z where z: "represents p z" "neat (max_depth limits) z" by (auto simp: good_parser_def)
  from attach_ok [OF z(1) assms(3)] obtain q where q: "attach (length (pa_arena p)) (push_node cell p) = Some q"
    "represents q (add_inner t z)" "same_outside p q" "length (pa_arena q) = Suc (length (pa_arena p))"
    "get (pa_arena q) (length (pa_arena p)) = Some cell" by blast
  have "neat (max_depth limits) (add_inner t z)"
    using neat_set_inner [OF z(2), of "inner z @ [t]"] neat_inner [OF z(2)] assms(4) represents_length [OF z(1)] by simp
  with q assms(1,2) have "good_parser limits q" by (auto simp: good_parser_def same_outside_def)
  with q z show ?thesis by blast
qed

lemma good_push_new_text:
  assumes "good_parser limits p" and "harmless t"
  shows "\<exists>q. push_new_text t p = Some q \<and> good_parser limits q"
  using assms(1)
proof (cases rule: reserve_node_cases)
  case 1
  from good_attach [OF assms(1) 1(2) forest_leaf_Text] assms(2) 1 show ?thesis
    by (auto simp: push_new_text_def)
next
  case (2 q)
  then show ?thesis by (simp add: push_new_text_def)
qed

lemma good_push_text:
  assumes "good_parser limits p" and "encoded s"
  shows "\<exists>q. push_text s p = Some q \<and> good_parser limits q"
proof (cases "sanitize s = []")
  case True
  with assms show ?thesis by (simp add: push_text_def)
next
  case ne: False
  have h: "harmless (sanitize s)" using sanitize_harmless [OF assms(2)] by (simp add: sanitize_def)
  from assms(1) obtain z where z: "represents p z" "neat (max_depth limits) z" by (auto simp: good_parser_def)
  note new = good_push_new_text [OF assms(1) h]
  note kids = kids_of_parser [OF z(1)]
  show ?thesis
  proof (cases "inner z" rule: rev_cases)
    case Nil
    with represents_inner [OF z(1)] have "kids (pa_arena p) (pa_roots p) (pa_stack p) = []"
      by (auto elim: forest_NilE)
    with kids ne new show ?thesis by (simp add: push_text_def)
  next
    case (snoc ts u)
    show ?thesis
    proof (cases u)
      case (StmlText e)
      with snoc obtain siblings k where k: "current_children p = Some siblings" "siblings \<noteq> []" "last siblings = k"
        "get (pa_arena p) k = Some (ArenaText e)"
        "represents (p\<lparr>pa_arena := (pa_arena p)[k := ArenaText (e @ sanitize s)]\<rparr>) (set_inner (ts @ [StmlText (e @ sanitize s)]) z)"
        using last_text_ok [OF z(1)] by metis
      have "neat (max_depth limits) (set_inner (ts @ [StmlText (e @ sanitize s)]) z)"
        using neat_inner [OF z(2)] snoc StmlText h by (intro neat_set_inner [OF z(2)]) (auto intro: harmless_append)
      with k(5) assms(1) have "good_parser limits (p\<lparr>pa_arena := (pa_arena p)[k := ArenaText (e @ sanitize s)]\<rparr>)"
        by (auto simp: good_parser_def)
      with k ne show ?thesis by (simp add: push_text_def)
    next
      case (StmlElement t at cs)
      from represents_inner [OF z(1)] snoc
      obtain ys k where k: "kids (pa_arena p) (pa_roots p) (pa_stack p) = ys @ [k]" "forest (pa_arena p) [k] k (length (pa_arena p)) [u]"
        by (metis forest_snocD)
      from k(2) StmlElement obtain cs' where "get (pa_arena p) k = Some (ArenaElement t at cs')" by (auto elim!: forest_ElementE)
      with kids k(1) ne new show ?thesis by (simp add: push_text_def)
    qed
  qed
qed

lemma good_close_tag:
  assumes "good_parser limits p" and "encoded s" and "starts_with s ''</''"
  shows "\<exists>r q. close_tag s p = Some (r, q) \<and> encoded r \<and> good_parser limits q"
proof -
  from assms(1) obtain z where z: "represents p z" "neat (max_depth limits) z" by (auto simp: good_parser_def)
  obtain ns where ns: "stack_nodes p = Some ns"
    using opened_stack_nodes [OF z(1) [unfolded represents_def]] by (auto simp: stack_nodes_def)
  obtain s' where "s = ''</'' @ s'" using assms(3) by (auto simp: starts_with_iff)
  with assms(2) have "encoded (drop 2 s)" by (auto dest!: encoded_tail)
  then have "encoded (dropWhile is_name_byte (drop 2 s))" by (rule encoded_while) (rule name_byte_ascii)
  then have r: "encoded (after_sub ''>'' (dropWhile is_name_byte (drop 2 s)))" by (rule encoded_after_sub) simp_all
  have cut: "good_parser limits q \<Longrightarrow> good_parser limits (q\<lparr>pa_stack := take n (pa_stack q)\<rparr>)" for q n
    by (auto simp: good_parser_def represents_def dest: opened_close neat_close)
  have stack: "pa_stack (parser_error m p) = pa_stack p" for m by (simp add: parser_error_def)
  show ?thesis using ns r cut [OF assms(1)] cut [OF good_error [OF assms(1)], unfolded stack] good_error [OF assms(1)]
    by (auto simp: close_tag_def Let_def stack split: option.splits)
qed

lemma good_push_element:
  assumes "good_parser limits p" and "length (pa_stack p) < max_depth limits" and "harmless t"
    and "\<forall>v \<in> ran at. harmless v"
  shows "(\<exists>q. push_element t at p = Some (None, q) \<and> good_parser limits q)
    \<or> (\<exists>q z. push_element t at p = Some (Some (length (pa_arena p)), q) \<and> good_parser limits q
        \<and> represents q (add_inner (StmlElement t at []) z) \<and> represents p z \<and> neat (max_depth limits) z
        \<and> same_outside p q \<and> length (pa_arena q) = Suc (length (pa_arena p))
        \<and> get (pa_arena q) (length (pa_arena p)) = Some (ArenaElement t at []))"
  using assms(1)
proof (cases rule: reserve_node_cases)
  case 1
  have "neat_nodes (max_depth limits - length (pa_stack p)) [StmlElement t at []]"
    using assms(2-4) by (simp add: neat_element)
  from good_attach [of limits p "ArenaElement t at []", OF assms(1) 1(2) forest_leaf_Element this] 1 show ?thesis
    by (auto simp: push_element_def Let_def)
next
  case (2 q)
  then show ?thesis by (simp add: push_element_def)
qed

section \<open>Every round\<close>

lemma good_child_text:
  assumes "good_parser limits q" and "represents q (add_inner (StmlElement t at []) z)"
    and "get (pa_arena q) k = Some (ArenaElement t at [])" and "length (pa_arena q) = Suc k" and "encoded s"
    and "length (pa_stack q) < max_depth limits" and "harmless t" and "\<forall>v \<in> ran at. harmless v"
    and "neat (max_depth limits) z"
  shows "\<exists>r. push_text_child k s q = Some r \<and> good_parser limits r"
proof (cases "sanitize s = []")
  case True
  with assms(1) show ?thesis by (simp add: push_text_child_def)
next
  case False
  have h: "harmless (sanitize s)" using sanitize_harmless [OF assms(5)] by (simp add: sanitize_def)
  from assms(1) show ?thesis
  proof (cases rule: reserve_node_cases)
    case 1
    from child_text_ok [OF assms(2,3), of "sanitize s"] assms(4)
    obtain r where r: "add_child_at k (Suc k) (push_node (ArenaText (sanitize s)) q) = Some r"
      "represents r (add_inner (StmlElement t at [StmlText (sanitize s)]) z)" "same_outside q r"
      "length (pa_arena r) = Suc (length (pa_arena q))" by auto
    have "length (pa_stack q) = length (open_tags z)" using represents_length [OF assms(2)] by simp
    with neat_inner [OF assms(9)] assms(6-8) h
    have "neat (max_depth limits) (add_inner (StmlElement t at [StmlText (sanitize s)]) z)"
      by (intro neat_set_inner [OF assms(9)]) (simp add: neat_element)
    with r assms(1) 1 have "good_parser limits r" by (auto simp: good_parser_def same_outside_def)
    with r 1 False assms(4) show ?thesis by (simp add: push_text_child_def)
  next
    case (2 r)
    with False show ?thesis by (simp add: push_text_child_def)
  qed
qed

definition good_round :: "stml_parse_limits \<Rightarrow> round \<Rightarrow> bool" where
  "good_round limits r =
     (case r of Break p \<Rightarrow> good_parser limits p | Continue s p \<Rightarrow> encoded s \<and> good_parser limits p)"

lemma lower_lt: "ascii_lower c = CHR ''<'' \<Longrightarrow> c = CHR ''<''"
  by (auto simp: ascii_lower_def split: if_splits dest!: arg_cong [of "char_of _" _ code])

lemma find_tag_cut:
  assumes "find_case_insensitive s (''</'' @ tag) = Some i" and "encoded s"
  shows "encoded (take i s) \<and> encoded (drop i s)"
proof -
  have "starts_with (drop i (to_ascii_lowercase s)) (to_ascii_lowercase (''</'' @ tag))"
    using assms(1) by (auto simp: find_case_insensitive_def dest: find_sub_SomeD)
  moreover have "ascii_lower (CHR ''<'') = CHR ''<''" by (simp add: ascii_lower_def)
  ultimately obtain r where "drop i (map ascii_lower s) = CHR ''<'' # r"
    by (auto simp: to_ascii_lowercase_def starts_with_iff)
  then have "i < length s" and "ascii_lower (s ! i) = CHR ''<''"
    by (auto simp: get_Some_iff dest: drop_Cons_get) (metis drop_Cons_get(1,2) get_Some_iff length_map nth_map)
  then have "i < length s" "s ! i = CHR ''<''" by (auto dest: lower_lt)
  with encoded_cut [OF assms(2)] show ?thesis by (simp add: is_cont_def)
qed

lemma good_raw_element:
  assumes "good_parser limits q" and "represents q (add_inner (StmlElement t at []) z)"
    and "get (pa_arena q) k = Some (ArenaElement t at [])" and "length (pa_arena q) = Suc k" and "encoded s"
    and "length (pa_stack q) < max_depth limits" and "harmless t" and "\<forall>v \<in> ran at. harmless v"
    and "neat (max_depth limits) z"
  shows "\<exists>r. raw_element t k s q = Some r \<and> good_round limits r"
proof (cases "find_case_insensitive s (''</'' @ t)")
  case None
  from good_child_text [OF assms] obtain r where "push_text_child k s q = Some r" "good_parser limits r" by blast
  with None show ?thesis by (simp add: raw_element_def good_round_def good_error)
next
  case (Some i)
  with find_tag_cut [OF this assms(5)] have e: "encoded (take i s)" "encoded (drop i s)" by simp_all
  from good_child_text [OF assms(1-4) e(1) assms(6-)] obtain r where
    "push_text_child k (take i s) q = Some r" "good_parser limits r" by blast
  with Some encoded_after_sub [OF e(2), of "''>''"] show ?thesis by (simp add: raw_element_def good_round_def)
qed

lemma good_element_round:
  assumes "good_parser limits p" and "encoded (ot_next tag)" and "harmless (ot_tag tag)"
    and "\<forall>v \<in> ran (ot_attrs tag). harmless v"
  shows "\<exists>r. element_round tag p = Some r \<and> good_round limits r"
proof (cases "max_depth limits \<le> length (pa_stack p)")
  case True
  with assms show ?thesis by (simp add: element_round_def good_round_def good_error good_parser_def [of limits p])
next
  case False
  have lim: "pa_limits p = limits" using assms(1) by (simp add: good_parser_def)
  from False have room: "length (pa_stack p) < max_depth limits" by simp
  from good_push_element [OF assms(1) room assms(3,4)]
  consider (full) q where "push_element (ot_tag tag) (ot_attrs tag) p = Some (None, q)" "good_parser limits q"
    | (pushed) q z where "push_element (ot_tag tag) (ot_attrs tag) p = Some (Some (length (pa_arena p)), q)"
      "good_parser limits q" "represents q (add_inner (StmlElement (ot_tag tag) (ot_attrs tag) []) z)" "represents p z"
      "neat (max_depth limits) z" "same_outside p q" "length (pa_arena q) = Suc (length (pa_arena p))"
      "get (pa_arena q) (length (pa_arena p)) = Some (ArenaElement (ot_tag tag) (ot_attrs tag) [])"
    by blast
  then show ?thesis
  proof cases
    case full
    with False lim show ?thesis by (simp add: element_round_def good_round_def)
  next
    case pushed
    have stack: "pa_stack q = pa_stack p" using pushed(6) by (simp add: same_outside_def)
    have raw: "\<exists>r. raw_element (ot_tag tag) (length (pa_arena p)) (ot_next tag) q = Some r \<and> good_round limits r"
      using good_raw_element [OF pushed(2,3,8,7) assms(2) _ assms(3,4) pushed(5)] room stack by simp
    have enter: "good_parser limits (q\<lparr>pa_stack := pa_stack q @ [length (pa_arena p)]\<rparr>)"
    proof -
      have "opened (pa_arena q) (pa_roots q) (pa_stack q @ [length (pa_arena p)]) 0 (length (pa_arena q))
          (enter (ot_tag tag) (ot_attrs tag) z)"
        using opened_enter [OF pushed(3) [unfolded represents_def] refl pushed(8,7)] .
      moreover have "neat (max_depth limits) (enter (ot_tag tag) (ot_attrs tag) z)"
        using neat_enter [OF pushed(5) _ assms(3,4)] room represents_length [OF pushed(4)] by simp
      ultimately show ?thesis using pushed(2) by (auto simp: good_parser_def represents_def)
    qed
    show ?thesis using raw enter pushed(1,2) False lim assms(2)
      by (auto simp: element_round_def good_round_def)
  qed
qed

lemma harmless_ascii: "\<forall>c \<in> set s. 0x20 \<le> code c \<and> code c < 0x7F \<Longrightarrow> harmless s"
proof (induction s)
  case (Cons c s)
  then have "chars (c # s) = [c] # chars s" using chars_rchar_append [of "[c]" s] by simp
  moreover have "shown [c]" using Cons.prems by (auto simp: shown_def is_control_def)
  ultimately show ?case using Cons by (simp add: harmless_def encoded_Cons)
qed simp

lemma read_open_tag_good:
  assumes "encoded s" and "starts_with s ''<''" and "read_open_tag s = Some tag"
  shows "encoded (ot_next tag) \<and> harmless (ot_tag tag) \<and> (\<forall>v \<in> ran (ot_attrs tag). harmless v)"
proof -
  let ?name = "takeWhile is_name_byte (drop 1 s)"
  obtain s' where "s = CHR ''<'' # s'" using assms(2) by (auto simp: starts_with_iff)
  with assms(1) have "encoded (drop 1 s)" by (auto dest: encoded_tail)
  then have "suffix_of_text (dropWhile is_name_byte (drop 1 s))"
    by (intro suffix_of_text_encoded encoded_while) (auto dest: name_byte_ascii)
  moreover obtain b where "read_attrs (dropWhile is_name_byte (drop 1 s)) Map.empty = Some (ot_attrs tag, b, ot_next tag)"
    and tag: "ot_tag tag = to_ascii_lowercase ?name"
    using assms(3) by (auto simp: read_open_tag_def Let_def split: if_splits)
  ultimately have "encoded (ot_next tag) \<and> (\<forall>v \<in> ran (ot_attrs tag). harmless v)"
    by (intro read_attrs_good [of _ Map.empty]) simp_all
  moreover have "harmless (ot_tag tag)" unfolding tag
  proof -
    have "\<forall>c \<in> set (to_ascii_lowercase ?name). is_name_byte c"
      by (auto simp: to_ascii_lowercase_def ascii_lower_def is_name_byte_def is_ascii_alphanumeric_def dest!: set_takeWhileD)
    then show "harmless (to_ascii_lowercase ?name)"
      by (intro harmless_ascii) (auto simp: is_name_byte_def is_ascii_alphanumeric_def)
  qed
  ultimately show ?thesis by blast
qed

lemma good_bracket_round:
  assumes "good_parser limits p" and "encoded s" and "starts_with s ''<''"
  shows "\<exists>r. bracket_round s p = Some r \<and> good_round limits r"
proof -
  obtain s' where s: "s = CHR ''<'' # s'" using assms(3) by (auto simp: starts_with_iff)
  with assms(2) have s': "encoded s'" by (auto dest: encoded_tail)
  obtain q where lt: "push_text ''<'' p = Some q" "good_parser limits q"
    using good_push_text [OF assms(1), of "''<''"] by (auto simp: encoded_Cons)
  have comment: "encoded (after_sub ''-->'' (drop 4 s))" if "starts_with s ''<!--''"
  proof (rule encoded_after_sub)
    from that obtain r where "s = ''<!--'' @ r" by (auto simp: starts_with_iff)
    with assms(2) show "encoded (drop 4 s)" by (auto dest!: encoded_tail)
  qed simp_all
  have tag: "\<exists>r. element_round tag p = Some r \<and> good_round limits r" if "read_open_tag s = Some tag" for tag
    using read_open_tag_good [OF assms(2,3) that] good_element_round [OF assms(1)] by blast
  have close: "\<exists>r q. close_tag s p = Some (r, q) \<and> encoded r \<and> good_parser limits q" if "get s 1 = Some (CHR ''/'')"
    by (rule good_close_tag [OF assms(1,2)]) (use that s in \<open>cases s'; simp add: get_def\<close>)
  have rest: "drop 1 s = s'" by (simp add: s)
  show ?thesis
  proof (cases "starts_with s ''<!--''")
    case True
    with comment assms(1) show ?thesis by (simp add: bracket_round_def good_round_def)
  next
    case False
    note round = bracket_round_def [of s p, unfolded rest, simplified False if_False]
    show ?thesis
    proof (cases "get s 1")
      case None
      with lt show ?thesis unfolding round None by (simp add: good_round_def)
    next
      case (Some c)
      consider "c = CHR ''/''" | "c \<noteq> CHR ''/''" "\<not> is_ascii_alphabetic c" | "c \<noteq> CHR ''/''" "is_ascii_alphabetic c"
        by blast
      then show ?thesis
      proof cases
        case 1
        with close Some show ?thesis unfolding round Some by (auto simp: good_round_def)
      next
        case 2
        with lt s' show ?thesis unfolding round Some by (simp add: good_round_def)
      next
        case 3
        with lt s' tag show ?thesis unfolding round Some by (cases "read_open_tag s") (simp_all add: good_round_def)
      qed
    qed
  qed
qed

lemma good_parse_round:
  assumes "good_parser limits p" and "encoded s"
  shows "\<exists>r. parse_round s p = Some r \<and> good_round limits r"
proof (cases "position (\<lambda>c. c = CHR ''<'') s")
  case None
  from good_push_text [OF assms] None show ?thesis by (auto simp: parse_round_def good_round_def)
next
  case (Some i)
  from position_SomeD [OF this] have i: "i < length s" "s ! i = CHR ''<''" by blast+
  then have e: "encoded (take i s)" "encoded (drop i s)" using encoded_cut [OF assms(2)] by (simp_all add: is_cont_def)
  have lt: "starts_with (drop i s) ''<''" using i by (simp add: Cons_nth_drop_Suc [symmetric])
  obtain q where q: "(if 0 < i then push_text (take i s) p else Some p) = Some q" "good_parser limits q"
    using good_push_text [OF assms(1) e(1)] assms(1) by (cases "0 < i") auto
  show ?thesis
  proof (cases "pa_node_limit_reported q")
    case True
    with Some q show ?thesis by (simp add: parse_round_def good_round_def)
  next
    case False
    with Some q good_bracket_round [OF q(2) e(2) lt] show ?thesis by (simp add: parse_round_def)
  qed
qed

lemma good_parse_loop:
  "good_parser limits p \<Longrightarrow> encoded s \<Longrightarrow> \<exists>q. parse_loop s p = Some q \<and> good_parser limits q"
proof (induction s p rule: parse_loop.induct)
  case (1 s p)
  show ?case
  proof (cases "s = [] \<or> pa_node_limit_reported p")
    case True
    with "1.prems" show ?thesis by (simp add: parse_loop.simps)
  next
    case False
    from good_parse_round [OF "1.prems"] obtain r where r: "parse_round s p = Some r" "good_round limits r" by blast
    show ?thesis
    proof (cases r)
      case (Break q)
      with False r show ?thesis by (subst parse_loop.simps) (simp add: good_round_def)
    next
      case (Continue rest q)
      with False r "1.IH" [OF False r(1) Continue] show ?thesis
        by (subst parse_loop.simps) (simp add: good_round_def)
    qed
  qed
qed

lemma good_run_parser:
  assumes "good_parser limits p" and "encoded s"
  shows "\<exists>q. run_parser s p = Some q \<and> good_parser limits q"
proof -
  from good_parse_loop [OF assms] obtain q where q: "parse_loop s p = Some q" "good_parser limits q" by blast
  then obtain z where "represents q z" by (auto simp: good_parser_def)
  from opened_stack_nodes [OF this [unfolded represents_def]] obtain ns where "stack_nodes q = Some ns"
    by (auto simp: stack_nodes_def)
  with q good_error [OF q(2)] show ?thesis by (simp add: run_parser_def report_unclosed_def)
qed

lemma good_start: "good_parser limits (parser_start limits)"
  by (auto simp: good_parser_def parser_start_def represents_def intro!: exI [of _ "Closed []"] opened_Nil forest_Nil)

lemma encoded_truncate:
  assumes "encoded s"
  shows "encoded (fst (truncate_utf8 s n))"
proof (cases "length s \<le> n")
  case True
  with assms show ?thesis by (simp add: truncate_utf8_def)
next
  case False
  define ks where "ks = filter (\<lambda>i. i = 0 \<or> char_boundary s i) [0..<Suc n]"
  have ks: "set ks = {i. i \<le> n \<and> (i = 0 \<or> char_boundary s i)}"
    by (simp add: ks_def less_Suc_eq_le del: upt_Suc)
  then have "ks \<noteq> []" by (metis (mono_tags, lifting) empty_iff empty_set le0 mem_Collect_eq)
  then have "last ks \<in> set ks" by simp
  then have at: "last ks \<le> n" "last ks = 0 \<or> char_boundary s (last ks)" unfolding ks by blast+
  have "encoded (take k s)" if "k \<le> n" "k = 0 \<or> char_boundary s k" for k
    using that False encoded_cut(1) [OF assms, of k] by (cases "k = 0") (auto simp: char_boundary_def)
  from this [OF at] have "encoded (take (last ks) s)" .
  with False show ?thesis by (simp add: truncate_utf8_def ks_def del: upt_Suc)
qed

definition node_total :: "stml_node list \<Rightarrow> nat" where
  "node_total ts = sum_list (map node_count ts)"

lemma parse_stml_good:
  assumes "encoded input"
  shows "\<exists>r. parse_stml input limits = Some r \<and> node_total (sp_nodes r) \<le> max_nodes limits
    \<and> length (sp_errors r) \<le> max_errors limits \<and> neat_nodes (max_depth limits) (sp_nodes r)"
proof -
  let ?s = "fst (truncate_utf8 input (max_input_bytes limits))"
  have "\<exists>q. run_parser ?s p = Some q \<and> good_parser limits q" if "good_parser limits p" for p
    using good_run_parser [OF that encoded_truncate [OF assms]] .
  note run = this [OF good_start] this [OF good_error [OF good_start]]
  have tree: "\<exists>ts. those (map (materialize (length (pa_arena q)) (pa_arena q)) (pa_roots q)) = Some ts
      \<and> node_total ts \<le> max_nodes limits \<and> neat_nodes (max_depth limits) ts" if "good_parser limits q" for q
  proof -
    from that obtain z where z: "represents q z" "neat (max_depth limits) z" "length (pa_arena q) \<le> max_nodes limits"
      by (auto simp: good_parser_def)
    from forest_collapse [OF z(1) [unfolded represents_def]]
    have f: "forest (pa_arena q) (pa_roots q) 0 (length (pa_arena q)) (collapse z)" .
    from materialize_forest [OF f] forest_count [OF f] neat_collapse [OF z(2)] z(3) show ?thesis
      by (auto simp: node_total_def)
  qed
  have errors: "good_parser limits q \<Longrightarrow> length (pa_errors q) \<le> max_errors limits" for q
    by (simp add: good_parser_def)
  obtain source truncated where src: "truncate_utf8 input (max_input_bytes limits) = (source, truncated)" by fastforce
  from run src obtain q where q: "run_parser source (if truncated
      then parser_error (''input truncated at '' @ nat_str (max_input_bytes limits) @ '' byte(s)'') (parser_start limits)
      else parser_start limits) = Some q" "good_parser limits q"
    by (cases truncated) (simp, metis fst_conv)+
  from tree [OF q(2)] errors [OF q(2)] q(1) src show ?thesis
    by (auto simp: parse_stml_def)
qed

section \<open>Properties\<close>

text \<open>
  C7. Total and bounded on any input: whatever the markup, malformed or hostile, the parser does
  not panic, returns at most the allowed number of nodes and of error messages, nests elements
  at most as deep as allowed, and all its texts, tag names and attribute values are free of
  control characters but line feeds and tabs.
\<close>

theorem parse_stml_safe:
  assumes "is_utf8 input"
  shows "\<exists>r. parse_stml input limits = Some r \<and> node_total (sp_nodes r) \<le> max_nodes limits
    \<and> length (sp_errors r) \<le> max_errors limits \<and> neat_nodes (max_depth limits) (sp_nodes r)"
  by (rule parse_stml_good [OF is_utf8_encoded [OF assms]])

definition hostile_markup :: string where
  "hostile_markup = ''</x><box t='' @ [ESC] @ ''[2J><b>'' @ [ESC] @ '']0;a'' @ [CHR 0xC3, CHR 0xA9, CHR 0x07] @ ''b<'' @ [CHR 0xC3, CHR 0xA9]"

theorem parse_stml_safe_witness:
  "is_utf8 hostile_markup
   \<and> (\<exists>r. parse_stml hostile_markup stml_parse_limits_default = Some r \<and> node_total (sp_nodes r) \<le> 2000
     \<and> length (sp_errors r) \<le> 20 \<and> neat_nodes 32 (sp_nodes r))"
proof
  show utf8: "is_utf8 hostile_markup" by code_simp
  show "\<exists>r. parse_stml hostile_markup stml_parse_limits_default = Some r \<and> node_total (sp_nodes r) \<le> 2000
     \<and> length (sp_errors r) \<le> 20 \<and> neat_nodes 32 (sp_nodes r)"
    using parse_stml_safe [OF utf8, of stml_parse_limits_default] by (simp add: stml_parse_limits_default_def)
qed

end
