(* ===== verification/Rust_Float.thy ===== *)
theory Rust_Float
  imports Rust_Str
begin

text \<open>
  What the program uses of \<open>f64\<close>: parsing a decimal number, multiplying and dividing, and
  \<open>floor() as usize\<close>. A finite \<open>f64\<close> is its sign and its magnitude, a fraction; \<open>None\<close> is an
  infinity. Every operation rounds its exact result to the nearest number with 53 significant
  bits and an exponent of at least -1074, ties to the even one.
\<close>

type_synonym f64 = "bool \<times> nat \<times> nat"

fun bit_length :: "nat \<Rightarrow> nat" where
  "bit_length n = (if n = 0 then 0 else Suc (bit_length (n div 2)))"

declare bit_length.simps [simp del]

lemma bit_length_numeral [simp]:
  "bit_length 0 = 0" "bit_length (Suc 0) = 1" "bit_length 1 = 1"
  "bit_length (numeral (Num.Bit0 k)) = Suc (bit_length (numeral k))"
  "bit_length (numeral (Num.Bit1 k)) = Suc (bit_length (numeral k))"
  by (subst bit_length.simps; simp add: bit_length.simps)+

text \<open>\<open>n / d * 2 ^ k\<close> as a fraction.\<close>

definition scale2 :: "int \<Rightarrow> nat \<Rightarrow> nat \<Rightarrow> nat \<times> nat" where
  "scale2 k n d = (if 0 \<le> k then (n * 2 ^ nat k, d) else (n, d * 2 ^ nat (- k)))"

definition round_half_even :: "nat \<Rightarrow> nat \<Rightarrow> nat" where
  "round_half_even n d =
     (let m = n div d; r = n mod d
      in if d < 2 * r \<or> 2 * r = d \<and> odd m then Suc m else m)"

definition round_f64 :: "nat \<Rightarrow> nat \<Rightarrow> (nat \<times> nat) option" where
  "round_f64 n d =
     (if n = 0 then Some (0, 1)
      else let k = int (bit_length n) - int (bit_length d);
               (n1, d1) = scale2 (- k) n d;
               log = (if d1 \<le> n1 then k else k - 1);
               u = max (log - 52) (- 1074);
               (n2, d2) = scale2 (- u) n d;
               m = round_half_even n2 d2;
               v = scale2 u m 1
           in if 2 ^ 1024 * snd v \<le> fst v then None else Some v)"

definition digits_of :: "string \<Rightarrow> string \<times> string" where
  "digits_of s = (takeWhile is_digit s, dropWhile is_digit s)"

definition strip_sign :: "string \<Rightarrow> bool \<times> string" where
  "strip_sign s =
     (case s of
        [] \<Rightarrow> (False, [])
      | c # r \<Rightarrow> if c = CHR ''-'' then (True, r) else if c = CHR ''+'' then (False, r) else (False, s))"

definition parse_exponent :: "string \<Rightarrow> int option" where
  "parse_exponent s =
     (case s of
        [] \<Rightarrow> Some 0
      | c # r \<Rightarrow>
          if c = CHR ''e'' \<or> c = CHR ''E''
          then (let (neg, ds) = strip_sign r
                in if ds = [] \<or> (\<exists>d \<in> set ds. \<not> is_digit d) then None
                   else Some (if neg then - int (digits_value ds) else int (digits_value ds)))
          else None)"

text \<open>\<open>s.parse::<f64>().ok().filter(|value| value.is_finite())\<close>: the words for infinity and
  not-a-number parse, but are filtered out as everything that is no number.\<close>

definition parse_finite_f64 :: "string \<Rightarrow> f64 option" where
  "parse_finite_f64 s =
     (let (neg, s) = strip_sign s;
          (whole, s) = digits_of s;
          (fraction, s) = (case s of c # r \<Rightarrow> if c = CHR ''.'' then digits_of r else ([], s) | [] \<Rightarrow> ([], s))
      in if whole = [] \<and> fraction = [] then None
         else (case parse_exponent s of
                 None \<Rightarrow> None
               | Some e \<Rightarrow>
                   let m = digits_value (whole @ fraction); k = e - int (length fraction)
                   in map_option (Pair neg)
                        (if 0 \<le> k then round_f64 (m * 10 ^ nat k) 1 else round_f64 m (10 ^ nat (- k)))))"

text \<open>\<open>value >= 0.0\<close>, which holds of negative zero.\<close>

definition not_negative :: "f64 \<Rightarrow> bool" where
  "not_negative v \<longleftrightarrow> \<not> fst v \<or> fst (snd v) = 0"

text \<open>\<open>value.floor() as usize\<close>: the cast saturates.\<close>

definition floor_usize :: "f64 \<Rightarrow> usize" where
  "floor_usize v = (case v of (neg, n, d) \<Rightarrow> if neg then 0 else min usize_max (n div d))"

text \<open>\<open>(a as f64 * value / 100.0).floor() as usize\<close>, for an \<open>a\<close> that an \<open>f64\<close> can hold.\<close>

definition percent_usize :: "usize \<Rightarrow> f64 \<Rightarrow> usize" where
  "percent_usize a v =
     (case v of (neg, n, d) \<Rightarrow>
        if neg then 0
        else (case round_f64 (a * n) d of
                None \<Rightarrow> usize_max
              | Some (n, d) \<Rightarrow>
                  (case round_f64 n (d * 100) of None \<Rightarrow> usize_max | Some v \<Rightarrow> floor_usize (False, v))))"

end
