(* ===== verification/Markup_Layout.thy ===== *)
theory Markup_Layout
  imports Markup_Wrap Markup_Props Rust_Float
begin

text \<open>
  The layout of markup: the blocks of \<open>src/markup/layout.rs\<close> (boxes, rows, lists, code) over the
  spans of \<open>Markup_Spans\<close>, the entry \<open>layout_stml\<close>, and the cache \<open>layout_stml_cached\<close>. The methods
  of \<open>Layout\<close> add to its error messages; here they take and return the messages. The recursion
  goes through \<open>block_node\<close>; the parts of it that walk over children are functions of their own
  that take the function for one child. \<open>None\<close> is a panic, which only the parser could raise.
\<close>

section \<open>Attributes\<close>

definition MIN_STML_LAYOUT_WIDTH :: u16 where "MIN_STML_LAYOUT_WIDTH = 8"
definition STML_REFERENCE_WIDTH :: u16 where "STML_REFERENCE_WIDTH = 56"
definition MAX_LAYOUT_ERRORS :: usize where "MAX_LAYOUT_ERRORS = 20"
definition LAYOUT_CACHE_ITEMS :: usize where "LAYOUT_CACHE_ITEMS = 128"
definition LAYOUT_CACHE_BYTES :: usize where "LAYOUT_CACHE_BYTES = 1048576"

record stml_layout =
  sr_lines :: "stml_line list"
  sr_errors :: "string list"

definition numeric_attr :: "attrs \<Rightarrow> string \<Rightarrow> usize option" where
  "numeric_attr at name =
     (case Option.bind (at name) parse_finite_f64 of
        None \<Rightarrow> None
      | Some v \<Rightarrow> if not_negative v then Some (floor_usize v) else None)"

definition width_attr :: "string option \<Rightarrow> usize \<Rightarrow> usize option" where
  "width_attr value available =
     (case value of
        None \<Rightarrow> None
      | Some value \<Rightarrow>
          (case strip_suffix value ''%'' of
             Some percent \<Rightarrow> map_option (\<lambda>v. max (percent_usize available v) 1) (parse_finite_f64 percent)
           | None \<Rightarrow> map_option (\<lambda>v. max (floor_usize v) 1) (parse_finite_f64 value)))"

definition or_default :: "'a option \<Rightarrow> 'a \<Rightarrow> 'a" where
  "or_default x d = (case x of None \<Rightarrow> d | Some v \<Rightarrow> v)"

definition layout_error :: "string \<Rightarrow> string list \<Rightarrow> string list" where
  "layout_error message errs =
     (if length errs < MAX_LAYOUT_ERRORS then errs @ [message]
      else if length errs = MAX_LAYOUT_ERRORS then errs @ [''further layout notes omitted'']
      else errs)"

fun is_inline :: "stml_node \<Rightarrow> bool" where
  "is_inline (StmlText t) = True"
| "is_inline (StmlElement tag at cs) =
     (tag \<in> set [''b'', ''strong'', ''i'', ''em'', ''u'', ''dim'', ''muted'', ''s'', ''strike'', ''del'', ''c'', ''color'',
        ''span'', ''a'', ''link'', ''kbd'', ''badge'', ''br''])"

fun node_children :: "stml_node \<Rightarrow> stml_node list" where
  "node_children (StmlText t) = []"
| "node_children (StmlElement tag at cs) = cs"

fun node_attrs :: "stml_node \<Rightarrow> attrs" where
  "node_attrs (StmlText t) = Map.empty"
| "node_attrs (StmlElement tag at cs) = at"

section \<open>Inline nodes\<close>

text \<open>The style an inline element gives its children; \<open>None\<close> for an unknown tag.\<close>

definition inline_style :: "string \<Rightarrow> attrs \<Rightarrow> stml_style \<Rightarrow> stml_style option" where
  "inline_style tag at st =
     (if tag \<in> set [''b'', ''strong''] then Some (st\<lparr>ms_bold := True\<rparr>)
      else if tag \<in> set [''i'', ''em''] then Some (st\<lparr>ms_italic := True\<rparr>)
      else if tag = ''u'' then Some (st\<lparr>ms_underline := True\<rparr>)
      else if tag \<in> set [''s'', ''strike'', ''del''] then Some (st\<lparr>ms_strike := True\<rparr>)
      else if tag \<in> set [''dim'', ''muted''] then Some (st\<lparr>ms_dim := True\<rparr>)
      else if tag \<in> set [''a'', ''link''] then Some (st\<lparr>ms_fg := Some ''accent'', ms_underline := True\<rparr>)
      else if tag = ''kbd'' then Some (st\<lparr>ms_fg := Some ''heading'', ms_bg := Some ''subtle''\<rparr>)
      else if tag = ''badge''
      then Some (st\<lparr>ms_fg := Some (or_default (at ''fg'') ''badge-text''),
                    ms_bg := Some (or_default (or_else (at ''color'') (at ''bg'')) ''accent''), ms_bold := True\<rparr>)
      else if tag \<in> set [''c'', ''color'', ''span''] then Some (merge_attrs at st)
      else None)"

fun inline_node :: "stml_node \<Rightarrow> stml_style \<Rightarrow> stml_span list \<times> string list \<Rightarrow> stml_span list \<times> string list" where
  "inline_node (StmlText text) st (spans, errs) =
     (push_styled spans (style_span st (collapse_whitespace (decode_stml_entities text))), errs)"
| "inline_node (StmlElement tag at cs) st (spans, errs) =
     (if tag = ''br'' then (push_styled spans (style_span st [NL]), errs)
      else (let child_style = or_default (inline_style tag at st) st;
                errs = (if inline_style tag at st = None then layout_error (''unknown tag <'' @ tag @ ''>'') errs else errs);
                pad = (\<lambda>spans. if tag = ''kbd'' \<or> tag = ''badge'' then push_styled spans (style_span child_style '' '') else spans);
                (spans, errs) = fold (\<lambda>c. inline_node c child_style) cs (pad spans, errs)
            in (pad spans, errs)))"

text \<open>\<open>flush_inline\<close>: the lines of the pending spans, if they show anything.\<close>

definition flush_inline :: "unicode_widths \<Rightarrow> stml_span list \<Rightarrow> usize \<Rightarrow> stml_line list" where
  "flush_inline u spans width =
     (if \<exists>s \<in> set spans. trim (ss_text s) \<noteq> [] \<or> ss_text s = [NL] then wrap_spans u spans width else [])"

section \<open>Frames\<close>

record border_chars =
  bc_top_left :: rchar
  bc_top_right :: rchar
  bc_bottom_left :: rchar
  bc_bottom_right :: rchar
  bc_horizontal :: rchar
  bc_vertical :: rchar

definition border_single :: border_chars where
  "border_single =
     \<lparr>bc_top_left = [CHR 0xE2, CHR 0x94, CHR 0x8C], bc_top_right = [CHR 0xE2, CHR 0x94, CHR 0x90],
      bc_bottom_left = [CHR 0xE2, CHR 0x94, CHR 0x94], bc_bottom_right = [CHR 0xE2, CHR 0x94, CHR 0x98],
      bc_horizontal = [CHR 0xE2, CHR 0x94, CHR 0x80], bc_vertical = [CHR 0xE2, CHR 0x94, CHR 0x82]\<rparr>"

definition border_from_name :: "string \<Rightarrow> border_chars option" where
  "border_from_name name =
     (if name = ''single'' then Some border_single
      else if name = ''rounded''
      then Some (border_single\<lparr>bc_top_left := [CHR 0xE2, CHR 0x95, CHR 0xAD], bc_top_right := [CHR 0xE2, CHR 0x95, CHR 0xAE],
             bc_bottom_left := [CHR 0xE2, CHR 0x95, CHR 0xB0], bc_bottom_right := [CHR 0xE2, CHR 0x95, CHR 0xAF]\<rparr>)
      else if name = ''double''
      then Some \<lparr>bc_top_left = [CHR 0xE2, CHR 0x95, CHR 0x94], bc_top_right = [CHR 0xE2, CHR 0x95, CHR 0x97],
             bc_bottom_left = [CHR 0xE2, CHR 0x95, CHR 0x9A], bc_bottom_right = [CHR 0xE2, CHR 0x95, CHR 0x9D],
             bc_horizontal = [CHR 0xE2, CHR 0x95, CHR 0x90], bc_vertical = [CHR 0xE2, CHR 0x95, CHR 0x91]\<rparr>
      else if name = ''heavy''
      then Some \<lparr>bc_top_left = [CHR 0xE2, CHR 0x94, CHR 0x8F], bc_top_right = [CHR 0xE2, CHR 0x94, CHR 0x93],
             bc_bottom_left = [CHR 0xE2, CHR 0x94, CHR 0x97], bc_bottom_right = [CHR 0xE2, CHR 0x94, CHR 0x9B],
             bc_horizontal = [CHR 0xE2, CHR 0x94, CHR 0x81], bc_vertical = [CHR 0xE2, CHR 0x94, CHR 0x83]\<rparr>
      else None)"

record frame_options =
  fo_width :: usize
  fo_bordered :: bool
  fo_chars :: border_chars
  fo_border_color :: string
  fo_title :: "string option"
  fo_title_color :: string
  fo_background :: "string option"
  fo_padding_x :: usize
  fo_padding_y :: usize

definition repeated :: "rchar \<Rightarrow> usize \<Rightarrow> string" where
  "repeated c n = concat (replicate n c)"

definition frame_cells :: "frame_options \<Rightarrow> usize" where
  "frame_cells o' = (if fo_bordered o' then 2 else 0)"

definition frame_body :: "unicode_widths \<Rightarrow> stml_line list \<Rightarrow> frame_options \<Rightarrow> stml_line list" where
  "frame_body u content o' =
     (let inner_width = max (fo_width o' - (frame_cells o' + fo_padding_x o' * 2)) 1;
          content = map (fill_line u inner_width (fo_background o')) content;
          pad_style = plain_style\<lparr>ms_bg := fo_background o'\<rparr>;
          blanks = replicate (fo_padding_y o') [style_span pad_style (spaces (inner_width + fo_padding_x o' * 2))];
          padding = style_span pad_style (spaces (fo_padding_x o'))
      in blanks @ map (\<lambda>l. push_styled (append_line (push_styled [] padding) l) padding) content @ blanks)"

definition frame_top :: "unicode_widths \<Rightarrow> frame_options \<Rightarrow> stml_line" where
  "frame_top u o' =
     (let horizontal_width = fo_width o' - 2;
          border_style = plain_style\<lparr>ms_fg := Some (fo_border_color o')\<rparr>;
          cs = fo_chars o'
      in case map_option trim (fo_title o') of
           None \<Rightarrow>
             push_styled [] (style_span border_style (bc_top_left cs @ repeated (bc_horizontal cs) horizontal_width @ bc_top_right cs))
         | Some title \<Rightarrow>
             if title = []
             then push_styled [] (style_span border_style (bc_top_left cs @ repeated (bc_horizontal cs) horizontal_width @ bc_top_right cs))
             else let label = truncate_cells u ('' '' @ title @ '' '') (horizontal_width - 2);
                      label_width = un_width u label;
                      top = push_styled [] (style_span border_style (bc_top_left cs @ bc_horizontal cs));
                      top = push_styled top (style_span (plain_style\<lparr>ms_fg := Some (fo_title_color o'), ms_bold := True\<rparr>) label)
                  in push_styled top (style_span border_style
                       (repeated (bc_horizontal cs) (horizontal_width - (1 + label_width)) @ bc_top_right cs)))"

definition frame_lines :: "unicode_widths \<Rightarrow> stml_line list \<Rightarrow> frame_options \<Rightarrow> stml_line list" where
  "frame_lines u content o' =
     (let body = frame_body u content o';
          horizontal_width = fo_width o' - 2;
          cs = fo_chars o';
          side = style_span (plain_style\<lparr>ms_fg := Some (fo_border_color o'), ms_bg := fo_background o'\<rparr>) (bc_vertical cs)
      in if \<not> fo_bordered o' then body
         else [frame_top u o'] @ map (\<lambda>l. push_styled (append_line (push_styled [] side) l) side) body
              @ [[style_span (plain_style\<lparr>ms_fg := Some (fo_border_color o')\<rparr>)
                    (bc_bottom_left cs @ repeated (bc_horizontal cs) horizontal_width @ bc_bottom_right cs)]])"

definition merge_columns :: "unicode_widths \<Rightarrow> stml_line list list \<Rightarrow> usize list \<Rightarrow> usize \<Rightarrow> stml_line list" where
  "merge_columns u columns widths gap =
     map (\<lambda>row.
       fold (\<lambda>(index, column, width) output.
           append_line
             (if 0 < index then push_styled output (style_span plain_style (spaces gap)) else output)
             (fill_line u width None (or_default (get column row) [])))
         (zip [0..<length columns] (zip columns widths)) [])
       [0..<fold max (map length columns) 0]"

section \<open>Walking over children\<close>

type_synonym block_layout = "stml_node \<Rightarrow> usize \<Rightarrow> stml_style \<Rightarrow> string list \<Rightarrow> stml_line list \<times> string list"

definition nodes_step ::
  "unicode_widths \<Rightarrow> block_layout \<Rightarrow> usize \<Rightarrow> stml_style \<Rightarrow> stml_node \<Rightarrow>
   stml_line list \<times> stml_span list \<times> string list \<Rightarrow> stml_line list \<times> stml_span list \<times> string list" where
  "nodes_step u block width st n state =
     (case state of (output, pending, errs) \<Rightarrow>
        if is_inline n then (output, inline_node n st (pending, errs))
        else let (ls, errs) = block n width st errs in (output @ flush_inline u pending width @ ls, [], errs))"

definition layout_nodes ::
  "unicode_widths \<Rightarrow> block_layout \<Rightarrow> stml_node list \<Rightarrow> usize \<Rightarrow> stml_style \<Rightarrow> string list \<Rightarrow>
   stml_line list \<times> string list" where
  "layout_nodes u block ns width st errs =
     (let (output, pending, errs) = fold (nodes_step u block width st) ns ([], [], errs)
      in (output @ flush_inline u pending width, errs))"

definition stack_blocks ::
  "block_layout \<Rightarrow> stml_node list \<Rightarrow> usize \<Rightarrow> stml_style \<Rightarrow> string list \<Rightarrow> stml_line list \<times> string list" where
  "stack_blocks block ns width st errs =
     fold (\<lambda>n (output, errs). let (ls, errs) = block n width st errs in (output @ ls, errs)) ns ([], errs)"

definition column_blocks ::
  "block_layout \<Rightarrow> stml_node list \<Rightarrow> usize list \<Rightarrow> stml_style \<Rightarrow> string list \<Rightarrow> stml_line list list \<times> string list" where
  "column_blocks block ns widths st errs =
     fold (\<lambda>(n, width) (columns, errs). let (ls, errs) = block n width st errs in (columns @ [ls], errs))
       (zip ns widths) ([], errs)"

definition list_item ::
  "unicode_widths \<Rightarrow> block_layout \<Rightarrow> string \<Rightarrow> stml_node \<Rightarrow> usize \<Rightarrow> stml_style \<Rightarrow> string list \<Rightarrow>
   stml_line list \<times> string list" where
  "list_item u block pfx item width st errs =
     (let prefix_width = un_width u pfx;
          (body, errs) = layout_nodes u block (node_children item) (max (width - prefix_width) 1) st errs
      in (map (\<lambda>(index, l).
             append_line
               (push_styled []
                  (style_span (plain_style\<lparr>ms_fg := (if index = 0 then Some ''muted'' else None)\<rparr>)
                     (if index = (0::nat) then pfx else spaces prefix_width))) l)
           (zip [0..<length body] body), errs))"

definition BULLET :: string where "BULLET = [CHR 0xE2, CHR 0x80, CHR 0xA2]"
definition RULE :: string where "RULE = [CHR 0xE2, CHR 0x94, CHR 0x80]"

definition is_item :: "stml_node \<Rightarrow> bool" where
  "is_item n = (case n of StmlText _ \<Rightarrow> False | StmlElement tag _ _ \<Rightarrow> tag = ''item'' \<or> tag = ''li'')"

definition list_items ::
  "unicode_widths \<Rightarrow> block_layout \<Rightarrow> bool \<Rightarrow> string \<Rightarrow> stml_node list \<Rightarrow> usize \<Rightarrow> stml_style \<Rightarrow> string list \<Rightarrow>
   stml_line list \<times> string list" where
  "list_items u block ordered marker ns width st errs =
     fold (\<lambda>(index, item) (output, errs).
         let (ls, errs) = list_item u block (if ordered then nat_str index @ ''. '' else marker @ '' '') item width st errs
         in (output @ ls, errs))
       (zip [1..<Suc (length (filter is_item ns))] (filter is_item ns)) ([], errs)"

lemma fold_pair_cong:
  "(\<And>x s. x \<in> set xs \<Longrightarrow> f x s = g x s) \<Longrightarrow> fold f xs s = fold g xs s"
  by (induction xs arbitrary: s) auto

lemma layout_nodes_cong [fundef_cong]:
  assumes "u = u'" "ns = ns'" "width = width'" "st = st'" "errs = errs'"
    and eq: "\<And>n w s e. n \<in> set ns' \<Longrightarrow> f n w s e = g n w s e"
  shows "layout_nodes u f ns width st errs = layout_nodes u' g ns' width' st' errs'"
proof -
  have "fold (nodes_step u' f width' st') ns' s = fold (nodes_step u' g width' st') ns' s" for s
    by (rule fold_pair_cong) (simp add: nodes_step_def eq split: prod.split)
  with assms(1-5) show ?thesis by (simp add: layout_nodes_def)
qed

lemma stack_blocks_cong [fundef_cong]:
  assumes "ns = ns'" "width = width'" "st = st'" "errs = errs'"
    and eq: "\<And>n w s e. n \<in> set ns' \<Longrightarrow> f n w s e = g n w s e"
  shows "stack_blocks f ns width st errs = stack_blocks g ns' width' st' errs'"
  unfolding stack_blocks_def assms(1-4) by (rule fold_pair_cong) (simp add: eq split: prod.split)

lemma column_blocks_cong [fundef_cong]:
  assumes "ns = ns'" "widths = widths'" "st = st'" "errs = errs'"
    and eq: "\<And>n w s e. n \<in> set ns' \<Longrightarrow> f n w s e = g n w s e"
  shows "column_blocks f ns widths st errs = column_blocks g ns' widths' st' errs'"
  unfolding column_blocks_def assms(1-4)
  by (rule fold_pair_cong) (auto simp: eq dest: set_zip_leftD split: prod.split)

lemma list_item_cong [fundef_cong]:
  assumes "u = u'" "pfx = pfx'" "item = item'" "width = width'" "st = st'" "errs = errs'"
    and eq: "\<And>n w s e. n \<in> set (node_children item') \<Longrightarrow> f n w s e = g n w s e"
  shows "list_item u f pfx item width st errs = list_item u' g pfx' item' width' st' errs'"
  unfolding list_item_def assms(1-6) using layout_nodes_cong [OF refl refl refl refl refl eq] by simp

lemma list_items_cong [fundef_cong]:
  assumes "u = u'" "ordered = ordered'" "marker = marker'" "ns = ns'" "width = width'" "st = st'" "errs = errs'"
    and eq: "\<And>item n w s e. item \<in> set ns' \<Longrightarrow> n \<in> set (node_children item) \<Longrightarrow> f n w s e = g n w s e"
  shows "list_items u f ordered marker ns width st errs = list_items u' g ordered' marker' ns' width' st' errs'"
proof -
  have item: "list_item u' f pfx item width' st' e = list_item u' g pfx item width' st' e" if "item \<in> set ns'" for pfx item e
    by (rule list_item_cong [OF refl refl refl refl refl refl eq [OF that]])
  show ?thesis unfolding list_items_def assms(1-7)
    by (rule fold_pair_cong) (auto simp: item dest!: set_zip_rightD)
qed

section \<open>Blocks\<close>

text \<open>The columns without a width of their own share what is left; the first ones get the
  remainder.\<close>

fun column_widths :: "usize \<Rightarrow> usize \<Rightarrow> usize \<Rightarrow> usize option list \<Rightarrow> usize list" where
  "column_widths flex_width remainder available [] = []"
| "column_widths flex_width remainder available (Some fixed # ws) =
     clamp fixed 1 available # column_widths flex_width remainder available ws"
| "column_widths flex_width remainder available (None # ws) =
     (let extra = (if 0 < remainder then 1 else 0)
      in max (flex_width + extra) 1 # column_widths flex_width (remainder - extra) available ws)"

text \<open>The widths of the columns of a row; the sum of the fixed widths wraps in a release build.\<close>

definition row_widths :: "stml_node list \<Rightarrow> usize \<Rightarrow> usize list" where
  "row_widths children available =
     (let fixed = map (\<lambda>c. width_attr (node_attrs c ''width'') available) children;
          fixed_total = fold (wrap_add usize_max) (List.map_filter id fixed) 0;
          flex_count = length (filter (\<lambda>w. w = None) fixed);
          flex_space = max (available - fixed_total) flex_count
      in column_widths (if flex_count = 0 then 0 else flex_space div flex_count)
           (if flex_count = 0 then 0 else flex_space mod flex_count) available fixed)"

definition layout_row ::
  "unicode_widths \<Rightarrow> block_layout \<Rightarrow> attrs \<Rightarrow> stml_node list \<Rightarrow> usize \<Rightarrow> stml_style \<Rightarrow> string list \<Rightarrow>
   stml_line list \<times> string list" where
  "layout_row u block at cs width st errs =
     (let children = filter (\<lambda>n. \<not> is_inline n) cs;
          loose = filter is_inline cs
      in if children = [] then layout_nodes u block cs width st errs
         else let (output, errs) =
                    (if \<exists>n \<in> set loose. (case n of StmlText t \<Rightarrow> trim t \<noteq> [] | StmlElement _ _ _ \<Rightarrow> True)
                     then layout_nodes u block loose width st
                       (layout_error ''<row> mixes bare text with block children; text laid out above the row'' errs)
                     else ([], errs));
                  gap = min (or_default (numeric_attr at ''gap'') 1) width;
                  available = width - sat_mul usize_max gap (length children - 1)
              in if available < length children
                 then let (ls, errs) = stack_blocks block children width st
                            (layout_error ''<row> too narrow for its columns; stacking vertically'' errs)
                      in (output @ ls, errs)
                 else let widths = row_widths children available;
                          (columns, errs) = column_blocks block children widths st errs
                      in (output @ merge_columns u columns widths gap, errs))"

definition layout_boxed ::
  "unicode_widths \<Rightarrow> block_layout \<Rightarrow> string \<Rightarrow> attrs \<Rightarrow> stml_node list \<Rightarrow> usize \<Rightarrow> stml_style \<Rightarrow> string list \<Rightarrow>
   stml_line list \<times> string list" where
  "layout_boxed u block tag at cs width st errs =
     (let card = (tag = ''card'');
          bordered = (case at ''border'' of None \<Rightarrow> card \<or> at ''border-style'' \<noteq> None | Some value \<Rightarrow> truthy value);
          border_style = or_default (at ''border-style'') (if card then ''rounded'' else ''single'');
          (bc, errs) = (case border_from_name border_style of
                             Some bc \<Rightarrow> (bc, errs)
                           | None \<Rightarrow> (border_single,
                               layout_error (''unknown border-style '' @ [DQUOTE] @ border_style @ [DQUOTE]) errs));
          padding = or_default (numeric_attr at ''padding'') (if card then 1 else 0);
          padding_x = or_default (numeric_attr at ''padding-x'') padding;
          padding_y = or_default (numeric_attr at ''padding-y'') padding;
          box_width = clamp (or_default (width_attr (at ''width'') width) width) (min 4 width) width;
          frame = (if bordered then 2 else 0);
          padding_x = min padding_x ((box_width - (frame + 1)) div 2);
          inner_width = max (box_width - (frame + sat_mul usize_max padding_x 2)) 1;
          (content, errs) = layout_nodes u block cs inner_width (merge_attrs at st) errs
      in (frame_lines u content
            \<lparr>fo_width = box_width, fo_bordered = bordered, fo_chars = bc,
             fo_border_color = or_default (at ''border-color'') ''note-border'', fo_title = at ''title'',
             fo_title_color = or_default (at ''title-color'') ''heading'', fo_background = at ''bg'',
             fo_padding_x = padding_x, fo_padding_y = padding_y\<rparr>, errs))"

lemma layout_row_cong [fundef_cong]:
  assumes "u = u'" "at = at'" "cs = cs'" "width = width'" "st = st'" "errs = errs'"
    and eq: "\<And>n w s e. n \<in> set cs' \<Longrightarrow> f n w s e = g n w s e"
  shows "layout_row u f at cs width st errs = layout_row u' g at' cs' width' st' errs'"
proof -
  have nodes: "layout_nodes u' f ns w s e = layout_nodes u' g ns w s e" if "set ns \<subseteq> set cs'" for ns w s e
    by (rule layout_nodes_cong [OF refl refl refl refl refl eq]) (use that in auto)
  have stack: "stack_blocks f ns w s e = stack_blocks g ns w s e" if "set ns \<subseteq> set cs'" for ns w s e
    by (rule stack_blocks_cong [OF refl refl refl refl eq]) (use that in auto)
  have columns: "column_blocks f ns w s e = column_blocks g ns w s e" if "set ns \<subseteq> set cs'" for ns w s e
    by (rule column_blocks_cong [OF refl refl refl refl eq]) (use that in auto)
  show ?thesis unfolding layout_row_def assms(1-6) Let_def
    by (simp only: nodes stack columns order_refl filter_is_subset)
qed

lemma layout_boxed_cong [fundef_cong]:
  assumes "u = u'" "tag = tag'" "at = at'" "cs = cs'" "width = width'" "st = st'" "errs = errs'"
    and eq: "\<And>n w s e. n \<in> set cs' \<Longrightarrow> f n w s e = g n w s e"
  shows "layout_boxed u f tag at cs width st errs = layout_boxed u' g tag' at' cs' width' st' errs'"
proof -
  have nodes: "layout_nodes u' f cs' w s e = layout_nodes u' g cs' w s e" for w s e
    by (rule layout_nodes_cong [OF refl refl refl refl refl eq])
  show ?thesis unfolding layout_boxed_def assms(1-7) by (simp only: nodes)
qed

lemma child_smaller: "n \<in> set cs \<Longrightarrow> size n < size (StmlElement tag at cs)"
  by (simp add: less_Suc_eq_le size_list_estimation')

lemma grandchild_smaller: "item \<in> set cs \<Longrightarrow> n \<in> set (node_children item) \<Longrightarrow> size n < size (StmlElement tag at cs)"
  using child_smaller [of item cs tag at] child_smaller by (cases item) (auto intro: less_trans)

text \<open>Byte position \<open>n\<close> of a line that \<open>str::get\<close> refuses gives the empty string.\<close>

definition indent_bytes :: "string \<Rightarrow> usize" where
  "indent_bytes l = length l - length (trim_start l)"

definition dedent :: "string \<Rightarrow> string" where
  "dedent text =
     (let text = trim_end (strip_prefix_or text [NL]);
          indents = map indent_bytes (filter (\<lambda>l. trim l \<noteq> []) (lines text));
          minimum = (if indents = [] then 0 else Min (set indents))
      in join [NL] (map (\<lambda>l. if minimum \<le> length l \<and> char_boundary l minimum then drop minimum l else []) (lines text)))"

definition layout_code :: "unicode_widths \<Rightarrow> attrs \<Rightarrow> stml_node list \<Rightarrow> usize \<Rightarrow> stml_style \<Rightarrow> stml_line list" where
  "layout_code u at cs width st =
     (let border_style = or_default (at ''border-style'') ''single'';
          bc = or_default (border_from_name border_style) border_single;
          code_style = st\<lparr>ms_fg := or_else (at ''fg'') (ms_fg st)\<rparr>;
          raw = concat (map (\<lambda>n. case n of StmlText t \<Rightarrow> t | StmlElement _ _ _ \<Rightarrow> []) cs);
          code_width = max (width - 4) 1;
          content = map (\<lambda>l. [style_span code_style (truncate_cells u (replace_char TAB ''  '' l) code_width)])
                      (split_char NL (dedent raw))
      in frame_lines u content
           \<lparr>fo_width = width, fo_bordered = True, fo_chars = bc,
            fo_border_color = or_default (at ''border-color'') ''subtle'', fo_title = at ''title'',
            fo_title_color = ''heading'', fo_background = at ''bg'', fo_padding_x = 1, fo_padding_y = 0\<rparr>)"

definition heading_style :: "string \<Rightarrow> attrs \<Rightarrow> stml_style \<Rightarrow> stml_style" where
  "heading_style tag at st =
     st\<lparr>ms_bold := True, ms_fg := Some (or_default (or_else (at ''fg'') (at ''color'')) ''heading''),
        ms_underline := (tag = ''h1'' \<or> tag = ''title'')\<rparr>"

function block_node :: "unicode_widths \<Rightarrow> stml_node \<Rightarrow> usize \<Rightarrow> stml_style \<Rightarrow> string list \<Rightarrow> stml_line list \<times> string list" where
  "block_node u (StmlText t) width st errs = ([], errs)"
| "block_node u (StmlElement tag at cs) width st errs =
     (if tag \<in> set [''box'', ''card'', ''col'', ''column'', ''stack'', ''section'']
      then layout_boxed u (block_node u) tag at cs width st errs
      else if tag = ''row'' then layout_row u (block_node u) at cs width st errs
      else if tag \<in> set [''text'', ''p''] then layout_nodes u (block_node u) cs width (merge_attrs at st) errs
      else if tag \<in> set [''h'', ''h1'', ''h2'', ''h3'', ''heading'', ''title'']
      then layout_nodes u (block_node u) cs width (heading_style tag at st) errs
      else if tag \<in> set [''list'', ''ul'', ''ol'']
      then list_items u (block_node u) (tag = ''ol'') (or_default (at ''marker'') BULLET) cs width st errs
      else if tag \<in> set [''item'', ''li'']
      then list_item u (block_node u) (BULLET @ '' '') (StmlElement tag at cs) width st errs
      else if tag \<in> set [''code'', ''pre''] then (layout_code u at cs width st, errs)
      else if tag \<in> set [''hr'', ''rule'', ''divider'']
      then ([[style_span (plain_style\<lparr>ms_fg := Some (or_default (at ''color'') ''muted'')\<rparr>) (repeated RULE width)]], errs)
      else if tag \<in> set [''spacer'', ''space'']
      then (replicate (clamp (or_default (numeric_attr at ''size'') 1) 1 20) [], errs)
      else layout_nodes u (block_node u) cs width st (layout_error (''unknown tag <'' @ tag @ ''>'') errs))"
  by pat_completeness auto
termination
  by (relation "measure (\<lambda>(u, n, width, st, errs). size n)")
    (simp_all only: wf_measure in_measure prod.case child_smaller grandchild_smaller node_children.simps)

section \<open>The layout\<close>

definition layout_stml :: "unicode_widths \<Rightarrow> string \<Rightarrow> u16 \<Rightarrow> stml_layout option" where
  "layout_stml u markup width =
     (if width < MIN_STML_LAYOUT_WIDTH
      then Some \<lparr>sr_lines = [], sr_errors = [''width '' @ nat_str width @ '' below minimum '' @ nat_str MIN_STML_LAYOUT_WIDTH]\<rparr>
      else map_option
        (\<lambda>parsed.
           let (ls, errs) = layout_nodes u (block_node u) (sp_nodes parsed) width plain_style
                              (take MAX_LAYOUT_ERRORS (sp_errors parsed));
               ls = dropWhile (blank_line u) ls;
               ls = rev (dropWhile (blank_line u) (rev ls))
           in \<lparr>sr_lines = ls, sr_errors = errs\<rparr>)
        (parse_stml markup stml_parse_limits_default))"

section \<open>The cache\<close>

type_synonym layout_entry = "(u16 \<times> string) \<times> stml_layout \<times> usize"

record layout_cache =
  lc_entries :: "layout_entry list"
  lc_bytes :: usize

definition layout_cache_empty :: layout_cache where
  "layout_cache_empty = \<lparr>lc_entries = [], lc_bytes = 0\<rparr>"

text \<open>The entries are dropped from the front until the new one fits.\<close>

function evict :: "usize \<Rightarrow> layout_cache \<Rightarrow> layout_cache" where
  "evict cost c =
     (if lc_entries c \<noteq> []
         \<and> (LAYOUT_CACHE_ITEMS \<le> length (lc_entries c) \<or> LAYOUT_CACHE_BYTES < sat_add usize_max (lc_bytes c) cost)
      then evict cost \<lparr>lc_entries = tl (lc_entries c), lc_bytes = lc_bytes c - snd (snd (hd (lc_entries c)))\<rparr>
      else c)"
  by pat_completeness auto
termination
  by (relation "measure (\<lambda>(cost, c). length (lc_entries c))") auto

declare evict.simps [simp del]

definition layout_cost :: "string \<Rightarrow> stml_layout \<Rightarrow> usize" where
  "layout_cost markup result =
     sat_add usize_max (length markup)
       (sum_list (map (\<lambda>l. sum_list (map (\<lambda>s. length (ss_text s)) l)) (sr_lines result)))"

definition layout_stml_cached ::
  "unicode_widths \<Rightarrow> string \<Rightarrow> u16 \<Rightarrow> layout_cache \<Rightarrow> (stml_layout \<times> layout_cache) option" where
  "layout_stml_cached u markup width c =
     (case position (\<lambda>e. fst e = (width, markup)) (lc_entries c) of
        Some index \<Rightarrow>
          let entry = lc_entries c ! index
          in Some (fst (snd entry),
               c\<lparr>lc_entries := take index (lc_entries c) @ drop (Suc index) (lc_entries c) @ [entry]\<rparr>)
      | None \<Rightarrow>
          map_option
            (\<lambda>result.
               let cost = layout_cost markup result;
                   c = evict cost c
               in (result, \<lparr>lc_entries = lc_entries c @ [((width, markup), result, cost)],
                            lc_bytes = sat_add usize_max (lc_bytes c) cost\<rparr>))
            (layout_stml u markup width))"

end
