(* ===== verification/Markup_Layout_Props.thy ===== *)
theory Markup_Layout_Props
  imports Markup_Layout
begin

text \<open>
  What the layout of markup guarantees: it is total on text, its messages are bounded, a frame
  is exactly as wide as asked, and the cache cannot be told from laying out again.
\<close>

section \<open>Messages\<close>

definition few :: "string list \<Rightarrow> bool" where
  "few errs \<longleftrightarrow> length errs \<le> Suc MAX_LAYOUT_ERRORS"

lemma few_error: "few errs \<Longrightarrow> few (layout_error m errs)"
  by (simp add: few_def layout_error_def)

lemma few_inline: "few (snd state) \<Longrightarrow> few (snd (inline_node n st state))"
proof (induction n arbitrary: st state)
  case (StmlText t)
  then show ?case by (cases state) simp
next
  case (StmlElement tag at cs)
  obtain spans errs where state: "state = (spans, errs)" by fastforce
  have each: "few (snd (fold (\<lambda>c. inline_node c s) ns x))" if "set ns \<subseteq> set cs" "few (snd x)" for ns s x
    using that StmlElement.IH by (induction ns arbitrary: x) auto
  show ?case
  proof (cases "tag = ''br''")
    case True
    with StmlElement.prems state show ?thesis by simp
  next
    case False
    have "few (if inline_style tag at st = None then layout_error m errs else errs)" for m
      using StmlElement.prems few_error state by simp
    with False state each [OF order_refl] show ?thesis
      by (simp add: split_beta Let_def)
  qed
qed

definition keeps_few :: "block_layout \<Rightarrow> stml_node list \<Rightarrow> bool" where
  "keeps_few f ns \<longleftrightarrow> (\<forall>n \<in> set ns. \<forall>w s e. few e \<longrightarrow> few (snd (f n w s e)))"

lemma few_nodes:
  assumes "keeps_few f ns" and "few errs"
  shows "few (snd (layout_nodes u f ns width st errs))"
proof -
  have "few (snd (snd (fold (nodes_step u f width st) ms x)))" if "set ms \<subseteq> set ns" "few (snd (snd x))" for ms x
    using that
  proof (induction ms arbitrary: x)
    case (Cons m ms)
    obtain ls pending errs where x: "x = (ls, pending, errs)" by (cases x) auto
    have "few (snd (snd (nodes_step u f width st m x)))"
      using Cons.prems assms(1) few_inline [of "(pending, errs)" m st]
      by (auto simp: x nodes_step_def keeps_few_def split_beta)
    with Cons show ?case by simp
  qed simp
  from this [of ns "([], [], errs)"] assms(2) show ?thesis by (simp add: layout_nodes_def split_beta)
qed

lemma few_stack:
  assumes "keeps_few f ns" and "few errs"
  shows "few (snd (stack_blocks f ns width st errs))"
proof -
  have "few (snd (fold (\<lambda>n (output, errs). let (ls, errs) = f n width st errs in (output @ ls, errs)) ms x))"
    if "set ms \<subseteq> set ns" "few (snd x)" for ms x
    using that assms(1) by (induction ms arbitrary: x) (auto simp: split_beta keeps_few_def)
  from this [of ns "([], errs)"] assms(2) show ?thesis by (simp add: stack_blocks_def)
qed

lemma few_columns:
  assumes "keeps_few f ns" and "few errs"
  shows "few (snd (column_blocks f ns widths st errs))"
proof -
  have "few (snd (fold (\<lambda>(n, width) (columns, errs). let (ls, errs) = f n width st errs in (columns @ [ls], errs)) ms x))"
    if "fst ` set ms \<subseteq> set ns" "few (snd x)" for ms x
    using that assms(1) by (induction ms arbitrary: x) (auto simp: split_beta keeps_few_def)
  moreover have "fst ` set (zip ns widths) \<subseteq> set ns" by (auto dest: set_zip_leftD)
  ultimately show ?thesis using assms(2) by (simp add: column_blocks_def)
qed

lemma few_item:
  assumes "keeps_few f (node_children item)" and "few errs"
  shows "few (snd (list_item u f pfx item width st errs))"
  using few_nodes [OF assms] by (simp add: list_item_def split_beta Let_def)

lemma few_items:
  assumes "\<And>item. item \<in> set ns \<Longrightarrow> keeps_few f (node_children item)" and "few errs"
  shows "few (snd (list_items u f ordered marker ns width st errs))"
proof -
  have "few (snd (fold (\<lambda>(index, item) (output, errs).
         let (ls, errs) = list_item u f (if ordered then nat_str index @ ''. '' else marker @ '' '') item width st errs
         in (output @ ls, errs)) ms x))"
    if "snd ` set ms \<subseteq> set ns" "few (snd x)" for ms x
    using that assms(1) by (induction ms arbitrary: x) (auto simp: split_beta few_item)
  note each = this
  have "snd ` set (zip ks (filter is_item ns)) \<subseteq> set ns" for ks by (auto dest!: set_zip_rightD)
  from each [OF this, of "([], errs)"] assms(2) show ?thesis unfolding list_items_def snd_conv .
qed

lemma few_row:
  assumes "keeps_few f cs" and "few errs"
  shows "few (snd (layout_row u f at cs width st errs))"
proof -
  have sub: "keeps_few f (filter P cs)" for P using assms(1) by (auto simp: keeps_few_def)
  define loose where "loose =
    (if \<exists>n \<in> set (filter is_inline cs). (case n of StmlText t \<Rightarrow> trim t \<noteq> [] | StmlElement _ _ _ \<Rightarrow> True)
     then layout_nodes u f (filter is_inline cs) width st
       (layout_error ''<row> mixes bare text with block children; text laid out above the row'' errs)
     else ([], errs))"
  have "few (snd loose)" using few_nodes [OF sub] few_error assms(2) by (simp add: loose_def)
  then show ?thesis
    using few_nodes [OF assms] few_stack [OF sub] few_columns [OF sub] few_error
    unfolding layout_row_def Let_def loose_def [symmetric] by (simp add: split_beta)
qed

lemma few_boxed:
  assumes "keeps_few f cs" and "few errs"
  shows "few (snd (layout_boxed u f tag at cs width st errs))"
  unfolding layout_boxed_def Let_def split_beta snd_conv
  by (rule few_nodes [OF assms(1)]) (use assms(2) few_error in \<open>simp split: option.split\<close>)

lemma few_if: "few (snd a) \<Longrightarrow> few (snd b) \<Longrightarrow> few (snd (if c then a else b))"
  by simp

lemma few_block: "few errs \<Longrightarrow> few (snd (block_node u n width st errs))"
proof (induction n arbitrary: width st errs rule: measure_induct_rule [of size])
  case (less n)
  show ?case
  proof (cases n)
    case (StmlText t)
    with less.prems show ?thesis by simp
  next
    case (StmlElement tag at cs)
    have k: "keeps_few (block_node u) cs"
      using less.IH child_smaller [of _ cs tag at] by (auto simp: keeps_few_def StmlElement)
    have k2: "keeps_few (block_node u) (node_children item)" if "item \<in> set cs" for item
      using less.IH grandchild_smaller [OF that, of _ tag at] by (auto simp: keeps_few_def StmlElement)
    have self: "keeps_few (block_node u) (node_children (StmlElement tag at cs))" using k by simp
    have flat: "few (snd (ls, errs))" for ls :: "stml_line list" using less.prems by simp
    show ?thesis unfolding StmlElement block_node.simps(2)
      by (intro few_if few_boxed [OF k] few_row [OF k] few_nodes [OF k] few_items [OF k2] few_item [OF self] flat
          few_error less.prems)
  qed
qed

section \<open>The cache\<close>

definition entry_ok :: "unicode_widths \<Rightarrow> layout_entry \<Rightarrow> bool" where
  "entry_ok u e \<longleftrightarrow>
     layout_stml u (snd (fst e)) (fst (fst e)) = Some (fst (snd e))
     \<and> snd (snd e) = layout_cost (snd (fst e)) (fst (snd e))"

definition cache_total :: "layout_entry list \<Rightarrow> nat" where
  "cache_total es = sum_list (map (\<lambda>e. snd (snd e)) es)"

definition cache_ok :: "unicode_widths \<Rightarrow> layout_cache \<Rightarrow> bool" where
  "cache_ok u c \<longleftrightarrow>
     (\<forall>e \<in> set (lc_entries c). entry_ok u e) \<and> distinct (map fst (lc_entries c))
     \<and> lc_bytes c = cache_total (lc_entries c)
     \<and> length (lc_entries c) \<le> LAYOUT_CACHE_ITEMS
     \<and> (lc_bytes c \<le> LAYOUT_CACHE_BYTES \<or> length (lc_entries c) \<le> 1)"

lemma cost_bound: "layout_cost m r \<le> usize_max"
  by (simp add: layout_cost_def sat_add_def)

lemma cache_total_simps [simp]:
  "cache_total [] = 0" "cache_total (e # es) = snd (snd e) + cache_total es"
  "cache_total (es @ fs) = cache_total es + cache_total fs"
  by (simp_all add: cache_total_def)

lemma evict_ok:
  assumes "lc_bytes c = cache_total (lc_entries c)"
  shows "\<exists>n. lc_entries (evict cost c) = drop n (lc_entries c)
    \<and> lc_bytes (evict cost c) = cache_total (lc_entries (evict cost c))
    \<and> (lc_entries (evict cost c) = []
       \<or> length (lc_entries (evict cost c)) < LAYOUT_CACHE_ITEMS
         \<and> sat_add usize_max (lc_bytes (evict cost c)) cost \<le> LAYOUT_CACHE_BYTES)"
  using assms
proof (induction cost c rule: evict.induct)
  case (1 cost c)
  show ?case
  proof (cases "lc_entries c \<noteq> []
      \<and> (LAYOUT_CACHE_ITEMS \<le> length (lc_entries c) \<or> LAYOUT_CACHE_BYTES < sat_add usize_max (lc_bytes c) cost)")
    case True
    then obtain e es where es: "lc_entries c = e # es" by (cases "lc_entries c") auto
    let ?c = "\<lparr>lc_entries = tl (lc_entries c), lc_bytes = lc_bytes c - snd (snd (hd (lc_entries c)))\<rparr>"
    have "lc_bytes ?c = cache_total (lc_entries ?c)" using "1.prems" es by simp
    from "1.IH" [OF True this] obtain n where n: "lc_entries (evict cost ?c) = drop n (lc_entries ?c)"
      "lc_bytes (evict cost ?c) = cache_total (lc_entries (evict cost ?c))"
      "lc_entries (evict cost ?c) = [] \<or> length (lc_entries (evict cost ?c)) < LAYOUT_CACHE_ITEMS
         \<and> sat_add usize_max (lc_bytes (evict cost ?c)) cost \<le> LAYOUT_CACHE_BYTES" by blast
    have "evict cost c = evict cost ?c" using True by (subst evict.simps) simp
    moreover have "drop n (lc_entries ?c) = drop (Suc n) (lc_entries c)" using es by simp
    ultimately show ?thesis using n by metis
  next
    case False
    have "evict cost c = c" unfolding evict.simps [of cost c] by (rule if_not_P [OF False])
    with "1.prems" False show ?thesis by (intro exI [of _ 0]) auto
  qed
qed

lemma cached_step:
  assumes "cache_ok u c"
  shows "case layout_stml u markup width of
      None \<Rightarrow> layout_stml_cached u markup width c = None
    | Some r \<Rightarrow> \<exists>c'. layout_stml_cached u markup width c = Some (r, c') \<and> cache_ok u c'"
proof (cases "position (\<lambda>e. fst e = (width, markup)) (lc_entries c)")
  case (Some i)
  let ?es = "lc_entries c"
  have i: "i < length ?es" "fst (?es ! i) = (width, markup)" using position_SomeD [OF Some] by auto
  then have ok: "layout_stml u markup width = Some (fst (snd (?es ! i)))"
    using assms by (fastforce simp: cache_ok_def entry_ok_def dest: nth_mem)
  define es where "es = take i ?es @ drop (Suc i) ?es @ [?es ! i]"
  have split: "?es = take i ?es @ ?es ! i # drop (Suc i) ?es" using i(1) by (rule id_take_nth_drop)
  have "mset es = mset (take i ?es @ ?es ! i # drop (Suc i) ?es)" by (simp add: es_def)
  with split have m: "mset es = mset ?es" by simp
  have "set es = set ?es" using m by (rule mset_eq_setD)
  moreover have "cache_total es = cache_total ?es"
    unfolding cache_total_def sum_mset_sum_list [symmetric] mset_map m ..
  moreover have "length es = length ?es" using m by (rule mset_eq_length)
  moreover have "mset (map fst es) = mset (map fst ?es)" using m by simp
  moreover from this have "distinct (map fst es) = distinct (map fst ?es)" by (rule mset_eq_imp_distinct_iff)
  ultimately have "cache_ok u (c\<lparr>lc_entries := es\<rparr>)" using assms unfolding cache_ok_def by auto
  with Some ok show ?thesis by (simp add: layout_stml_cached_def Let_def es_def)
next
  case None
  then have new: "(width, markup) \<notin> fst ` set (lc_entries c)" by (auto simp: position_None_iff)
  show ?thesis
  proof (cases "layout_stml u markup width")
    case layout: (Some r)
    let ?cost = "layout_cost markup r"
    let ?d = "evict ?cost c"
    from evict_ok [of c ?cost] assms obtain n where n: "lc_entries ?d = drop n (lc_entries c)"
      "lc_bytes ?d = cache_total (lc_entries ?d)"
      "lc_entries ?d = [] \<or> length (lc_entries ?d) < LAYOUT_CACHE_ITEMS
         \<and> sat_add usize_max (lc_bytes ?d) ?cost \<le> LAYOUT_CACHE_BYTES" by (auto simp: cache_ok_def)
    have exact: "sat_add usize_max (lc_bytes ?d) ?cost = lc_bytes ?d + ?cost"
      using n(2,3) cost_bound [of markup r] by (auto simp: sat_add_def LAYOUT_CACHE_BYTES_def usize_max_def)
    have "entry_ok u ((width, markup), r, ?cost)" using layout by (simp add: entry_ok_def)
    moreover have "distinct (map fst (drop n (lc_entries c)))" using assms by (simp add: cache_ok_def drop_map [symmetric])
    moreover have "(width, markup) \<notin> fst ` set (drop n (lc_entries c))" using new by (auto dest: in_set_dropD)
    ultimately have "cache_ok u \<lparr>lc_entries = lc_entries ?d @ [((width, markup), r, ?cost)],
        lc_bytes = sat_add usize_max (lc_bytes ?d) ?cost\<rparr>"
      using assms n exact by (auto simp: cache_ok_def LAYOUT_CACHE_ITEMS_def dest: in_set_dropD)
    with None layout show ?thesis by (simp add: layout_stml_cached_def Let_def)
  qed (use None in \<open>simp add: layout_stml_cached_def\<close>)
qed

fun run_cached :: "unicode_widths \<Rightarrow> (string \<times> u16) list \<Rightarrow> layout_cache \<Rightarrow> (stml_layout list \<times> layout_cache) option" where
  "run_cached u [] c = Some ([], c)"
| "run_cached u ((markup, width) # requests) c = do {
     (r, c) \<leftarrow> layout_stml_cached u markup width c;
     (rs, c) \<leftarrow> run_cached u requests c;
     Some (r # rs, c)
   }"

lemma run_cached_ok:
  "cache_ok u c \<Longrightarrow>
   map_option fst (run_cached u requests c) = those (map (\<lambda>(markup, width). layout_stml u markup width) requests)
   \<and> pred_option (\<lambda>(_, c). cache_ok u c) (run_cached u requests c)"
proof (induction requests arbitrary: c)
  case (Cons request requests)
  obtain markup width where r: "request = (markup, width)" by fastforce
  note step = cached_step [OF Cons.prems, of markup width]
  show ?case
  proof (cases "layout_stml u markup width")
    case None
    with step show ?thesis by (simp add: r)
  next
    case (Some l)
    with step obtain c' where c': "layout_stml_cached u markup width c = Some (l, c')" "cache_ok u c'" by auto
    from Cons.IH [OF c'(2)] Some c'(1) show ?thesis
      by (cases "run_cached u requests c'") (auto simp: r dest!: sym [of "Some _"])
  qed
qed simp

lemma empty_cache_ok: "cache_ok u layout_cache_empty"
  by (simp add: cache_ok_def layout_cache_empty_def)

text \<open>The cache as a machine that is driven by requests.\<close>

definition cache_request :: "unicode_widths \<Rightarrow> string \<times> u16 \<Rightarrow> layout_cache \<Rightarrow> layout_cache" where
  "cache_request u request c =
     (case layout_stml_cached u (fst request) (snd request) c of None \<Rightarrow> c | Some (_, c) \<Rightarrow> c)"

interpretation layouts: op_machine "cache_request u" "cache_ok u"
proof
  fix c and request :: "string \<times> u16"
  assume "cache_ok u c"
  from cached_step [OF this, of "fst request" "snd request"] \<open>cache_ok u c\<close> show "cache_ok u (cache_request u request c)"
    by (auto simp: cache_request_def split: option.splits)
qed

section \<open>Frames\<close>

lemma append_line_fits:
  assumes "additive u"
  shows "encoded_line l \<Longrightarrow> encoded_line k \<Longrightarrow>
    line_width u (append_line l k) = line_width u l + line_width u k \<and> encoded_line (append_line l k)"
proof (induction k arbitrary: l)
  case (Cons s k)
  then have "encoded (ss_text s)" "encoded_line k" by simp_all
  with push_span_fits [OF assms Cons.prems(1) this(1)] Cons.IH [of "push_styled l s"] show ?case
    by (simp add: append_line_def)
qed (simp add: append_line_def)

definition unit_chars :: "unicode_widths \<Rightarrow> rchar list \<Rightarrow> bool" where
  "unit_chars u cs \<longleftrightarrow> (\<forall>c \<in> set cs. rchar_ok c \<and> un_char_width u c = 1)"

definition border_list :: "border_chars \<Rightarrow> rchar list" where
  "border_list b = [bc_top_left b, bc_top_right b, bc_bottom_left b, bc_bottom_right b, bc_horizontal b, bc_vertical b]"

lemma repeated_width:
  assumes "additive u" and "rchar_ok c" and "un_char_width u c = 1"
  shows "un_width u (repeated c n) = n \<and> encoded (repeated c n)"
proof -
  have ok: "\<forall>d \<in> set (replicate n c). rchar_ok d" using assms(2) by simp
  then have "chars (repeated c n) = replicate n c" "encoded (repeated c n)"
    unfolding repeated_def by (rule chars_concat_ok, rule encoded_concat)
  with assms show ?thesis by (simp add: additive_def sum_list_replicate)
qed

lemma char_width_one: "additive u \<Longrightarrow> rchar_ok c \<Longrightarrow> un_char_width u c = 1 \<Longrightarrow> un_width u c = 1 \<and> encoded c"
  using encoded_rchar [of c] chars_rchar [of c] by (simp add: additive_def)

lemma spaces_width:
  assumes "additive u" and "un_char_width u '' '' = 1"
  shows "un_width u (spaces n) = n \<and> encoded (spaces n)"
proof -
  have "spaces n = repeated '' '' n" by (induction n) (simp_all add: spaces_def repeated_def)
  with repeated_width [OF assms(1) _ assms(2)] show ?thesis by simp
qed

lemma ss_text_style_span [simp]: "ss_text (style_span st t) = t"
  by (simp add: style_span_def)

lemma fill_line_fits:
  assumes "additive u" and "un_char_width u '' '' = 1" and "encoded_line l" and "line_width u l \<le> width"
  shows "line_width u (fill_line u width bg l) = width \<and> encoded_line (fill_line u width bg l)"
proof -
  define k where "k = (case bg of None \<Rightarrow> l | Some b \<Rightarrow> map (\<lambda>s. if ss_bg s = None then s\<lparr>ss_bg := Some b\<rparr> else s) l)"
  have "map ss_text k = map ss_text l" by (auto simp: k_def split: option.split)
  then have k: "line_width u k = line_width u l" "encoded_line k"
    using assms(3) unfolding line_width_def encoded_line_def by (metis (no_types, lifting) list.map_comp comp_def map_eq_conv, metis (no_types, lifting) image_iff list.set_map)
  from push_span_fits [OF assms(1) k(2), of "style_span (plain_style\<lparr>ms_bg := bg\<rparr>) (spaces (width - line_width u k))"]
    spaces_width [OF assms(1,2)] k assms(4) show ?thesis
    by (auto simp: fill_line_def k_def [symmetric] Let_def)
qed

lemma pushed_width:
  assumes "additive u" and "encoded_line l" and "encoded t"
  shows "line_width u (push_styled l (style_span st t)) = line_width u l + un_width u t
    \<and> encoded_line (push_styled l (style_span st t))"
  using push_span_fits [OF assms(1,2), of "style_span st t"] assms(3) by simp

lemma between_width:
  assumes "additive u" and "encoded t" and "encoded_line l"
  shows "line_width u (push_styled (append_line (push_styled [] (style_span st t)) l) (style_span st t))
      = 2 * un_width u t + line_width u l
    \<and> encoded_line (push_styled (append_line (push_styled [] (style_span st t)) l) (style_span st t))"
  using pushed_width [OF assms(1) _ assms(2), of "[]" st]
    append_line_fits [OF assms(1) _ assms(3), of "push_styled [] (style_span st t)"]
    pushed_width [OF assms(1) _ assms(2), of "append_line (push_styled [] (style_span st t)) l" st]
  by simp

definition frame_fits :: "unicode_widths \<Rightarrow> stml_line list \<Rightarrow> frame_options \<Rightarrow> bool" where
  "frame_fits u content options \<longleftrightarrow>
     additive u \<and> un_char_width u '' '' = 1 \<and> unit_chars u (border_list (fo_chars options))
     \<and> (\<forall>t. fo_title options = Some t \<longrightarrow> encoded ('' '' @ trim t @ '' ''))
     \<and> frame_cells options + fo_padding_x options * 2 < fo_width options
     \<and> (\<forall>l \<in> set content. encoded_line l
          \<and> line_width u l \<le> fo_width options - (frame_cells options + fo_padding_x options * 2))"

lemma frame_body_width:
  assumes "frame_fits u content options" and "l \<in> set (frame_body u content options)"
  shows "line_width u l = fo_width options - frame_cells options \<and> encoded_line l"
proof -
  let ?inner = "max (fo_width options - (frame_cells options + fo_padding_x options * 2)) 1"
  have a: "additive u" "un_char_width u '' '' = 1" using assms(1) by (simp_all add: frame_fits_def)
  have inner: "?inner = fo_width options - (frame_cells options + fo_padding_x options * 2)"
    "?inner + fo_padding_x options * 2 = fo_width options - frame_cells options"
    using assms(1) by (auto simp: frame_fits_def)
  have blank: "line_width u [style_span st (spaces (?inner + fo_padding_x options * 2))] = fo_width options - frame_cells options
    \<and> encoded_line [style_span st (spaces (?inner + fo_padding_x options * 2))]" for st
    using spaces_width [OF a] inner(2) by simp
  have row: "line_width u (push_styled (append_line (push_styled [] (style_span st (spaces (fo_padding_x options)))) (fill_line u ?inner bg k))
        (style_span st (spaces (fo_padding_x options)))) = fo_width options - frame_cells options
      \<and> encoded_line (push_styled (append_line (push_styled [] (style_span st (spaces (fo_padding_x options)))) (fill_line u ?inner bg k))
        (style_span st (spaces (fo_padding_x options))))" if "k \<in> set content" for k st bg
  proof -
    have "encoded_line k" "line_width u k \<le> ?inner" using assms(1) that inner(1) by (auto simp: frame_fits_def)
    from fill_line_fits [OF a this] have f: "line_width u (fill_line u ?inner bg k) = ?inner" "encoded_line (fill_line u ?inner bg k)" by simp_all
    from between_width [OF a(1) _ f(2), of "spaces (fo_padding_x options)" st] spaces_width [OF a] f(1) inner(2)
    show ?thesis by simp
  qed
  from assms(2) show ?thesis
    unfolding frame_body_def Let_def set_append set_map set_replicate_conv_if
    using blank row by (auto split: if_splits)
qed

lemma truncate_cells_fits:
  assumes "additive u" and "encoded t"
  shows "un_width u (truncate_cells u t width) \<le> width \<and> encoded (truncate_cells u t width)"
  using truncate_fits(1,2) [OF assms, of width]
  by (metis truncate_cells_def prod.collapse)

lemma frame_top_width:
  assumes "frame_fits u content options" and "fo_bordered options"
  shows "line_width u (frame_top u options) = fo_width options"
proof -
  have a: "additive u" and unit: "unit_chars u (border_list (fo_chars options))"
    and room: "3 \<le> fo_width options" using assms by (auto simp: frame_fits_def frame_cells_def)
  let ?c = "fo_chars options" and ?h = "fo_width options - 2"
  have one: "un_width u b = 1 \<and> encoded b" if "b \<in> set (border_list ?c)" for b
    using char_width_one [OF a] unit that by (auto simp: unit_chars_def)
  have rep: "un_width u (repeated (bc_horizontal ?c) n) = n \<and> encoded (repeated (bc_horizontal ?c) n)" for n
    using repeated_width [OF a] unit by (auto simp: unit_chars_def border_list_def)
  have corners: "un_width u (bc_top_left ?c) = 1" "encoded (bc_top_left ?c)" "un_width u (bc_top_right ?c) = 1"
    "encoded (bc_top_right ?c)" "un_width u (bc_horizontal ?c) = 1" "encoded (bc_horizontal ?c)"
    using one by (simp_all add: border_list_def)
  have plain: "line_width u (push_styled [] (style_span st (bc_top_left ?c @ repeated (bc_horizontal ?c) ?h @ bc_top_right ?c))) = fo_width options" for st
    using pushed_width [OF a, of "[]" "bc_top_left ?c @ repeated (bc_horizontal ?c) ?h @ bc_top_right ?c" st] corners rep room
    by (simp add: width_append [OF a] encoded_append)
  show ?thesis
  proof (cases "fo_title options")
    case None
    with plain show ?thesis by (simp add: frame_top_def Let_def)
  next
    case (Some t)
    show ?thesis
    proof (cases "trim t = []")
      case True
      with Some plain show ?thesis by (simp add: frame_top_def Let_def)
    next
      case False
      let ?label = "truncate_cells u ('' '' @ trim t @ '' '') (?h - 2)"
      have "encoded ('' '' @ trim t @ '' '')" using assms(1) Some by (auto simp: frame_fits_def)
      from truncate_cells_fits [OF a this] have label: "un_width u ?label \<le> ?h - 2" "encoded ?label" by blast+
      let ?l1 = "\<lambda>st. push_styled [] (style_span st (bc_top_left ?c @ bc_horizontal ?c))"
      have l1: "line_width u (?l1 st) = 2" "encoded_line (?l1 st)" for st
        using pushed_width [OF a, of "[]" "bc_top_left ?c @ bc_horizontal ?c" st] corners
        by (simp_all add: width_append [OF a] encoded_append)
      have l2: "line_width u (push_styled (?l1 st) (style_span st' ?label)) = 2 + un_width u ?label"
        "encoded_line (push_styled (?l1 st) (style_span st' ?label))" for st st'
        using pushed_width [OF a l1(2) label(2), of st st'] l1(1) by simp_all
      have "line_width u (push_styled (push_styled (?l1 st) (style_span st' ?label))
          (style_span st (repeated (bc_horizontal ?c) (?h - (1 + un_width u ?label)) @ bc_top_right ?c))) = fo_width options" for st st'
        using pushed_width [OF a l2(2), of "repeated (bc_horizontal ?c) (?h - (1 + un_width u ?label)) @ bc_top_right ?c" st st' st]
          l2(1) [of st st'] label(1) rep corners room by (simp add: width_append [OF a] encoded_append)
      with Some False show ?thesis by (simp add: frame_top_def Let_def)
    qed
  qed
qed

section \<open>Properties\<close>



text \<open>
  C22. A transparent cache: whatever the sequence of requests, each answer of the cached layout is
  the layout itself, and the cache never holds more than 128 layouts or, but for a single
  oversized one, more than a mebibyte.
\<close>

theorem layout_cache_transparent:
  "map_option fst (run_cached u requests layout_cache_empty)
     = those (map (\<lambda>(markup, width). layout_stml u markup width) requests)
   \<and> pred_option (\<lambda>(_, c). length (lc_entries c) \<le> 128 \<and> lc_bytes c = cache_total (lc_entries c)
        \<and> (lc_bytes c \<le> 1048576 \<or> length (lc_entries c) \<le> 1))
      (run_cached u requests layout_cache_empty)"
proof -
  have "cache_ok u c \<Longrightarrow> length (lc_entries c) \<le> 128 \<and> lc_bytes c = cache_total (lc_entries c)
      \<and> (lc_bytes c \<le> 1048576 \<or> length (lc_entries c) \<le> 1)" for c
    unfolding cache_ok_def LAYOUT_CACHE_ITEMS_def LAYOUT_CACHE_BYTES_def by blast
  with run_cached_ok [OF empty_cache_ok, of u requests] show ?thesis
    by (cases "run_cached u requests layout_cache_empty") auto
qed


definition sample_frame :: frame_options where
  "sample_frame =
     \<lparr>fo_width = 20, fo_bordered = True, fo_chars = border_single, fo_border_color = ''note-border'',
      fo_title = Some '' Plan '', fo_title_color = ''heading'', fo_background = None, fo_padding_x = 1, fo_padding_y = 1\<rparr>"


section \<open>What the model showed\<close>

text \<open>Entities are decoded after the text was sanitized: a markup without any control character
  lays out to an escape sequence.\<close>

lemma entity_escapes_sanitizer:
  "harmless ''&#27;[2J'' \<and> map_option sr_lines (layout_stml cell_widths ''&#27;[2J'' 40)
     = Some [[style_span plain_style ([ESC] @ ''[2J'')]]"
  by code_simp

text \<open>Only the horizontal padding of a box is bounded: the vertical one is the number of blank lines
  that are built, up to the greatest \<open>usize\<close>.\<close>

lemma vertical_padding_unbounded:
  "length (frame_body u content options) = 2 * fo_padding_y options + length content"
  by (simp add: frame_body_def Let_def)

text \<open>A width in percent is taken once for the column of a row and again for the box in it: half of
  19 cells is a column of 9, in which the box is 4 cells wide.\<close>

lemma parse_50: "parse_finite_f64 ''50'' = Some (False, 50 * 2 ^ 47, 2 ^ 47)"
proof -
  have "round_f64 50 (Suc 0) = Some (50 * 2 ^ 47, 2 ^ 47)"
    by (simp add: round_f64_def scale2_def round_half_even_def)
  then show ?thesis
    by (simp add: parse_finite_f64_def strip_sign_def digits_of_def is_digit_def parse_exponent_def
        digits_value_def del: power_numeral)
qed

lemma half_of: "percent_usize 19 (False, 50 * 2 ^ 47, 2 ^ 47) = 9" "percent_usize 9 (False, 50 * 2 ^ 47, 2 ^ 47) = 4"
  by (simp_all add: percent_usize_def floor_usize_def round_f64_def scale2_def round_half_even_def usize_max_def)

lemma row_percent_taken_twice:
  "row_widths [StmlElement ''box'' [''width'' \<mapsto> ''50%''] [], StmlElement ''box'' Map.empty []] 19 = [9, 10]
   \<and> width_attr (Some ''50%'') 9 = Some 4"
proof -
  have suffix: "strip_suffix ''50%'' ''%'' = Some ''50''" by code_simp
  have "width_attr (Some ''50%'') 19 = Some 9" "width_attr (Some ''50%'') 9 = Some 4"
    by (simp_all add: width_attr_def suffix parse_50 half_of del: power_numeral)
  moreover have "width_attr None 19 = None" by (simp add: width_attr_def)
  ultimately show ?thesis
    by (simp add: row_widths_def clamp_def map_filter_simps usize_max_def)
qed

end
