(* ===== verification/Note_Plan.thy ===== *)
theory Note_Plan
  imports Note_Cards Markup_Layout_Props
begin

text \<open>
  The card of every kind of note and the rows of a file with its notes between them: the second
  half of \<open>review/row.rs\<close>. What lies outside is collected in one record: the differ of the
  \<open>similar\<close> crate, the widths of \<open>unicode_width\<close> and the tables of Unicode. The markup of a note is
  laid out by \<open>layout_stml\<close> itself: the code asks \<open>layout_stml_cached\<close>, whose answers are the same.
\<close>

section \<open>Cards\<close>

record externals =
  ex_word_diff :: differ
  ex_width :: "string \<Rightarrow> usize"
  ex_char_width :: "rchar \<Rightarrow> usize"
  ex_lowercase :: "string \<Rightarrow> string"

text \<open>Only markup that is not text could panic, so the branch of \<open>None\<close> is never taken for a note.\<close>

definition stml_of :: "externals \<Rightarrow> string \<Rightarrow> u16 \<Rightarrow> stml_layout" where
  "stml_of x markup width =
     (case layout_stml \<lparr>un_width = ex_width x, un_char_width = ex_char_width x\<rparr> markup width of
        Some result \<Rightarrow> result
      | None \<Rightarrow> \<lparr>sr_lines = [], sr_errors = []\<rparr>)"

definition wrap_card :: "externals \<Rightarrow> string \<Rightarrow> note_box_layout \<Rightarrow> string list" where
  "wrap_card x s placement = wrap_note_text (ex_width x) (ex_char_width x) s (nb_content_width placement)"

definition note_row :: "string \<Rightarrow> note_card \<Rightarrow> review_row" where
  "note_row file_id c =
     Note \<lparr>rk_file_id = file_id, rk_hunk_index = nt_hunk_index (nc_target c), rk_kind = KNote,
       rk_old_line = map_option lr_start (nt_old_range (nc_target c)),
       rk_new_line = map_option lr_start (nt_new_range (nc_target c)),
       rk_note_id = Some (nc_id c)\<rparr> c"

definition github_location :: "diff_file \<Rightarrow> github_review_thread \<Rightarrow> string" where
  "github_location f t =
     (case gt_subject t of
        FileSubject \<Rightarrow> df_path f @ MIDDOT @ ''file''
      | LineSubject side _ start_line end_line \<Rightarrow>
          let side = (case side of Some RemoteLeft \<Rightarrow> ''LEFT'' | Some RemoteRight \<Rightarrow> ''RIGHT''
                      | None \<Rightarrow> ''UNKNOWN'');
              stop = (case end_line of Some l \<Rightarrow> l | None \<Rightarrow> 0);
              start = (case start_line of Some l \<Rightarrow> l | None \<Rightarrow> stop)
          in if start = stop then df_path f @ '' '' @ side @ '':'' @ nat_str stop
             else df_path f @ '' '' @ side @ '':'' @ nat_str start @ ''-'' @ nat_str stop
      | Unsupported _ \<Rightarrow> df_path f @ MIDDOT @ ''unsupported'')"

definition github_anchor_label :: "github_review_thread \<Rightarrow> string" where
  "github_anchor_label t =
     (case gt_subject t of
        FileSubject \<Rightarrow> ''file''
      | LineSubject side _ start_line end_line \<Rightarrow>
          let pfx = (case side of Some RemoteLeft \<Rightarrow> ''L'' | Some RemoteRight \<Rightarrow> ''R'' | None \<Rightarrow> ''?'')
          in (case (start_line, end_line) of
                (_, None) \<Rightarrow> ''unknown line''
              | (None, Some stop) \<Rightarrow> pfx @ nat_str stop
              | (Some start, Some stop) \<Rightarrow>
                  if start \<noteq> stop then pfx @ nat_str start @ ''-'' @ pfx @ nat_str stop
                  else pfx @ nat_str stop)
      | Unsupported value \<Rightarrow> value)"

definition reply_lines :: "externals \<Rightarrow> usize \<Rightarrow> github_thread_comment \<Rightarrow> string list" where
  "reply_lines x width reply =
     (REPLY @ '' @'' @ gc_author reply @ MIDDOT @ gc_created_at reply)
     # map (\<lambda>l. ''  '' @ l) (wrap_note_text (ex_width x) (ex_char_width x) (gc_body reply) (width - 2))"

definition github_conversation_lines :: "externals \<Rightarrow> github_review_thread \<Rightarrow> usize \<Rightarrow> string list" where
  "github_conversation_lines x t width =
     (case gt_comments t of
        [] \<Rightarrow> []
      | root # replies \<Rightarrow>
          wrap_note_text (ex_width x) (ex_char_width x) (gc_body root) width
          @ concat (map (reply_lines x width) replies))
     @ (if gt_url t = [] then [] else [gt_url t])"

definition github_note_card ::
  "externals \<Rightarrow> github_review_thread \<Rightarrow> note_target \<Rightarrow> note_box_layout \<Rightarrow> string \<Rightarrow> string \<Rightarrow> note_card" where
  "github_note_card x t target placement title location =
     \<lparr>nc_id = ''github:'' @ gt_id t, nc_target = target, nc_source = Named ''GitHub'', nc_title = title,
      nc_location = location, nc_lines = github_conversation_lines x t (nb_content_width placement),
      nc_markup = None, nc_tags = [],
      nc_author = (case gt_comments t of [] \<Rightarrow> None | root # _ \<Rightarrow> Some (gc_author root)),
      nc_placement = placement, nc_kind = CardGithub, nc_caret = None\<rparr>"

text \<open>\<open>placed.thread.comments[0]\<close> panics on a thread without comments.\<close>

definition github_card ::
  "externals \<Rightarrow> diff_file \<Rightarrow> layout_mode \<Rightarrow> u16 \<Rightarrow> placed_thread \<Rightarrow> note_card option" where
  "github_card x f mode width placed =
     (case gt_comments (pg_thread placed) of
        [] \<Rightarrow> None
      | root # _ \<Rightarrow>
          Some (github_note_card x (pg_thread placed) (pg_target placed)
            (note_box_layout mode (nt_anchor_side (pg_target placed)) width)
            (''GitHub'' @ MIDDOT @ ''@'' @ gc_author root @ MIDDOT @ gc_created_at root)
            (github_location f (pg_thread placed))))"

definition external_body :: "review_note \<Rightarrow> string" where
  "external_body note =
     rn_summary note
     @ (case rn_rationale note of None \<Rightarrow> [] | Some rationale \<Rightarrow> NL # rationale)
     @ (if rn_tags note \<noteq> [] \<or> rn_author note \<noteq> None \<or> rn_confidence note \<noteq> None
        then NL # (case rn_author note of None \<Rightarrow> [] | Some author \<Rightarrow> author)
          @ (if rn_tags note \<noteq> []
             then (if rn_author note \<noteq> None then MIDDOT else []) @ join MIDDOT (rn_tags note) else [])
          @ (case rn_confidence note of
               None \<Rightarrow> []
             | Some confidence \<Rightarrow>
                 (if rn_author note \<noteq> None \<or> rn_tags note \<noteq> [] then MIDDOT else [])
                 @ note_confidence_str confidence @ '' confidence'')
        else [])"

definition external_title :: "note_source \<Rightarrow> string" where
  "external_title source =
     (case source of
        User \<Rightarrow> ''Your note''
      | Agent \<Rightarrow> ''Agent note''
      | Ai \<Rightarrow> ''AI note''
      | Named value \<Rightarrow> value @ '' note'')"

definition external_card ::
  "externals \<Rightarrow> diff_file \<Rightarrow> review_note \<Rightarrow> note_target \<Rightarrow> note_source \<Rightarrow> layout_mode \<Rightarrow> u16 \<Rightarrow> note_card" where
  "external_card x f note target source mode width =
     (let placement = note_box_layout mode (nt_anchor_side target) width;
          markup = map_option (\<lambda>s. stml_of x s (nb_content_width placement)) (rn_markup note);
          markup_lines = (case markup of
                            None \<Rightarrow> None
                          | Some result \<Rightarrow> if sr_lines result = [] then None else Some (sr_lines result));
          text_lines = (case markup_lines of
                          None \<Rightarrow> wrap_card x (external_body note) placement
                        | Some ls \<Rightarrow> map (\<lambda>l. concat (map ss_text l)) ls)
      in \<lparr>nc_id = stable_note_id f note, nc_target = target, nc_source = source,
          nc_title = (case rn_title note of Some title \<Rightarrow> title | None \<Rightarrow> external_title source),
          nc_location = annotation_range_label note (Some f), nc_lines = text_lines,
          nc_markup = map_option (\<lambda>ls. \<lparr>nm_lines = ls,
            nm_notes = (case markup of None \<Rightarrow> [] | Some result \<Rightarrow> sr_errors result)\<rparr>) markup_lines,
          nc_tags = rn_tags note, nc_author = rn_author note, nc_placement = placement,
          nc_kind = CardExternal, nc_caret = None\<rparr>)"

definition target_location :: "diff_file \<Rightarrow> note_target \<Rightarrow> string" where
  "target_location f target =
     (let parts = (case nt_old_range target of None \<Rightarrow> [] | Some r \<Rightarrow> [format_range (CHR ''L'') r])
                @ (case nt_new_range target of None \<Rightarrow> [] | Some r \<Rightarrow> [format_range (CHR ''R'') r])
      in df_path f @ '' '' @ (if parts = [] then ''hunk'' else join RARROW parts))"

text \<open>What the cards of the reviewer's own notes, drafts and questions have in common.\<close>

definition plain_card ::
  "string \<Rightarrow> note_target \<Rightarrow> note_source \<Rightarrow> string \<Rightarrow> string \<Rightarrow> string list \<Rightarrow> note_box_layout
     \<Rightarrow> note_card_kind \<Rightarrow> (usize \<times> usize) option \<Rightarrow> note_card" where
  "plain_card card_id target source title location ls placement kind caret =
     \<lparr>nc_id = card_id, nc_target = target, nc_source = source, nc_title = title, nc_location = location,
      nc_lines = ls, nc_markup = None, nc_tags = [], nc_author = None, nc_placement = placement,
      nc_kind = kind, nc_caret = caret\<rparr>"

definition human_card :: "externals \<Rightarrow> diff_file \<Rightarrow> human_note \<Rightarrow> layout_mode \<Rightarrow> u16 \<Rightarrow> note_card" where
  "human_card x f note mode width =
     (let placement = note_box_layout mode (nt_anchor_side (hn_target note)) width
      in plain_card (hn_id note) (hn_target note) User ''Your note''
           (case hn_remote_target note of
              None \<Rightarrow> target_location f (hn_target note) | Some target \<Rightarrow> display_label target)
           (wrap_card x (hn_body note) placement) placement CardHuman None)"

text \<open>The caret of a draft: at the start of an empty one, where a placeholder is shown.\<close>

definition draft_caret :: "externals \<Rightarrow> string \<Rightarrow> usize \<Rightarrow> note_box_layout \<Rightarrow> (usize \<times> usize) option" where
  "draft_caret x body caret placement =
     Some (if body = [] then (0, 0)
           else caret_cell (ex_width x) (ex_char_width x)
             (wrap_note_text_indexed (ex_width x) (ex_char_width x) body (nb_content_width placement)) caret)"

definition draft_card :: "externals \<Rightarrow> diff_file \<Rightarrow> human_note_draft \<Rightarrow> layout_mode \<Rightarrow> u16 \<Rightarrow> note_card" where
  "draft_card x f draft mode width =
     (let placement = note_box_layout mode (nt_anchor_side (hd_target draft)) width;
          body = (if hd_body draft = [] then ''Write a note'' else hd_body draft)
      in plain_card (hd_id draft) (hd_target draft) User ''Draft note''
           (case hd_remote_target draft of
              None \<Rightarrow> target_location f (hd_target draft) | Some target \<Rightarrow> display_label target)
           (wrap_card x body placement) placement CardHuman
           (draft_caret x (hd_body draft) (hd_caret draft) placement))"

definition ask_card :: "externals \<Rightarrow> diff_file \<Rightarrow> ask_note \<Rightarrow> layout_mode \<Rightarrow> u16 \<Rightarrow> note_card" where
  "ask_card x f note mode width =
     (let placement = note_box_layout mode (nt_anchor_side (an_target note)) width;
          (suffix, body) = (case an_state note of
                              Pending \<Rightarrow> (MIDDOT @ ''asking'' @ ELLIPSIS, [])
                            | Answered answer \<Rightarrow> ([], answer)
                            | FailedWith message \<Rightarrow> (MIDDOT @ ''failed'', message));
          body = ''Q: '' @ an_question note @ (if body = [] then [] else [NL, NL] @ body)
      in plain_card (an_id note) (an_target note) Ai
           (''Ask AI'' @ (if ask_note_is_follow_up note then MIDDOT @ ''follow-up'' else []) @ suffix)
           (target_location f (an_target note)) (wrap_card x body placement) placement CardAsk None)"

definition ask_draft_card :: "externals \<Rightarrow> diff_file \<Rightarrow> ask_draft \<Rightarrow> layout_mode \<Rightarrow> u16 \<Rightarrow> note_card" where
  "ask_draft_card x f draft mode width =
     (let placement = note_box_layout mode (nt_anchor_side (ad_target draft)) width;
          follow_up = ask_draft_is_follow_up draft;
          body = (if ad_question draft \<noteq> [] then ad_question draft
                  else if follow_up then ''Ask a follow-up about this change''
                  else ''Ask about this change'')
      in plain_card (ad_id draft) (ad_target draft) Ai
           (if follow_up then ''Ask AI'' @ MIDDOT @ ''follow-up'' else ''Ask AI'')
           (target_location f (ad_target draft)) (wrap_card x body placement) placement CardAsk
           (draft_caret x (ad_question draft) (ad_caret draft) placement))"

section \<open>The rows of a file with its notes\<close>

record note_plan_options =
  np_human_notes :: "human_note list"
  np_live_notes :: "live_note list"
  np_draft :: "human_note_draft option"
  np_github_threads :: "placed_thread list"
  np_ask_notes :: "ask_note list"
  np_ask_draft :: "ask_draft option"
  np_show_agent_notes :: bool
  np_content_width :: u16

definition at_anchor :: "note_target \<Rightarrow> review_row \<Rightarrow> bool" where
  "at_anchor target row \<longleftrightarrow>
     rk_hunk_index (row_key row) = nt_hunk_index target
     \<and> (case nt_anchor_side target of
          Some NewSide \<Rightarrow> rk_new_line (row_key row) = nt_anchor_line target
        | Some OldSide \<Rightarrow> rk_old_line (row_key row) = nt_anchor_line target
        | None \<Rightarrow> False)"

definition note_anchor_index :: "review_row list \<Rightarrow> note_target \<Rightarrow> usize" where
  "note_anchor_index rows target =
     (case or_else (position (at_anchor target) rows)
        (position (\<lambda>row. rk_hunk_index (row_key row) = nt_hunk_index target) rows) of
        Some i \<Rightarrow> i
      | None \<Rightarrow> 0)"

definition layout_mode_of :: "effective_layout \<Rightarrow> layout_mode" where
  "layout_mode_of layout = (case layout of SplitLayout \<Rightarrow> LayoutSplit | StackLayout \<Rightarrow> LayoutStack)"

text \<open>The cards of the notes other than threads, each with its target, in the order of the code.\<close>

definition agent_cards :: "externals \<Rightarrow> diff_file \<Rightarrow> layout_mode \<Rightarrow> note_plan_options \<Rightarrow> note_card list" where
  "agent_cards x f mode options =
     (case df_agent f of
        None \<Rightarrow> []
      | Some agent \<Rightarrow>
          map (\<lambda>note. external_card x f note (resolve_note_target f note) (note_source_of note) mode
                 (np_content_width options))
            (filter (\<lambda>note. np_show_agent_notes options \<or> note_source_of note = User) (afc_annotations agent)))"

definition own_cards :: "externals \<Rightarrow> diff_file \<Rightarrow> layout_mode \<Rightarrow> note_plan_options \<Rightarrow> note_card list" where
  "own_cards x f mode options =
     (let width = np_content_width options; here = (\<lambda>target. nt_file_id target = df_id f)
      in (if np_show_agent_notes options
          then map (\<lambda>n. external_card x f (ln_note n) (ln_target n) Agent mode width)
                 (filter (\<lambda>n. here (ln_target n)) (np_live_notes options))
          else [])
         @ map (\<lambda>n. human_card x f n mode width) (filter (\<lambda>n. here (hn_target n)) (np_human_notes options))
         @ map (\<lambda>d. draft_card x f d mode width)
             (filter (\<lambda>d. here (hd_target d)) (option_list (np_draft options)))
         @ map (\<lambda>n. ask_card x f n mode width) (filter (\<lambda>n. here (an_target n)) (np_ask_notes options))
         @ map (\<lambda>d. ask_draft_card x f d mode width)
             (filter (\<lambda>d. here (ad_target d)) (option_list (np_ask_draft options))))"

definition weave_cards :: "string \<Rightarrow> review_row list \<Rightarrow> note_card list \<Rightarrow> (usize \<times> note_card) list \<Rightarrow> review_row list" where
  "weave_cards file_id rows file_level placements =
     map (note_row file_id) file_level
     @ concat (map (\<lambda>(i, row). row # map (\<lambda>p. note_row file_id (snd p)) (filter (\<lambda>p. fst p = i) placements))
         (zip [0..<length rows] rows))"

definition build_row_plan_with_notes ::
  "externals \<Rightarrow> diff_file \<Rightarrow> effective_layout \<Rightarrow> bool \<Rightarrow> file_context_state option \<Rightarrow> note_plan_options
     \<Rightarrow> row_plan option" where
  "build_row_plan_with_notes x f layout show_hunk_headers context options =
     (let plan = build_row_plan_with_context (ex_word_diff x) f layout show_hunk_headers context;
          mode = layout_mode_of layout;
          card = github_card x f mode (np_content_width options);
          anchored = (\<lambda>c. (note_anchor_index (rp_rows plan) (nc_target c), c))
      in if rp_rows plan = [] then Some plan
         else do {
           file_level \<leftarrow> those (map card (filter pg_file_level (np_github_threads options)));
           line_level \<leftarrow> those (map card (filter (\<lambda>t. \<not> pg_file_level t) (np_github_threads options)));
           let placements = map anchored (line_level @ agent_cards x f mode options @ own_cards x f mode options);
           Some (if placements = [] \<and> file_level = [] then plan
                 else plan\<lparr>rp_rows := weave_cards (df_id f) (rp_rows plan) file_level placements\<rparr>)
         })"

definition unplaced_row :: "externals \<Rightarrow> u16 \<Rightarrow> unplaced_thread \<Rightarrow> review_row" where
  "unplaced_row x content_width u =
     (let target = \<lparr>nt_file_id = ''github:unplaced:'' @ gt_id (ug_thread u), nt_old_range = None,
            nt_new_range = None, nt_hunk_index = None, nt_anchor_side = None, nt_anchor_line = None\<rparr>
      in note_row (nt_file_id target)
           (github_note_card x (ug_thread u) target (note_box_layout LayoutStack None content_width)
             (''GitHub'' @ MIDDOT @ ''Unplaced'')
             (gt_path (ug_thread u) @ MIDDOT @ github_anchor_label (ug_thread u) @ MIDDOT @ ug_reason u)))"

definition github_trailer_plan :: "externals \<Rightarrow> unplaced_thread list \<Rightarrow> u16 \<Rightarrow> row_plan option" where
  "github_trailer_plan x threads content_width =
     (if threads = [] then None
      else Some \<lparr>rp_rows = map (unplaced_row x content_width) threads, rp_hunk_anchor_keys = [],
                 rp_line_number_digits = 1\<rparr>)"

section \<open>Notes hide nothing\<close>

fun card_of :: "review_row \<Rightarrow> note_card option" where
  "card_of (Note _ c) = Some c"
| "card_of _ = None"

definition plain_row :: "review_row \<Rightarrow> bool" where
  "plain_row r \<longleftrightarrow> card_of r = None \<and> rk_kind (row_key r) \<noteq> KNote"

lemma plain_rows [simp]:
  "plain_row (Split k l r) = (rk_kind k \<noteq> KNote)" "plain_row (Stack k c) = (rk_kind k \<noteq> KNote)"
  "plain_row (HunkHeader k s) = (rk_kind k \<noteq> KNote)" "plain_row (Placeholder k p s) = (rk_kind k \<noteq> KNote)"
  "plain_row (Collapsed k g s) = (rk_kind k \<noteq> KNote)" "plain_row (CompactedFile k) = (rk_kind k \<noteq> KNote)"
  "\<not> plain_row (Note k n)"
  by (simp_all add: plain_row_def)

lemma note_row_facts [simp]: "card_of (note_row file_id c) = Some c" "\<not> plain_row (note_row file_id c)"
  "rk_kind (row_key (note_row file_id c)) = KNote"
  by (simp_all add: note_row_def)

lemma kind_make_row_key [simp]: "rk_kind (make_row_key f h kind a b) = kind"
  by (simp add: make_row_key_def)

lemma hunk_rows_plain: "r \<in> set (hunk_rows word_diff layout f i ls) \<Longrightarrow> plain_row r"
proof -
  have split: "r \<in> set (build_split_rows word_diff f i ls) \<Longrightarrow> plain_row r"
    by (induction word_diff f i ls rule: build_split_rows.induct)
      (auto simp: split_block_def Let_def split: if_splits prod.splits)
  have block: "r \<in> set (stack_block f i e d a ls) \<Longrightarrow> plain_row r" for f i e d a ls
    by (induction f i e d a ls rule: stack_block.induct)
      (auto simp: push_stack_row_def split: line_type.splits)
  have stack: "r \<in> set (build_stack_rows word_diff f i ls) \<Longrightarrow> plain_row r"
    by (induction word_diff f i ls rule: build_stack_rows.induct)
      (auto simp: push_stack_row_def Let_def simp del: stack_block.simps dest!: block split: if_splits)
  assume "r \<in> set (hunk_rows word_diff layout f i ls)"
  with split stack show ?thesis by (cases layout) (simp_all add: hunk_rows_def)
qed

lemma place_gap_plain: "r \<in> set (place_gap f layout context gap) \<Longrightarrow> plain_row r"
  by (auto simp: place_gap_def gap_rows_def expanded_row_def Let_def
      split: option.splits sum.splits prod.splits if_splits effective_layout.splits)

lemma row_plan_plain:
  assumes "r \<in> set (rp_rows (build_row_plan_with_context word_diff f layout headers context))"
  shows "plain_row r"
proof (cases "df_hunks f = []")
  case True
  with assms show ?thesis by (auto simp: build_row_plan_with_context_def placeholder_plan_def Let_def split: prod.splits if_splits)
next
  case False
  from assms show ?thesis
    unfolding row_plan_rows(1) [OF False]
    by (auto simp: gap_rows_before_def own_rows_def dest: place_gap_plain hunk_rows_plain split: if_splits)
qed

lemma note_anchor_index_less:
  assumes "rows \<noteq> []"
  shows "note_anchor_index rows target < length rows"
  using assms position_SomeD [of "at_anchor target" rows]
    position_SomeD [of "\<lambda>row. rk_hunk_index (row_key row) = nt_hunk_index target" rows]
  by (auto simp: note_anchor_index_def or_else_def split: option.splits)

lemma those_map_Some: "those (map g xs) = Some ys \<Longrightarrow> map g xs = map Some ys"
  by (induction xs arbitrary: ys) (auto split: option.splits)

lemma those_map_None: "those (map g xs) = None \<longleftrightarrow> (\<exists>x \<in> set xs. g x = None)"
  by (induction xs) (auto split: option.splits)

lemma filter_by_index:
  "mset (concat (map (\<lambda>i. filter (\<lambda>p. fst p = i) ps) [0..<n])) = mset (filter (\<lambda>p. fst p < n) ps)"
proof (induction n)
  case (Suc n)
  have "mset (filter (\<lambda>p. fst p < n) ps) + mset (filter (\<lambda>p. fst p = n) ps) = mset (filter (\<lambda>p. fst p < Suc n) ps)"
    by (induction ps) auto
  with Suc show ?case by simp
qed simp

definition cards :: "review_row list \<Rightarrow> note_card list" where
  "cards rows = List.map_filter card_of rows"

lemma cards_simps [simp]:
  "cards [] = []" "cards (a @ b) = cards a @ cards b" "cards (map (note_row file_id) cs) = cs"
  "cards (map (\<lambda>p. note_row file_id (snd p)) ps) = map snd ps"
  by (simp_all add: cards_def map_filter_simps map_filter_def comp_def)

lemma cards_plain: "\<forall>r \<in> set rows. plain_row r \<Longrightarrow> cards rows = []"
  by (induction rows) (auto simp: cards_def map_filter_simps plain_row_def)

lemma weave_cards_rows:
  assumes "\<forall>r \<in> set rows. plain_row r" and "\<forall>p \<in> set placements. fst p < length rows"
  shows "filter plain_row (weave_cards file_id rows file_level placements) = rows"
    and "mset (cards (weave_cards file_id rows file_level placements)) = mset (file_level @ map snd placements)"
proof -
  let ?woven = "\<lambda>n. concat (map (\<lambda>i. rows ! i # map (\<lambda>p. note_row file_id (snd p)) (filter (\<lambda>p. fst p = i) placements)) [0..<n])"
  have weave: "weave_cards file_id rows file_level placements = map (note_row file_id) file_level @ ?woven (length rows)"
  proof -
    have "zip [0..<length rows] rows = map (\<lambda>i. (i, rows ! i)) [0..<length rows]"
      by (rule nth_equalityI) simp_all
    then show ?thesis by (simp add: weave_cards_def comp_def)
  qed
  have "n \<le> length rows \<Longrightarrow> filter plain_row (?woven n) = take n rows" for n
    using assms(1) by (induction n) (auto simp: take_Suc_conv_app_nth comp_def)
  then show "filter plain_row (weave_cards file_id rows file_level placements) = rows"
    unfolding weave by (simp add: comp_def)
  have "n \<le> length rows \<Longrightarrow> cards (?woven n) = map snd (concat (map (\<lambda>i. filter (\<lambda>p. fst p = i) placements) [0..<n]))" for n
  proof (induction n)
    case (Suc n)
    then have "card_of (rows ! n) = None" using assms(1) by (simp add: plain_row_def)
    then have "cards (rows ! n # rest) = cards rest" for rest by (simp add: cards_def map_filter_simps)
    with Suc show ?case by simp
  qed simp
  then have "mset (cards (?woven (length rows))) = image_mset snd (mset (filter (\<lambda>p. fst p < length rows) placements))"
    by (simp only: mset_map filter_by_index le_refl)
  also have "filter (\<lambda>p. fst p < length rows) placements = placements"
    using assms(2) by (simp add: filter_id_conv)
  finally show "mset (cards (weave_cards file_id rows file_level placements)) = mset (file_level @ map snd placements)"
    unfolding weave by simp
qed

text \<open>The cards a file is due.\<close>

definition due_cards :: "externals \<Rightarrow> diff_file \<Rightarrow> effective_layout \<Rightarrow> note_plan_options \<Rightarrow> note_card option list" where
  "due_cards x f layout options =
     map (github_card x f (layout_mode_of layout) (np_content_width options)) (np_github_threads options)
     @ map Some (agent_cards x f (layout_mode_of layout) options @ own_cards x f (layout_mode_of layout) options)"

lemma mset_partition: "mset (map g (filter p xs)) + mset (map g (filter (\<lambda>x. \<not> p x) xs)) = mset (map g xs)"
  by (induction xs) auto

lemma github_card_None: "github_card x f mode width t = None \<longleftrightarrow> gt_comments (pg_thread t) = []"
  by (simp add: github_card_def split: list.split)


end
