(* ===== verification/Review_State.thy ===== *)
theory Review_State
  imports Review_Layout Note_Plan Ordered_Map
begin

text \<open>
  The data of the review screen (\<open>review/state.rs\<close>) and the views computed from it: the entries of
  the sidebar, the annotated hunks and the snapshot that is drawn.

  A file of the review is found by position (\<open>self.files[i]\<close>, which panics out of range: \<open>None\<close>)
  or by identifier. The matcher of test files is the set of globs of \<open>globset\<close>, a function on
  paths. \<open>HashMap\<close> is a partial map, \<open>HashSet\<close> a set.
\<close>

section \<open>Data\<close>

definition DEFAULT_SIDEBAR_WIDTH :: u16 where "DEFAULT_SIDEBAR_WIDTH = 34"
definition MIN_SIDEBAR_WIDTH :: u16 where "MIN_SIDEBAR_WIDTH = 20"
definition MIN_CONTENT_WIDTH :: u16 where "MIN_CONTENT_WIDTH = 40"
definition SIDEBAR_DIVIDER_WIDTH :: u16 where "SIDEBAR_DIVIDER_WIDTH = 1"
definition u16_max :: nat where "u16_max = 65535"

record viewport =
  vp_width :: u16
  vp_height :: u16

record hunk_target =
  ht_file_id :: string
  ht_hunk_index :: usize

definition hunk_target_new :: "string \<Rightarrow> usize \<Rightarrow> hunk_target" where
  "hunk_target_new file_id hunk_index = \<lparr>ht_file_id = file_id, ht_hunk_index = hunk_index\<rparr>"

record review_options =
  ro_layout :: layout_mode
  ro_show_sidebar :: bool
  ro_line_numbers :: bool
  ro_wrap_lines :: bool
  ro_hunk_headers :: bool
  ro_agent_notes :: bool
  ro_copy_decorations :: bool
  ro_pager_mode :: bool
  ro_annotated_hunks :: "hunk_target list"
  ro_test_file_patterns :: "string list"
  ro_tests_last :: bool

definition review_options_default :: review_options where
  "review_options_default =
     \<lparr>ro_layout = LayoutStack, ro_show_sidebar = True, ro_line_numbers = True, ro_wrap_lines = False,
      ro_hunk_headers = True, ro_agent_notes = False, ro_copy_decorations = False, ro_pager_mode = False,
      ro_annotated_hunks = [], ro_test_file_patterns = [], ro_tests_last = True\<rparr>"

datatype scroll_unit = Step | HalfPage | Page

datatype review_side = ReviewLeft | ReviewRight

datatype inline_target_error =
    NoDiffLine
  | CrossFile
  | CrossSides
  | EmptySide remote_line_side
  | Discontinuous remote_line_side

definition remote_side_name :: "remote_line_side \<Rightarrow> string" where
  "remote_side_name side = (case side of RemoteLeft \<Rightarrow> ''LEFT'' | RemoteRight \<Rightarrow> ''RIGHT'')"

fun inline_target_error_display :: "inline_target_error \<Rightarrow> string" where
  "inline_target_error_display NoDiffLine = ''Select at least one diff line.''"
| "inline_target_error_display CrossFile = ''GitHub comments cannot cross files; split the selection.''"
| "inline_target_error_display CrossSides = ''GitHub comments cannot cross diff sides; split the selection.''"
| "inline_target_error_display (EmptySide side) =
     ''The selection has no line on the '' @ remote_side_name side @ '' side; split the selection.''"
| "inline_target_error_display (Discontinuous side) =
     ''The '' @ remote_side_name side @ ''-side lines are not contiguous; split the selection.''"

datatype review_action =
    Scroll int scroll_unit
  | ScrollHorizontal int
  | MoveCursor int
  | FocusSide review_side
  | JumpTop
  | JumpBottom
  | MoveHunk int
  | MoveFile int
  | MoveAnnotatedHunk int
  | SelectFile string
  | SelectNote string
  | SetFilter string
  | SetLayout layout_mode
  | ToggleSidebar
  | ToggleLineNumbers
  | ToggleWrap
  | ToggleHunkHeaders
  | ToggleAgentNotes
  | ToggleTestFiles
  | ToggleFileViewed
  | ExpandSelectedFile
  | ExpandCompactedFile string
  | FocusFilter
  | OpenHelp
  | OpenThemeSelector
  | StartNote
  | StartAsk
  | EditSelectedFile
  | Reload
  | Quit

datatype ask_start = Started string | ThreadPending | Unavailable

definition ask_started :: "ask_start \<Rightarrow> string option" where
  "ask_started s = (case s of Started i \<Rightarrow> Some i | _ \<Rightarrow> None)"

datatype review_effect =
    NoEffect
  | RedrawEffect
  | FileViewedChanged string bool
  | FocusFilterEffect
  | OpenHelpEffect
  | OpenThemeSelectorEffect
  | StartNoteEffect
  | StartAskEffect
  | EditFile string "u32 option"
  | ReloadEffect
  | QuitEffect

datatype review_file_status =
    StatusModified | StatusAdded | StatusDeleted | StatusRenamed | StatusCopied
  | StatusBinary | StatusTooLarge | StatusUntracked

record review_file_snapshot =
  rf_id :: string
  rf_path :: string
  rf_previous_path :: "string option"
  rf_additions :: usize
  rf_deletions :: usize
  rf_stats_truncated :: bool
  rf_status :: review_file_status
  rf_compacted :: bool
  rf_github_thread_count :: usize

record sidebar_file =
  sf_id :: string
  sf_name :: string
  sf_annotations_text :: "string option"
  sf_additions_text :: "string option"
  sf_deletions_text :: "string option"
  sf_status :: review_file_status

text \<open>A group carries its identifier and its label.\<close>

datatype sidebar_entry = SidebarGroup string string | SidebarFile sidebar_file

record review_position =
  rp_file_id :: string
  rp_hunk_index :: "usize option"
  rp_old_line :: "u32 option"
  rp_new_line :: "u32 option"

record review_view_preferences =
  vf_layout :: layout_mode
  vf_show_sidebar :: bool
  vf_line_numbers :: bool
  vf_wrap_lines :: bool
  vf_hunk_headers :: bool
  vf_agent_notes :: bool

record review_point =
  px_x :: u16
  px_y :: u16

datatype review_hit =
    HitSidebarFile string
  | HitSidebarDivider
  | HitScrollbar
  | HitCollapsed gap_key
  | HitNote string
  | HitCompactedFile string
  | HitDiff selection_point

record review_snapshot =
  rs_total_files :: usize
  rs_total_additions :: usize
  rs_total_deletions :: usize
  rs_reviewed_lines :: usize
  rs_total_changed_lines :: usize
  rs_reviewed_percent :: u8
  rs_visible_files :: "review_file_snapshot list"
  rs_sidebar_entries :: "sidebar_entry list"
  rs_selected_file_id :: "string option"
  rs_selected_hunk_index :: "usize option"
  rs_selected_position :: "review_position option"
  rs_focused_side :: review_side
  rs_layout :: layout_mode
  rs_show_sidebar :: bool
  rs_sidebar_width :: u16
  rs_line_numbers :: bool
  rs_wrap_lines :: bool
  rs_hunk_headers :: bool
  rs_agent_notes :: bool
  rs_pager_mode :: bool
  rs_filter :: string
  rs_scroll_top :: usize
  rs_total_height :: usize
  rs_max_scroll_top :: usize
  rs_horizontal_offset :: usize
  rs_note_count :: usize

definition empty_snapshot :: review_snapshot where
  "empty_snapshot =
     \<lparr>rs_total_files = 0, rs_total_additions = 0, rs_total_deletions = 0, rs_reviewed_lines = 0,
      rs_total_changed_lines = 0, rs_reviewed_percent = 100, rs_visible_files = [], rs_sidebar_entries = [],
      rs_selected_file_id = None, rs_selected_hunk_index = None, rs_selected_position = None,
      rs_focused_side = ReviewLeft, rs_layout = LayoutStack, rs_show_sidebar = False,
      rs_sidebar_width = DEFAULT_SIDEBAR_WIDTH, rs_line_numbers = True, rs_wrap_lines = False,
      rs_hunk_headers = True, rs_agent_notes = False, rs_pager_mode = False, rs_filter = [],
      rs_scroll_top = 0, rs_total_height = 0, rs_max_scroll_top = 0, rs_horizontal_offset = 0,
      rs_note_count = 0\<rparr>"

record review_controller =
  rc_files :: "diff_file list"
  rc_options :: review_options
  rc_filter :: string
  rc_visible_indices :: "usize list"
  rc_selected_file_id :: "string option"
  rc_selected_hunk_index :: "usize option"
  rc_selected_row_key :: "review_row_key option"
  rc_focused_side :: review_side
  rc_scroll_top :: usize
  rc_horizontal_offset :: usize
  rc_sidebar_override :: "bool option"
  rc_sidebar_width :: u16
  rc_geometry :: "review_geometry option"
  rc_planned_files :: "planned_file list"
  rc_trailer_plan :: "row_plan option"
  rc_github_threads :: thread_placement
  rc_github_thread_source :: "github_review_thread list"
  rc_effective_layout :: effective_layout
  rc_actual_sidebar :: bool
  rc_last_viewport :: "viewport option"
  rc_dirty :: bool
  rc_snapshot :: review_snapshot
  rc_contexts :: "string \<rightharpoonup> file_context_state"
  rc_human_notes :: "human_note list"
  rc_live_notes :: "live_note list"
  rc_human_note_draft :: "human_note_draft option"
  rc_next_human_note_id :: u64
  rc_test_file_matcher :: "string \<Rightarrow> bool"
  rc_test_files_compacted :: bool
  rc_expanded_test_files :: "string set"
  rc_viewed_files :: "string set"
  rc_ask_notes :: "ask_note list"
  rc_ask_draft :: "ask_draft option"
  rc_next_ask_id :: u64
  rc_progress :: review_progress

end
