(* ===== verification/Review_Core.thy ===== *)
theory Review_Core
  imports Review_State
begin

text \<open>
  The core of the review controller (\<open>review/state.rs\<close>): \<open>rebuild\<close> turns the state into row plans
  and a layout and puts the cursor and the scroll position back, and the cursor moves over the
  rows. A step that can panic returns an option.
\<close>

section \<open>Files\<close>

text \<open>A file named by identifier, path or previous path, as the session operations do.\<close>

definition file_named :: "string \<Rightarrow> diff_file \<Rightarrow> bool" where
  "file_named requested f \<longleftrightarrow>
     df_id f = requested \<or> df_path f = requested \<or> df_previous_path f = Some requested"

definition file_by_id :: "diff_file list \<Rightarrow> string \<Rightarrow> diff_file option" where
  "file_by_id files file_id = List.find (\<lambda>f. df_id f = file_id) files"

definition has_file :: "diff_file list \<Rightarrow> string \<Rightarrow> bool" where
  "has_file files file_id = list_ex (\<lambda>f. df_id f = file_id) files"

definition matches_filter :: "externals \<Rightarrow> diff_file \<Rightarrow> string \<Rightarrow> bool" where
  "matches_filter x f needle =
     (let needle = ex_lowercase x (trim needle)
      in needle = []
         \<or> list_ex (\<lambda>value. contains (ex_lowercase x value) needle)
             (df_path f # option_list (df_previous_path f) @ option_list (df_summary f)))"

definition order_tests_last :: "(string \<Rightarrow> bool) \<Rightarrow> diff_file list \<Rightarrow> diff_file list" where
  "order_tests_last is_test files = sort_key (\<lambda>f. if is_test (df_path f) then 1 else 0 :: nat) files"

definition file_status :: "diff_file \<Rightarrow> review_file_status" where
  "file_status f =
     (if df_is_too_large f then StatusTooLarge
      else if df_is_binary f then StatusBinary
      else if df_is_untracked f then StatusUntracked
      else (case df_change_kind f of
              Modified \<Rightarrow> StatusModified | Added \<Rightarrow> StatusAdded | Deleted \<Rightarrow> StatusDeleted
            | Renamed \<Rightarrow> StatusRenamed | Copied \<Rightarrow> StatusCopied))"

section \<open>The sidebar\<close>

definition sanitized_path :: "string \<Rightarrow> string" where
  "sanitized_path path = replace_char BSLASH ''/'' (sanitize_terminal_text path False)"

definition posix_parent :: "string \<Rightarrow> string option" where
  "posix_parent path =
     (case rsplit_once (CHR ''/'') path of
        None \<Rightarrow> None
      | Some (parent, _) \<Rightarrow> if parent \<noteq> [] \<and> parent \<noteq> ''.'' then Some parent else None)"

definition posix_basename :: "string \<Rightarrow> string" where
  "posix_basename path = (case rsplit_once (CHR ''/'') path of None \<Rightarrow> path | Some (_, name) \<Rightarrow> name)"

definition sidebar_file_name :: "diff_file \<Rightarrow> string \<Rightarrow> string" where
  "sidebar_file_name f path =
     (let name = posix_basename path
      in case df_previous_path f of
           None \<Rightarrow> name
         | Some previous_path \<Rightarrow>
             let previous_name = posix_basename (sanitized_path previous_path)
             in if previous_name = name then name else previous_name @ '' -> '' @ name)"

definition format_sidebar_stat :: "char \<Rightarrow> usize \<Rightarrow> bool \<Rightarrow> string option" where
  "format_sidebar_stat pfx value truncated =
     (if 0 < value then Some (pfx # nat_str value @ (if truncated then ''+'' else [])) else None)"

definition sidebar_step ::
  "hunk_target list \<Rightarrow> usize \<times> diff_file \<Rightarrow> string option \<times> sidebar_entry list \<Rightarrow> string option \<times> sidebar_entry list" where
  "sidebar_step annotated numbered st =
     (case (numbered, st) of ((index, f), (active_group, entries)) \<Rightarrow>
       let path = sanitized_path (df_path f);
           group = posix_parent path;
           entries = (if group \<noteq> active_group
                      then (case group of
                              None \<Rightarrow> entries
                            | Some g \<Rightarrow> entries @ [SidebarGroup (''group:'' @ g @ '':'' @ nat_str index) (g @ ''/'')])
                      else entries);
           annotation_count = length (filter (\<lambda>t. ht_file_id t = df_id f) annotated)
       in (group, entries @ [SidebarFile
            \<lparr>sf_id = df_id f, sf_name = sidebar_file_name f path,
             sf_annotations_text = (if 0 < annotation_count then Some (''*'' @ nat_str annotation_count) else None),
             sf_additions_text = format_sidebar_stat (CHR ''+'') (st_additions (df_stats f)) (df_stats_truncated f),
             sf_deletions_text = format_sidebar_stat (CHR ''-'') (st_deletions (df_stats f)) False,
             sf_status = file_status f\<rparr>]))"

definition build_sidebar_entries :: "diff_file list \<Rightarrow> hunk_target list \<Rightarrow> sidebar_entry list" where
  "build_sidebar_entries files annotated =
     snd (fold (sidebar_step annotated) (zip [0..<length files] files) (None, []))"

section \<open>What is computed from the state\<close>

definition row_for_bound :: "planned_file list \<Rightarrow> row_plan option \<Rightarrow> row_bounds \<Rightarrow> review_row option" where
  "row_for_bound planned_files trailer_plan bound =
     (case rb_owner bound of
        OwnedByFile file_index \<Rightarrow>
          Option.bind (get planned_files file_index) (\<lambda>p. get (rp_rows (pl_plan p)) (rb_row_index bound))
      | OwnedByTrailer \<Rightarrow> Option.bind trailer_plan (\<lambda>plan. get (rp_rows plan) (rb_row_index bound)))"

definition selectable_bound :: "planned_file list \<Rightarrow> row_plan option \<Rightarrow> row_bounds \<Rightarrow> bool" where
  "selectable_bound planned_files trailer_plan bound =
     (case row_for_bound planned_files trailer_plan bound of None \<Rightarrow> False | Some row \<Rightarrow> is_selectable row)"

definition target_of_note :: "note_target \<Rightarrow> hunk_target option" where
  "target_of_note target = map_option (hunk_target_new (nt_file_id target)) (nt_hunk_index target)"

definition annotated_hunk_targets :: "review_controller \<Rightarrow> hunk_target list" where
  "annotated_hunk_targets c =
     remdups_adj (sort_key ht_file_id (sort_key ht_hunk_index
       (ro_annotated_hunks (rc_options c)
        @ concat (map (\<lambda>f. map (hunk_target_new (df_id f)) (annotated_hunks f)) (rc_files c))
        @ List.map_filter (\<lambda>n. target_of_note (hn_target n)) (rc_human_notes c)
        @ List.map_filter (\<lambda>n. target_of_note (ln_target n)) (rc_live_notes c)
        @ List.map_filter (\<lambda>n. target_of_note (an_target n)) (rc_ask_notes c))))"

text \<open>\<open>self.visible_indices.iter().map(|i| &self.files[*i])\<close>\<close>

definition visible_files :: "review_controller \<Rightarrow> diff_file list option" where
  "visible_files c = those (map (get (rc_files c)) (rc_visible_indices c))"

definition is_file_compacted :: "review_controller \<Rightarrow> diff_file \<Rightarrow> bool" where
  "is_file_compacted c f \<longleftrightarrow>
     df_id f \<in> rc_viewed_files c
     \<or> rc_test_files_compacted c \<and> rc_test_file_matcher c (df_path f) \<and> df_id f \<notin> rc_expanded_test_files c"

definition ctl_max_scroll_top :: "review_controller \<Rightarrow> usize" where
  "ctl_max_scroll_top c = (case rc_geometry c of None \<Rightarrow> 0 | Some g \<Rightarrow> max_scroll_top g)"

definition content_width :: "review_controller \<Rightarrow> viewport \<Rightarrow> u16" where
  "content_width c v =
     (if rc_actual_sidebar c
      then vp_width v - wrap_add u16_max (rc_sidebar_width c) SIDEBAR_DIVIDER_WIDTH else vp_width v)"

definition selected_bound :: "review_controller \<Rightarrow> row_bounds option" where
  "selected_bound c =
     Option.bind (rc_selected_row_key c) (\<lambda>k. Option.bind (rc_geometry c) (\<lambda>g. row_by_key g k))"

definition thread_count :: "review_controller \<Rightarrow> diff_file \<Rightarrow> usize" where
  "thread_count c f = (case tp_by_file (rc_github_threads c) (df_id f) of None \<Rightarrow> 0 | Some placed \<Rightarrow> length placed)"

definition file_snapshot :: "review_controller \<Rightarrow> diff_file \<Rightarrow> review_file_snapshot" where
  "file_snapshot c f =
     \<lparr>rf_id = df_id f, rf_path = df_path f, rf_previous_path = df_previous_path f,
      rf_additions = st_additions (df_stats f), rf_deletions = st_deletions (df_stats f),
      rf_stats_truncated = df_stats_truncated f, rf_status = file_status f,
      rf_compacted = is_file_compacted c f, rf_github_thread_count = thread_count c f\<rparr>"

definition is_note :: "review_row \<Rightarrow> bool" where
  "is_note row \<longleftrightarrow> (case row of Note _ _ \<Rightarrow> True | _ \<Rightarrow> False)"

definition count_notes :: "review_controller \<Rightarrow> usize" where
  "count_notes c =
     length (filter is_note (concat (map (\<lambda>p. rp_rows (pl_plan p)) (rc_planned_files c))))
     + length (filter is_note (concat (map rp_rows (option_list (rc_trailer_plan c)))))"

definition selected_position :: "review_controller \<Rightarrow> review_position option" where
  "selected_position c =
     (let cursor = map_option (\<lambda>row. cursor_lines row (rc_focused_side c = ReviewRight))
            (Option.bind (selected_bound c) (row_for_bound (rc_planned_files c) (rc_trailer_plan c)))
      in map_option (\<lambda>k.
           \<lparr>rp_file_id = rk_file_id k, rp_hunk_index = rk_hunk_index k,
            rp_old_line = (case cursor of None \<Rightarrow> rk_old_line k | Some ls \<Rightarrow> fst ls),
            rp_new_line = (case cursor of None \<Rightarrow> rk_new_line k | Some ls \<Rightarrow> snd ls)\<rparr>)
         (rc_selected_row_key c))"

definition fresh_snapshot :: "review_controller \<Rightarrow> review_snapshot option" where
  "fresh_snapshot c =
     do {
       files \<leftarrow> visible_files c;
       let progress = progress_snapshot (rc_progress c);
       Some \<lparr>rs_total_files = length (rc_files c),
             rs_total_additions = sum_list (map (\<lambda>f. st_additions (df_stats f)) (rc_files c)),
             rs_total_deletions = sum_list (map (\<lambda>f. st_deletions (df_stats f)) (rc_files c)),
             rs_reviewed_lines = ps_reviewed progress, rs_total_changed_lines = ps_total progress,
             rs_reviewed_percent = ps_percent progress,
             rs_visible_files = map (file_snapshot c) files,
             rs_sidebar_entries = build_sidebar_entries files (annotated_hunk_targets c),
             rs_selected_file_id = rc_selected_file_id c, rs_selected_hunk_index = rc_selected_hunk_index c,
             rs_selected_position = selected_position c, rs_focused_side = rc_focused_side c,
             rs_layout = layout_mode_of (rc_effective_layout c), rs_show_sidebar = rc_actual_sidebar c,
             rs_sidebar_width = rc_sidebar_width c, rs_line_numbers = ro_line_numbers (rc_options c),
             rs_wrap_lines = ro_wrap_lines (rc_options c), rs_hunk_headers = ro_hunk_headers (rc_options c),
             rs_agent_notes = ro_agent_notes (rc_options c), rs_pager_mode = ro_pager_mode (rc_options c),
             rs_filter = rc_filter c, rs_scroll_top = rc_scroll_top c,
             rs_total_height = (case rc_geometry c of None \<Rightarrow> 0 | Some g \<Rightarrow> rg_total_height g),
             rs_max_scroll_top = ctl_max_scroll_top c, rs_horizontal_offset = rc_horizontal_offset c,
             rs_note_count = count_notes c\<rparr>
     }"

definition refresh_snapshot :: "review_controller \<Rightarrow> review_controller option" where
  "refresh_snapshot c = map_option (\<lambda>s. c\<lparr>rc_snapshot := s\<rparr>) (fresh_snapshot c)"

text \<open>How far one row reaches beyond the columns that show it.\<close>

fun row_overhang :: "externals \<Rightarrow> u16 \<Rightarrow> bool \<Rightarrow> usize \<Rightarrow> review_row \<Rightarrow> usize" where
  "row_overhang x width show_numbers digits (Stack _ cell) =
     ex_width x (cell_text cell) - sc_code_width (stack_columns_of width digits show_numbers)"
| "row_overhang x width show_numbers digits (Split _ l r) =
     (let columns = split_columns_of width digits show_numbers
      in max (ex_width x (cell_text l) - sl_left_code_width columns)
           (ex_width x (cell_text r) - sl_right_code_width columns))"
| "row_overhang x width show_numbers digits _ = 0"

definition max_horizontal_offset :: "externals \<Rightarrow> review_controller \<Rightarrow> viewport \<Rightarrow> usize" where
  "max_horizontal_offset x c v =
     (if ro_wrap_lines (rc_options c) then 0
      else fold max
        (concat (map (\<lambda>p. map (row_overhang x (content_width c v) (ro_line_numbers (rc_options c))
                                 (rp_line_number_digits (pl_plan p))) (rp_rows (pl_plan p)))
           (rc_planned_files c))) 0)"

section \<open>Finding a row\<close>

text \<open>\<open>min_by_key\<close>: the first element with the least key.\<close>

fun min_by :: "('a \<Rightarrow> nat) \<Rightarrow> 'a list \<Rightarrow> 'a option" where
  "min_by key [] = None"
| "min_by key (a # as) =
     (case min_by key as of
        None \<Rightarrow> Some a
      | Some b \<Rightarrow> if key b < key a then Some b else Some a)"

definition numbered :: "'a list \<Rightarrow> (nat \<times> 'a) list" where
  "numbered xs = zip [0..<length xs] xs"

definition abs_diff :: "nat \<Rightarrow> nat \<Rightarrow> nat" where
  "abs_diff a b = (if a < b then b - a else a - b)"

definition first_selectable_index :: "review_geometry \<Rightarrow> planned_file list \<Rightarrow> row_plan option \<Rightarrow> usize option" where
  "first_selectable_index g planned trailer = position (selectable_bound planned trailer) (rg_rows g)"

definition selectable_index_by_key ::
  "review_geometry \<Rightarrow> planned_file list \<Rightarrow> row_plan option \<Rightarrow> review_row_key \<Rightarrow> usize option" where
  "selectable_index_by_key g planned trailer k =
     (case row_by_key g k of
        None \<Rightarrow> None
      | Some bound \<Rightarrow>
          if selectable_bound planned trailer bound
          then position (\<lambda>candidate. rb_key candidate = rb_key bound) (rg_rows g) else None)"

definition semantic_line_distance :: "review_row_key \<Rightarrow> review_row_key \<Rightarrow> u32" where
  "semantic_line_distance l r =
     (case (or_else (rk_old_line l) (rk_new_line l), or_else (rk_old_line r) (rk_new_line r)) of
        (Some a, Some b) \<Rightarrow> abs_diff a b
      | _ \<Rightarrow> u32_max)"

definition nearest_selectable_index ::
  "review_geometry \<Rightarrow> planned_file list \<Rightarrow> row_plan option \<Rightarrow> review_row_key \<Rightarrow> (review_row_key \<Rightarrow> bool) \<Rightarrow> usize option" where
  "nearest_selectable_index g planned trailer reference matches =
     map_option fst
       (min_by (\<lambda>(_, bound). semantic_line_distance reference (rb_key bound))
         (filter (\<lambda>(_, bound). matches (rb_key bound) \<and> selectable_bound planned trailer bound)
           (numbered (rg_rows g))))"

definition nearest_selectable_index_for_file ::
  "review_geometry \<Rightarrow> planned_file list \<Rightarrow> row_plan option \<Rightarrow> string \<Rightarrow> review_row_key option \<Rightarrow> usize option" where
  "nearest_selectable_index_for_file g planned trailer file_id reference =
     (case reference of
        Some k \<Rightarrow> nearest_selectable_index g planned trailer k (\<lambda>candidate. rk_file_id candidate = file_id)
      | None \<Rightarrow> position (\<lambda>bound. rk_file_id (rb_key bound) = file_id \<and> selectable_bound planned trailer bound)
                  (rg_rows g))"

section \<open>The cursor\<close>

definition snap_focused_side_for :: "bool \<times> bool \<Rightarrow> review_controller \<Rightarrow> review_controller" where
  "snap_focused_side_for sides c =
     c\<lparr>rc_focused_side :=
         (if sides = (True, False) then ReviewLeft
          else if sides = (False, True) then ReviewRight
          else rc_focused_side c)\<rparr>"

definition snap_focused_side :: "review_controller \<Rightarrow> review_controller" where
  "snap_focused_side c =
     (case Option.bind (selected_bound c) (row_for_bound (rc_planned_files c) (rc_trailer_plan c)) of
        None \<Rightarrow> c
      | Some row \<Rightarrow> snap_focused_side_for (available_sides row) c)"

definition set_cursor_index :: "usize \<Rightarrow> review_controller \<Rightarrow> review_controller" where
  "set_cursor_index index c =
     (case do {
             g \<leftarrow> rc_geometry c;
             bound \<leftarrow> get (rg_rows g) index;
             row \<leftarrow> row_for_bound (rc_planned_files c) (rc_trailer_plan c) bound;
             Some (rb_key bound, available_sides row, rb_owner bound)
           } of
        None \<Rightarrow> c
      | Some (k, sides, owner) \<Rightarrow>
          let file_id = (case owner of OwnedByFile _ \<Rightarrow> Some (rk_file_id k) | OwnedByTrailer \<Rightarrow> None)
          in snap_focused_side_for sides
               (c\<lparr>rc_selected_file_id := file_id,
                  rc_selected_hunk_index := (case file_id of None \<Rightarrow> None | Some _ \<Rightarrow> rk_hunk_index k),
                  rc_selected_row_key := Some k\<rparr>))"

definition selectable_indices :: "review_controller \<Rightarrow> usize list" where
  "selectable_indices c =
     (case rc_geometry c of
        None \<Rightarrow> []
      | Some g \<Rightarrow>
          map fst (filter (\<lambda>(_, bound). selectable_bound (rc_planned_files c) (rc_trailer_plan c) bound)
            (numbered (rg_rows g))))"

definition ensure_cursor_visible :: "viewport \<Rightarrow> review_controller \<Rightarrow> review_controller" where
  "ensure_cursor_visible v c =
     (case selected_bound c of
        None \<Rightarrow> c
      | Some bound \<Rightarrow>
          let height = max (vp_height v) 1;
              scrolled =
                (if rb_top bound < rc_scroll_top c then rb_top bound
                 else if sat_add usize_max (rc_scroll_top c) height < row_bottom bound
                 then row_bottom bound - height
                 else rc_scroll_top c)
          in c\<lparr>rc_scroll_top := min scrolled (ctl_max_scroll_top c)\<rparr>)"

end
