(* ===== verification/Review_Rebuild.thy ===== *)
theory Review_Rebuild
  imports Review_Core
begin

text \<open>
  Rebuilding the layout of the review and moving over it (\<open>rebuild\<close> and the methods from
  \<open>move_file\<close> to \<open>move_cursor\<close> of \<open>review/state.rs\<close>).
\<close>

section \<open>Rebuilding\<close>

definition matches_filter_id :: "externals \<Rightarrow> review_controller \<Rightarrow> string \<Rightarrow> bool" where
  "matches_filter_id x c file_id =
     (case file_by_id (rc_files c) file_id of None \<Rightarrow> False | Some f \<Rightarrow> matches_filter x f (rc_filter c))"

definition previous_selection_visible :: "externals \<Rightarrow> review_controller \<Rightarrow> bool" where
  "previous_selection_visible x c \<longleftrightarrow>
     (case rc_selected_row_key c of None \<Rightarrow> False | Some k \<Rightarrow> rk_kind k = KNote)
     \<or> (case rc_selected_file_id c of None \<Rightarrow> False | Some i \<Rightarrow> matches_filter_id x c i)"

definition visible_indices :: "externals \<Rightarrow> review_controller \<Rightarrow> usize list" where
  "visible_indices x c =
     map fst (filter (\<lambda>(_, f). matches_filter x f (rc_filter c)) (numbered (rc_files c)))"

text \<open>The selection when the selected file is filtered out: the first visible file.\<close>

definition reset_selection :: "review_controller \<Rightarrow> review_controller option" where
  "reset_selection c =
     (case rc_visible_indices c of
        [] \<Rightarrow> Some (c\<lparr>rc_selected_file_id := None, rc_selected_hunk_index := None, rc_selected_row_key := None\<rparr>)
      | index # _ \<Rightarrow>
          do {
            f \<leftarrow> get (rc_files c) index;
            Some (c\<lparr>rc_selected_file_id := Some (df_id f), rc_selected_hunk_index := Some 0,
                    rc_selected_row_key := None\<rparr>)
          })"

definition respond :: "viewport \<Rightarrow> review_controller \<Rightarrow> review_controller" where
  "respond v c =
     (let responsive = resolve_responsive_layout (ro_layout (rc_options c)) (vp_width v)
            (ro_show_sidebar (rc_options c))
      in c\<lparr>rc_effective_layout := rl_layout responsive,
           rc_actual_sidebar := (case rc_sidebar_override c of None \<Rightarrow> rl_show_sidebar responsive | Some b \<Rightarrow> b)\<rparr>)"

definition note_options :: "review_controller \<Rightarrow> viewport \<Rightarrow> diff_file \<Rightarrow> note_plan_options" where
  "note_options c v f =
     \<lparr>np_human_notes = rc_human_notes c, np_live_notes = rc_live_notes c, np_draft = rc_human_note_draft c,
      np_github_threads = (case tp_by_file (rc_github_threads c) (df_id f) of None \<Rightarrow> [] | Some placed \<Rightarrow> placed),
      np_ask_notes = rc_ask_notes c, np_ask_draft = rc_ask_draft c,
      np_show_agent_notes = ro_agent_notes (rc_options c), np_content_width = content_width c v\<rparr>"

definition plan_one :: "externals \<Rightarrow> review_controller \<Rightarrow> viewport \<Rightarrow> diff_file \<Rightarrow> planned_file option" where
  "plan_one x c v f =
     (if is_file_compacted c f
      then Some \<lparr>pl_file_id = df_id f, pl_plan = compacted_file_plan f, pl_compacted = True\<rparr>
      else map_option (\<lambda>plan. \<lparr>pl_file_id = df_id f, pl_plan = plan, pl_compacted = False\<rparr>)
        (build_row_plan_with_notes x f (rc_effective_layout c) (ro_hunk_headers (rc_options c))
          (rc_contexts c (df_id f)) (note_options c v f)))"

definition plan_visible :: "externals \<Rightarrow> review_controller \<Rightarrow> viewport \<Rightarrow> planned_file list option" where
  "plan_visible x c v =
     do {
       files \<leftarrow> visible_files c;
       those (map (plan_one x c v) files)
     }"

definition plan_trailer :: "externals \<Rightarrow> review_controller \<Rightarrow> viewport \<Rightarrow> row_plan option" where
  "plan_trailer x c v =
     (let needle = ex_lowercase x (trim (rc_filter c))
      in github_trailer_plan x
           (filter (\<lambda>u. needle = [] \<or> contains (ex_lowercase x (gt_path (ug_thread u))) needle)
             (tp_unplaced (rc_github_threads c)))
           (content_width c v))"

definition lay_out :: "externals \<Rightarrow> review_controller \<Rightarrow> viewport \<Rightarrow> review_geometry" where
  "lay_out x c v =
     build_review_geometry (ex_width x) (rc_planned_files c) (rc_trailer_plan c)
       \<lparr>go_content_width = content_width c v, go_viewport_height = vp_height v,
        go_show_line_numbers = ro_line_numbers (rc_options c), go_wrap_lines = ro_wrap_lines (rc_options c)\<rparr>"

definition captured_anchor :: "review_controller \<Rightarrow> viewport_anchor option" where
  "captured_anchor c =
     map_option (\<lambda>g. capture_viewport_anchor g (rc_scroll_top c) (rc_selected_file_id c) (rc_selected_hunk_index c))
       (rc_geometry c)"

definition restored_scroll ::
  "bool \<Rightarrow> viewport_anchor option \<Rightarrow> review_geometry \<Rightarrow> review_controller \<Rightarrow> usize" where
  "restored_scroll still_visible anchor g c =
     min
       (if still_visible then (case anchor of None \<Rightarrow> rc_scroll_top c | Some a \<Rightarrow> restore_viewport_anchor g a)
        else (case rc_selected_file_id c of
                None \<Rightarrow> 0
              | Some file_id \<Rightarrow> (case file_section_of g file_id of None \<Rightarrow> 0 | Some s \<Rightarrow> fs_body_top s)))
       (max_scroll_top g)"

text \<open>The row the cursor goes back to: the same row, else the nearest row of its hunk, of its file,
  else the first row that can be selected.\<close>

definition restored_index ::
  "review_geometry \<Rightarrow> planned_file list \<Rightarrow> row_plan option \<Rightarrow> review_row_key option \<Rightarrow> string option \<Rightarrow> usize option" where
  "restored_index g planned trailer previous_key selected_file_id =
     or_else (or_else (or_else
       (Option.bind previous_key (\<lambda>k.
          if rk_kind k = KNote then position (\<lambda>bound. rb_key bound = k) (rg_rows g)
          else selectable_index_by_key g planned trailer k))
       (Option.bind previous_key (\<lambda>k.
          nearest_selectable_index g planned trailer k
            (\<lambda>candidate. rk_file_id candidate = rk_file_id k \<and> rk_hunk_index candidate = rk_hunk_index k))))
       (Option.bind (or_else (map_option rk_file_id previous_key) selected_file_id)
          (\<lambda>file_id. nearest_selectable_index_for_file g planned trailer file_id previous_key)))
       (first_selectable_index g planned trailer)"

definition place_cursor :: "usize option \<Rightarrow> review_controller \<Rightarrow> review_controller" where
  "place_cursor index c =
     (case index of
        Some i \<Rightarrow> set_cursor_index i c
      | None \<Rightarrow> c\<lparr>rc_selected_file_id := None, rc_selected_hunk_index := None, rc_selected_row_key := None\<rparr>)"

definition rebuild :: "externals \<Rightarrow> viewport \<Rightarrow> bool \<Rightarrow> review_controller \<Rightarrow> review_controller option" where
  "rebuild x v preserve_anchor c =
     do {
       let anchor = (if preserve_anchor then captured_anchor c else None);
       let previous_key = rc_selected_row_key c;
       let still_visible = previous_selection_visible x c;
       let c = c\<lparr>rc_visible_indices := visible_indices x c\<rparr>;
       c \<leftarrow> (if still_visible then Some c else reset_selection c);
       let c = respond v c;
       planned \<leftarrow> plan_visible x c v;
       let c = c\<lparr>rc_planned_files := planned, rc_trailer_plan := plan_trailer x c v\<rparr>;
       let g = lay_out x c v;
       let c = c\<lparr>rc_scroll_top := restored_scroll still_visible anchor g c, rc_geometry := Some g\<rparr>;
       let c = place_cursor
         (restored_index g (rc_planned_files c) (rc_trailer_plan c) previous_key (rc_selected_file_id c)) c;
       let c = c\<lparr>rc_horizontal_offset := min (rc_horizontal_offset c) (max_horizontal_offset x c v),
                 rc_last_viewport := Some v, rc_dirty := False\<rparr>;
       refresh_snapshot c
     }"

definition ensure_geometry :: "externals \<Rightarrow> viewport \<Rightarrow> review_controller \<Rightarrow> review_controller option" where
  "ensure_geometry x v c =
     (if rc_dirty c \<or> rc_last_viewport c \<noteq> Some v then rebuild x v True c else Some c)"

text \<open>\<open>self.dirty = true; self.rebuild(viewport, true)\<close>\<close>

definition rebuild_dirty :: "externals \<Rightarrow> viewport \<Rightarrow> review_controller \<Rightarrow> review_controller option" where
  "rebuild_dirty x v c = rebuild x v True (c\<lparr>rc_dirty := True\<rparr>)"

section \<open>Moving\<close>

definition select_target :: "externals \<Rightarrow> string \<Rightarrow> usize \<Rightarrow> viewport \<Rightarrow> review_controller \<Rightarrow> review_controller option" where
  "select_target x file_id hunk_index v c =
     do {
       c \<leftarrow> rebuild x v False
              (c\<lparr>rc_selected_file_id := Some file_id, rc_selected_hunk_index := Some hunk_index,
                 rc_selected_row_key := None, rc_dirty := True\<rparr>);
       let on_target = (\<lambda>index. case Option.bind (rc_geometry c) (\<lambda>g. get (rg_rows g) index) of
                          None \<Rightarrow> False
                        | Some row \<Rightarrow>
                            rk_file_id (rb_key row) = (case rc_selected_file_id c of None \<Rightarrow> [] | Some i \<Rightarrow> i)
                            \<and> rb_hunk_index row = Some hunk_index);
       let c = (case List.find on_target (selectable_indices c) of
                  None \<Rightarrow> c
                | Some index \<Rightarrow>
                    let c = set_cursor_index index c
                    in (case selected_bound c of
                          None \<Rightarrow> c
                        | Some bound \<Rightarrow> c\<lparr>rc_scroll_top := min (rb_top bound - 1) (ctl_max_scroll_top c)\<rparr>));
       refresh_snapshot c
     }"

definition move_file :: "externals \<Rightarrow> int \<Rightarrow> viewport \<Rightarrow> review_controller \<Rightarrow> review_controller option" where
  "move_file x delta v c =
     do {
       files \<leftarrow> visible_files c;
       let ids = map df_id files;
       let current = (case position (\<lambda>i. Some i = rc_selected_file_id c) ids of None \<Rightarrow> 0 | Some n \<Rightarrow> n);
       (case wrapping_index current (length ids) delta of
          None \<Rightarrow> Some c
        | Some nxt \<Rightarrow> do { file_id \<leftarrow> get ids nxt; select_target x file_id 0 v c })
     }"

definition visible_hunk_targets :: "review_controller \<Rightarrow> hunk_target list option" where
  "visible_hunk_targets c =
     map_option (\<lambda>files. concat (map (\<lambda>f. map (hunk_target_new (df_id f)) [0..<length (df_hunks f)]) files))
       (visible_files c)"

definition on_selected_hunk :: "review_controller \<Rightarrow> hunk_target \<Rightarrow> bool" where
  "on_selected_hunk c t \<longleftrightarrow>
     Some (ht_file_id t) = rc_selected_file_id c \<and> Some (ht_hunk_index t) = rc_selected_hunk_index c"

definition move_hunk :: "externals \<Rightarrow> int \<Rightarrow> viewport \<Rightarrow> review_controller \<Rightarrow> review_controller option" where
  "move_hunk x delta v c =
     do {
       targets \<leftarrow> visible_hunk_targets c;
       let current = (case position (on_selected_hunk c) targets of None \<Rightarrow> 0 | Some n \<Rightarrow> n);
       (case wrapping_index current (length targets) delta of
          None \<Rightarrow> Some c
        | Some nxt \<Rightarrow> do { t \<leftarrow> get targets nxt; select_target x (ht_file_id t) (ht_hunk_index t) v c })
     }"

definition note_positions :: "review_controller \<Rightarrow> (usize \<times> review_row_key) list" where
  "note_positions c =
     (case rc_geometry c of
        None \<Rightarrow> []
      | Some g \<Rightarrow> map (\<lambda>(i, bound). (i, rb_key bound))
          (filter (\<lambda>(_, bound). rk_kind (rb_key bound) = KNote) (numbered (rg_rows g))))"

definition move_annotated_hunk :: "int \<Rightarrow> viewport \<Rightarrow> review_controller \<Rightarrow> review_controller option" where
  "move_annotated_hunk delta v c =
     (let targets = note_positions c;
          current = (case position (\<lambda>(_, k). rc_selected_row_key c = Some k) targets of
                       Some n \<Rightarrow> n
                     | None \<Rightarrow> if delta < 0 then 0 else length targets - 1)
      in case wrapping_index current (length targets) delta of
           None \<Rightarrow> Some c
         | Some nxt \<Rightarrow>
             do {
               t \<leftarrow> get targets nxt;
               refresh_snapshot (ensure_cursor_visible v (set_cursor_index (fst t) c))
             })"

definition select_from_viewport :: "viewport \<Rightarrow> review_controller \<Rightarrow> review_controller" where
  "select_from_viewport v c =
     (case rc_geometry c of
        None \<Rightarrow> c
      | Some g \<Rightarrow>
          let probe = min (sat_add usize_max (rc_scroll_top c) (vp_height v div 2)) (rg_total_height g - 1)
          in place_cursor
               (map_option fst
                 (min_by (\<lambda>(_, bound). abs_diff (sat_add usize_max (rb_top bound) (rb_height bound div 2)) probe)
                   (filter (\<lambda>(_, bound). selectable_bound (rc_planned_files c) (rc_trailer_plan c) bound)
                     (numbered (rg_rows g))))) c)"

definition move_cursor :: "int \<Rightarrow> viewport \<Rightarrow> review_controller \<Rightarrow> review_controller option" where
  "move_cursor delta v c =
     (let indices = selectable_indices c
      in if indices = [] then Some c
         else
           let at_key = (\<lambda>k index. case Option.bind (rc_geometry c) (\<lambda>g. get (rg_rows g) index) of
                           None \<Rightarrow> False | Some row \<Rightarrow> rb_key row = k);
               current = (case Option.bind (rc_selected_row_key c) (\<lambda>k. position (at_key k) indices) of
                            None \<Rightarrow> 0 | Some n \<Rightarrow> n);
               nxt = min (signed_offset current delta 1) (length indices - 1);
               c = (case get indices nxt of None \<Rightarrow> c | Some index \<Rightarrow> set_cursor_index index c)
           in refresh_snapshot (ensure_cursor_visible v c))"

end
