(* ===== verification/Review_Actions.thy ===== *)
theory Review_Actions
  imports Review_Rebuild Selection
begin

text \<open>
  What the review screen does (\<open>review/state.rs\<close>): the actions of \<open>apply\<close>, what the mouse hits,
  the text of a selection, collapsed context, new files and the snapshot.
\<close>

section \<open>Actions\<close>

fun application_only :: "review_action \<Rightarrow> bool" where
  "application_only FocusFilter = True"
| "application_only OpenHelp = True"
| "application_only OpenThemeSelector = True"
| "application_only EditSelectedFile = True"
| "application_only Reload = True"
| "application_only (SetFilter _) = True"
| "application_only (SetLayout _) = True"
| "application_only ToggleLineNumbers = True"
| "application_only ToggleHunkHeaders = True"
| "application_only ToggleAgentNotes = True"
| "application_only (MoveAnnotatedHunk _) = True"
| "application_only (SelectFile _) = True"
| "application_only _ = False"

definition selected_compacted_file_id :: "review_controller \<Rightarrow> string option" where
  "selected_compacted_file_id c =
     (case rc_selected_row_key c of
        None \<Rightarrow> None
      | Some k \<Rightarrow> if rk_kind k = KCompactedFile then Some (rk_file_id k) else None)"

definition toggle_file_viewed ::
  "externals \<Rightarrow> viewport \<Rightarrow> review_controller \<Rightarrow> (review_controller \<times> review_effect) option" where
  "toggle_file_viewed x v c =
     (case or_else (selected_compacted_file_id c) (rc_selected_file_id c) of
        None \<Rightarrow> Some (c, NoEffect)
      | Some file_id \<Rightarrow>
          (case file_by_id (rc_files c) file_id of
             None \<Rightarrow> Some (c, NoEffect)
           | Some f \<Rightarrow>
               if file_id \<in> rc_viewed_files c
               then do {
                 c \<leftarrow> rebuild_dirty x v
                        (c\<lparr>rc_viewed_files := rc_viewed_files c - {file_id},
                           rc_expanded_test_files := insert file_id (rc_expanded_test_files c)\<rparr>);
                 Some (c, FileViewedChanged (df_path f) False)
               }
               else do {
                 c \<leftarrow> rebuild_dirty x v
                        (c\<lparr>rc_viewed_files := insert file_id (rc_viewed_files c),
                           rc_progress := fst (mark_file_reviewed file_id (rc_progress c))\<rparr>);
                 c \<leftarrow> move_file x 1 v c;
                 Some (c, FileViewedChanged (df_path f) True)
               }))"

definition expand_compacted_file ::
  "externals \<Rightarrow> string \<Rightarrow> viewport \<Rightarrow> review_controller \<Rightarrow> (review_controller \<times> review_effect) option" where
  "expand_compacted_file x file_id v c =
     (case file_by_id (rc_files c) file_id of
        None \<Rightarrow> Some (c, RedrawEffect)
      | Some f \<Rightarrow>
          if \<not> is_file_compacted c f then Some (c, RedrawEffect)
          else do {
            let was_viewed = (file_id \<in> rc_viewed_files c);
            c \<leftarrow> rebuild_dirty x v
                   (c\<lparr>rc_viewed_files := rc_viewed_files c - {file_id},
                      rc_expanded_test_files := insert file_id (rc_expanded_test_files c)\<rparr>);
            Some (c, if was_viewed then FileViewedChanged (df_path f) False else RedrawEffect)
          })"

definition edit_effect :: "review_controller \<Rightarrow> review_effect" where
  "edit_effect c =
     (case Option.bind (rc_selected_file_id c) (file_by_id (rc_files c)) of
        None \<Rightarrow> NoEffect
      | Some f \<Rightarrow>
          EditFile (df_path f)
            (Option.bind (rc_selected_row_key c) (\<lambda>k. or_else (rk_new_line k) (rk_old_line k))))"

definition scroll_amount :: "scroll_unit \<Rightarrow> viewport \<Rightarrow> usize" where
  "scroll_amount unit v =
     (case unit of Step \<Rightarrow> 1 | HalfPage \<Rightarrow> max (vp_height v div 2) 1 | Page \<Rightarrow> max (vp_height v) 1)"

definition toggle_test_files :: "review_controller \<Rightarrow> review_controller" where
  "toggle_test_files c =
     (let compacted = (\<not> rc_test_files_compacted c);
          ids = map df_id (filter (\<lambda>f. rc_test_file_matcher c (df_path f)) (rc_files c))
      in c\<lparr>rc_test_files_compacted := compacted, rc_expanded_test_files := {},
           rc_progress :=
             (if compacted then fold (\<lambda>i p. fst (mark_file_reviewed i p)) ids (rc_progress c)
              else rc_progress c)\<rparr>)"

text \<open>\<open>with_effect e s\<close>: the state \<open>s\<close> and the effect \<open>e\<close>, unless the step panicked.\<close>

definition with_effect :: "review_effect \<Rightarrow> review_controller option \<Rightarrow> (review_controller \<times> review_effect) option" where
  "with_effect e s = map_option (\<lambda>c. (c, e)) s"

abbreviation redrawn :: "review_controller option \<Rightarrow> (review_controller \<times> review_effect) option" where
  "redrawn \<equiv> with_effect RedrawEffect"

definition select_note :: "string \<Rightarrow> viewport \<Rightarrow> review_controller \<Rightarrow> review_controller option" where
  "select_note note_id v c =
     (case Option.bind (rc_geometry c) (\<lambda>g. position (\<lambda>bound.
              case row_for_bound (rc_planned_files c) (rc_trailer_plan c) bound of
                Some (Note _ n) \<Rightarrow> nc_id n = note_id
              | _ \<Rightarrow> False) (rg_rows g)) of
        None \<Rightarrow> Some c
      | Some index \<Rightarrow> refresh_snapshot (ensure_cursor_visible v (set_cursor_index index c)))"

definition with_options :: "(review_options \<Rightarrow> review_options) \<Rightarrow> review_controller \<Rightarrow> review_controller" where
  "with_options g c = c\<lparr>rc_options := g (rc_options c)\<rparr>"

fun perform_action ::
  "externals \<Rightarrow> viewport \<Rightarrow> review_action \<Rightarrow> review_controller \<Rightarrow> (review_controller \<times> review_effect) option" where
  "perform_action x v (Scroll delta unit) c =
     redrawn (refresh_snapshot (select_from_viewport v
       (c\<lparr>rc_scroll_top := min (signed_offset (rc_scroll_top c) delta (scroll_amount unit v)) (ctl_max_scroll_top c)\<rparr>)))"
| "perform_action x v (ScrollHorizontal delta) c =
     redrawn (refresh_snapshot
       (c\<lparr>rc_horizontal_offset := min (signed_offset (rc_horizontal_offset c) delta 1) (max_horizontal_offset x c v)\<rparr>))"
| "perform_action x v (MoveCursor delta) c = redrawn (move_cursor delta v c)"
| "perform_action x v (FocusSide side) c =
     redrawn (refresh_snapshot (snap_focused_side (c\<lparr>rc_focused_side := side\<rparr>)))"
| "perform_action x v JumpTop c =
     redrawn (refresh_snapshot
       (case selectable_indices c of
          [] \<Rightarrow> c
        | index # _ \<Rightarrow> (set_cursor_index index c)\<lparr>rc_scroll_top := 0\<rparr>))"
| "perform_action x v JumpBottom c =
     redrawn (refresh_snapshot
       (case rev (selectable_indices c) of
          [] \<Rightarrow> c
        | index # _ \<Rightarrow> (set_cursor_index index c)\<lparr>rc_scroll_top := ctl_max_scroll_top c\<rparr>))"
| "perform_action x v (MoveHunk delta) c = redrawn (move_hunk x delta v c)"
| "perform_action x v (MoveFile delta) c = redrawn (move_file x delta v c)"
| "perform_action x v (MoveAnnotatedHunk delta) c = redrawn (move_annotated_hunk delta v c)"
| "perform_action x v (SelectFile file_id) c =
     do {
       files \<leftarrow> visible_files c;
       if list_ex (\<lambda>f. df_id f = file_id) files then redrawn (select_target x file_id 0 v c)
       else Some (c, RedrawEffect)
     }"
| "perform_action x v (SelectNote note_id) c = redrawn (select_note note_id v c)"
| "perform_action x v (SetFilter needle) c = redrawn (rebuild_dirty x v (c\<lparr>rc_filter := needle\<rparr>))"
| "perform_action x v (SetLayout layout) c =
     redrawn (rebuild_dirty x v (with_options (\<lambda>opts. opts\<lparr>ro_layout := layout\<rparr>) c))"
| "perform_action x v ToggleSidebar c =
     redrawn (rebuild_dirty x v (c\<lparr>rc_sidebar_override := Some (\<not> rc_actual_sidebar c)\<rparr>))"
| "perform_action x v ToggleLineNumbers c =
     redrawn (rebuild_dirty x v (with_options (\<lambda>opts. opts\<lparr>ro_line_numbers := \<not> ro_line_numbers opts\<rparr>) c))"
| "perform_action x v ToggleWrap c =
     (let c = with_options (\<lambda>opts. opts\<lparr>ro_wrap_lines := \<not> ro_wrap_lines opts\<rparr>) c
      in redrawn (rebuild_dirty x v
           (if ro_wrap_lines (rc_options c) then c\<lparr>rc_horizontal_offset := 0\<rparr> else c)))"
| "perform_action x v ToggleHunkHeaders c =
     redrawn (rebuild_dirty x v (with_options (\<lambda>opts. opts\<lparr>ro_hunk_headers := \<not> ro_hunk_headers opts\<rparr>) c))"
| "perform_action x v ToggleAgentNotes c =
     redrawn (rebuild_dirty x v (with_options (\<lambda>opts. opts\<lparr>ro_agent_notes := \<not> ro_agent_notes opts\<rparr>) c))"
| "perform_action x v ToggleTestFiles c = redrawn (rebuild_dirty x v (toggle_test_files c))"
| "perform_action x v ToggleFileViewed c = toggle_file_viewed x v c"
| "perform_action x v ExpandSelectedFile c =
     (case selected_compacted_file_id c of
        Some file_id \<Rightarrow> expand_compacted_file x file_id v c
      | None \<Rightarrow> Some (c, RedrawEffect))"
| "perform_action x v (ExpandCompactedFile file_id) c = expand_compacted_file x file_id v c"
| "perform_action x v FocusFilter c = Some (c, FocusFilterEffect)"
| "perform_action x v OpenHelp c = Some (c, OpenHelpEffect)"
| "perform_action x v OpenThemeSelector c = Some (c, OpenThemeSelectorEffect)"
| "perform_action x v StartNote c = Some (c, StartNoteEffect)"
| "perform_action x v StartAsk c = Some (c, StartAskEffect)"
| "perform_action x v EditSelectedFile c = Some (c, edit_effect c)"
| "perform_action x v Reload c = Some (c, ReloadEffect)"
| "perform_action x v Quit c = Some (c, QuitEffect)"

definition review_apply ::
  "externals \<Rightarrow> review_action \<Rightarrow> viewport \<Rightarrow> review_controller \<Rightarrow> (review_controller \<times> review_effect) option" where
  "review_apply x action v c =
     do {
       c \<leftarrow> ensure_geometry x v c;
       if ro_pager_mode (rc_options c) \<and> application_only action then Some (c, NoEffect)
       else perform_action x v action c
     }"

section \<open>Creation, new files, threads and the sidebar\<close>

text \<open>The matcher of test files is built by \<open>TestFileMatcher::new\<close>; \<open>new\<close> panics when that fails.\<close>

definition BUILTIN_PATTERNS :: "string list" where
  "BUILTIN_PATTERNS =
     [''test/**'', ''tests/**'', ''__tests__/**'', ''spec/**'', ''**/test/**'', ''**/tests/**'',
      ''**/__tests__/**'', ''**/spec/**'', ''test_*'', ''**/test_*'', ''*_test.*'', ''**/*_test.*'',
      ''*.test.*'', ''**/*.test.*'', ''*.spec.*'', ''**/*.spec.*'']"

text \<open>\<open>globs patterns\<close> is what \<open>GlobSetBuilder\<close> makes of the patterns, if every one of them compiles.\<close>

definition test_file_matcher_new ::
  "(string list \<Rightarrow> (string \<Rightarrow> bool) option) \<Rightarrow> string list \<Rightarrow> (string \<Rightarrow> bool) option" where
  "test_file_matcher_new globs extra_patterns = globs (BUILTIN_PATTERNS @ extra_patterns)"

definition review_controller_new ::
  "(string list \<Rightarrow> (string \<Rightarrow> bool) option) \<Rightarrow> diff_file list \<Rightarrow> review_options \<Rightarrow> review_controller option" where
  "review_controller_new globs files opts =
     do {
       is_test \<leftarrow> test_file_matcher_new globs (ro_test_file_patterns opts);
       let files = (if ro_tests_last opts then order_tests_last is_test files else files);
       Some \<lparr>rc_files = files, rc_options = opts, rc_filter = [], rc_visible_indices = [],
             rc_selected_file_id = (case files of [] \<Rightarrow> None | f # _ \<Rightarrow> Some (df_id f)),
             rc_selected_hunk_index = Some 0, rc_selected_row_key = None, rc_focused_side = ReviewLeft,
             rc_scroll_top = 0, rc_horizontal_offset = 0, rc_sidebar_override = None,
             rc_sidebar_width = DEFAULT_SIDEBAR_WIDTH, rc_geometry = None, rc_planned_files = [],
             rc_trailer_plan = None, rc_github_threads = thread_placement_default,
             rc_github_thread_source = [], rc_effective_layout = StackLayout, rc_actual_sidebar = False,
             rc_last_viewport = None, rc_dirty = True, rc_snapshot = empty_snapshot,
             rc_contexts = Map.empty, rc_human_notes = [], rc_live_notes = [], rc_human_note_draft = None,
             rc_next_human_note_id = 1, rc_test_file_matcher = is_test, rc_test_files_compacted = False,
             rc_expanded_test_files = {}, rc_viewed_files = {}, rc_ask_notes = [], rc_ask_draft = None,
             rc_next_ask_id = 1, rc_progress = progress_new files\<rparr>
     }"

definition attach_github_threads ::
  "externals \<Rightarrow> github_review_thread list \<Rightarrow> viewport \<Rightarrow> review_controller \<Rightarrow> review_controller option" where
  "attach_github_threads x threads v c =
     rebuild_dirty x v
       (c\<lparr>rc_github_thread_source := threads, rc_github_threads := place_github_threads (rc_files c) threads\<rparr>)"

definition toggle_agent_notes :: "externals \<Rightarrow> bool \<Rightarrow> viewport \<Rightarrow> review_controller \<Rightarrow> review_controller option" where
  "toggle_agent_notes x show_notes v c =
     (if ro_agent_notes (rc_options c) \<noteq> show_notes
      then rebuild_dirty x v (with_options (\<lambda>opts. opts\<lparr>ro_agent_notes := show_notes\<rparr>) c)
      else Some c)"

definition keeps_draft :: "diff_file list \<Rightarrow> ('d \<Rightarrow> note_target) \<Rightarrow> 'd option \<Rightarrow> 'd option" where
  "keeps_draft files target draft =
     (case draft of None \<Rightarrow> None | Some d \<Rightarrow> if has_file files (nt_file_id (target d)) then Some d else None)"

definition drop_missing :: "diff_file list \<Rightarrow> review_controller \<Rightarrow> review_controller" where
  "drop_missing files c =
     c\<lparr>rc_human_notes := filter (\<lambda>n. has_file files (nt_file_id (hn_target n))) (rc_human_notes c),
       rc_live_notes := filter (\<lambda>n. has_file files (nt_file_id (ln_target n))) (rc_live_notes c),
       rc_human_note_draft := keeps_draft files hd_target (rc_human_note_draft c),
       rc_contexts := Map.empty,
       rc_expanded_test_files := Set.filter (has_file files) (rc_expanded_test_files c),
       rc_viewed_files := Set.filter (has_file files) (rc_viewed_files c),
       rc_ask_notes := filter (\<lambda>n. has_file files (nt_file_id (an_target n))) (rc_ask_notes c),
       rc_ask_draft := keeps_draft files ad_target (rc_ask_draft c)\<rparr>"

definition replace_review_files ::
  "externals \<Rightarrow> diff_file list \<Rightarrow> viewport \<Rightarrow> review_controller \<Rightarrow> review_controller option" where
  "replace_review_files x files v c =
     do {
       c \<leftarrow> ensure_geometry x v c;
       let anchor = captured_anchor c;
       let files = (if ro_tests_last (rc_options c) then order_tests_last (rc_test_file_matcher c) files else files);
       let selected = (case rc_selected_file_id c of
                         None \<Rightarrow> None | Some i \<Rightarrow> if has_file files i then Some i else None);
       let hunk = map_option (\<lambda>i.
             min (case rc_selected_hunk_index c of None \<Rightarrow> 0 | Some h \<Rightarrow> h)
               ((case file_by_id files i of None \<Rightarrow> 0 | Some f \<Rightarrow> length (df_hunks f)) - 1)) selected;
       let c = drop_missing files
             (c\<lparr>rc_files := files,
                rc_github_threads := place_github_threads files (rc_github_thread_source c),
                rc_progress := replace_files files (rc_progress c)\<rparr>);
       c \<leftarrow> rebuild x v False
              (c\<lparr>rc_geometry := None, rc_planned_files := [], rc_selected_file_id := selected,
                 rc_selected_hunk_index := hunk, rc_dirty := True\<rparr>);
       (case (rc_geometry c, anchor) of
          (Some g, Some a) \<Rightarrow> refresh_snapshot (c\<lparr>rc_scroll_top := restore_viewport_anchor g a\<rparr>)
        | _ \<Rightarrow> Some c)
     }"

definition resize_sidebar :: "externals \<Rightarrow> u16 \<Rightarrow> viewport \<Rightarrow> review_controller \<Rightarrow> review_controller option" where
  "resize_sidebar x width v c =
     (let maximum = max (vp_width v - (MIN_CONTENT_WIDTH + SIDEBAR_DIVIDER_WIDTH)) MIN_SIDEBAR_WIDTH;
          width = clamp width MIN_SIDEBAR_WIDTH maximum
      in if rc_sidebar_width c \<noteq> width then rebuild_dirty x v (c\<lparr>rc_sidebar_width := width\<rparr>) else Some c)"

definition scroll_to_mouse_row :: "externals \<Rightarrow> u16 \<Rightarrow> viewport \<Rightarrow> review_controller \<Rightarrow> review_controller option" where
  "scroll_to_mouse_row x row v c =
     do {
       c \<leftarrow> ensure_geometry x v c;
       let denominator = max (vp_height v - 1) 1;
       let top_row = sat_mul usize_max (ctl_max_scroll_top c) (min row (vp_height v - 1)) div denominator;
       refresh_snapshot (select_from_viewport v (c\<lparr>rc_scroll_top := top_row\<rparr>))
     }"

definition view_preferences :: "review_controller \<Rightarrow> review_view_preferences" where
  "view_preferences c =
     \<lparr>vf_layout = ro_layout (rc_options c),
      vf_show_sidebar = (case rc_sidebar_override c of None \<Rightarrow> ro_show_sidebar (rc_options c) | Some b \<Rightarrow> b),
      vf_line_numbers = ro_line_numbers (rc_options c), vf_wrap_lines = ro_wrap_lines (rc_options c),
      vf_hunk_headers = ro_hunk_headers (rc_options c), vf_agent_notes = ro_agent_notes (rc_options c)\<rparr>"

section \<open>The snapshot and what has been seen\<close>

text \<open>The changed lines of one laid-out row; a row of a missing file or plan panics.\<close>

definition bound_keys :: "review_controller \<Rightarrow> row_bounds \<Rightarrow> changed_line_key list option" where
  "bound_keys c bound =
     (case rb_owner bound of
        OwnedByTrailer \<Rightarrow> Some []
      | OwnedByFile file_index \<Rightarrow>
          do {
            p \<leftarrow> get (rc_planned_files c) file_index;
            row \<leftarrow> get (rp_rows (pl_plan p)) (rb_row_index bound);
            Some (row_keys (pl_file_id p) row)
          })"

definition observe_viewport_progress :: "viewport \<Rightarrow> review_controller \<Rightarrow> review_controller option" where
  "observe_viewport_progress v c =
     do {
       let bottom = sat_add usize_max (rc_scroll_top c) (vp_height v);
       let bounds = (case rc_geometry c of
                       None \<Rightarrow> [] | Some g \<Rightarrow> takeWhile (\<lambda>bound. rb_top bound < bottom) (rg_rows g));
       keys \<leftarrow> those (map (bound_keys c) bounds);
       let (progress, changed) = observe_through (concat keys) (rc_progress c);
       let c = c\<lparr>rc_progress := progress\<rparr>;
       if changed then refresh_snapshot c else Some c
     }"

definition take_snapshot :: "externals \<Rightarrow> viewport \<Rightarrow> review_controller \<Rightarrow> (review_controller \<times> review_snapshot) option" where
  "take_snapshot x v c =
     do {
       c \<leftarrow> ensure_geometry x v c;
       c \<leftarrow> observe_viewport_progress v c;
       Some (c, rc_snapshot c)
     }"

end
