(* ===== verification/Review_Hits.thy ===== *)
theory Review_Hits
  imports Review_Actions
begin

text \<open>
  What the mouse and a selection reach in the review (\<open>hit_test\<close>, \<open>selection_text\<close>,
  \<open>selected_line_range\<close>) and opening collapsed context (\<open>toggle_context\<close>), of \<open>review/state.rs\<close>.
\<close>

section \<open>What the mouse hits\<close>

definition plan_for_bound :: "review_controller \<Rightarrow> row_bounds \<Rightarrow> row_plan option" where
  "plan_for_bound c bound =
     (case rb_owner bound of
        OwnedByFile file_index \<Rightarrow> map_option pl_plan (get (rc_planned_files c) file_index)
      | OwnedByTrailer \<Rightarrow> rc_trailer_plan c)"

definition checked_sub :: "nat \<Rightarrow> nat \<Rightarrow> nat option" where
  "checked_sub a b = (if b \<le> a then Some (a - b) else None)"

text \<open>The cell of the text under a column of the screen, from the start and the width of the text.\<close>

definition text_hit :: "review_controller \<Rightarrow> usize \<Rightarrow> usize \<Rightarrow> usize \<Rightarrow> usize \<Rightarrow> usize \<Rightarrow> review_hit option" where
  "text_hit c row_index relative_x line_in_row text_cell code_width =
     do {
       local \<leftarrow> checked_sub relative_x text_cell;
       if code_width \<le> local then None
       else
         let offset = (if ro_wrap_lines (rc_options c) then sat_mul usize_max line_in_row code_width
                       else rc_horizontal_offset c)
         in Some (HitDiff (selection_point_new row_index
              (sat_add usize_max (sat_add usize_max text_cell offset) local)))
     }"

definition row_hit ::
  "review_controller \<Rightarrow> viewport \<Rightarrow> usize \<Rightarrow> row_bounds \<Rightarrow> usize \<Rightarrow> usize \<Rightarrow> row_plan \<Rightarrow> review_row \<Rightarrow> review_hit option" where
  "row_hit c v row_index bound relative_x absolute_y plan row =
     (let line_in_row = absolute_y - rb_top bound
      in case row of
           Collapsed _ gap _ \<Rightarrow> Some (HitCollapsed (cg_key gap))
         | Note _ note \<Rightarrow> Some (HitNote (nc_id note))
         | CompactedFile k \<Rightarrow> Some (HitCompactedFile (rk_file_id k))
         | Stack _ _ \<Rightarrow>
             let columns = stack_columns_of (content_width c v) (rp_line_number_digits plan)
                   (ro_line_numbers (rc_options c))
             in text_hit c row_index relative_x line_in_row (sc_text_cell columns) (sc_code_width columns)
         | Split _ _ _ \<Rightarrow>
             let columns = split_columns_of (content_width c v) (rp_line_number_digits plan)
                   (ro_line_numbers (rc_options c))
             in if relative_x < sl_divider_cell columns
                then text_hit c row_index relative_x line_in_row (sl_left_text_cell columns) (sl_left_code_width columns)
                else if sl_divider_cell columns < relative_x
                then text_hit c row_index relative_x line_in_row (sl_right_text_cell columns) (sl_right_code_width columns)
                else None
         | _ \<Rightarrow> None)"

definition body_hit :: "review_controller \<Rightarrow> viewport \<Rightarrow> usize \<Rightarrow> usize \<Rightarrow> review_hit option" where
  "body_hit c v relative_x absolute_y =
     do {
       g \<leftarrow> rc_geometry c;
       let row_index = partition_point (\<lambda>r. sat_add usize_max (rb_top r) (rb_height r) \<le> absolute_y) (rg_rows g);
       bound \<leftarrow> get (rg_rows g) row_index;
       if absolute_y < rb_top bound \<or> sat_add usize_max (rb_top bound) (rb_height bound) \<le> absolute_y then None
       else do {
         plan \<leftarrow> plan_for_bound c bound;
         row \<leftarrow> get (rp_rows plan) (rb_row_index bound);
         row_hit c v row_index bound relative_x absolute_y plan row
       }
     }"

definition hit_at :: "review_controller \<Rightarrow> review_point \<Rightarrow> viewport \<Rightarrow> review_hit option" where
  "hit_at c point v =
     (if vp_width v \<le> px_x point \<or> vp_height v \<le> px_y point then None
      else if px_x point = vp_width v - 1 \<and> vp_height v < rs_total_height (rc_snapshot c) then Some HitScrollbar
      else if rc_actual_sidebar c \<and> px_x point < rc_sidebar_width c
      then (case get (rs_sidebar_entries (rc_snapshot c)) (px_y point) of
              Some (SidebarFile entry) \<Rightarrow> Some (HitSidebarFile (sf_id entry))
            | _ \<Rightarrow> None)
      else if rc_actual_sidebar c \<and> px_x point = rc_sidebar_width c then Some HitSidebarDivider
      else
        let content_x = (if rc_actual_sidebar c then sat_add u16_max (rc_sidebar_width c) SIDEBAR_DIVIDER_WIDTH else 0)
        in body_hit c v (px_x point - content_x) (sat_add usize_max (rc_scroll_top c) (px_y point)))"

definition hit_test ::
  "externals \<Rightarrow> review_point \<Rightarrow> viewport \<Rightarrow> review_controller \<Rightarrow> (review_controller \<times> review_hit option) option" where
  "hit_test x point v c =
     do {
       c \<leftarrow> ensure_geometry x v c;
       Some (c, hit_at c point v)
     }"

section \<open>What a selection copies\<close>

text \<open>\<open>{:>digits$}\<close>: at least \<open>n\<close> characters wide, padded on the left.\<close>

definition pad_left :: "usize \<Rightarrow> string \<Rightarrow> string" where
  "pad_left n s = replicate (n - char_count s) CHR '' '' @ s"

definition number_text :: "u32 option \<Rightarrow> string" where
  "number_text n = (case n of None \<Rightarrow> [] | Some n \<Rightarrow> nat_str n)"

definition copy_gutter :: "review_cell \<Rightarrow> usize \<Rightarrow> bool \<Rightarrow> bool \<Rightarrow> string" where
  "copy_gutter cell digits show_numbers stack =
     (if \<not> show_numbers then ce_sign cell @ '' ''
      else if stack
      then pad_left digits (number_text (ce_old_line cell)) @ '' ''
           @ pad_left digits (number_text (ce_new_line cell)) @ '' '' @ ce_sign cell @ '' ''
      else pad_left digits (number_text (or_else (ce_old_line cell) (ce_new_line cell))) @ '' '' @ ce_sign cell @ '' '')"

definition copied_row :: "review_controller \<Rightarrow> viewport \<Rightarrow> row_plan \<Rightarrow> review_row \<Rightarrow> selection_row" where
  "copied_row c v plan row =
     (let numbers = ro_line_numbers (rc_options c);
          decorated = ro_copy_decorations (rc_options c);
          digits = rp_line_number_digits plan
      in case row of
           CompactedFile _ \<Rightarrow> sel_stack []
         | Stack _ cell \<Rightarrow>
             if decorated then SelStack (copy_gutter cell digits numbers True @ cell_text cell) 1
             else SelStack (cell_text cell) (sc_text_cell (stack_columns_of (content_width c v) digits numbers))
         | Split _ l r \<Rightarrow>
             let columns = split_columns_of (content_width c v) digits numbers
             in if decorated
                then SelSplit (copy_gutter l digits numbers False @ cell_text l)
                       (copy_gutter r digits numbers False @ cell_text r) (sl_divider_cell columns) 1
                       (sat_add usize_max (sl_divider_cell columns) 1)
                else SelSplit (cell_text l) (cell_text r) (sl_divider_cell columns)
                       (sl_left_text_cell columns) (sl_right_text_cell columns)
         | HunkHeader _ label \<Rightarrow> sel_stack label
         | Placeholder _ _ label \<Rightarrow> sel_stack label
         | Collapsed _ _ label \<Rightarrow> sel_stack label
         | Note _ note \<Rightarrow> sel_stack (join [NL] (nc_lines note)))"

text \<open>A row without a plan is left out; a plan without the row panics.\<close>

definition selection_row_of :: "review_controller \<Rightarrow> viewport \<Rightarrow> row_bounds \<Rightarrow> selection_row list option" where
  "selection_row_of c v bound =
     (case plan_for_bound c bound of
        None \<Rightarrow> Some []
      | Some plan \<Rightarrow> map_option (\<lambda>row. [copied_row c v plan row]) (get (rp_rows plan) (rb_row_index bound)))"

definition selection_rows :: "review_controller \<Rightarrow> viewport \<Rightarrow> selection_row list option" where
  "selection_rows c v =
     map_option concat (those (map (selection_row_of c v)
       (case rc_geometry c of None \<Rightarrow> [] | Some g \<Rightarrow> rg_rows g)))"

definition selection_text ::
  "externals \<Rightarrow> selection_point \<Rightarrow> selection_point \<Rightarrow> viewport \<Rightarrow> review_controller
     \<Rightarrow> (review_controller \<times> string) option" where
  "selection_text x anchor focus v c =
     do {
       c \<leftarrow> ensure_geometry x v c;
       rows \<leftarrow> selection_rows c v;
       Some (c, project_selection (ex_char_width x) (ex_width x) rows anchor focus)
     }"

text \<open>The cells of one line, if the row shows a line.\<close>

definition line_cells :: "externals \<Rightarrow> review_controller \<Rightarrow> viewport \<Rightarrow> row_plan \<Rightarrow> review_row \<Rightarrow> (usize \<times> usize) option" where
  "line_cells x c v plan row =
     (let numbers = ro_line_numbers (rc_options c);
          decorated = ro_copy_decorations (rc_options c)
      in case row of
           Stack _ cell \<Rightarrow>
             let columns = stack_columns_of (content_width c v) (rp_line_number_digits plan) numbers;
                 (start, width) =
                   (if decorated then (1, sat_add usize_max (sc_gutter columns) (ex_width x (cell_text cell)))
                    else (sc_text_cell columns, ex_width x (cell_text cell)))
             in Some (start, sat_add usize_max start width)
         | Split _ l r \<Rightarrow>
             let columns = split_columns_of (content_width c v) (rp_line_number_digits plan) numbers;
                 (text_cell, content) =
                   (if cell_text r = []
                    then (if decorated then 1 else sl_left_text_cell columns, cell_text l)
                    else (if decorated then sat_add usize_max (sl_divider_cell columns) 1
                          else sl_right_text_cell columns, cell_text r));
                 width = sat_add usize_max (ex_width x content) (if decorated then sl_gutter columns else 0)
             in Some (text_cell, sat_add usize_max text_cell width)
         | _ \<Rightarrow> None)"

text \<open>\<open>find_map\<close> over the rows from the selected one on; \<open>None\<close> is a panic.\<close>

fun first_line_at ::
  "externals \<Rightarrow> review_controller \<Rightarrow> viewport \<Rightarrow> review_row_key \<Rightarrow> usize \<Rightarrow> row_bounds list
     \<Rightarrow> (selection_point \<times> selection_point) option option" where
  "first_line_at x c v selected row_index [] = Some None"
| "first_line_at x c v selected row_index (bound # bounds) =
     (if rk_file_id (rb_key bound) \<noteq> rk_file_id selected \<or> rb_hunk_index bound \<noteq> rk_hunk_index selected
      then first_line_at x c v selected (Suc row_index) bounds
      else
        (case rb_owner bound of
           OwnedByTrailer \<Rightarrow> first_line_at x c v selected (Suc row_index) bounds
         | OwnedByFile file_index \<Rightarrow>
             do {
               p \<leftarrow> get (rc_planned_files c) file_index;
               row \<leftarrow> get (rp_rows (pl_plan p)) (rb_row_index bound);
               (case line_cells x c v (pl_plan p) row of
                  Some (start, stop) \<Rightarrow>
                    Some (Some (selection_point_new row_index start, selection_point_new row_index stop))
                | None \<Rightarrow> first_line_at x c v selected (Suc row_index) bounds)
             }))"

definition selected_row_index :: "review_controller \<Rightarrow> usize option" where
  "selected_row_index c =
     do {
       g \<leftarrow> rc_geometry c;
       selected \<leftarrow> rc_selected_row_key c;
       position (\<lambda>bound. rb_key bound = selected) (rg_rows g)
     }"

definition selected_line_range ::
  "externals \<Rightarrow> viewport \<Rightarrow> review_controller
     \<Rightarrow> (review_controller \<times> (selection_point \<times> selection_point) option) option" where
  "selected_line_range x v c =
     do {
       c \<leftarrow> ensure_geometry x v c;
       (case (rc_geometry c, rc_selected_row_key c, selected_row_index c) of
          (Some g, Some selected, Some index) \<Rightarrow>
            map_option (\<lambda>range. (c, range)) (first_line_at x c v selected index (drop index (rg_rows g)))
        | _ \<Rightarrow> Some (c, None))
     }"

section \<open>Collapsed context\<close>

text \<open>
  The state of a file's context, \<open>self.contexts.entry(..).or_default()\<close>. The loader is an object
  of the caller that is asked at most once: a function from the source to what it finds.
\<close>

definition context_of :: "review_controller \<Rightarrow> string \<Rightarrow> file_context_state" where
  "context_of c file_id =
     (case rc_contexts c file_id of None \<Rightarrow> \<lparr>fc_expanded = [], fc_source = None\<rparr> | Some st \<Rightarrow> st)"

definition load_source :: "(source_spec \<Rightarrow> source_failure + string option) \<Rightarrow> diff_file \<Rightarrow> source_failure + loaded_context_source" where
  "load_source load f =
     (let (side, spec) = source_for_context f
      in if spec = SourceNone then Inl SourceUnavailable
         else (case load spec of
                 Inl e \<Rightarrow> Inl e
               | Inr None \<Rightarrow> Inl SourceMissing
               | Inr (Some contents) \<Rightarrow> Inr \<lparr>ls_side = side, ls_text = contents\<rparr>))"

definition source_error :: "file_context_state \<Rightarrow> source_failure option" where
  "source_error st = (case fc_source st of Some (Inl e) \<Rightarrow> Some e | _ \<Rightarrow> None)"

definition result_of :: "bool \<Rightarrow> source_failure option \<Rightarrow> source_failure + bool" where
  "result_of b failure = (case failure of None \<Rightarrow> Inr b | Some e \<Rightarrow> Inl e)"

definition toggle_file_context ::
  "externals \<Rightarrow> gap_key option \<Rightarrow> (source_spec \<Rightarrow> source_failure + string option) \<Rightarrow> diff_file \<Rightarrow> viewport
     \<Rightarrow> review_controller \<Rightarrow> (review_controller \<times> (source_failure + bool)) option" where
  "toggle_file_context x requested load f v c =
     (let file_id = df_id f;
          selected_hunk =
            (case requested of
               Some gap \<Rightarrow> gk_hunk_index gap
             | None \<Rightarrow> (case rc_selected_hunk_index c of None \<Rightarrow> 0 | Some h \<Rightarrow> h));
          initial_gaps =
            (case rc_contexts c file_id of None \<Rightarrow> derive_collapsed_gaps f None | Some st \<Rightarrow> context_gaps st f);
          target =
            or_else (Option.bind requested (\<lambda>k. if list_ex (\<lambda>gap. cg_key gap = k) initial_gaps then Some k else None))
              (select_gap_for_toggle initial_gaps selected_hunk);
          context = context_of c file_id
      in if (case target of None \<Rightarrow> False | Some k \<Rightarrow> k \<in> set (fc_expanded context))
         then do {
           c \<leftarrow> rebuild_dirty x v (c\<lparr>rc_contexts := (rc_contexts c)(file_id \<mapsto>
                  context\<lparr>fc_expanded := filter (\<lambda>k. Some k \<noteq> target) (fc_expanded context)\<rparr>)\<rparr>);
           Some (c, Inr False)
         }
         else
           let context = (if fc_source context = None then context\<lparr>fc_source := Some (load_source load f)\<rparr> else context);
               target = or_else target (select_gap_for_toggle (context_gaps context f) selected_hunk)
           in (case target of
                 None \<Rightarrow>
                   Some (c\<lparr>rc_contexts := (rc_contexts c)(file_id \<mapsto> context)\<rparr>, result_of False (source_error context))
               | Some k \<Rightarrow>
                   do {
                     c \<leftarrow> rebuild_dirty x v (c\<lparr>rc_contexts := (rc_contexts c)(file_id \<mapsto>
                            context\<lparr>fc_expanded := List.insert k (fc_expanded context)\<rparr>)\<rparr>);
                     Some (c, result_of True (source_error context))
                   }))"

definition toggle_context_target ::
  "externals \<Rightarrow> gap_key option \<Rightarrow> (source_spec \<Rightarrow> source_failure + string option) \<Rightarrow> viewport
     \<Rightarrow> review_controller \<Rightarrow> (review_controller \<times> (source_failure + bool)) option" where
  "toggle_context_target x requested load v c =
     do {
       c \<leftarrow> ensure_geometry x v c;
       (case Option.bind (or_else (map_option gk_file_id requested) (rc_selected_file_id c)) (file_by_id (rc_files c)) of
          None \<Rightarrow> Some (c, Inl SourceUnavailable)
        | Some f \<Rightarrow> toggle_file_context x requested load f v c)
     }"

end
