(* ===== verification/Review_Notes.thy ===== *)
theory Review_Notes
  imports Review_Hits
begin

text \<open>
  Notes and questions in the review: the notes a session adds and removes, the reviewer's own
  notes and their draft, the questions to the assistant, and the annotations that are exported
  (\<open>review/state.rs\<close>, \<open>annotations/\<close>). Every operation that changes a note rebuilds the layout.

  The value \<open>None\<close> of the outer option is a panic; an operation that answers pairs its answer
  with the new state.
\<close>

section \<open>Annotations\<close>

record annotation =
  at_file :: string
  at_flat_start :: usize
  at_flat_end :: usize
  at_display_range :: string
  at_diff_context :: string
  at_comment :: string

definition format_markdown :: "annotation list \<Rightarrow> string" where
  "format_markdown annotations =
     (if annotations = [] then ''## Review Comments'' @ [NL, NL] @ ''No comments.'' @ [NL]
      else ''## Review Comments'' @ [NL, NL]
        @ concat (map (\<lambda>a. ''### '' @ at_file a @ '':'' @ at_display_range a @ [NL]
             @ concat (map (\<lambda>l. ''> '' @ l @ [NL]) (lines (at_diff_context a)))
             @ [NL] @ at_comment a @ [NL, NL]) annotations))"

definition format_note_range :: "char \<Rightarrow> line_range \<Rightarrow> string" where
  "format_note_range pfx r =
     (if lr_start r = lr_end r then pfx # nat_str (lr_start r)
      else pfx # nat_str (lr_start r) @ [CHR 0xE2, CHR 0x80, CHR 0x93] @ pfx # nat_str (lr_end r))"

definition target_display_range :: "note_target \<Rightarrow> string" where
  "target_display_range t =
     (let ranges = map (format_note_range (CHR ''L'')) (option_list (nt_old_range t))
            @ map (format_note_range (CHR ''R'')) (option_list (nt_new_range t))
      in if ranges = [] then ''file'' else join [CHR '' '', CHR 0xE2, CHR 0x86, CHR 0x92, CHR '' ''] ranges)"

definition MAX_CONTEXT_LINES :: usize where "MAX_CONTEXT_LINES = 40"
definition MAX_CONTEXT_BYTES :: usize where "MAX_CONTEXT_BYTES = 16384"

definition line_in_target :: "note_target \<Rightarrow> diff_line \<Rightarrow> bool" where
  "line_in_target t l \<longleftrightarrow>
     line_within (nt_old_range t) (dl_old_lineno l) \<or> line_within (nt_new_range t) (dl_new_lineno l)"

text \<open>The loop that stops at the first line that no longer fits.\<close>

fun push_context :: "string \<Rightarrow> diff_line list \<Rightarrow> string" where
  "push_context output [] = output"
| "push_context output (l # ls) =
     (let rendered = line_type_prefix (dl_kind l) @ dl_content l
      in if MAX_CONTEXT_BYTES < sat_add usize_max (sat_add usize_max (length output) (length rendered)) 1 then output
         else push_context (output @ (if output = [] then [] else [NL]) @ rendered) ls)"

definition target_diff_context :: "diff_file \<Rightarrow> note_target \<Rightarrow> string" where
  "target_diff_context f t =
     push_context []
       (take MAX_CONTEXT_LINES (filter (line_in_target t) (concat (map hunk_lines (df_hunks f)))))"

definition annotation_of :: "diff_file list \<Rightarrow> note_target \<Rightarrow> string \<Rightarrow> annotation option" where
  "annotation_of files t body =
     map_option (\<lambda>f. \<lparr>at_file = df_path f, at_flat_start = 0, at_flat_end = 0,
         at_display_range = target_display_range t, at_diff_context = target_diff_context f t,
         at_comment = body\<rparr>)
       (file_by_id files (nt_file_id t))"

definition export_annotations :: "review_controller \<Rightarrow> annotation list" where
  "export_annotations c =
     List.map_filter (\<lambda>n. annotation_of (rc_files c) (hn_target n) (hn_body n)) (rc_human_notes c)"

definition human_note_draft_annotation :: "review_controller \<Rightarrow> annotation option" where
  "human_note_draft_annotation c =
     Option.bind (rc_human_note_draft c) (\<lambda>d. annotation_of (rc_files c) (hd_target d) (hd_body d))"

section \<open>Notes of a session\<close>

text \<open>The state after a change that makes the layout stale, and the answer.\<close>

definition rebuilt ::
  "externals \<Rightarrow> viewport \<Rightarrow> 'r \<Rightarrow> review_controller \<Rightarrow> (review_controller \<times> 'r) option" where
  "rebuilt x v answer c = map_option (\<lambda>c. (c, answer)) (rebuild_dirty x v c)"

definition MAX_FIELD_BYTES :: usize where "MAX_FIELD_BYTES = 65536"

definition too_long :: "string option \<Rightarrow> bool" where
  "too_long field = (case field of None \<Rightarrow> False | Some s \<Rightarrow> MAX_FIELD_BYTES < length s)"

definition side_label :: "note_anchor_side \<Rightarrow> string" where
  "side_label side = (case side of OldSide \<Rightarrow> ''old'' | NewSide \<Rightarrow> ''new'')"

definition hunk_has_line :: "note_anchor_side \<Rightarrow> u32 \<Rightarrow> hunk \<Rightarrow> bool" where
  "hunk_has_line side line h = list_ex (\<lambda>l. side_lineno side l = Some line) (hunk_lines h)"

definition live_note_target :: "diff_file list \<Rightarrow> live_note_input \<Rightarrow> string + note_target" where
  "live_note_target files input =
     (case List.find (file_named (li_file_path input)) files of
        None \<Rightarrow> Inl (''file '' @ li_file_path input @ '' is not part of this review'')
      | Some f \<Rightarrow>
          (case List.find (\<lambda>(i, h). (case li_hunk_index input of None \<Rightarrow> True | Some requested \<Rightarrow> requested = i)
                  \<and> hunk_has_line (li_side input) (li_line input) h) (numbered (df_hunks f)) of
             None \<Rightarrow>
               Inl (''line '' @ nat_str (li_line input) @ '' ('' @ side_label (li_side input) @ '') is not part of ''
                    @ df_path f
                    @ (case li_hunk_index input of None \<Rightarrow> [] | Some i \<Rightarrow> '' hunk '' @ nat_str (i + 1)))
           | Some (i, _) \<Rightarrow>
               let range = \<lparr>lr_start = li_line input, lr_end = li_line input\<rparr>
               in Inr ((resolve_ranges_target f
                    (if li_side input = OldSide then Some range else None)
                    (if li_side input = NewSide then Some range else None))\<lparr>nt_hunk_index := Some i\<rparr>)))"

definition live_note_checked :: "review_controller \<Rightarrow> live_note_input \<Rightarrow> string + string \<times> note_target" where
  "live_note_checked c input =
     (let summary = trim (sanitize_terminal_text (li_summary input) False)
      in if li_line input = 0 then Inl ''live note lines are positive and 1-based''
         else if list_ex (\<lambda>n. rn_id (ln_note n) = Some (li_id input)) (rc_live_notes c)
         then Inl (''live note id '' @ li_id input @ '' already exists'')
         else if summary = [] then Inl ''live note summary cannot be empty''
         else if MAX_FIELD_BYTES < length summary \<or> too_long (li_rationale input) \<or> too_long (li_markup input)
         then Inl (''live note fields cannot exceed '' @ nat_str MAX_FIELD_BYTES @ '' bytes'')
         else and_then (live_note_target (rc_files c) input) (\<lambda>target. Inr (summary, target)))"

definition note_markup_width ::
  "externals \<Rightarrow> viewport \<Rightarrow> note_anchor_side \<Rightarrow> review_controller \<Rightarrow> (review_controller \<times> u16) option" where
  "note_markup_width x v side c =
     do {
       c \<leftarrow> ensure_geometry x v c;
       Some (c, nb_content_width (note_box_layout (rs_layout (rc_snapshot c)) (Some side) (content_width c v)))
     }"

definition add_live_note ::
  "externals \<Rightarrow> live_note_input \<Rightarrow> viewport \<Rightarrow> review_controller
     \<Rightarrow> (review_controller \<times> (string + live_note)) option" where
  "add_live_note x input v c =
     (case live_note_checked c input of
        Inl e \<Rightarrow> Some (c, Inl e)
      | Inr (summary, target) \<Rightarrow>
          do {
            (c, markup_width) \<leftarrow> note_markup_width x v (li_side input) c;
            let rationale = map_option (\<lambda>s. sanitize_terminal_text s False) (li_rationale input);
            let markup = map_option (\<lambda>s. sanitize_terminal_text s False) (li_markup input);
            let live =
              \<lparr>ln_target = target,
               ln_note =
                 \<lparr>rn_id = Some (li_id input), rn_old_range = nt_old_range target, rn_new_range = nt_new_range target,
                  rn_summary = summary, rn_rationale = rationale, rn_markup = markup, rn_tags = [''session''],
                  rn_confidence = None, rn_source = Agent, rn_title = None,
                  rn_author = map_option (\<lambda>s. sanitize_terminal_text s False) (li_author input),
                  rn_created_at = Some (li_created_at input), rn_updated_at = None, rn_editable = False\<rparr>,
               ln_markup_width = markup_width,
               ln_markup_notes = (case markup of None \<Rightarrow> [] | Some m \<Rightarrow> sr_errors (stml_of x m markup_width))\<rparr>;
            rebuilt x v (Inr live) (c\<lparr>rc_live_notes := rc_live_notes c @ [live]\<rparr>)
          })"

text \<open>Whether a note's file is the one asked for; every file when none is.\<close>

definition in_requested_file :: "diff_file list \<Rightarrow> string option \<Rightarrow> note_target \<Rightarrow> bool" where
  "in_requested_file files requested t =
     (case requested of
        None \<Rightarrow> True
      | Some r \<Rightarrow> list_ex (\<lambda>f. df_id f = nt_file_id t \<and> file_named r f) files)"

definition clear_session_notes ::
  "externals \<Rightarrow> string option \<Rightarrow> bool \<Rightarrow> viewport \<Rightarrow> review_controller
     \<Rightarrow> (review_controller \<times> cleared_session_notes) option" where
  "clear_session_notes x requested include_user v c =
     (let live = filter (\<lambda>n. \<not> in_requested_file (rc_files c) requested (ln_target n)) (rc_live_notes c);
          user = (if include_user
                  then filter (\<lambda>n. \<not> in_requested_file (rc_files c) requested (hn_target n)) (rc_human_notes c)
                  else rc_human_notes c);
          result = \<lparr>cl_removed_live = length (rc_live_notes c) - length live,
                    cl_removed_user = length (rc_human_notes c) - length user\<rparr>;
          c = c\<lparr>rc_live_notes := live, rc_human_notes := user\<rparr>
      in if 0 < cl_removed_live result \<or> 0 < cl_removed_user result then rebuilt x v result c
         else Some (c, result))"

definition remove_nth :: "nat \<Rightarrow> 'a list \<Rightarrow> 'a list" where
  "remove_nth i xs = take i xs @ drop (Suc i) xs"

definition remove_session_note ::
  "externals \<Rightarrow> string \<Rightarrow> viewport \<Rightarrow> review_controller \<Rightarrow> (review_controller \<times> (string + string)) option" where
  "remove_session_note x note_id v c =
     (case position (\<lambda>n. rn_id (ln_note n) = Some note_id) (rc_live_notes c) of
        Some i \<Rightarrow> rebuilt x v (Inr ''agent'') (c\<lparr>rc_live_notes := remove_nth i (rc_live_notes c)\<rparr>)
      | None \<Rightarrow>
          (case position (\<lambda>n. hn_id n = note_id) (rc_human_notes c) of
             Some i \<Rightarrow> rebuilt x v (Inr ''user'') (c\<lparr>rc_human_notes := remove_nth i (rc_human_notes c)\<rparr>)
           | None \<Rightarrow> Some (c, Inl (''No live or user comment matches id '' @ note_id @ ''.''))))"

definition validate_session_file :: "string \<Rightarrow> review_controller \<Rightarrow> string + unit" where
  "validate_session_file requested c =
     (if list_ex (file_named requested) (rc_files c) then Inr ()
      else Inl (''No diff file matches '' @ requested @ ''.''))"

section \<open>Going where a session asks\<close>

text \<open>An index of a file that is not there counts as a panic, whether or not the search gets to it.\<close>

definition shown_targets :: "review_controller \<Rightarrow> hunk_target list option" where
  "shown_targets c =
     map_option (\<lambda>files.
         filter (\<lambda>t. list_ex (\<lambda>f. df_id f = ht_file_id t \<and> ht_hunk_index t < length (df_hunks f)) files)
           (annotated_hunk_targets c))
       (visible_files c)"

definition comment_target :: "int \<Rightarrow> review_controller \<Rightarrow> (string + string \<times> usize) option" where
  "comment_target delta c =
     do {
       targets \<leftarrow> shown_targets c;
       let current = (case position (on_selected_hunk c) targets of
                        Some n \<Rightarrow> n | None \<Rightarrow> if delta < 0 then 0 else length targets - 1);
       (case wrapping_index current (length targets) delta of
          None \<Rightarrow> Some (Inl ''No annotated hunks found in the current review.'')
        | Some nxt \<Rightarrow> map_option (\<lambda>t. Inr (ht_file_id t, ht_hunk_index t)) (get targets nxt))
     }"

definition no_such_hunk :: "string \<Rightarrow> string" where
  "no_such_hunk requested = ''No diff hunk in '' @ requested @ '' matches the requested target.''"

definition requested_hunk ::
  "string \<Rightarrow> diff_file \<Rightarrow> usize option \<Rightarrow> note_anchor_side option \<Rightarrow> u32 option \<Rightarrow> string + usize" where
  "requested_hunk requested f hunk_index side line =
     (case hunk_index of
        Some i \<Rightarrow> Inr i
      | None \<Rightarrow>
          (case (side, line) of
             (Some side, Some line) \<Rightarrow>
               (case position (hunk_has_line side line) (df_hunks f) of
                  None \<Rightarrow> Inl (no_such_hunk requested) | Some i \<Rightarrow> Inr i)
           | _ \<Rightarrow> Inl ''navigate requires a hunk or both side and line''))"

definition line_target ::
  "string option \<Rightarrow> usize option \<Rightarrow> note_anchor_side option \<Rightarrow> u32 option \<Rightarrow> review_controller
     \<Rightarrow> string + string \<times> usize" where
  "line_target file_path hunk_index side line c =
     (case file_path of
        None \<Rightarrow> Inl ''navigate requires --file when not using comment navigation''
      | Some requested \<Rightarrow>
          (case List.find (file_named requested) (rc_files c) of
             None \<Rightarrow> Inl (''No diff file matches '' @ requested @ ''.'')
           | Some f \<Rightarrow>
               and_then (requested_hunk requested f hunk_index side line)
                 (\<lambda>i. if length (df_hunks f) \<le> i then Inl (no_such_hunk requested) else Inr (df_id f, i))))"

definition navigate_session_target ::
  "externals \<Rightarrow> string option \<Rightarrow> usize option \<Rightarrow> note_anchor_side option \<Rightarrow> u32 option \<Rightarrow> int option
     \<Rightarrow> viewport \<Rightarrow> review_controller \<Rightarrow> (review_controller \<times> (string + string \<times> string \<times> usize)) option" where
  "navigate_session_target x file_path hunk_index side line comment_delta v c =
     do {
       target \<leftarrow> (case comment_delta of
                    Some delta \<Rightarrow> comment_target delta c
                  | None \<Rightarrow> Some (line_target file_path hunk_index side line c));
       (case target of
          Inl e \<Rightarrow> Some (c, Inl e)
        | Inr (file_id, target_hunk) \<Rightarrow>
            do {
              c \<leftarrow> select_target x file_id target_hunk v c;
              f \<leftarrow> file_by_id (rc_files c) file_id;
              Some (c, Inr (df_id f, df_path f, target_hunk))
            })
     }"

section \<open>The reviewer's notes\<close>

text \<open>The rows a selection covers: first and last, or the row of the cursor twice.\<close>

definition selected_span :: "review_controller \<Rightarrow> (selection_point \<times> selection_point) option \<Rightarrow> (usize \<times> usize) option" where
  "selected_span c selection =
     (case selection of
        Some (anchor, focus) \<Rightarrow> Some (min (pt_row anchor) (pt_row focus), max (pt_row anchor) (pt_row focus))
      | None \<Rightarrow> map_option (\<lambda>i. (i, i)) (selected_row_index c))"

text \<open>\<open>geometry.rows.get(start..=end.min(len - 1))\<close>\<close>

definition spanned_rows :: "review_geometry \<Rightarrow> usize \<Rightarrow> usize \<Rightarrow> row_bounds list option" where
  "spanned_rows g start stop = get_range (rg_rows g) start (Suc (min stop (length (rg_rows g) - 1)))"

definition line_range_of :: "u32 list \<Rightarrow> line_range option" where
  "line_range_of ls =
     (case ls of [] \<Rightarrow> None | n # ns \<Rightarrow> Some \<lparr>lr_start = fold min ns n, lr_end = fold max ns n\<rparr>)"

definition note_target_for_selection ::
  "review_controller \<Rightarrow> (selection_point \<times> selection_point) option \<Rightarrow> note_target option" where
  "note_target_for_selection c selection =
     do {
       g \<leftarrow> rc_geometry c;
       (start, stop) \<leftarrow> selected_span c selection;
       anchor \<leftarrow> get (rg_rows g) start;
       f \<leftarrow> file_by_id (rc_files c) (rk_file_id (rb_key anchor));
       rows \<leftarrow> spanned_rows g start stop;
       let matching = filter (\<lambda>r. rk_file_id (rb_key r) = rk_file_id (rb_key anchor)) rows;
       Some (resolve_ranges_target f
         (line_range_of (List.map_filter (\<lambda>r. rk_old_line (rb_key r)) matching))
         (line_range_of (List.map_filter (\<lambda>r. rk_new_line (rb_key r)) matching)))
     }"

definition open_draft ::
  "note_target \<Rightarrow> inline_comment_target option \<Rightarrow> review_controller \<Rightarrow> review_controller" where
  "open_draft target remote_target c =
     c\<lparr>rc_human_note_draft := Some
         \<lparr>hd_id = ''draft:'' @ nat_str (rc_next_human_note_id c), hd_target = target, hd_remote_target = remote_target,
          hd_body = [], hd_caret = 0, hd_editing = None\<rparr>,
       rc_next_human_note_id := sat_add u64_max (rc_next_human_note_id c) 1\<rparr>"

definition begin_human_note ::
  "externals \<Rightarrow> (selection_point \<times> selection_point) option \<Rightarrow> viewport \<Rightarrow> review_controller
     \<Rightarrow> (review_controller \<times> string option) option" where
  "begin_human_note x selection v c =
     do {
       c \<leftarrow> ensure_geometry x v c;
       (case note_target_for_selection c selection of
          None \<Rightarrow> Some (c, None)
        | Some target \<Rightarrow>
            rebuilt x v (Some (''draft:'' @ nat_str (rc_next_human_note_id c))) (open_draft target None c))
     }"

text \<open>The side and line of GitHub's comment on one row, in the layout of the screen.\<close>

definition remote_row_line ::
  "effective_layout \<Rightarrow> review_side \<Rightarrow> review_row \<Rightarrow> inline_target_error + remote_line_side \<times> u32 option" where
  "remote_row_line layout focused row =
     (case (layout, row) of
        (SplitLayout, Split _ l r) \<Rightarrow>
          (case focused of
             ReviewLeft \<Rightarrow> Inr (RemoteLeft, if ce_kind l \<noteq> CellEmpty then ce_old_line l else None)
           | ReviewRight \<Rightarrow> Inr (RemoteRight, if ce_kind r \<noteq> CellEmpty then ce_new_line r else None))
      | (StackLayout, Stack _ cell) \<Rightarrow>
          (case ce_kind cell of
             CellAddition \<Rightarrow> Inr (RemoteRight, ce_new_line cell)
           | CellDeletion \<Rightarrow> Inr (RemoteLeft, ce_old_line cell)
           | CellContext \<Rightarrow> Inr (RemoteRight, ce_new_line cell)
           | CellEmpty \<Rightarrow> Inl NoDiffLine)
      | _ \<Rightarrow> Inl NoDiffLine)"

definition add_remote_row ::
  "review_controller \<Rightarrow> row_bounds \<Rightarrow> remote_line_side option \<times> u32 list
     \<Rightarrow> inline_target_error + remote_line_side option \<times> u32 list" where
  "add_remote_row c bound st =
     (case st of (selected, ls) \<Rightarrow>
       (case rb_owner bound of
          OwnedByTrailer \<Rightarrow> Inl NoDiffLine
        | OwnedByFile _ \<Rightarrow>
            (case row_for_bound (rc_planned_files c) (rc_trailer_plan c) bound of
               None \<Rightarrow> Inl NoDiffLine
             | Some row \<Rightarrow>
                 and_then (remote_row_line (rc_effective_layout c) (rc_focused_side c) row) (\<lambda>(side, line).
                   if selected \<noteq> None \<and> selected \<noteq> Some side then Inl CrossSides
                   else (case line of
                           None \<Rightarrow> Inl (EmptySide side)
                         | Some n \<Rightarrow> Inr (Some side, ls @ [n]))))))"

definition consecutive :: "u32 list \<Rightarrow> bool" where
  "consecutive ls \<longleftrightarrow> list_all (\<lambda>(a, b). b = wrap_add u32_max a 1) (zip ls (tl ls))"

definition remote_lines :: "review_controller \<Rightarrow> row_bounds list \<Rightarrow> inline_target_error + remote_line_side \<times> u32 list" where
  "remote_lines c rows =
     and_then (try_fold (add_remote_row c) rows (None, [])) (\<lambda>(selected, ls).
       case selected of
         None \<Rightarrow> Inl NoDiffLine
       | Some side \<Rightarrow>
           let ls = remdups_adj ls
           in if ls = [] then Inl (EmptySide side)
              else if \<not> consecutive ls then Inl (Discontinuous side)
              else Inr (side, ls))"

definition remote_target_for_selection ::
  "review_controller \<Rightarrow> (selection_point \<times> selection_point) option
     \<Rightarrow> inline_target_error + note_target \<times> inline_comment_target" where
  "remote_target_for_selection c selection =
     (case Option.bind (rc_geometry c) (\<lambda>g. Option.bind (selected_span c selection)
             (\<lambda>(start, stop). spanned_rows g start stop)) of
        Some (first # rest) \<Rightarrow>
          let file_id = rk_file_id (rb_key first)
          in if list_ex (\<lambda>r. rk_file_id (rb_key r) \<noteq> file_id) (first # rest) then Inl CrossFile
             else and_then (remote_lines c (first # rest)) (\<lambda>(side, ls).
               case file_by_id (rc_files c) file_id of
                 None \<Rightarrow> Inl NoDiffLine
               | Some f \<Rightarrow>
                   let start_line = hd ls; end_line = last ls;
                       range = Some \<lparr>lr_start = start_line, lr_end = end_line\<rparr>
                   in Inr
                     (case side of
                        RemoteLeft \<Rightarrow> resolve_ranges_target f range None
                      | RemoteRight \<Rightarrow> resolve_ranges_target f None range,
                      \<lparr>it_path = df_path f, it_side = side, it_start_line = start_line, it_end_line = end_line\<rparr>))
      | _ \<Rightarrow> Inl NoDiffLine)"

definition begin_remote_human_note ::
  "externals \<Rightarrow> (selection_point \<times> selection_point) option \<Rightarrow> viewport \<Rightarrow> review_controller
     \<Rightarrow> (review_controller \<times> (inline_target_error + inline_comment_target option)) option" where
  "begin_remote_human_note x selection v c =
     do {
       c \<leftarrow> ensure_geometry x v c;
       (case remote_target_for_selection c selection of
          Inl e \<Rightarrow> Some (c, Inl e)
        | Inr (target, remote) \<Rightarrow> rebuilt x v (Inr (Some remote)) (open_draft target (Some remote) c))
     }"

definition update_human_note_draft ::
  "externals \<Rightarrow> string \<Rightarrow> viewport \<Rightarrow> review_controller \<Rightarrow> (review_controller \<times> bool) option" where
  "update_human_note_draft x body v c =
     (case rc_human_note_draft c of
        None \<Rightarrow> Some (c, False)
      | Some d \<Rightarrow>
          let body = sanitize_terminal_text body False
          in rebuilt x v True
               (c\<lparr>rc_human_note_draft := Some (d\<lparr>hd_body := body, hd_caret := min (hd_caret d) (char_count body)\<rparr>)\<rparr>))"

definition cancel_human_note_draft ::
  "externals \<Rightarrow> viewport \<Rightarrow> review_controller \<Rightarrow> (review_controller \<times> bool) option" where
  "cancel_human_note_draft x v c =
     (if rc_human_note_draft c \<noteq> None then rebuilt x v True (c\<lparr>rc_human_note_draft := None\<rparr>)
      else Some (c, False))"

text \<open>\<open>iter_mut().find(..)\<close>: the first element that satisfies \<open>p\<close> is changed.\<close>

fun update_first :: "('a \<Rightarrow> bool) \<Rightarrow> ('a \<Rightarrow> 'a) \<Rightarrow> 'a list \<Rightarrow> 'a list" where
  "update_first p g [] = []"
| "update_first p g (a # as) = (if p a then g a # as else a # update_first p g as)"

text \<open>\<open>draft.id.replacen("draft:", "human:", 1)\<close>\<close>

definition saved_note_id :: "string \<Rightarrow> string" where
  "saved_note_id draft_id =
     (case find_sub draft_id ''draft:'' of
        None \<Rightarrow> draft_id
      | Some i \<Rightarrow> take i draft_id @ ''human:'' @ drop (i + 6) draft_id)"

definition save_human_note_draft ::
  "externals \<Rightarrow> viewport \<Rightarrow> review_controller \<Rightarrow> (review_controller \<times> string option) option" where
  "save_human_note_draft x v c =
     (case rc_human_note_draft c of
        None \<Rightarrow> Some (c, None)
      | Some d \<Rightarrow>
          let body = trim (hd_body d); c = c\<lparr>rc_human_note_draft := None\<rparr>
          in (case hd_editing d of
                Some editing \<Rightarrow>
                  rebuilt x v (Some editing)
                    (c\<lparr>rc_human_notes :=
                         (if body = [] then filter (\<lambda>n. hn_id n \<noteq> editing) (rc_human_notes c)
                          else update_first (\<lambda>n. hn_id n = editing) (\<lambda>n. n\<lparr>hn_body := body\<rparr>) (rc_human_notes c))\<rparr>)
              | None \<Rightarrow>
                  if body = [] then rebuilt x v None c
                  else
                    let note_id = saved_note_id (hd_id d)
                    in rebuilt x v (Some note_id)
                         (c\<lparr>rc_human_notes := rc_human_notes c @
                              [\<lparr>hn_id = note_id, hn_target = hd_target d, hn_remote_target = hd_remote_target d,
                                hn_body = body, hn_created_at = None, hn_updated_at = None\<rparr>]\<rparr>)))"

definition edit_human_note ::
  "externals \<Rightarrow> string \<Rightarrow> viewport \<Rightarrow> review_controller \<Rightarrow> (review_controller \<times> bool) option" where
  "edit_human_note x note_id v c =
     (case List.find (\<lambda>n. hn_id n = note_id) (rc_human_notes c) of
        None \<Rightarrow> Some (c, False)
      | Some n \<Rightarrow>
          rebuilt x v True
            (c\<lparr>rc_human_note_draft := Some
                 \<lparr>hd_id = ''draft:'' @ note_id, hd_target = hn_target n, hd_remote_target = hn_remote_target n,
                  hd_body = hn_body n, hd_caret = char_count (hn_body n), hd_editing = Some (hn_id n)\<rparr>\<rparr>))"

definition add_human_note ::
  "externals \<Rightarrow> string \<Rightarrow> line_range option \<Rightarrow> line_range option \<Rightarrow> string \<Rightarrow> viewport \<Rightarrow> review_controller
     \<Rightarrow> (review_controller \<times> string) option" where
  "add_human_note x file_path new_range old_range body v c =
     (case List.find (file_named file_path) (rc_files c) of
        None \<Rightarrow> Some (c, [])
      | Some f \<Rightarrow>
          let note_id = ''human:'' @ nat_str (rc_next_human_note_id c)
          in rebuilt x v note_id
               (c\<lparr>rc_next_human_note_id := sat_add u64_max (rc_next_human_note_id c) 1,
                  rc_human_notes := rc_human_notes c @
                    [\<lparr>hn_id = note_id, hn_target = resolve_ranges_target f old_range new_range,
                      hn_remote_target = None, hn_body = sanitize_terminal_text body False,
                      hn_created_at = None, hn_updated_at = None\<rparr>]\<rparr>))"

definition remove_human_note ::
  "externals \<Rightarrow> string \<Rightarrow> viewport \<Rightarrow> review_controller \<Rightarrow> (review_controller \<times> bool) option" where
  "remove_human_note x note_id v c =
     (let kept = filter (\<lambda>n. hn_id n \<noteq> note_id) (rc_human_notes c)
      in if length kept \<noteq> length (rc_human_notes c) then rebuilt x v True (c\<lparr>rc_human_notes := kept\<rparr>)
         else Some (c\<lparr>rc_human_notes := kept\<rparr>, False))"

definition clear_human_notes ::
  "externals \<Rightarrow> string option \<Rightarrow> viewport \<Rightarrow> review_controller \<Rightarrow> (review_controller \<times> usize) option" where
  "clear_human_notes x requested v c =
     (let kept = filter (\<lambda>n. case requested of
                    None \<Rightarrow> False
                  | Some r \<Rightarrow>
                      nt_file_id (hn_target n) \<noteq> r
                      \<and> list_ex (\<lambda>f. df_id f = nt_file_id (hn_target n) \<and> df_path f \<noteq> r
                           \<and> df_previous_path f \<noteq> Some r) (rc_files c)) (rc_human_notes c);
          removed = length (rc_human_notes c) - length kept;
          c = c\<lparr>rc_human_notes := kept\<rparr>
      in if 0 < removed then rebuilt x v removed c else Some (c, removed))"

section \<open>Questions\<close>

definition thread_is_pending :: "review_controller \<Rightarrow> string \<Rightarrow> bool" where
  "thread_is_pending c thread_id =
     (case List.find (\<lambda>n. an_thread_id n = thread_id) (rev (rc_ask_notes c)) of
        None \<Rightarrow> False | Some n \<Rightarrow> an_state n = Pending)"

definition ask_thread_root ::
  "review_controller \<Rightarrow> (selection_point \<times> selection_point) option \<Rightarrow> ask_note option" where
  "ask_thread_root c selection =
     do {
       g \<leftarrow> rc_geometry c;
       (index, _) \<leftarrow> selected_span c selection;
       bound \<leftarrow> get (rg_rows g) index;
       let k = rb_key bound;
       matched \<leftarrow> or_else
         (Option.bind (rk_note_id k) (\<lambda>note_id. List.find (\<lambda>n. an_id n = note_id) (rc_ask_notes c)))
         (List.find (\<lambda>n. covers (an_target n) (rk_file_id k) (rk_old_line k) (rk_new_line k)) (rev (rc_ask_notes c)));
       List.find (\<lambda>n. an_id n = an_thread_id matched) (rc_ask_notes c)
     }"

definition open_question :: "string option \<Rightarrow> note_target \<Rightarrow> review_controller \<Rightarrow> review_controller" where
  "open_question thread_id target c =
     (let ask_id = ''ask:'' @ nat_str (rc_next_ask_id c)
      in c\<lparr>rc_next_ask_id := sat_add u64_max (rc_next_ask_id c) 1,
           rc_ask_draft := Some
             \<lparr>ad_id = ask_id, ad_thread_id = (case thread_id of None \<Rightarrow> ask_id | Some i \<Rightarrow> i),
              ad_target = target, ad_question = [], ad_caret = 0\<rparr>\<rparr>)"

definition begin_ask ::
  "externals \<Rightarrow> (selection_point \<times> selection_point) option \<Rightarrow> viewport \<Rightarrow> review_controller
     \<Rightarrow> (review_controller \<times> ask_start) option" where
  "begin_ask x selection v c =
     do {
       c \<leftarrow> ensure_geometry x v c;
       let answer = Started (''ask:'' @ nat_str (rc_next_ask_id c));
       (case ask_thread_root c selection of
          Some root \<Rightarrow>
            if thread_is_pending c (an_id root) then Some (c, ThreadPending)
            else rebuilt x v answer (open_question (Some (an_id root)) (an_target root) c)
        | None \<Rightarrow>
            (case note_target_for_selection c selection of
               None \<Rightarrow> Some (c, Unavailable)
             | Some target \<Rightarrow> rebuilt x v answer (open_question None target c)))
     }"

definition ask_thread_history :: "string \<Rightarrow> review_controller \<Rightarrow> (string \<times> string) list" where
  "ask_thread_history thread_id c =
     List.map_filter (\<lambda>n. case an_state n of Answered answer \<Rightarrow> Some (an_question n, answer) | _ \<Rightarrow> None)
       (filter (\<lambda>n. an_thread_id n = thread_id) (rc_ask_notes c))"

definition update_ask_draft ::
  "externals \<Rightarrow> string \<Rightarrow> viewport \<Rightarrow> review_controller \<Rightarrow> (review_controller \<times> unit) option" where
  "update_ask_draft x question v c =
     (case rc_ask_draft c of
        None \<Rightarrow> Some (c, ())
      | Some d \<Rightarrow>
          let question = sanitize_terminal_text question False
          in rebuilt x v ()
               (c\<lparr>rc_ask_draft := Some (d\<lparr>ad_question := question, ad_caret := min (ad_caret d) (char_count question)\<rparr>)\<rparr>))"

definition set_draft_caret ::
  "externals \<Rightarrow> usize \<Rightarrow> viewport \<Rightarrow> review_controller \<Rightarrow> (review_controller \<times> unit) option" where
  "set_draft_caret x caret v c =
     (case rc_ask_draft c of
        Some d \<Rightarrow>
          let clamped = min caret (char_count (ad_question d)); c' = c\<lparr>rc_ask_draft := Some (d\<lparr>ad_caret := clamped\<rparr>)\<rparr>
          in if ad_caret d \<noteq> clamped then rebuilt x v () c' else Some (c', ())
      | None \<Rightarrow>
          (case rc_human_note_draft c of
             Some d \<Rightarrow>
               let clamped = min caret (char_count (hd_body d));
                   c' = c\<lparr>rc_human_note_draft := Some (d\<lparr>hd_caret := clamped\<rparr>)\<rparr>
               in if hd_caret d \<noteq> clamped then rebuilt x v () c' else Some (c', ())
           | None \<Rightarrow> Some (c, ())))"

definition cancel_ask_draft :: "externals \<Rightarrow> viewport \<Rightarrow> review_controller \<Rightarrow> (review_controller \<times> unit) option" where
  "cancel_ask_draft x v c =
     (if rc_ask_draft c \<noteq> None then rebuilt x v () (c\<lparr>rc_ask_draft := None\<rparr>) else Some (c, ()))"

definition commit_ask_draft ::
  "externals \<Rightarrow> viewport \<Rightarrow> review_controller \<Rightarrow> (review_controller \<times> ask_note option) option" where
  "commit_ask_draft x v c =
     (case rc_ask_draft c of
        None \<Rightarrow> Some (c, None)
      | Some d \<Rightarrow>
          let question = trim (ad_question d); c = c\<lparr>rc_ask_draft := None\<rparr>
          in if question = [] then rebuilt x v None c
             else
               let note = \<lparr>an_id = ad_id d, an_thread_id = ad_thread_id d, an_target = ad_target d,
                           an_question = question, an_state = Pending\<rparr>
               in rebuilt x v (Some note) (c\<lparr>rc_ask_notes := rc_ask_notes c @ [note]\<rparr>))"

definition MAX_ANSWER_LINES :: usize where "MAX_ANSWER_LINES = 80"
definition MAX_ANSWER_BYTES :: usize where "MAX_ANSWER_BYTES = 8192"

text \<open>The lines kept of an answer, and whether some were not.\<close>

fun keep_answer :: "usize \<Rightarrow> string list \<Rightarrow> string list \<Rightarrow> string list \<times> bool" where
  "keep_answer bytes kept [] = (kept, False)"
| "keep_answer bytes kept (l # ls) =
     (if MAX_ANSWER_LINES \<le> length kept \<or> MAX_ANSWER_BYTES < sat_add usize_max bytes (length l) then (kept, True)
      else keep_answer (sat_add usize_max (sat_add usize_max bytes (length l)) 1) (kept @ [l]) ls)"

definition clamp_answer :: "string \<Rightarrow> string" where
  "clamp_answer body =
     (let (kept, truncated) = keep_answer 0 [] (lines body)
      in join [NL] kept @ (if truncated then [NL] @ ELLIPSIS @ '' (answer truncated)'' else []))"

definition clamped_state :: "ask_note_state \<Rightarrow> ask_note_state" where
  "clamped_state state = (case state of Answered body \<Rightarrow> Answered (clamp_answer body) | _ \<Rightarrow> state)"

definition resolve_ask ::
  "externals \<Rightarrow> string \<Rightarrow> ask_note_state \<Rightarrow> viewport \<Rightarrow> review_controller \<Rightarrow> (review_controller \<times> bool) option" where
  "resolve_ask x ask_id state v c =
     (if list_ex (\<lambda>n. an_id n = ask_id) (rc_ask_notes c)
      then rebuilt x v True
             (c\<lparr>rc_ask_notes := update_first (\<lambda>n. an_id n = ask_id) (\<lambda>n. n\<lparr>an_state := clamped_state state\<rparr>) (rc_ask_notes c)\<rparr>)
      else Some (c, False))"

definition selected_note_id :: "review_controller \<Rightarrow> string option" where
  "selected_note_id c = Option.bind (rc_selected_row_key c) rk_note_id"

end
