(* ===== verification/Review_Invariant.thy ===== *)
theory Review_Invariant
  imports Review_Notes
begin

text \<open>
  What the review controller keeps true. Whenever the layout is not marked stale, it is the layout
  of the current state: the plans, the geometry and the snapshot are what they would be if they
  were computed anew, the cursor is on a row, and the scroll position is inside the review.
  Every operation restores this, and none panics.
\<close>

section \<open>What never changes behind the layout\<close>

definition threads_ok :: "review_controller \<Rightarrow> bool" where
  "threads_ok c \<longleftrightarrow>
     rc_github_threads c = place_github_threads (rc_files c) (rc_github_thread_source c)
     \<and> (\<forall>t \<in> set (rc_github_thread_source c). gt_comments t \<noteq> [])"

text \<open>A range of context is opened only once its source was looked for.\<close>

definition contexts_ok :: "review_controller \<Rightarrow> bool" where
  "contexts_ok c \<longleftrightarrow> (\<forall>st \<in> ran (rc_contexts c). fc_source st = None \<longrightarrow> fc_expanded st = [])"

text \<open>Files have identifiers of their own, and their hunks start at numbers of type \<open>u32\<close>.\<close>

definition files_ok :: "diff_file list \<Rightarrow> bool" where
  "files_ok files \<longleftrightarrow>
     distinct (map df_id files)
     \<and> (\<forall>f \<in> set files. \<forall>h \<in> set (df_hunks f). hunk_old_start h \<le> u32_max \<and> hunk_new_start h \<le> u32_max)"

definition sound :: "review_controller \<Rightarrow> bool" where
  "sound c \<longleftrightarrow> files_ok (rc_files c) \<and> threads_ok c \<and> contexts_ok c \<and> progress_ok (rc_progress c)"

section \<open>A layout that is up to date\<close>

definition laid :: "externals \<Rightarrow> viewport \<Rightarrow> review_controller \<Rightarrow> bool" where
  "laid x v c \<longleftrightarrow>
     rc_visible_indices c = visible_indices x c
     \<and> rc_effective_layout c = rc_effective_layout (respond v c)
     \<and> rc_actual_sidebar c = rc_actual_sidebar (respond v c)
     \<and> plan_visible x c v = Some (rc_planned_files c)
     \<and> rc_trailer_plan c = plan_trailer x c v
     \<and> rc_geometry c = Some (lay_out x c v)"

definition drawn :: "externals \<Rightarrow> viewport \<Rightarrow> review_controller \<Rightarrow> bool" where
  "drawn x v c \<longleftrightarrow> \<not> rc_dirty c \<and> rc_last_viewport c = Some v \<and> laid x v c"

text \<open>The selected file and hunk are those of the row under the cursor.\<close>

definition cursor_ok :: "review_controller \<Rightarrow> bool" where
  "cursor_ok c \<longleftrightarrow>
     (case rc_selected_row_key c of
        None \<Rightarrow> rc_selected_file_id c = None \<and> rc_selected_hunk_index c = None
      | Some k \<Rightarrow>
          (\<exists>g bound. rc_geometry c = Some g \<and> bound \<in> set (rg_rows g) \<and> rb_key bound = k
             \<and> (rc_selected_file_id c, rc_selected_hunk_index c) =
                 (case rb_owner bound of
                    OwnedByFile _ \<Rightarrow> (Some (rk_file_id k), rk_hunk_index k)
                  | OwnedByTrailer \<Rightarrow> (None, None))))"

definition on_screen :: "externals \<Rightarrow> viewport \<Rightarrow> review_controller \<Rightarrow> bool" where
  "on_screen x v c \<longleftrightarrow> drawn x v c \<and> cursor_ok c \<and> rc_scroll_top c \<le> ctl_max_scroll_top c"

definition settled :: "externals \<Rightarrow> viewport \<Rightarrow> review_controller \<Rightarrow> bool" where
  "settled x v c \<longleftrightarrow> on_screen x v c \<and> fresh_snapshot c = Some (rc_snapshot c)"

lemma plan_one_abs:
  "plan_one x c v = (\<lambda>f.
     if is_file_compacted c f
     then Some \<lparr>pl_file_id = df_id f, pl_plan = compacted_file_plan f, pl_compacted = True\<rparr>
     else map_option (\<lambda>plan. \<lparr>pl_file_id = df_id f, pl_plan = plan, pl_compacted = False\<rparr>)
       (build_row_plan_with_notes x f (rc_effective_layout c) (ro_hunk_headers (rc_options c))
         (rc_contexts c (df_id f)) (note_options c v f)))"
  by (rule ext) (simp add: plan_one_def)

lemmas layout_defs = visible_indices_def respond_def plan_visible_def visible_files_def
  plan_one_abs
  is_file_compacted_def note_options_def content_width_def plan_trailer_def lay_out_def

lemma laid_frame [simp]:
  "laid x v (c\<lparr>rc_selected_file_id := a\<rparr>) = laid x v c"
  "laid x v (c\<lparr>rc_selected_hunk_index := b\<rparr>) = laid x v c"
  "laid x v (c\<lparr>rc_selected_row_key := d\<rparr>) = laid x v c"
  "laid x v (c\<lparr>rc_focused_side := e\<rparr>) = laid x v c"
  "laid x v (c\<lparr>rc_scroll_top := n\<rparr>) = laid x v c"
  "laid x v (c\<lparr>rc_horizontal_offset := n\<rparr>) = laid x v c"
  "laid x v (c\<lparr>rc_snapshot := s\<rparr>) = laid x v c"
  "laid x v (c\<lparr>rc_progress := p\<rparr>) = laid x v c"
  "laid x v (c\<lparr>rc_last_viewport := w\<rparr>) = laid x v c"
  "laid x v (c\<lparr>rc_dirty := q\<rparr>) = laid x v c"
  by (simp_all add: laid_def layout_defs Let_def cong: if_cong option.case_cong split del: if_split)

lemma drawn_frame [simp]:
  "drawn x v (c\<lparr>rc_selected_file_id := a\<rparr>) = drawn x v c"
  "drawn x v (c\<lparr>rc_selected_hunk_index := b\<rparr>) = drawn x v c"
  "drawn x v (c\<lparr>rc_selected_row_key := d\<rparr>) = drawn x v c"
  "drawn x v (c\<lparr>rc_focused_side := e\<rparr>) = drawn x v c"
  "drawn x v (c\<lparr>rc_scroll_top := n\<rparr>) = drawn x v c"
  "drawn x v (c\<lparr>rc_horizontal_offset := n\<rparr>) = drawn x v c"
  "drawn x v (c\<lparr>rc_snapshot := s\<rparr>) = drawn x v c"
  "drawn x v (c\<lparr>rc_progress := p\<rparr>) = drawn x v c"
  by (simp_all add: drawn_def)

lemma sound_frame [simp]:
  "sound (c\<lparr>rc_selected_file_id := a\<rparr>) = sound c"
  "sound (c\<lparr>rc_selected_hunk_index := b\<rparr>) = sound c"
  "sound (c\<lparr>rc_selected_row_key := d\<rparr>) = sound c"
  "sound (c\<lparr>rc_focused_side := e\<rparr>) = sound c"
  "sound (c\<lparr>rc_scroll_top := n\<rparr>) = sound c"
  "sound (c\<lparr>rc_horizontal_offset := n\<rparr>) = sound c"
  "sound (c\<lparr>rc_snapshot := s\<rparr>) = sound c"
  "sound (c\<lparr>rc_visible_indices := is\<rparr>) = sound c"
  "sound (c\<lparr>rc_effective_layout := l\<rparr>) = sound c"
  "sound (c\<lparr>rc_actual_sidebar := q\<rparr>) = sound c"
  "sound (c\<lparr>rc_planned_files := ps\<rparr>) = sound c"
  "sound (c\<lparr>rc_trailer_plan := tp\<rparr>) = sound c"
  "sound (c\<lparr>rc_geometry := g\<rparr>) = sound c"
  "sound (c\<lparr>rc_last_viewport := w\<rparr>) = sound c"
  "sound (c\<lparr>rc_dirty := q\<rparr>) = sound c"
  by (simp_all add: sound_def threads_ok_def contexts_ok_def)

section \<open>Every row of the layout has a row to show\<close>

definition backed :: "planned_file list \<Rightarrow> row_plan option \<Rightarrow> row_bounds \<Rightarrow> bool" where
  "backed planned trailer b \<longleftrightarrow>
     (\<exists>row. row_for_bound planned trailer b = Some row \<and> row_key row = rb_key b)
     \<and> rb_hunk_index b = rk_hunk_index (rb_key b)"

lemma layout_rows_backed:
  assumes "b \<in> set (concat (map snd (layout_from width options base i fs)))"
  shows "\<exists>j < length fs. rb_owner b = OwnedByFile (i + j)
    \<and> (\<exists>row. get (rp_rows (pl_plan (fs ! j))) (rb_row_index b) = Some row \<and> row_key row = rb_key b)
    \<and> rb_hunk_index b = rk_hunk_index (rb_key b)"
  using assms
proof (induction fs arbitrary: base i)
  case Nil
  then show ?case by simp
next
  case (Cons f fs)
  show ?case
  proof (cases "b \<in> set (bounds_of width options (base + body_offset i f) (OwnedByFile i) (pl_plan f))")
    case True
    then show ?thesis by (auto simp: bounds_of_def Let_def get_def intro!: exI [of _ 0])
  next
    case False
    with Cons.prems have "b \<in> set (concat (map snd (layout_from width options
        (base + body_offset i f + sum_list (row_heights width options (pl_plan f))) (Suc i) fs)))"
      by auto
    from Cons.IH [OF this] obtain j where "j < length fs" "rb_owner b = OwnedByFile (Suc i + j)"
      "\<exists>row. get (rp_rows (pl_plan (fs ! j))) (rb_row_index b) = Some row \<and> row_key row = rb_key b"
      "rb_hunk_index b = rk_hunk_index (rb_key b)" by blast
    then show ?thesis by (intro exI [of _ "Suc j"]) simp
  qed
qed

lemma geometry_rows_backed:
  assumes "b \<in> set (rg_rows (build_review_geometry width planned trailer options))"
  shows "backed planned trailer b"
proof -
  let ?lay = "layout_from width options 0 0 planned"
  from assms have "b \<in> set (concat (map snd ?lay))
      \<or> b \<in> set (trailer_rows width options (files_height width options 0 planned) trailer)"
    using geometry_closed_form [of width planned trailer options] by (simp add: Let_def)
  then show ?thesis
  proof
    assume "b \<in> set (concat (map snd ?lay))"
    from layout_rows_backed [OF this] show ?thesis
      by (auto simp: backed_def row_for_bound_def get_def)
  next
    assume "b \<in> set (trailer_rows width options (files_height width options 0 planned) trailer)"
    then show ?thesis
      by (auto simp: trailer_rows_def bounds_of_def Let_def backed_def row_for_bound_def get_def
          split: option.splits)
  qed
qed

lemma laid_backed:
  "laid x v c \<Longrightarrow> rc_geometry c = Some g \<Longrightarrow> b \<in> set (rg_rows g)
    \<Longrightarrow> backed (rc_planned_files c) (rc_trailer_plan c) b"
  by (auto simp: laid_def lay_out_def intro: geometry_rows_backed)

section \<open>Planning never panics\<close>

lemma note_plan_safe:
  assumes "\<forall>t \<in> set (np_github_threads options). gt_comments (pg_thread t) \<noteq> []"
  shows "build_row_plan_with_notes x f layout headers context options \<noteq> None"
proof -
  have "github_card x f mode width t \<noteq> None" if "t \<in> set (np_github_threads options)" for mode width t
    using assms that by (simp add: github_card_def split: list.split)
  then have "those (map (github_card x f mode width) (filter p (np_github_threads options))) \<noteq> None" for mode width p
    unfolding those_map_None by auto
  then show ?thesis by (simp add: build_row_plan_with_notes_def Let_def split: Option.bind_split del: not_None_eq)
qed

lemma planned_threads_commented:
  assumes "threads_ok c"
  shows "\<forall>t \<in> set (np_github_threads (note_options c v f)). gt_comments (pg_thread t) \<noteq> []"
proof -
  have "np_github_threads (note_options c v f) = threads_at (rc_github_threads c) (df_id f)"
    by (simp add: note_options_def threads_at_def)
  also have "\<dots> = List.map_filter (placed_in (rc_files c) (df_id f)) (rc_github_thread_source c)"
    using assms by (simp add: threads_ok_def placement_contents)
  finally show ?thesis
    using assms by (auto simp: set_map_filter threads_ok_def dest!: placed_in_thread)
qed

lemma visible_indices_bound: "i \<in> set (visible_indices x c) \<Longrightarrow> i < length (rc_files c)"
  by (auto simp: visible_indices_def numbered_def dest: set_zip_leftD)

lemma those_get: "set is \<subseteq> {..<length xs} \<Longrightarrow> those (map (get xs) is) = Some (map ((!) xs) is)"
  by (induction "is") (auto simp: get_def)

lemma visible_files_some:
  assumes "set (rc_visible_indices c) \<subseteq> {..<length (rc_files c)}"
  shows "visible_files c = Some (map ((!) (rc_files c)) (rc_visible_indices c))"
  using assms by (simp add: visible_files_def those_get)

lemma plan_visible_some:
  assumes "threads_ok c" and "set (rc_visible_indices c) \<subseteq> {..<length (rc_files c)}"
  shows "\<exists>planned. plan_visible x c v = Some planned"
proof -
  have "plan_one x c v f \<noteq> None" for f
    using note_plan_safe [OF planned_threads_commented [OF assms(1), of v f]] by (simp add: plan_one_def)
  then have "those (map (plan_one x c v) fs) \<noteq> None" for fs
    unfolding those_map_None by simp
  then have "plan_visible x c v \<noteq> None" by (simp add: plan_visible_def visible_files_some [OF assms(2)] del: not_None_eq map_map)
  then show ?thesis by simp
qed

section \<open>Moving the cursor\<close>

lemma cursor_ok_frame [simp]:
  "cursor_ok (c\<lparr>rc_scroll_top := n\<rparr>) = cursor_ok c"
  "cursor_ok (c\<lparr>rc_horizontal_offset := n\<rparr>) = cursor_ok c"
  "cursor_ok (c\<lparr>rc_focused_side := side\<rparr>) = cursor_ok c"
  "cursor_ok (c\<lparr>rc_snapshot := s\<rparr>) = cursor_ok c"
  "cursor_ok (c\<lparr>rc_progress := p\<rparr>) = cursor_ok c"
  "cursor_ok (c\<lparr>rc_last_viewport := w\<rparr>) = cursor_ok c"
  "cursor_ok (c\<lparr>rc_dirty := q\<rparr>) = cursor_ok c"
  by (simp_all add: cursor_ok_def cong: option.case_cong)

lemma ctl_max_frame [simp]:
  "ctl_max_scroll_top (c\<lparr>rc_scroll_top := n\<rparr>) = ctl_max_scroll_top c"
  "ctl_max_scroll_top (c\<lparr>rc_horizontal_offset := n\<rparr>) = ctl_max_scroll_top c"
  "ctl_max_scroll_top (c\<lparr>rc_focused_side := side\<rparr>) = ctl_max_scroll_top c"
  "ctl_max_scroll_top (c\<lparr>rc_snapshot := s\<rparr>) = ctl_max_scroll_top c"
  "ctl_max_scroll_top (c\<lparr>rc_progress := p\<rparr>) = ctl_max_scroll_top c"
  "ctl_max_scroll_top (c\<lparr>rc_last_viewport := w\<rparr>) = ctl_max_scroll_top c"
  "ctl_max_scroll_top (c\<lparr>rc_dirty := q\<rparr>) = ctl_max_scroll_top c"
  by (simp_all add: ctl_max_scroll_top_def cong: option.case_cong)

lemma set_cursor_frame [simp]:
  "drawn x v (set_cursor_index i c) = drawn x v c"
  "laid x v (set_cursor_index i c) = laid x v c"
  "sound (set_cursor_index i c) = sound c"
  "rc_scroll_top (set_cursor_index i c) = rc_scroll_top c"
  "rc_geometry (set_cursor_index i c) = rc_geometry c"
  "rc_files (set_cursor_index i c) = rc_files c"
  by (simp_all add: set_cursor_index_def snap_focused_side_for_def Let_def split: option.split prod.split)

lemma place_cursor_frame [simp]:
  "drawn x v (place_cursor i c) = drawn x v c"
  "laid x v (place_cursor i c) = laid x v c"
  "sound (place_cursor i c) = sound c"
  "rc_scroll_top (place_cursor i c) = rc_scroll_top c"
  "rc_geometry (place_cursor i c) = rc_geometry c"
  "rc_files (place_cursor i c) = rc_files c"
  by (simp_all add: place_cursor_def split: option.split)

lemma set_cursor_ok:
  assumes "rc_geometry c = Some g" and "i < length (rg_rows g)"
    and "backed (rc_planned_files c) (rc_trailer_plan c) (rg_rows g ! i)"
  shows "cursor_ok (set_cursor_index i c)"
proof -
  from assms(3) obtain row where "row_for_bound (rc_planned_files c) (rc_trailer_plan c) (rg_rows g ! i) = Some row"
    by (auto simp: backed_def)
  with assms(1,2) show ?thesis
    by (cases "rb_owner (rg_rows g ! i)")
      (auto simp: set_cursor_index_def get_def cursor_ok_def snap_focused_side_for_def Let_def
        intro!: exI [of _ "rg_rows g ! i"])
qed

lemma place_cursor_ok:
  assumes "laid x v c" and "rc_geometry c = Some g" and "\<And>i. index = Some i \<Longrightarrow> i < length (rg_rows g)"
  shows "cursor_ok (place_cursor index c)"
proof (cases index)
  case None
  then show ?thesis by (simp add: place_cursor_def cursor_ok_def)
next
  case (Some i)
  then have "i < length (rg_rows g)" by (rule assms(3))
  with Some laid_backed [OF assms(1,2)] show ?thesis
    by (simp add: place_cursor_def set_cursor_ok [OF assms(2)])
qed

lemma on_screen_frame [simp]:
  "on_screen x v (c\<lparr>rc_horizontal_offset := n\<rparr>) = on_screen x v c"
  "on_screen x v (c\<lparr>rc_focused_side := side\<rparr>) = on_screen x v c"
  "on_screen x v (c\<lparr>rc_snapshot := s\<rparr>) = on_screen x v c"
  "on_screen x v (c\<lparr>rc_progress := p\<rparr>) = on_screen x v c"
  by (simp_all add: on_screen_def)

lemma on_screen_scroll:
  "on_screen x v c \<Longrightarrow> n \<le> ctl_max_scroll_top c \<Longrightarrow> on_screen x v (c\<lparr>rc_scroll_top := n\<rparr>)"
  by (simp add: on_screen_def)

lemma set_cursor_max [simp]: "ctl_max_scroll_top (set_cursor_index i c) = ctl_max_scroll_top c"
  by (simp add: ctl_max_scroll_top_def)

lemma place_cursor_max [simp]: "ctl_max_scroll_top (place_cursor i c) = ctl_max_scroll_top c"
  by (simp add: ctl_max_scroll_top_def)

lemma on_screen_set_cursor:
  assumes "on_screen x v c"
  shows "on_screen x v (set_cursor_index i c)"
proof -
  from assms obtain g where d: "laid x v c" "rc_geometry c = Some g" by (auto simp: on_screen_def drawn_def laid_def)
  have "cursor_ok (set_cursor_index i c)"
  proof (cases "i < length (rg_rows g)")
    case True
    with laid_backed [OF d] show ?thesis by (simp add: set_cursor_ok [OF d(2)])
  next
    case False
    then have "set_cursor_index i c = c" using d(2) by (simp add: set_cursor_index_def get_def)
    with assms show ?thesis by (simp add: on_screen_def)
  qed
  with assms show ?thesis by (simp add: on_screen_def)
qed

lemma on_screen_cursor_visible: "on_screen x v c \<Longrightarrow> on_screen x v (ensure_cursor_visible v c)"
  by (auto simp: ensure_cursor_visible_def Let_def on_screen_scroll split: option.split)

lemma cursor_visible_frame [simp]:
  "sound (ensure_cursor_visible v c) = sound c"
  "rc_files (ensure_cursor_visible v c) = rc_files c"
  by (simp_all add: ensure_cursor_visible_def Let_def split: option.split)

lemma snap_frame [simp]:
  "on_screen x v (snap_focused_side c) = on_screen x v c"
  "sound (snap_focused_side c) = sound c"
  "rc_files (snap_focused_side c) = rc_files c"
  by (simp_all add: snap_focused_side_def snap_focused_side_for_def split: option.split)

section \<open>Refreshing and rebuilding\<close>

text \<open>A step that succeeds, keeps the files and leaves a layout that is up to date.\<close>

definition settles :: "externals \<Rightarrow> viewport \<Rightarrow> diff_file list \<Rightarrow> review_controller option \<Rightarrow> bool" where
  "settles x v files r \<longleftrightarrow> (\<exists>c. r = Some c \<and> settled x v c \<and> sound c \<and> rc_files c = files)"

lemma settlesI: "settled x v c \<Longrightarrow> sound c \<Longrightarrow> rc_files c = files \<Longrightarrow> settles x v files (Some c)"
  by (simp add: settles_def)

lemma settlesE:
  assumes "settles x v files r"
  obtains c where "r = Some c" "settled x v c" "sound c" "rc_files c = files"
  using assms by (auto simp: settles_def)

lemma settles_bind:
  assumes "settles x v files r"
    and "\<And>c. settled x v c \<Longrightarrow> sound c \<Longrightarrow> rc_files c = files \<Longrightarrow> settles x v files (h c)"
  shows "settles x v files (Option.bind r h)"
  using assms by (auto simp: settles_def)

lemma settled_on_screen: "settled x v c \<Longrightarrow> on_screen x v c"
  by (simp add: settled_def)

lemma file_snapshot_frame [simp]: "file_snapshot (c\<lparr>rc_snapshot := s\<rparr>) = file_snapshot c"
  by (rule ext) (simp add: file_snapshot_def is_file_compacted_def thread_count_def)

lemma fresh_snapshot_frame [simp]: "fresh_snapshot (c\<lparr>rc_snapshot := s\<rparr>) = fresh_snapshot c"
  by (simp add: fresh_snapshot_def visible_files_def
      annotated_hunk_targets_def selected_position_def selected_bound_def ctl_max_scroll_top_def count_notes_def
      Let_def cong: if_cong option.case_cong split del: if_split)

lemma laid_visible_files: "laid x v c \<Longrightarrow> visible_files c = Some (map ((!) (rc_files c)) (rc_visible_indices c))"
  by (rule visible_files_some) (auto simp: laid_def dest: visible_indices_bound)

lemma on_screen_visible_files:
  "on_screen x v c \<Longrightarrow> visible_files c = Some (map ((!) (rc_files c)) (rc_visible_indices c))"
  unfolding on_screen_def drawn_def by (blast intro: laid_visible_files)

lemma refresh_ok:
  assumes "on_screen x v c" and "sound c" and "rc_files c = files"
  shows "settles x v files (refresh_snapshot c)"
proof -
  obtain s where s: "fresh_snapshot c = Some s"
    by (simp add: fresh_snapshot_def on_screen_visible_files [OF assms(1)] Let_def)
  with assms show ?thesis by (simp add: refresh_snapshot_def settles_def settled_def)
qed

lemma min_by_in: "min_by key as = Some a \<Longrightarrow> a \<in> set as"
  by (induction as arbitrary: a) (auto split: option.splits if_splits)

lemma numbered_bound: "(i, a) \<in> set (numbered as) \<Longrightarrow> i < length as \<and> as ! i = a"
  by (auto simp: numbered_def set_zip)

lemma restored_index_bound:
  assumes "restored_index g planned trailer k sel = Some i"
  shows "i < length (rg_rows g)"
proof -
  have near: "j < length (rg_rows g)" if "nearest_selectable_index g planned trailer r p = Some j" for r p j
    using that by (auto simp: nearest_selectable_index_def dest!: min_by_in numbered_bound)
  have pos: "j < length (rg_rows g)" if "position p (rg_rows g) = Some j" for p j
    using position_SomeD [OF that] by simp
  show ?thesis
    using assms near pos
    by (auto simp: restored_index_def or_else_def selectable_index_by_key_def first_selectable_index_def
        nearest_selectable_index_for_file_def Option.bind_eq_Some_conv
        split: option.splits if_splits)
qed

lemma reset_selection_ok:
  assumes "rc_visible_indices c = visible_indices x c"
  shows "\<exists>a b d. (if p then Some c else reset_selection c) =
    Some (c\<lparr>rc_selected_file_id := a, rc_selected_hunk_index := b, rc_selected_row_key := d\<rparr>)"
proof (cases p)
  case True
  have "c = c\<lparr>rc_selected_file_id := rc_selected_file_id c, rc_selected_hunk_index := rc_selected_hunk_index c,
      rc_selected_row_key := rc_selected_row_key c\<rparr>" by simp
  with True show ?thesis by metis
next
  case False
  have "index < length (rc_files c)" if "rc_visible_indices c = index # rest" for index rest
    using visible_indices_bound [of index x c] assms that by (metis list.set_intros(1))
  with False show ?thesis
    by (auto simp: reset_selection_def get_def split: list.split)
qed

lemma rebuild_ok:
  assumes "sound c"
  shows "settles x v (rc_files c) (rebuild x v preserve c)"
proof -
  define c1 where "c1 = c\<lparr>rc_visible_indices := visible_indices x c\<rparr>"
  define sv where "sv = previous_selection_visible x c"
  have ix: "visible_indices x c1 = visible_indices x c" by (simp add: c1_def visible_indices_def)
  then have "rc_visible_indices c1 = visible_indices x c1" by (simp add: c1_def)
  from reset_selection_ok [OF this, of sv] obtain a b d where
    sel: "(if sv then Some c1 else reset_selection c1) =
      Some (c1\<lparr>rc_selected_file_id := a, rc_selected_hunk_index := b, rc_selected_row_key := d\<rparr>)" by blast
  define c2 where "c2 = respond v (c1\<lparr>rc_selected_file_id := a, rc_selected_hunk_index := b, rc_selected_row_key := d\<rparr>)"
  have c2: "sound c2" "rc_files c2 = rc_files c" "rc_visible_indices c2 = visible_indices x c"
    using assms by (simp_all add: c2_def c1_def respond_def Let_def)
  have "set (rc_visible_indices c2) \<subseteq> {..<length (rc_files c2)}"
    unfolding c2 by (auto dest: visible_indices_bound)
  with c2(1) obtain planned where planned: "plan_visible x c2 v = Some planned"
    using plan_visible_some [of c2 x v] by (auto simp: sound_def)
  define c3 where "c3 = c2\<lparr>rc_planned_files := planned, rc_trailer_plan := plan_trailer x c2 v\<rparr>"
  define g where "g = lay_out x c3 v"
  define anchor where "anchor = (if preserve then captured_anchor c else None)"
  define c4 where "c4 = c3\<lparr>rc_scroll_top := restored_scroll sv anchor g c3, rc_geometry := Some g\<rparr>"
  define index where "index = restored_index g (rc_planned_files c4) (rc_trailer_plan c4) (rc_selected_row_key c) (rc_selected_file_id c4)"
  define c5 where "c5 = place_cursor index c4"
  define c6 where "c6 = c5\<lparr>rc_horizontal_offset := min (rc_horizontal_offset c5) (max_horizontal_offset x c5 v),
      rc_last_viewport := Some v, rc_dirty := False\<rparr>"
  have eq: "rebuild x v preserve c = refresh_snapshot c6"
    unfolding rebuild_def Let_def sv_def [symmetric] c1_def [symmetric] sel bind.bind_lunit c2_def [symmetric]
      planned c3_def [symmetric] g_def [symmetric] anchor_def [symmetric] c4_def [symmetric] index_def [symmetric]
      c5_def [symmetric] c6_def [symmetric] ..
  have "laid x v c4"
  proof -
    have "visible_indices x c4 = visible_indices x c"
      by (simp add: c4_def c3_def c2_def c1_def visible_indices_def respond_def Let_def)
    moreover have "plan_visible x c4 v = Some planned"
      unfolding planned [symmetric]
      by (simp add: c4_def c3_def layout_defs Let_def cong: if_cong option.case_cong split del: if_split)
    moreover have "plan_trailer x c4 v = plan_trailer x c2 v"
      by (simp add: c4_def c3_def layout_defs Let_def cong: if_cong option.case_cong split del: if_split)
    moreover have "lay_out x c4 v = g"
      by (simp add: g_def c4_def layout_defs Let_def cong: if_cong option.case_cong split del: if_split)
    moreover have "rc_effective_layout c4 = rc_effective_layout (respond v c4)
        \<and> rc_actual_sidebar c4 = rc_actual_sidebar (respond v c4)"
      by (simp add: c4_def c3_def c2_def respond_def Let_def cong: option.case_cong)
    ultimately show ?thesis
      by (simp add: laid_def) (simp add: c4_def c3_def c2)
  qed
  moreover have "rc_geometry c4 = Some g" by (simp add: c4_def)
  moreover have "i < length (rg_rows g)" if "index = Some i" for i
    using that unfolding index_def by (rule restored_index_bound)
  ultimately have "laid x v c5" and "cursor_ok c5" by (simp_all add: c5_def place_cursor_ok)
  moreover have "rc_scroll_top c5 \<le> ctl_max_scroll_top c5"
    by (simp add: c5_def c4_def ctl_max_scroll_top_def restored_scroll_def)
  ultimately have "on_screen x v c6"
    by (simp add: on_screen_def drawn_def c6_def)
  moreover have "sound c6" "rc_files c6 = rc_files c"
    using c2 by (simp_all add: c6_def c5_def c4_def c3_def)
  ultimately show ?thesis unfolding eq by (rule refresh_ok)
qed

lemma rebuild_dirty_ok:
  assumes "sound c" and "rc_files c = files"
  shows "settles x v files (rebuild_dirty x v c)"
  using rebuild_ok [of "c\<lparr>rc_dirty := True\<rparr>"] assms by (simp add: rebuild_dirty_def)

text \<open>What every operation may assume and restores. Only a new review has not been laid out.\<close>

definition review_ok :: "externals \<Rightarrow> review_controller \<Rightarrow> bool" where
  "review_ok x c \<longleftrightarrow>
     sound c \<and> (rc_dirty c \<and> rc_visible_indices c = [] \<or> (\<exists>v. settled x v c))"

lemma settled_review_ok: "settled x v c \<Longrightarrow> sound c \<Longrightarrow> review_ok x c"
  by (auto simp: review_ok_def)

lemma ensure_geometry_ok:
  assumes "review_ok x c" and "rc_files c = files"
  shows "settles x v files (ensure_geometry x v c)"
proof (cases "rc_dirty c \<or> rc_last_viewport c \<noteq> Some v")
  case True
  with assms show ?thesis by (auto simp: ensure_geometry_def review_ok_def intro: rebuild_ok)
next
  case False
  with assms(1) obtain w where "settled x w c" by (auto simp: review_ok_def)
  with False have "settled x v c" by (simp add: settled_def on_screen_def drawn_def)
  with False assms show ?thesis by (auto simp: ensure_geometry_def settles_def review_ok_def)
qed

section \<open>The actions\<close>

lemma select_target_ok:
  assumes "sound c" and "rc_files c = files"
  shows "settles x v files (select_target x file_id hunk_index v c)"
  unfolding select_target_def Let_def
proof (rule settles_bind)
  show "settles x v files (rebuild x v False (c\<lparr>rc_selected_file_id := Some file_id,
      rc_selected_hunk_index := Some hunk_index, rc_selected_row_key := None, rc_dirty := True\<rparr>))"
    using rebuild_ok [of "c\<lparr>rc_selected_file_id := Some file_id,
      rc_selected_hunk_index := Some hunk_index, rc_selected_row_key := None, rc_dirty := True\<rparr>"] assms by simp
next
  fix d assume "settled x v d" "sound d" "rc_files d = files"
  then show "settles x v files (refresh_snapshot (case List.find (\<lambda>index. case rc_geometry d \<bind> (\<lambda>g. get (rg_rows g) index) of
        None \<Rightarrow> False
      | Some row \<Rightarrow> rk_file_id (rb_key row) = (case rc_selected_file_id d of None \<Rightarrow> [] | Some i \<Rightarrow> i)
          \<and> rb_hunk_index row = Some hunk_index) (selectable_indices d) of
      None \<Rightarrow> d
    | Some index \<Rightarrow> (case selected_bound (set_cursor_index index d) of
          None \<Rightarrow> set_cursor_index index d
        | Some bound \<Rightarrow> (set_cursor_index index d)\<lparr>rc_scroll_top :=
            min (rb_top bound - 1) (ctl_max_scroll_top (set_cursor_index index d))\<rparr>)))"
    by (auto intro!: refresh_ok on_screen_set_cursor on_screen_scroll dest: settled_on_screen split: option.split)
qed

lemma settled_visible_files:
  "settled x v c \<Longrightarrow> visible_files c = Some (map ((!) (rc_files c)) (rc_visible_indices c))"
  by (rule on_screen_visible_files [OF settled_on_screen])

lemma stay_settled: "settled x v c \<Longrightarrow> sound c \<Longrightarrow> rc_files c = files \<Longrightarrow> settles x v files (Some c)"
  by (rule settlesI)

text \<open>A step to a neighbour in a list of targets.\<close>

lemma wrapped_step:
  assumes "\<And>t. settles x v files (h t)" and "settles x v files (Some c)"
  shows "settles x v files
    (case wrapping_index n (length ts) delta of None \<Rightarrow> Some c | Some i \<Rightarrow> Option.bind (get ts i) h)"
proof (cases "wrapping_index n (length ts) delta")
  case None
  then show ?thesis by (simp only: None option.case assms(2))
next
  case (Some i)
  with wrapping_index_bound [OF Some] assms(1) show ?thesis by (simp add: get_def)
qed

lemma move_file_ok:
  assumes "settled x v c" and "sound c" and "rc_files c = files"
  shows "settles x v files (move_file x delta v c)"
  unfolding move_file_def settled_visible_files [OF assms(1)] Let_def bind.bind_lunit
  by (rule wrapped_step [OF select_target_ok [OF assms(2,3)] settlesI [OF assms]])

lemma move_hunk_ok:
  assumes "settled x v c" and "sound c" and "rc_files c = files"
  shows "settles x v files (move_hunk x delta v c)"
  unfolding move_hunk_def visible_hunk_targets_def settled_visible_files [OF assms(1)] Let_def option.map bind.bind_lunit
  by (rule wrapped_step [OF select_target_ok [OF assms(2,3)] settlesI [OF assms]])

lemma shown_at:
  assumes "settled x v c" and "sound c" and "rc_files c = files"
  shows "settles x v files (refresh_snapshot (ensure_cursor_visible v (set_cursor_index i c)))"
  by (rule refresh_ok) (use assms in \<open>simp_all add: on_screen_cursor_visible on_screen_set_cursor settled_on_screen\<close>)

lemma move_annotated_hunk_ok:
  assumes "settled x v c" and "sound c" and "rc_files c = files"
  shows "settles x v files (move_annotated_hunk delta v c)"
  unfolding move_annotated_hunk_def Let_def
  by (rule wrapped_step [OF shown_at [OF assms] settlesI [OF assms]])

lemma move_cursor_ok:
  assumes "settled x v c" and "sound c" and "rc_files c = files"
  shows "settles x v files (move_cursor delta v c)"
proof -
  have "settles x v files (refresh_snapshot (ensure_cursor_visible v c))"
    by (rule refresh_ok) (use assms in \<open>simp_all add: on_screen_cursor_visible settled_on_screen\<close>)
  with shown_at [OF assms] settlesI [OF assms] show ?thesis
    by (auto simp: move_cursor_def Let_def split: option.split)
qed

lemma select_note_ok:
  assumes "settled x v c" and "sound c" and "rc_files c = files"
  shows "settles x v files (select_note note_id v c)"
  using shown_at [OF assms] settlesI [OF assms] by (auto simp: select_note_def split: option.split)

lemma on_screen_place_cursor:
  assumes "on_screen x v c" and "rc_geometry c = Some g" and "\<And>i. index = Some i \<Longrightarrow> i < length (rg_rows g)"
  shows "on_screen x v (place_cursor index c)"
proof -
  from assms(1) have d: "drawn x v c" "rc_scroll_top c \<le> ctl_max_scroll_top c" by (simp_all add: on_screen_def)
  then have "cursor_ok (place_cursor index c)" by (auto simp: drawn_def intro: place_cursor_ok assms)
  with d show ?thesis by (simp add: on_screen_def)
qed

lemma on_screen_select_from_viewport:
  assumes "on_screen x v c"
  shows "on_screen x v (select_from_viewport v c)"
proof -
  from assms obtain g where g: "rc_geometry c = Some g" by (auto simp: on_screen_def drawn_def laid_def)
  then show ?thesis
    by (auto simp: select_from_viewport_def Let_def dest!: min_by_in numbered_bound
        intro!: on_screen_place_cursor [OF assms g])
qed

lemma select_from_viewport_frame [simp]:
  "sound (select_from_viewport v c) = sound c"
  "rc_files (select_from_viewport v c) = rc_files c"
  by (simp_all add: select_from_viewport_def Let_def split: option.split)

section \<open>Every action is safe\<close>

lemma redrawn_settles [simp]: "map_option fst (with_effect e r) = r"
  by (cases r) (simp_all add: with_effect_def)

lemma map_fst_bind: "map_option fst (Option.bind r (\<lambda>c. Some (c, h c))) = r"
  by (cases r) simp_all

lemma map_fst_bind2: "map_option fst (Option.bind r (\<lambda>c. Option.bind (h c) (\<lambda>d. Some (d, k d)))) = Option.bind r h"
  by (cases r) (simp_all add: map_fst_bind)

lemma toggle_file_viewed_ok:
  assumes "settled x v c" and "sound c" and "rc_files c = files"
  shows "settles x v files (map_option fst (toggle_file_viewed x v c))"
proof -
  have stay: "settles x v files (Some c)" by (rule settlesI [OF assms])
  have progress: "progress_ok (fst (mark_file_reviewed i (rc_progress c)))" for i
    using progress_perform_ok [of "rc_progress c" "MarkFileReviewed i"] assms(2) by (simp add: sound_def)
  have off: "settles x v files (rebuild_dirty x v
      (c\<lparr>rc_viewed_files := a, rc_expanded_test_files := b\<rparr>))" for a b
    by (rule rebuild_dirty_ok) (use assms in \<open>simp_all add: sound_def threads_ok_def contexts_ok_def\<close>)
  have on: "settles x v files (rebuild_dirty x v
      (c\<lparr>rc_viewed_files := a, rc_progress := fst (mark_file_reviewed i (rc_progress c))\<rparr>))" for a i
    by (rule rebuild_dirty_ok) (use assms progress in \<open>simp_all add: sound_def threads_ok_def contexts_ok_def\<close>)
  have moved: "settles x v files (Option.bind (rebuild_dirty x v
      (c\<lparr>rc_viewed_files := a, rc_progress := fst (mark_file_reviewed i (rc_progress c))\<rparr>)) (move_file x 1 v))" for a i
    by (rule settles_bind [OF on move_file_ok])
  show ?thesis
    using stay off moved
    by (simp add: toggle_file_viewed_def map_fst_bind map_fst_bind2 split: option.split)
qed

lemma expand_compacted_file_ok:
  assumes "settled x v c" and "sound c" and "rc_files c = files"
  shows "settles x v files (map_option fst (expand_compacted_file x file_id v c))"
proof -
  have stay: "settles x v files (Some c)" by (rule settlesI [OF assms])
  have "settles x v files (rebuild_dirty x v (c\<lparr>rc_viewed_files := a, rc_expanded_test_files := b\<rparr>))" for a b
    by (rule rebuild_dirty_ok) (use assms in \<open>simp_all add: sound_def threads_ok_def contexts_ok_def\<close>)
  with stay show ?thesis
    by (simp add: expand_compacted_file_def map_fst_bind Let_def split: option.split)
qed

lemma toggle_test_files_sound:
  assumes "sound c"
  shows "sound (toggle_test_files c) \<and> rc_files (toggle_test_files c) = rc_files c"
proof -
  have "progress_ok p \<Longrightarrow> progress_ok (fold (\<lambda>i p. fst (mark_file_reviewed i p)) ids p)" for ids p
  proof (induction ids arbitrary: p)
    case (Cons i ids)
    have "progress_ok (fst (mark_file_reviewed i p))"
      using progress_perform_ok [OF Cons.prems, of "MarkFileReviewed i"] by simp
    from Cons.IH [OF this] show ?case by simp
  qed simp
  with assms show ?thesis
    by (simp add: toggle_test_files_def Let_def sound_def threads_ok_def contexts_ok_def)
qed

lemma sound_settings [simp]:
  "sound (c\<lparr>rc_filter := needle\<rparr>) = sound c"
  "sound (with_options h c) = sound c"
  "sound (c\<lparr>rc_sidebar_override := q\<rparr>) = sound c"
  "sound (c\<lparr>rc_sidebar_width := w\<rparr>) = sound c"
  "rc_files (with_options h c) = rc_files c"
  by (simp_all add: with_options_def sound_def threads_ok_def contexts_ok_def)

lemma perform_action_ok:
  assumes "settled x v c" and "sound c" and "rc_files c = files"
  shows "settles x v files (map_option fst (perform_action x v action c))"
proof -
  note stay = settlesI [OF assms]
  note screen = settled_on_screen [OF assms(1)]
  note dirty = rebuild_dirty_ok [where files = files and x = x and v = v]
  show ?thesis
  proof (cases action)
    case (Scroll delta unit)
    have "on_screen x v (select_from_viewport v (c\<lparr>rc_scroll_top :=
        min (signed_offset (rc_scroll_top c) delta (scroll_amount unit v)) (ctl_max_scroll_top c)\<rparr>))"
      by (rule on_screen_select_from_viewport) (rule on_screen_scroll [OF screen], simp)
    from refresh_ok [OF this] Scroll assms show ?thesis by simp
  next
    case (ScrollHorizontal delta)
    with screen assms show ?thesis by (auto intro: refresh_ok)
  next
    case (MoveCursor delta)
    with move_cursor_ok [OF assms] show ?thesis by simp
  next
    case (FocusSide side)
    with screen assms show ?thesis by (auto intro!: refresh_ok)
  next
    case JumpTop
    with screen assms show ?thesis
      by (auto intro!: refresh_ok on_screen_scroll on_screen_set_cursor split: list.split)
  next
    case JumpBottom
    with screen assms show ?thesis
      by (auto intro!: refresh_ok on_screen_scroll on_screen_set_cursor split: list.split)
  next
    case (MoveHunk delta)
    with move_hunk_ok [OF assms] show ?thesis by simp
  next
    case (MoveFile delta)
    with move_file_ok [OF assms] show ?thesis by simp
  next
    case (MoveAnnotatedHunk delta)
    with move_annotated_hunk_ok [OF assms] show ?thesis by simp
  next
    case (SelectFile file_id)
    with select_target_ok [OF assms(2,3)] stay show ?thesis
      by (simp add: settled_visible_files [OF assms(1)])
  next
    case (SelectNote note_id)
    with select_note_ok [OF assms] show ?thesis by simp
  next
    case (SetFilter needle)
    with assms show ?thesis by (simp add: dirty)
  next
    case (SetLayout layout)
    with assms show ?thesis by (simp add: dirty)
  next
    case ToggleSidebar
    with assms show ?thesis by (simp add: dirty)
  next
    case ToggleLineNumbers
    with assms show ?thesis by (simp add: dirty)
  next
    case ToggleWrap
    with assms show ?thesis by (simp add: dirty Let_def)
  next
    case ToggleHunkHeaders
    with assms show ?thesis by (simp add: dirty)
  next
    case ToggleAgentNotes
    with assms show ?thesis by (simp add: dirty)
  next
    case ToggleTestFiles
    with assms toggle_test_files_sound [OF assms(2)] show ?thesis by (simp add: dirty)
  next
    case ToggleFileViewed
    with toggle_file_viewed_ok [OF assms] show ?thesis by simp
  next
    case ExpandSelectedFile
    with expand_compacted_file_ok [OF assms] stay show ?thesis by (simp split: option.split)
  next
    case (ExpandCompactedFile file_id)
    with expand_compacted_file_ok [OF assms] show ?thesis by simp
  qed (use stay in simp_all)
qed

lemma review_apply_ok:
  assumes "review_ok x c" and "rc_files c = files"
  shows "settles x v files (map_option fst (review_apply x action v c))"
proof -
  obtain d where d: "ensure_geometry x v c = Some d" "settled x v d" "sound d" "rc_files d = files"
    using ensure_geometry_ok [OF assms] by (rule settlesE)
  then show ?thesis
    using perform_action_ok [OF d(2,3,4)] settlesI [OF d(2,3,4)] by (simp add: review_apply_def)
qed

end
