(* ===== verification/Review_Safety.thy ===== *)
theory Review_Safety
  imports Review_Invariant
begin

text \<open>
  The operations of the review controller as one machine: whatever sequence of them the event
  loop, the session and the assistant cause, none panics, and the layout that is drawn is the
  layout of the current state.
\<close>

section \<open>What an operation leaves behind\<close>

definition keeps :: "externals \<Rightarrow> review_controller option \<Rightarrow> bool" where
  "keeps x r \<longleftrightarrow> (\<exists>c. r = Some c \<and> review_ok x c)"

lemma settles_keeps: "settles x v files r \<Longrightarrow> keeps x r"
  by (auto simp: settles_def keeps_def review_ok_def)

lemma keepsI: "review_ok x c \<Longrightarrow> keeps x (Some c)"
  by (simp add: keeps_def)

lemma settled_keeps: "settled x v c \<Longrightarrow> sound c \<Longrightarrow> keeps x (Some c)"
  by (auto simp: keeps_def review_ok_def)

lemma dirty_keeps: "sound c \<Longrightarrow> keeps x (rebuild_dirty x v c)"
  by (rule settles_keeps [OF rebuild_dirty_ok [OF _ refl]])

lemma rebuilt_keeps: "sound c \<Longrightarrow> keeps x (map_option fst (rebuilt x v answer c))"
  by (simp add: rebuilt_def map_option.compositionality comp_def option.map_ident dirty_keeps)

lemma keeps_answer: "r \<noteq> None \<Longrightarrow> keeps x (Some c) \<Longrightarrow> keeps x (map_option fst (map_option (Pair c) r))"
  by (cases r) simp_all

lemma review_ok_sound: "review_ok x c \<Longrightarrow> sound c"
  by (simp add: review_ok_def)

lemma ensured:
  assumes "review_ok x c"
  obtains d where "ensure_geometry x v c = Some d" "settled x v d" "sound d" "rc_files d = rc_files c"
  using ensure_geometry_ok [OF assms refl] by (rule settlesE)

lemma sound_notes [simp]:
  "sound (c\<lparr>rc_human_notes := hs\<rparr>) = sound c"
  "sound (c\<lparr>rc_live_notes := ls\<rparr>) = sound c"
  "sound (c\<lparr>rc_human_note_draft := d\<rparr>) = sound c"
  "sound (c\<lparr>rc_next_human_note_id := n\<rparr>) = sound c"
  "sound (c\<lparr>rc_ask_notes := as\<rparr>) = sound c"
  "sound (c\<lparr>rc_ask_draft := e\<rparr>) = sound c"
  "sound (c\<lparr>rc_next_ask_id := n\<rparr>) = sound c"
  by (simp_all add: sound_def threads_ok_def contexts_ok_def)

section \<open>Looking: the snapshot, the mouse and the selection\<close>

lemma bound_keys_some:
  assumes "backed (rc_planned_files c) (rc_trailer_plan c) b"
  shows "bound_keys c b \<noteq> None"
  using assms
  by (auto simp: bound_keys_def backed_def row_for_bound_def Option.bind_eq_Some_conv split: row_owner.splits)

lemma unchanged_progress:
  assumes "\<not> snd (observe_through keys p)"
  shows "progress_snapshot (fst (observe_through keys p)) = progress_snapshot p"
  using assms by (simp add: observe_through_def progress_snapshot_def Let_def split: list.splits)

lemma fresh_snapshot_progress:
  assumes "progress_snapshot p = progress_snapshot (rc_progress c)"
  shows "fresh_snapshot (c\<lparr>rc_progress := p\<rparr>) = fresh_snapshot c"
proof -
  have "file_snapshot (c\<lparr>rc_progress := p\<rparr>) = file_snapshot c"
    by (rule ext) (simp add: file_snapshot_def is_file_compacted_def thread_count_def)
  with assms show ?thesis
    by (simp add: fresh_snapshot_def visible_files_def annotated_hunk_targets_def selected_position_def
        selected_bound_def ctl_max_scroll_top_def count_notes_def Let_def
        cong: if_cong option.case_cong split del: if_split)
qed

lemma observe_viewport_progress_ok:
  assumes "settled x v c" and "sound c" and "rc_files c = files"
  shows "settles x v files (observe_viewport_progress v c)"
proof -
  obtain g where g: "laid x v c" "rc_geometry c = Some g"
    using settled_on_screen [OF assms(1)] by (auto simp: on_screen_def drawn_def laid_def)
  define bounds where "bounds = takeWhile (\<lambda>b. rb_top b < sat_add usize_max (rc_scroll_top c) (vp_height v)) (rg_rows g)"
  have "\<forall>b \<in> set bounds. bound_keys c b \<noteq> None"
    using laid_backed [OF g] bound_keys_some by (auto simp: bounds_def dest: set_takeWhileD)
  then obtain keys where keys: "those (map (bound_keys c) bounds) = Some keys"
    using those_map_None [of "bound_keys c" bounds] by blast
  obtain p changed where o: "observe_through (concat keys) (rc_progress c) = (p, changed)" by (cases "observe_through (concat keys) (rc_progress c)")
  have eq: "observe_viewport_progress v c =
      (if changed then refresh_snapshot (c\<lparr>rc_progress := p\<rparr>) else Some (c\<lparr>rc_progress := p\<rparr>))"
    unfolding observe_viewport_progress_def Let_def g(2) option.case bounds_def [symmetric] keys bind.bind_lunit o prod.case ..
  have ok: "sound (c\<lparr>rc_progress := p\<rparr>)"
    using assms(2) progress_perform_ok [of "rc_progress c" "ObserveThrough (concat keys)"] o
    by (simp add: sound_def threads_ok_def contexts_ok_def)
  have screen: "on_screen x v (c\<lparr>rc_progress := p\<rparr>)" using settled_on_screen [OF assms(1)] by simp
  show ?thesis
  proof (cases changed)
    case True
    with refresh_ok [OF screen ok] assms(3) show ?thesis by (simp add: eq)
  next
    case False
    with o unchanged_progress [of "concat keys" "rc_progress c"] have "progress_snapshot p = progress_snapshot (rc_progress c)" by simp
    then have "fresh_snapshot (c\<lparr>rc_progress := p\<rparr>) = Some (rc_snapshot c)"
      using assms(1) by (simp add: fresh_snapshot_progress settled_def)
    with False screen ok assms(3) show ?thesis by (simp add: eq settles_def settled_def)
  qed
qed

lemma take_snapshot_ok:
  assumes "review_ok x c"
  obtains d where "take_snapshot x v c = Some (d, rc_snapshot d)" "settled x v d" "sound d" "rc_files d = rc_files c"
proof -
  obtain d where d: "ensure_geometry x v c = Some d" "settled x v d" "sound d" "rc_files d = rc_files c"
    using ensured [OF assms] .
  obtain e where "observe_viewport_progress v d = Some e" "settled x v e" "sound e" "rc_files e = rc_files c"
    using observe_viewport_progress_ok [OF d(2,3,4)] by (rule settlesE)
  with d that show ?thesis by (simp add: take_snapshot_def)
qed

lemma hit_test_ok: "review_ok x c \<Longrightarrow> keeps x (map_option fst (hit_test x point v c))"
  by (erule ensured [of x c v]) (simp add: hit_test_def settled_keeps)

lemma backed_plan:
  assumes "backed (rc_planned_files c) (rc_trailer_plan c) b"
  shows "\<exists>plan row. plan_for_bound c b = Some plan \<and> get (rp_rows plan) (rb_row_index b) = Some row"
  using assms
  by (auto simp: backed_def plan_for_bound_def row_for_bound_def Option.bind_eq_Some_conv split: row_owner.splits)

lemma selection_rows_some:
  assumes "laid x v c"
  shows "\<exists>rows. selection_rows c v = Some rows \<and> (\<exists>g. rc_geometry c = Some g \<and> length rows = length (rg_rows g))"
proof -
  obtain g where g: "rc_geometry c = Some g" using assms by (auto simp: laid_def)
  have one: "\<exists>row. selection_row_of c v b = Some [row]" if "b \<in> set (rg_rows g)" for b
    using backed_plan [OF laid_backed [OF assms g that]] by (auto simp: selection_row_of_def)
  have "\<exists>rows. those (map (selection_row_of c v) bs) = Some rows \<and> length (concat rows) = length bs"
    if "set bs \<subseteq> set (rg_rows g)" for bs
    using that
  proof (induction bs)
    case (Cons b bs)
    then obtain row rows where "selection_row_of c v b = Some [row]"
      "those (map (selection_row_of c v) bs) = Some rows \<and> length (concat rows) = length bs"
      using one [of b] by auto
    then show ?case by auto
  qed simp
  from this [of "rg_rows g"] g show ?thesis by (auto simp: selection_rows_def)
qed

lemma settled_laid: "settled x v c \<Longrightarrow> laid x v c"
  by (simp add: settled_def on_screen_def drawn_def)

lemma selection_text_ok:
  assumes "review_ok x c"
  shows "keeps x (map_option fst (selection_text x anchor focus v c))"
proof -
  obtain d where d: "ensure_geometry x v c = Some d" "settled x v d" "sound d" using ensured [OF assms] .
  from selection_rows_some [OF settled_laid [OF d(2)]] obtain rows where "selection_rows d v = Some rows" by blast
  with d show ?thesis by (simp add: selection_text_def settled_keeps)
qed

lemma first_line_at_some:
  assumes "\<forall>b \<in> set bs. backed (rc_planned_files c) (rc_trailer_plan c) b"
  shows "first_line_at x c v selected i bs \<noteq> None"
  using assms
proof (induction bs arbitrary: i)
  case (Cons b bs)
  then have "first_line_at x c v selected (Suc i) bs \<noteq> None" by simp
  then obtain r where rest: "first_line_at x c v selected (Suc i) bs = Some r" by blast
  show ?case
  proof (cases "rb_owner b")
    case (OwnedByFile n)
    with Cons.prems obtain p row where "get (rc_planned_files c) n = Some p"
      "get (rp_rows (pl_plan p)) (rb_row_index b) = Some row"
      by (auto simp: backed_def row_for_bound_def Option.bind_eq_Some_conv)
    with rest OwnedByFile show ?thesis by (cases "line_cells x c v (pl_plan p) row") (auto split: prod.split)
  next
    case OwnedByTrailer
    with rest show ?thesis by simp
  qed
qed simp

lemma selected_line_range_ok:
  assumes "review_ok x c"
  shows "keeps x (map_option fst (selected_line_range x v c))"
proof -
  obtain d where d: "ensure_geometry x v c = Some d" "settled x v d" "sound d" using ensured [OF assms] .
  obtain g where g: "rc_geometry d = Some g" using settled_laid [OF d(2)] by (auto simp: laid_def)
  have "first_line_at x d v selected i (drop i (rg_rows g)) \<noteq> None" for selected i
    by (rule first_line_at_some) (auto dest: in_set_dropD intro: laid_backed [OF settled_laid [OF d(2)] g])
  then have "keeps x (map_option fst (map_option (Pair d) (first_line_at x d v selected i (drop i (rg_rows g)))))" for selected i
    by (rule keeps_answer) (rule settled_keeps [OF d(2,3)])
  then show ?thesis
    by (simp add: selected_line_range_def d(1) g settled_keeps [OF d(2,3)] split: option.split)
qed

section \<open>New threads, new files, the sidebar and the scroll bar\<close>

lemma attach_github_threads_ok:
  assumes "review_ok x c" and "\<forall>t \<in> set threads. gt_comments t \<noteq> []"
  shows "keeps x (attach_github_threads x threads v c)"
  unfolding attach_github_threads_def
  by (rule dirty_keeps) (use assms in \<open>simp add: review_ok_def sound_def threads_ok_def contexts_ok_def\<close>)

lemma toggle_agent_notes_ok: "review_ok x c \<Longrightarrow> keeps x (toggle_agent_notes x show_notes v c)"
  by (simp add: toggle_agent_notes_def keepsI dirty_keeps review_ok_sound)

lemma resize_sidebar_ok: "review_ok x c \<Longrightarrow> keeps x (resize_sidebar x width v c)"
  by (simp add: resize_sidebar_def Let_def keepsI dirty_keeps review_ok_sound)

lemma files_ok_order: "files_ok files \<Longrightarrow> files_ok (order_tests_last is_test files)"
proof -
  let ?k = "\<lambda>f. if is_test (df_path f) then 1 else 0 :: nat"
  have "mset (map df_id (sort_key ?k files)) = mset (map df_id files)" by simp
  then have "distinct (map df_id (sort_key ?k files)) = distinct (map df_id files)" by (metis mset_eq_imp_distinct_iff)
  then show "files_ok files \<Longrightarrow> files_ok (order_tests_last is_test files)"
    by (simp add: files_ok_def order_tests_last_def)
qed

lemma scroll_to_mouse_row_ok:
  assumes "review_ok x c"
  shows "keeps x (scroll_to_mouse_row x row v c)"
proof -
  obtain d where d: "ensure_geometry x v c = Some d" "settled x v d" "sound d" using ensured [OF assms] .
  have le: "sat_mul usize_max m (min n h) div max h 1 \<le> m" for m n h
  proof -
    have "sat_mul usize_max m (min n h) div max h 1 \<le> (m * max h 1) div max h 1"
      by (rule div_le_mono) (simp add: sat_mul_def min.coboundedI2)
    then show ?thesis by simp
  qed
  show ?thesis
    unfolding scroll_to_mouse_row_def d(1) bind.bind_lunit Let_def
    by (rule settles_keeps [OF refresh_ok [OF on_screen_select_from_viewport
          [OF on_screen_scroll [OF settled_on_screen [OF d(2)] le]] _ refl]])
      (use d(3) in simp)
qed

lemma replace_review_files_ok:
  assumes "review_ok x c" and "files_ok files"
  shows "keeps x (replace_review_files x files v c)"
proof -
  obtain d where d: "ensure_geometry x v c = Some d" "settled x v d" "sound d" using ensured [OF assms(1)] .
  define fs where "fs = (if ro_tests_last (rc_options d) then order_tests_last (rc_test_file_matcher d) files else files)"
  have fs: "files_ok fs" using assms(2) by (simp add: fs_def files_ok_order)
  have progress: "progress_ok (replace_files fs (rc_progress d))"
    using progress_perform_ok [of "rc_progress d" "ReplaceFiles fs"] d(3) by (simp add: sound_def)
  define e where "e = (drop_missing fs
             (d\<lparr>rc_files := fs,
                rc_github_threads := place_github_threads fs (rc_github_thread_source d),
                rc_progress := replace_files fs (rc_progress d)\<rparr>))"
  have e: "sound e"
    using d(3) fs progress by (simp add: e_def drop_missing_def sound_def threads_ok_def contexts_ok_def)
  have "keeps x (Option.bind (rebuild x v False
        (e\<lparr>rc_geometry := None, rc_planned_files := [], rc_selected_file_id := sel,
           rc_selected_hunk_index := hunk, rc_dirty := True\<rparr>))
      (\<lambda>c. case (rc_geometry c, anchor) of
          (Some g, Some a) \<Rightarrow> refresh_snapshot (c\<lparr>rc_scroll_top := restore_viewport_anchor g a\<rparr>)
        | _ \<Rightarrow> Some c))" for sel hunk anchor
  proof (rule settles_keeps [OF settles_bind [OF rebuild_ok]])
    fix c' assume c': "settled x v c'" "sound c'" "rc_files c' = rc_files
        (e\<lparr>rc_geometry := None, rc_planned_files := [], rc_selected_file_id := sel,
           rc_selected_hunk_index := hunk, rc_dirty := True\<rparr>)"
    have "on_screen x v (c'\<lparr>rc_scroll_top := restore_viewport_anchor g a\<rparr>)" if "rc_geometry c' = Some g" for g a
      by (rule on_screen_scroll [OF settled_on_screen [OF c'(1)]])
        (simp add: ctl_max_scroll_top_def that restore_viewport_anchor_def Let_def)
    with c' show "settles x v (rc_files
        (e\<lparr>rc_geometry := None, rc_planned_files := [], rc_selected_file_id := sel,
           rc_selected_hunk_index := hunk, rc_dirty := True\<rparr>))
      (case (rc_geometry c', anchor) of
          (Some g, Some a) \<Rightarrow> refresh_snapshot (c'\<lparr>rc_scroll_top := restore_viewport_anchor g a\<rparr>)
        | _ \<Rightarrow> Some c')"
      by (auto split: option.split intro!: refresh_ok settlesI)
  qed (use e in simp)
  then show ?thesis
    unfolding replace_review_files_def d(1) bind.bind_lunit Let_def fs_def [symmetric] e_def [symmetric] .
qed

section \<open>Opening context\<close>

text \<open>A gap is as long on the old side as on the new.\<close>

definition even_gap :: "collapsed_gap \<Rightarrow> bool" where
  "even_gap g \<longleftrightarrow> gap_line_count g SideOld = gap_line_count g SideNew"

lemma gap_at_even:
  assumes "old_cursor + n \<le> Suc u32_max" and "new_cursor + n \<le> Suc u32_max" and "0 < n"
  shows "even_gap (gap_at file_id pos i old_cursor new_cursor n)"
  using assms by (simp add: even_gap_def gap_line_count_def side_range_def gap_at_def sat_add_def)

lemma gap_steps_even:
  assumes "\<forall>nh \<in> set nhs. hunk_old_start (snd nh) \<le> u32_max \<and> hunk_new_start (snd nh) \<le> u32_max"
    and "\<forall>g \<in> set gaps. even_gap g \<and> gk_position (cg_key g) = Before"
  shows "\<forall>g \<in> set (snd (snd (fold (gap_step file_id) nhs (a, b, gaps)))). even_gap g \<and> gk_position (cg_key g) = Before"
  using assms
proof (induction nhs arbitrary: a b gaps)
  case (Cons nh nhs)
  obtain i h where nh: "nh = (i, h)" by (cases nh)
  define n where "n = min (hunk_old_start h - a) (hunk_new_start h - b)"
  have new: "even_gap (gap_at file_id Before i a b n)" if "0 < n"
    by (rule gap_at_even) (use that Cons.prems(1) in \<open>auto simp: n_def nh\<close>)
  obtain a' b' where step: "gap_step file_id nh (a, b, gaps) =
      (a', b', if 0 < n then gaps @ [gap_at file_id Before i a b n] else gaps)"
    by (simp add: gap_step_def nh Let_def n_def)
  have "gk_position (cg_key (gap_at file_id Before i a b n)) = Before" by (simp add: gap_at_def)
  with Cons.prems new show ?case
    unfolding fold_simps step by (intro Cons.IH) auto
qed simp

lemma gaps_even:
  assumes "\<forall>h \<in> set (df_hunks f). hunk_old_start h \<le> u32_max \<and> hunk_new_start h \<le> u32_max"
  shows "\<forall>g \<in> set (derive_collapsed_gaps f None). even_gap g \<and> gk_position (cg_key g) = Before"
proof -
  have "\<forall>nh \<in> set (zip [0..<length (df_hunks f)] (df_hunks f)).
      hunk_old_start (snd nh) \<le> u32_max \<and> hunk_new_start (snd nh) \<le> u32_max"
    using assms by (auto dest: set_zip_rightD)
  from gap_steps_even [OF this, of "[]" "df_id f" 1 1] show ?thesis
    by (simp add: derive_collapsed_gaps_def Let_def split_beta)
qed

lemma derived_gaps_cases:
  obtains "derive_collapsed_gaps f len = derive_collapsed_gaps f None"
  | i a b n where "derive_collapsed_gaps f len = derive_collapsed_gaps f None @ [gap_at (df_id f) Trailing i a b n]"
proof (cases len)
  case None
  with that(1) show thesis by simp
next
  case (Some p)
  obtain side k where p: "p = (side, k)" by (cases p)
  obtain oc nc gaps where fold: "fold (gap_step (df_id f)) (zip [0..<length (df_hunks f)] (df_hunks f)) (1, 1, []) = (oc, nc, gaps)"
    by (rule prod_cases3)
  define cursor where "cursor = (case side of SideOld \<Rightarrow> oc | SideNew \<Rightarrow> nc)"
  have none: "derive_collapsed_gaps f None = gaps"
    unfolding derive_collapsed_gaps_def Let_def fold by simp
  have eq: "derive_collapsed_gaps f len =
      (if df_hunks f = [] then gaps
       else if cursor \<le> k then gaps @ [gap_at (df_id f) Trailing (length (df_hunks f) - 1) oc nc (sat_add u32_max (k - cursor) 1)]
       else gaps)"
    unfolding derive_collapsed_gaps_def Let_def fold Some p cursor_def by simp
  show thesis
  proof (cases "df_hunks f = [] \<or> \<not> cursor \<le> k")
    case True
    then have "derive_collapsed_gaps f len = gaps" unfolding eq by auto
    with none that(1) show thesis by simp
  next
    case False
    then have "derive_collapsed_gaps f len = gaps @ [gap_at (df_id f) Trailing (length (df_hunks f) - 1) oc nc (sat_add u32_max (k - cursor) 1)]"
      unfolding eq by simp
    with none that(2) show thesis by simp
  qed
qed

text \<open>If a loaded source shows no gap to open, it shows the gaps there were.\<close>

lemma no_gap_found:
  assumes "select_gap_for_toggle (context_gaps st f) n = None"
  shows "context_gaps st f = derive_collapsed_gaps f None"
proof -
  have none: "\<forall>g \<in> set (context_gaps st f). gk_position (cg_key g) \<noteq> Trailing"
    using assms by (auto simp: select_gap_for_toggle_def or_else_def find_None_iff' split: option.splits)
  obtain len where len: "context_gaps st f = derive_collapsed_gaps f len"
    by (rule that) (rule context_gaps_def)
  show ?thesis
  proof (rule derived_gaps_cases [of f len])
    assume "derive_collapsed_gaps f len = derive_collapsed_gaps f None"
    with len show ?thesis by (rule trans)
  next
    fix i a b n
    assume "derive_collapsed_gaps f len = derive_collapsed_gaps f None @ [gap_at (df_id f) Trailing i a b n]"
    then have "gap_at (df_id f) Trailing i a b n \<in> set (context_gaps st f)" unfolding len by simp
    with none have "gk_position (cg_key (gap_at (df_id f) Trailing i a b n)) \<noteq> Trailing" by (rule bspec)
    then show ?thesis by (simp add: gap_at_def)
  qed
qed

definition closed_context :: "file_context_state option \<Rightarrow> bool" where
  "closed_context context \<longleftrightarrow> (case context of None \<Rightarrow> True | Some st \<Rightarrow> fc_expanded st = [])"

lemma closed_plan:
  assumes "closed_context a" and "closed_context b"
    and "plan_gaps f a = derive_collapsed_gaps f None" and "plan_gaps f b = derive_collapsed_gaps f None"
    and "\<forall>h \<in> set (df_hunks f). hunk_old_start h \<le> u32_max \<and> hunk_new_start h \<le> u32_max"
  shows "build_row_plan_with_context word_diff f layout headers a = build_row_plan_with_context word_diff f layout headers b"
proof (cases "df_hunks f = []")
  case True
  then show ?thesis by (simp add: build_row_plan_with_context_def)
next
  case False
  have gap: "gap_rows f layout a g = gap_rows f layout b g" if "g \<in> set (derive_collapsed_gaps f None)" for g
  proof -
    define n where "n = gap_line_count g SideNew"
    have even: "gap_line_count g side = n" for side
      using gaps_even [OF assms(5)] that by (cases side) (auto simp: even_gap_def n_def)
    have "\<not> (case c of None \<Rightarrow> False | Some st \<Rightarrow> cg_key g \<in> set (fc_expanded st))" if "closed_context c" for c
      using that by (auto simp: closed_context_def split: option.splits)
    then show ?thesis using assms(1,2) by (simp add: gap_rows_def Let_def even)
  qed
  have found: "place_gap f layout a (List.find p (derive_collapsed_gaps f None)) =
      place_gap f layout b (List.find p (derive_collapsed_gaps f None))" for p
    using gap by (auto simp: place_gap_def split: option.split dest: find_SomeD)
  have "rp_rows (build_row_plan_with_context word_diff f layout headers a) =
      rp_rows (build_row_plan_with_context word_diff f layout headers b)"
    unfolding row_plan_rows(1) [OF False] assms(3,4) gap_rows_before_def found ..
  moreover have "rp_hunk_anchor_keys (build_row_plan_with_context word_diff f layout headers a) =
      rp_hunk_anchor_keys (build_row_plan_with_context word_diff f layout headers b)"
    unfolding row_plan_rows(2) [OF False] ..
  moreover have "rp_line_number_digits (build_row_plan_with_context word_diff f layout headers a) =
      rp_line_number_digits (build_row_plan_with_context word_diff f layout headers b)"
    using False by (simp add: build_row_plan_with_context_def Let_def split_beta)
  ultimately show ?thesis by simp
qed

lemma notes_plan_base:
  assumes "build_row_plan_with_context (ex_word_diff x) f layout headers a = build_row_plan_with_context (ex_word_diff x) f layout headers b"
  shows "build_row_plan_with_notes x f layout headers a options = build_row_plan_with_notes x f layout headers b options"
  by (simp add: build_row_plan_with_notes_def assms)

lemma file_by_id_SomeD: "file_by_id files i = Some f \<Longrightarrow> f \<in> set files \<and> df_id f = i"
  by (auto simp: file_by_id_def dest: find_SomeD)

lemma same_id: "distinct (map df_id files) \<Longrightarrow> f \<in> set files \<Longrightarrow> g \<in> set files \<Longrightarrow> df_id f = df_id g \<Longrightarrow> f = g"
  by (auto simp: distinct_map dest: inj_onD)

lemma context_keeps_plan:
  assumes "f \<in> set (rc_files c)" and "distinct (map df_id (rc_files c))" and "g \<in> set (rc_files c)"
    and "\<And>layout headers. build_row_plan_with_context (ex_word_diff x) f layout headers (rc_contexts c (df_id f))
      = build_row_plan_with_context (ex_word_diff x) f layout headers (Some st)"
  shows "plan_one x (c\<lparr>rc_contexts := (rc_contexts c)(df_id f \<mapsto> st)\<rparr>) v g = plan_one x c v g"
proof -
  have plan: "build_row_plan_with_notes x g layout headers (((rc_contexts c)(df_id f \<mapsto> st)) (df_id g)) options
      = build_row_plan_with_notes x g layout headers (rc_contexts c (df_id g)) options" for layout headers options
  proof (cases "df_id g = df_id f")
    case True
    then have "g = f" by (rule same_id [OF assms(2,3,1)])
    with notes_plan_base [OF assms(4)] show ?thesis by simp
  qed simp
  show ?thesis
    unfolding plan_one_def
    by (simp add: plan is_file_compacted_def note_options_def content_width_def del: fun_upd_apply)
qed

lemma context_keeps_layout:
  assumes "settled x v c" and "f \<in> set (rc_files c)" and "distinct (map df_id (rc_files c))"
    and "\<And>layout headers. build_row_plan_with_context (ex_word_diff x) f layout headers (rc_contexts c (df_id f))
      = build_row_plan_with_context (ex_word_diff x) f layout headers (Some st)"
  shows "settled x v (c\<lparr>rc_contexts := (rc_contexts c)(df_id f \<mapsto> st)\<rparr>)"
proof -
  let ?c = "c\<lparr>rc_contexts := (rc_contexts c)(df_id f \<mapsto> st)\<rparr>"
  note laid = settled_laid [OF assms(1)]
  have ix: "set (rc_visible_indices c) \<subseteq> {..<length (rc_files c)}"
    using laid by (auto simp: laid_def dest: visible_indices_bound)
  have "plan_visible x ?c v = plan_visible x c v"
  proof -
    have "map (plan_one x ?c v) (map ((!) (rc_files c)) (rc_visible_indices c)) =
        map (plan_one x c v) (map ((!) (rc_files c)) (rc_visible_indices c))"
      by (rule map_cong [OF refl]) (use ix in \<open>auto intro!: context_keeps_plan assms\<close>)
    moreover have "visible_files ?c = visible_files c" by (simp add: visible_files_def)
    ultimately show ?thesis
      unfolding plan_visible_def by (simp only: laid_visible_files [OF laid] bind.bind_lunit)
  qed
  then have "laid x v ?c"
    using laid
    by (simp add: laid_def visible_indices_def respond_def plan_trailer_def lay_out_def content_width_def Let_def
        cong: if_cong option.case_cong split del: if_split)
  moreover have "cursor_ok ?c = cursor_ok c" "ctl_max_scroll_top ?c = ctl_max_scroll_top c"
    by (simp_all add: cursor_ok_def ctl_max_scroll_top_def cong: option.case_cong)
  moreover have "fresh_snapshot ?c = fresh_snapshot c"
  proof -
    have "file_snapshot ?c = file_snapshot c"
      by (rule ext) (simp add: file_snapshot_def is_file_compacted_def thread_count_def)
    then show ?thesis
      by (simp add: fresh_snapshot_def visible_files_def annotated_hunk_targets_def selected_position_def
          selected_bound_def ctl_max_scroll_top_def count_notes_def Let_def
          cong: if_cong option.case_cong split del: if_split)
  qed
  ultimately show ?thesis using assms(1) by (simp add: settled_def on_screen_def drawn_def)
qed

lemma sound_contexts:
  "sound c \<Longrightarrow> (fc_source st = None \<Longrightarrow> fc_expanded st = []) \<Longrightarrow> sound (c\<lparr>rc_contexts := (rc_contexts c)(i \<mapsto> st)\<rparr>)"
  by (auto simp: sound_def threads_ok_def contexts_ok_def ran_def)

lemma context_of_closed: "sound c \<Longrightarrow> fc_source (context_of c i) = None \<Longrightarrow> fc_expanded (context_of c i) = []"
  by (auto simp: sound_def contexts_ok_def context_of_def ran_def split: option.splits)

lemma toggle_file_context_ok:
  assumes "settled x v c" and "sound c" and f: "file_by_id (rc_files c) (df_id f) = Some f"
  shows "keeps x (map_option fst (toggle_file_context x requested load f v c))"
proof -
  define now_open where "now_open = context_of c (df_id f)"
  define loaded where "loaded = (if fc_source now_open = None then now_open\<lparr>fc_source := Some (load_source load f)\<rparr> else now_open)"
  define hunk where "hunk = (case requested of Some gap \<Rightarrow> gk_hunk_index gap
      | None \<Rightarrow> (case rc_selected_hunk_index c of None \<Rightarrow> 0 | Some h \<Rightarrow> h))"
  have fin: "f \<in> set (rc_files c)" using file_by_id_SomeD [OF f] by simp
  have ids: "distinct (map df_id (rc_files c))" and starts: "\<forall>h \<in> set (df_hunks f). hunk_old_start h \<le> u32_max \<and> hunk_new_start h \<le> u32_max"
    using assms(2) fin by (auto simp: sound_def files_ok_def)
  note closed = context_of_closed [OF assms(2), of "df_id f", folded now_open_def]
  have source: "fc_source loaded \<noteq> None" by (simp add: loaded_def)
  have change: "keeps x (rebuild_dirty x v (c\<lparr>rc_contexts := (rc_contexts c)(df_id f \<mapsto> st)\<rparr>))"
    if "fc_source st = None \<Longrightarrow> fc_expanded st = []" for st
    by (rule dirty_keeps [OF sound_contexts [OF assms(2) that]])
  have unopened: "keeps x (Some (c\<lparr>rc_contexts := (rc_contexts c)(df_id f \<mapsto> loaded)\<rparr>))"
    if none: "select_gap_for_toggle (context_gaps loaded f) hunk = None"
  proof (rule settled_keeps)
    show "settled x v (c\<lparr>rc_contexts := (rc_contexts c)(df_id f \<mapsto> loaded)\<rparr>)"
    proof (rule context_keeps_layout [OF assms(1) fin ids])
      fix layout headers
      show "build_row_plan_with_context (ex_word_diff x) f layout headers (rc_contexts c (df_id f))
          = build_row_plan_with_context (ex_word_diff x) f layout headers (Some loaded)"
      proof (cases "fc_source now_open = None")
        case True
        have "closed_context (rc_contexts c (df_id f))" "closed_context (Some loaded)"
          using closed [OF True] True
          by (auto simp: closed_context_def loaded_def now_open_def context_of_def split: option.splits)
        moreover have "plan_gaps f (rc_contexts c (df_id f)) = derive_collapsed_gaps f None"
          using True by (auto simp: plan_gaps_def context_gaps_def now_open_def context_of_def split: option.splits)
        moreover have "plan_gaps f (Some loaded) = derive_collapsed_gaps f None"
          using no_gap_found [OF none] by (simp add: plan_gaps_def)
        ultimately show ?thesis by (rule closed_plan [OF _ _ _ _ starts])
      next
        case False
        then show ?thesis by (auto simp: loaded_def now_open_def context_of_def split: option.splits)
      qed
    qed
    show "sound (c\<lparr>rc_contexts := (rc_contexts c)(df_id f \<mapsto> loaded)\<rparr>)"
      by (rule sound_contexts [OF assms(2)]) (use source in simp)
  qed
  define sel where "sel = select_gap_for_toggle (context_gaps loaded f) hunk"
  define after where "after = c\<lparr>rc_contexts := (rc_contexts c)(df_id f \<mapsto> loaded)\<rparr>"
  have quiet: "keeps x (Some after)" if "sel = None"
    unfolding after_def by (rule unopened) (use that in \<open>simp add: sel_def\<close>)
  have "keeps x (map_option fst (case or_else target sel of
        None \<Rightarrow> Some (after, result_of False (source_error loaded))
      | Some k \<Rightarrow> Option.bind (rebuild_dirty x v (c\<lparr>rc_contexts := (rc_contexts c)(df_id f \<mapsto>
          loaded\<lparr>fc_expanded := List.insert k (fc_expanded loaded)\<rparr>)\<rparr>))
          (\<lambda>c. Some (c, result_of True (source_error loaded)))))" for target
  proof (cases "or_else target sel")
    case None
    then have "sel = None" by (cases target) simp_all
    from quiet [OF this] None show ?thesis by simp
  next
    case (Some k)
    with change [of "loaded\<lparr>fc_expanded := List.insert k (fc_expanded loaded)\<rparr>"] source show ?thesis
      by (simp add: map_fst_bind)
  qed
  moreover have "keeps x (rebuild_dirty x v (c\<lparr>rc_contexts := (rc_contexts c)(df_id f \<mapsto>
      now_open\<lparr>fc_expanded := filter p (fc_expanded now_open)\<rparr>)\<rparr>))" for p
    by (rule change) (use closed in simp)
  ultimately show ?thesis
    unfolding toggle_file_context_def Let_def hunk_def [symmetric] now_open_def [symmetric] loaded_def [symmetric]
      sel_def [symmetric] after_def [symmetric]
    by (simp add: map_fst_bind)
qed

lemma toggle_context_ok:
  assumes "review_ok x c"
  shows "keeps x (map_option fst (toggle_context_target x requested load v c))"
proof -
  obtain d where d: "ensure_geometry x v c = Some d" "settled x v d" "sound d" using ensured [OF assms] .
  have "keeps x (map_option fst (toggle_file_context x requested load f v d))" if "file_by_id (rc_files d) i = Some f" for i f
    by (rule toggle_file_context_ok [OF d(2,3)]) (use that file_by_id_SomeD [OF that] in simp)
  with settled_keeps [OF d(2,3)] show ?thesis
    by (auto simp: toggle_context_target_def d(1) Option.bind_eq_Some_conv split: option.split)
qed

section \<open>Notes and questions\<close>

lemma filter_same_length: "length (filter p xs) = length xs \<Longrightarrow> filter p xs = xs"
  by (simp add: filter_id_conv) (metis filter_id_conv length_filter_less less_irrefl)

lemma note_markup_width_ok:
  assumes "review_ok x c"
  obtains d w where "note_markup_width x v side c = Some (d, w)" "settled x v d" "sound d"
proof -
  obtain d where "ensure_geometry x v c = Some d" "settled x v d" "sound d" using ensured [OF assms] .
  with that show thesis by (simp add: note_markup_width_def)
qed

lemma add_live_note_ok:
  assumes "review_ok x c"
  shows "keeps x (map_option fst (add_live_note x input v c))"
proof (cases "live_note_checked c input")
  case (Inl e)
  with keepsI [OF assms] show ?thesis by (simp add: add_live_note_def)
next
  case (Inr p)
  obtain summary target where p: "p = (summary, target)" by (cases p)
  obtain d w where "note_markup_width x v (li_side input) c = Some (d, w)" "sound d"
    using note_markup_width_ok [OF assms] by blast
  with Inr p show ?thesis by (simp add: add_live_note_def Let_def rebuilt_keeps)
qed

lemma clear_session_notes_ok:
  assumes "review_ok x c"
  shows "keeps x (map_option fst (clear_session_notes x requested include_user v c))"
proof -
  define live where "live = filter (\<lambda>n. \<not> in_requested_file (rc_files c) requested (ln_target n)) (rc_live_notes c)"
  define user where "user = (if include_user
      then filter (\<lambda>n. \<not> in_requested_file (rc_files c) requested (hn_target n)) (rc_human_notes c) else rc_human_notes c)"
  have "live = rc_live_notes c" if "\<not> 0 < length (rc_live_notes c) - length live"
    using that unfolding live_def by (intro filter_same_length) (simp add: le_antisym)
  moreover have "user = rc_human_notes c" if "\<not> 0 < length (rc_human_notes c) - length user"
    using that by (cases include_user) (auto simp: user_def intro!: filter_same_length le_antisym)
  ultimately show ?thesis
    using keepsI [OF assms] review_ok_sound [OF assms]
    unfolding clear_session_notes_def Let_def live_def [symmetric] user_def [symmetric]
    by (auto simp: rebuilt_keeps)
qed

lemma remove_session_note_ok: "review_ok x c \<Longrightarrow> keeps x (map_option fst (remove_session_note x note_id v c))"
  by (simp add: remove_session_note_def rebuilt_keeps keepsI review_ok_sound split: option.split)

lemma comment_target_some:
  assumes "\<exists>files. visible_files c = Some files"
  shows "comment_target delta c \<noteq> None"
proof -
  from assms obtain ts where ts: "shown_targets c = Some ts" by (auto simp: shown_targets_def)
  have "(case wrapping_index n (length ts) delta of None \<Rightarrow> Some (Inl e)
      | Some i \<Rightarrow> map_option h (get ts i)) \<noteq> None" for n e and h :: "hunk_target \<Rightarrow> string + string \<times> usize"
    by (auto simp: get_def split: option.split dest!: wrapping_index_bound)
  then show ?thesis unfolding comment_target_def ts bind.bind_lunit Let_def .
qed

text \<open>The files a session can be sent to are files of the review.\<close>

lemma comment_target_file:
  assumes "comment_target delta c = Some (Inr (i, h))"
  shows "\<exists>f \<in> set (rc_files c). df_id f = i"
proof -
  from assms obtain ts where ts: "shown_targets c = Some ts" by (auto simp: comment_target_def Option.bind_eq_Some_conv)
  obtain n t where "get ts n = Some t" "ht_file_id t = i"
    using assms unfolding comment_target_def ts bind.bind_lunit Let_def by (auto split: option.splits)
  note t = get_in_set [OF this(1)] this(2)
  from ts t obtain files f where f: "visible_files c = Some files" "f \<in> set files" "df_id f = i"
    by (auto simp: shown_targets_def list_ex_iff)
  have "Some f \<in> set (map Some files)" using f(2) by simp
  then have "Some f \<in> set (map (get (rc_files c)) (rc_visible_indices c))"
    unfolding those_map_Some [OF f(1) [unfolded visible_files_def]] .
  then have "f \<in> set (rc_files c)" by (auto dest!: sym [of "Some f"] get_in_set)
  with f(3) show ?thesis by blast
qed

lemma review_ok_visible_files: "review_ok x c \<Longrightarrow> \<exists>files. visible_files c = Some files"
  using settled_visible_files by (auto simp: review_ok_def visible_files_def)

lemma file_by_id_exists:
  assumes "\<exists>f \<in> set files. df_id f = i"
  shows "\<exists>f. file_by_id files i = Some f"
proof -
  from assms obtain f where "f \<in> set files" "df_id f = i" by blast
  from find_exists [of f files "\<lambda>f. df_id f = i", OF this] show ?thesis by (auto simp: file_by_id_def)
qed

lemma line_target_file:
  assumes "line_target file_path hunk_index side line c = Inr (i, h)"
  shows "\<exists>f \<in> set (rc_files c). df_id f = i"
  using assms
  by (auto simp: line_target_def and_then_Inr_iff split: option.splits if_splits dest: find_SomeD)

lemma navigate_session_target_ok:
  assumes "review_ok x c"
  shows "keeps x (map_option fst (navigate_session_target x file_path hunk_index side line comment_delta v c))"
proof -
  obtain target where target: "(case comment_delta of
      Some delta \<Rightarrow> comment_target delta c | None \<Rightarrow> Some (line_target file_path hunk_index side line c)) = Some target"
    using comment_target_some [OF review_ok_visible_files [OF assms]] by (cases comment_delta) auto
  show ?thesis
  proof (cases target)
    case (Inl e)
    then show ?thesis unfolding navigate_session_target_def target by (simp add: keepsI [OF assms])
  next
    case (Inr p)
    obtain i h where p: "p = (i, h)" by (cases p)
    have "\<exists>f \<in> set (rc_files c). df_id f = i"
      using target Inr p comment_target_file line_target_file by (cases comment_delta) auto
    from file_by_id_exists [OF this] obtain f where f: "file_by_id (rc_files c) i = Some f" by blast
    obtain d where "select_target x i h v c = Some d" "settled x v d" "sound d" "rc_files d = rc_files c"
      using select_target_ok [OF review_ok_sound [OF assms] refl] by (rule settlesE)
    with f show ?thesis unfolding navigate_session_target_def target
      by (simp add: Inr p settled_keeps)
  qed
qed

lemma open_draft_sound [simp]: "sound (open_draft target remote c) = sound c"
  by (simp add: open_draft_def)

lemma open_question_sound [simp]: "sound (open_question thread target c) = sound c"
  by (simp add: open_question_def Let_def)

lemma begin_human_note_ok:
  assumes "review_ok x c"
  shows "keeps x (map_option fst (begin_human_note x selection v c))"
proof -
  obtain d where d: "ensure_geometry x v c = Some d" "settled x v d" "sound d" using ensured [OF assms] .
  then show ?thesis
    by (simp add: begin_human_note_def settled_keeps rebuilt_keeps split: option.split)
qed

lemma begin_remote_human_note_ok:
  assumes "review_ok x c"
  shows "keeps x (map_option fst (begin_remote_human_note x selection v c))"
proof -
  obtain d where d: "ensure_geometry x v c = Some d" "settled x v d" "sound d" using ensured [OF assms] .
  then show ?thesis
    by (simp add: begin_remote_human_note_def settled_keeps rebuilt_keeps split: sum.split prod.split)
qed

lemma begin_ask_ok:
  assumes "review_ok x c"
  shows "keeps x (map_option fst (begin_ask x selection v c))"
proof -
  obtain d where d: "ensure_geometry x v c = Some d" "settled x v d" "sound d" using ensured [OF assms] .
  then show ?thesis
    by (simp add: begin_ask_def Let_def settled_keeps rebuilt_keeps split: option.split)
qed

lemma set_draft_caret_ok:
  assumes "review_ok x c"
  shows "keeps x (map_option fst (set_draft_caret x caret v c))"
proof -
  have ask: "keeps x (Some (c\<lparr>rc_ask_draft := Some (d\<lparr>ad_caret := n\<rparr>)\<rparr>))" if "rc_ask_draft c = Some d" "ad_caret d = n" for d n
  proof -
    have "d\<lparr>ad_caret := n\<rparr> = d" using that(2) by auto
    moreover have "c\<lparr>rc_ask_draft := rc_ask_draft c\<rparr> = c" by simp
    ultimately show ?thesis using keepsI [OF assms] unfolding that(1) by simp
  qed
  have draft: "keeps x (Some (c\<lparr>rc_human_note_draft := Some (d\<lparr>hd_caret := n\<rparr>)\<rparr>))"
    if "rc_human_note_draft c = Some d" "hd_caret d = n" for d n
  proof -
    have "d\<lparr>hd_caret := n\<rparr> = d" using that(2) by auto
    moreover have "c\<lparr>rc_human_note_draft := rc_human_note_draft c\<rparr> = c" by simp
    ultimately show ?thesis using keepsI [OF assms] unfolding that(1) by simp
  qed
  show ?thesis
    using review_ok_sound [OF assms]
    by (auto simp: set_draft_caret_def Let_def rebuilt_keeps ask draft keepsI [OF assms] split: option.split)
qed

lemma draft_ops_ok:
  assumes "review_ok x c"
  shows "keeps x (map_option fst (update_human_note_draft x body v c))"
    and "keeps x (map_option fst (cancel_human_note_draft x v c))"
    and "keeps x (map_option fst (save_human_note_draft x v c))"
    and "keeps x (map_option fst (edit_human_note x note_id v c))"
    and "keeps x (map_option fst (add_human_note x file_path new_range old_range body v c))"
    and "keeps x (map_option fst (update_ask_draft x body v c))"
    and "keeps x (map_option fst (cancel_ask_draft x v c))"
    and "keeps x (map_option fst (commit_ask_draft x v c))"
    and "keeps x (map_option fst (resolve_ask x note_id state v c))"
  using keepsI [OF assms] review_ok_sound [OF assms]
  by (simp_all add: update_human_note_draft_def cancel_human_note_draft_def save_human_note_draft_def
      edit_human_note_def add_human_note_def update_ask_draft_def cancel_ask_draft_def commit_ask_draft_def
      resolve_ask_def Let_def rebuilt_keeps split: option.split)

lemma remove_notes_ok:
  assumes "review_ok x c"
  shows "keeps x (map_option fst (remove_human_note x note_id v c))"
    and "keeps x (map_option fst (clear_human_notes x requested v c))"
proof -
  have same: "keeps x (Some (c\<lparr>rc_human_notes := filter p (rc_human_notes c)\<rparr>))"
    if "length (filter p (rc_human_notes c)) = length (rc_human_notes c)" for p
    using filter_same_length [OF that] keepsI [OF assms] by simp
  show "keeps x (map_option fst (remove_human_note x note_id v c))"
    using same review_ok_sound [OF assms] by (simp add: remove_human_note_def Let_def rebuilt_keeps)
  have "keeps x (map_option fst (if 0 < length (rc_human_notes c) - length (filter p (rc_human_notes c))
      then rebuilt x v n (c\<lparr>rc_human_notes := filter p (rc_human_notes c)\<rparr>)
      else Some (c\<lparr>rc_human_notes := filter p (rc_human_notes c)\<rparr>, n)))" for p and n :: nat
    using same [of p] review_ok_sound [OF assms] length_filter_le [of p "rc_human_notes c"]
    by (auto simp: rebuilt_keeps le_antisym)
  then show "keeps x (map_option fst (clear_human_notes x requested v c))"
    unfolding clear_human_notes_def Let_def .
qed

section \<open>The controller as a machine\<close>

text \<open>The operations other parts of the program call, with the size of the screen they pass.\<close>

datatype review_event =
    Apply review_action viewport
  | TakeSnapshot viewport
  | HitTest review_point viewport
  | SelectionText selection_point selection_point viewport
  | SelectedLineRange viewport
  | AttachGithubThreads "github_review_thread list" viewport
  | ShowAgentNotes bool viewport
  | ReplaceReviewFiles "diff_file list" viewport
  | ResizeSidebar u16 viewport
  | ScrollToMouseRow u16 viewport
  | ToggleContext "gap_key option" "source_spec \<Rightarrow> source_failure + string option" viewport
  | AddLiveNote live_note_input viewport
  | ClearSessionNotes "string option" bool viewport
  | RemoveSessionNote string viewport
  | NavigateSession "string option" "usize option" "note_anchor_side option" "u32 option" "int option" viewport
  | BeginHumanNote "(selection_point \<times> selection_point) option" viewport
  | BeginRemoteHumanNote "(selection_point \<times> selection_point) option" viewport
  | UpdateHumanNoteDraft string viewport
  | CancelHumanNoteDraft viewport
  | SaveHumanNoteDraft viewport
  | EditHumanNote string viewport
  | AddHumanNote string "line_range option" "line_range option" string viewport
  | RemoveHumanNote string viewport
  | ClearHumanNotes "string option" viewport
  | BeginAsk "(selection_point \<times> selection_point) option" viewport
  | UpdateAskDraft string viewport
  | SetDraftCaret usize viewport
  | CancelAskDraft viewport
  | CommitAskDraft viewport
  | ResolveAsk string ask_note_state viewport

fun perform_event :: "externals \<Rightarrow> review_event \<Rightarrow> review_controller \<Rightarrow> review_controller option" where
  "perform_event x (Apply action v) c = map_option fst (review_apply x action v c)"
| "perform_event x (TakeSnapshot v) c = map_option fst (take_snapshot x v c)"
| "perform_event x (HitTest point v) c = map_option fst (hit_test x point v c)"
| "perform_event x (SelectionText anchor focus v) c = map_option fst (selection_text x anchor focus v c)"
| "perform_event x (SelectedLineRange v) c = map_option fst (selected_line_range x v c)"
| "perform_event x (AttachGithubThreads threads v) c = attach_github_threads x threads v c"
| "perform_event x (ShowAgentNotes show_notes v) c = toggle_agent_notes x show_notes v c"
| "perform_event x (ReplaceReviewFiles files v) c = replace_review_files x files v c"
| "perform_event x (ResizeSidebar width v) c = resize_sidebar x width v c"
| "perform_event x (ScrollToMouseRow row v) c = scroll_to_mouse_row x row v c"
| "perform_event x (ToggleContext requested load v) c = map_option fst (toggle_context_target x requested load v c)"
| "perform_event x (AddLiveNote input v) c = map_option fst (add_live_note x input v c)"
| "perform_event x (ClearSessionNotes requested include_user v) c =
     map_option fst (clear_session_notes x requested include_user v c)"
| "perform_event x (RemoveSessionNote note_id v) c = map_option fst (remove_session_note x note_id v c)"
| "perform_event x (NavigateSession file_path hunk_index side line delta v) c =
     map_option fst (navigate_session_target x file_path hunk_index side line delta v c)"
| "perform_event x (BeginHumanNote selection v) c = map_option fst (begin_human_note x selection v c)"
| "perform_event x (BeginRemoteHumanNote selection v) c = map_option fst (begin_remote_human_note x selection v c)"
| "perform_event x (UpdateHumanNoteDraft body v) c = map_option fst (update_human_note_draft x body v c)"
| "perform_event x (CancelHumanNoteDraft v) c = map_option fst (cancel_human_note_draft x v c)"
| "perform_event x (SaveHumanNoteDraft v) c = map_option fst (save_human_note_draft x v c)"
| "perform_event x (EditHumanNote note_id v) c = map_option fst (edit_human_note x note_id v c)"
| "perform_event x (AddHumanNote file_path new_range old_range body v) c =
     map_option fst (add_human_note x file_path new_range old_range body v c)"
| "perform_event x (RemoveHumanNote note_id v) c = map_option fst (remove_human_note x note_id v c)"
| "perform_event x (ClearHumanNotes requested v) c = map_option fst (clear_human_notes x requested v c)"
| "perform_event x (BeginAsk selection v) c = map_option fst (begin_ask x selection v c)"
| "perform_event x (UpdateAskDraft question v) c = map_option fst (update_ask_draft x question v c)"
| "perform_event x (SetDraftCaret caret v) c = map_option fst (set_draft_caret x caret v c)"
| "perform_event x (CancelAskDraft v) c = map_option fst (cancel_ask_draft x v c)"
| "perform_event x (CommitAskDraft v) c = map_option fst (commit_ask_draft x v c)"
| "perform_event x (ResolveAsk ask_id state v) c = map_option fst (resolve_ask x ask_id state v c)"

text \<open>What the program owes the controller: threads have comments and files are well formed.\<close>

fun allowed_event :: "review_event \<Rightarrow> bool" where
  "allowed_event (AttachGithubThreads threads v) = list_all (\<lambda>t. gt_comments t \<noteq> []) threads"
| "allowed_event (ReplaceReviewFiles files v) = files_ok files"
| "allowed_event _ = True"

lemma perform_event_keeps:
  assumes "review_ok x c" and "allowed_event event"
  shows "keeps x (perform_event x event c)"
proof (cases event)
  case (Apply action v)
  then show ?thesis by (simp add: settles_keeps [OF review_apply_ok [OF assms(1) refl]])
next
  case (TakeSnapshot v)
  obtain d where "take_snapshot x v c = Some (d, rc_snapshot d)" "settled x v d" "sound d"
    using take_snapshot_ok [OF assms(1)] by blast
  with TakeSnapshot show ?thesis by (simp add: settled_keeps)
next
  case (AttachGithubThreads threads v)
  with assms show ?thesis by (simp add: attach_github_threads_ok list_all_iff)
next
  case (ReplaceReviewFiles files v)
  with assms show ?thesis by (simp add: replace_review_files_ok)
qed (simp_all add: assms(1) hit_test_ok selection_text_ok selected_line_range_ok toggle_agent_notes_ok resize_sidebar_ok
    scroll_to_mouse_row_ok toggle_context_ok add_live_note_ok clear_session_notes_ok remove_session_note_ok
    navigate_session_target_ok begin_human_note_ok begin_remote_human_note_ok begin_ask_ok set_draft_caret_ok
    draft_ops_ok remove_notes_ok)

interpretation review: safe_machine "perform_event x" allowed_event "review_ok x" for x
  by unfold_locales (use perform_event_keeps in \<open>simp add: keeps_def\<close>)

lemma review_controller_new_ok:
  assumes "review_controller_new globs files opts = Some c" and "files_ok files"
  shows "review_ok x c"
proof -
  obtain is_test where is_test: "test_file_matcher_new globs (ro_test_file_patterns opts) = Some is_test"
    using assms(1) by (auto simp: review_controller_new_def Option.bind_eq_Some_conv)
  define fs where "fs = (if ro_tests_last opts then order_tests_last is_test files else files)"
  have "files_ok fs" using assms(2) by (simp add: fs_def files_ok_order)
  moreover have "rc_files c = fs" "rc_visible_indices c = []" "rc_dirty c" "rc_github_threads c = thread_placement_default"
    "rc_github_thread_source c = []" "rc_contexts c = Map.empty" "rc_progress c = progress_new fs"
    using assms(1) by (auto simp: review_controller_new_def is_test fs_def Let_def)
  ultimately show ?thesis
    by (simp add: review_ok_def sound_def threads_ok_def contexts_ok_def place_github_threads_def progress_new_ok)
qed


text \<open>
  C2. What is drawn is the current state: after any such sequence, the snapshot that is taken for
  drawing is the one computed anew from the state, and the layout it shows is the layout of the
  visible files, notes, threads and options as they are now; the cursor is on a row of that
  layout, whose file and hunk are the selected ones, unless no row can be selected; and the
  scroll position is not below the last screen.
\<close>

theorem review_draws_current_state:
  assumes "review_controller_new globs files opts = Some c0" and "files_ok files"
    and "list_all allowed_event events" and "run_all (perform_event x) events c0 = Some c"
  shows "\<exists>d. take_snapshot x v c = Some (d, rc_snapshot d)
    \<and> fresh_snapshot d = Some (rc_snapshot d)
    \<and> rc_visible_indices d = visible_indices x d
    \<and> plan_visible x d v = Some (rc_planned_files d)
    \<and> rc_trailer_plan d = plan_trailer x d v
    \<and> rc_geometry d = Some (lay_out x d v)
    \<and> cursor_ok d
    \<and> rc_scroll_top d \<le> max_scroll_top (lay_out x d v)"
proof -
  have "review_ok x c"
    using review.run_safe [OF review_controller_new_ok [OF assms(1,2)] assms(3), where x = x] assms(4) by auto
  then obtain d where "take_snapshot x v c = Some (d, rc_snapshot d)" "settled x v d"
    using take_snapshot_ok by blast
  then show ?thesis
    by (auto simp: settled_def on_screen_def drawn_def laid_def ctl_max_scroll_top_def)
qed

text \<open>A note is written on the first file of a review of two hunks.\<close>

definition plain_externals :: externals where
  "plain_externals =
     \<lparr>ex_word_diff = whole_diff, ex_width = length, ex_char_width = (\<lambda>_. 1),
      ex_lowercase = (\<lambda>s. s)\<rparr>"

definition sample_viewport :: viewport where
  "sample_viewport = \<lparr>vp_width = 80, vp_height = 20\<rparr>"

definition note_events :: "review_event list" where
  "note_events =
     [Apply (MoveCursor 1) sample_viewport, BeginHumanNote None sample_viewport,
      UpdateHumanNoteDraft ''why?'' sample_viewport, SaveHumanNoteDraft sample_viewport,
      ToggleContext None (\<lambda>_. Inr None) sample_viewport]"

definition sample_review :: "review_controller option" where
  "sample_review = review_controller_new (\<lambda>_. Some (\<lambda>_. False)) [two_hunks [unchanged_line 1]] review_options_default"

lemma sample_review_some: "\<exists>c. sample_review = Some c"
  by (simp add: sample_review_def review_controller_new_def test_file_matcher_new_def Let_def)

lemma sample_review_ok: "files_ok [two_hunks [unchanged_line 1]]" "list_all allowed_event note_events"
  by (simp_all add: files_ok_def two_hunks_def note_events_def u32_max_def)


theorem review_draws_current_state_witness:
  "\<exists>c0 c d. sample_review = Some c0 \<and> run_all (perform_event plain_externals) note_events c0 = Some c
    \<and> take_snapshot plain_externals sample_viewport c = Some (d, rc_snapshot d)
    \<and> fresh_snapshot d = Some (rc_snapshot d)
    \<and> rc_geometry d = Some (lay_out plain_externals d sample_viewport)
    \<and> cursor_ok d"
proof -
  obtain c0 where c0: "sample_review = Some c0" using sample_review_some by blast
  note new = c0 [unfolded sample_review_def]
  obtain c where "run_all (perform_event plain_externals) note_events c0 = Some c"
    using review.run_safe [OF review_controller_new_ok [OF new sample_review_ok(1)] sample_review_ok(2)] by blast
  with review_draws_current_state [OF new sample_review_ok this, of sample_viewport] c0 show ?thesis by blast
qed

end
