(* ===== verification/Markup_Round_Trip.thy ===== *)
theory Markup_Round_Trip
  imports Markup_Props
begin

text \<open>
  Documents as they are written, and that the parser reads back what was written: the
  specification of \<open>src/markup/parse.rs\<close> on well-formed input.
\<close>

section \<open>Documents\<close>

datatype stml_source =
    SText string
  | SElement string "(string \<times> string) list" "stml_source list"

definition write_attr :: "string \<times> string \<Rightarrow> string" where
  "write_attr kv = '' '' @ fst kv @ ''='' @ [DQUOTE] @ snd kv @ [DQUOTE]"

fun write_node :: "stml_source \<Rightarrow> string" where
  "write_node (SText t) = t"
| "write_node (SElement tag kvs cs) =
     ''<'' @ tag @ concat (map write_attr kvs) @ ''>''
     @ (if is_void tag then [] else concat (map write_node cs) @ ''</'' @ tag @ ''>'')"

fun tree_of :: "stml_source \<Rightarrow> stml_node" where
  "tree_of (SText t) = StmlText t"
| "tree_of (SElement tag kvs cs) = StmlElement tag (collect_map kvs) (map tree_of cs)"

definition name_ok :: "string \<Rightarrow> bool" where
  "name_ok name \<longleftrightarrow> name \<noteq> [] \<and> list_all is_name_byte name \<and> to_ascii_lowercase name = name"

definition tag_ok :: "string \<Rightarrow> bool" where
  "tag_ok tag \<longleftrightarrow> name_ok tag \<and> is_ascii_alphabetic (hd tag)"

definition attr_ok :: "string \<times> string \<Rightarrow> bool" where
  "attr_ok kv \<longleftrightarrow> name_ok (fst kv) \<and> harmless (snd kv) \<and> DQUOTE \<notin> set (snd kv)"

definition is_text :: "stml_source \<Rightarrow> bool" where
  "is_text n = (case n of SText _ \<Rightarrow> True | SElement _ _ _ \<Rightarrow> False)"

fun separated :: "stml_source list \<Rightarrow> bool" where
  "separated (a # b # ns) = (\<not> (is_text a \<and> is_text b) \<and> separated (b # ns))"
| "separated ns = True"

definition raw_ok :: "string \<Rightarrow> stml_source list \<Rightarrow> bool" where
  "raw_ok tag cs =
     (case cs of
        [] \<Rightarrow> True
      | [SText t] \<Rightarrow> t \<noteq> [] \<and> harmless t \<and> \<not> contains (to_ascii_lowercase t) (''</'' @ tag)
      | _ \<Rightarrow> False)"

fun well_formed :: "stml_source \<Rightarrow> bool" where
  "well_formed (SText t) = (t \<noteq> [] \<and> harmless t \<and> CHR ''<'' \<notin> set t)"
| "well_formed (SElement tag kvs cs) =
     (tag_ok tag \<and> list_all attr_ok kvs
      \<and> (if is_void tag then cs = []
         else if is_raw tag then raw_ok tag cs
         else separated cs \<and> list_all well_formed cs))"

section \<open>Reading a tag\<close>

lemma name_byte_not: "is_name_byte c \<Longrightarrow> c \<noteq> CHR ''>'' \<and> c \<noteq> CHR ''/'' \<and> c \<noteq> CHR ''='' \<and> c \<noteq> CHR '' '' \<and> c \<noteq> CHR ''<''
    \<and> \<not> is_ascii_space c"
  by (auto simp: is_name_byte_def is_ascii_alphanumeric_def is_ascii_space_def)

lemma take_name: "list_all is_name_byte name \<Longrightarrow> \<not> is_name_byte c \<Longrightarrow>
    takeWhile is_name_byte (name @ c # s) = name \<and> dropWhile is_name_byte (name @ c # s) = c # s"
  by (induction name) auto

lemma read_attr:
  assumes "attr_ok kv"
  shows "read_attrs (write_attr kv @ s) attrs = read_attrs s (attrs(fst kv \<mapsto> snd kv))"
proof -
  obtain k v where kv: "kv = (k, v)" by fastforce
  from assms have k: "k \<noteq> []" "list_all is_name_byte k" "to_ascii_lowercase k = k"
    and v: "sanitize v = v" "DQUOTE \<notin> set v"
    by (auto simp: attr_ok_def name_ok_def kv sanitize_def sanitize_harmless_id)
  from k obtain c k' where c: "k = c # k'" "is_name_byte c" by (cases k) auto
  note nc = name_byte_not [OF c(2)]
  have sp: "skip_space (write_attr kv @ s) = k @ ''='' @ [DQUOTE] @ v @ [DQUOTE] @ s"
    using nc by (simp add: write_attr_def kv skip_space_def c(1) is_ascii_space_def)
  have eq: "\<not> is_name_byte (CHR ''='')" by (simp add: is_name_byte_def is_ascii_alphanumeric_def)
  have quoted: "\<forall>x \<in> set v. x \<noteq> DQUOTE" using v(2) by auto
  have val: "attribute_value (CHR ''='' # DQUOTE # v @ DQUOTE # s) = (v, s)"
    by (simp add: attribute_value_def skip_space_def is_ascii_space_def read_attribute_value_def
        takeWhile_stop [OF quoted] dropWhile_stop [OF quoted])
  from take_name [OF k(2) eq, of "DQUOTE # v @ DQUOTE # s"] c nc sp val v(1) k(3) show ?thesis
    by (subst read_attrs.simps) (simp add: kv del: takeWhile.simps dropWhile.simps)
qed

lemma read_attrs_written:
  "list_all attr_ok kvs \<Longrightarrow>
   read_attrs (concat (map write_attr kvs) @ ''>'' @ s) attrs = Some (attrs ++ collect_map kvs, False, s)"
proof (induction kvs arbitrary: attrs)
  case Nil
  show ?case by (subst read_attrs.simps) (simp add: skip_space_def is_ascii_space_def collect_map_def)
next
  case (Cons kv kvs)
  have "attrs(fst kv \<mapsto> snd kv) ++ collect_map kvs = attrs ++ collect_map (kv # kvs)"
    by (cases kv) (simp add: collect_map_def map_add_def fun_eq_iff split: option.splits)
  with Cons read_attr [of kv] show ?case by simp
qed

lemma read_open_tag_written:
  assumes "tag_ok tag" and "list_all attr_ok kvs"
  shows "read_open_tag (''<'' @ tag @ concat (map write_attr kvs) @ ''>'' @ s)
    = Some \<lparr>ot_tag = tag, ot_attrs = collect_map kvs, ot_self_closing = False, ot_next = s\<rparr>"
proof -
  have tag: "list_all is_name_byte tag" "tag \<noteq> []" "to_ascii_lowercase tag = tag"
    using assms(1) by (auto simp: tag_ok_def name_ok_def)
  obtain c r where c: "concat (map write_attr kvs) @ ''>'' @ s = c # r" and "c = CHR '' '' \<or> c = CHR ''>''"
    by (cases kvs) (auto simp: write_attr_def)
  then have "\<not> is_name_byte c" by (auto simp: is_name_byte_def is_ascii_alphanumeric_def)
  from take_name [OF tag(1) this, of r] read_attrs_written [OF assms(2), of s Map.empty] tag
  show ?thesis unfolding c by (simp add: read_open_tag_def del: takeWhile.simps dropWhile.simps)
qed

section \<open>Reading the nodes\<close>

lemma parse_loop_Continue:
  assumes "parse_round s p = Some (Continue r q)" and "\<not> pa_node_limit_reported p"
  shows "parse_loop s p = parse_loop r q"
proof -
  have "s \<noteq> []" using parse_round_shorter [OF assms(1)] by auto
  with assms show ?thesis by (subst parse_loop.simps) simp
qed

lemma parse_round_bracket: "\<not> pa_node_limit_reported p \<Longrightarrow> parse_round (CHR ''<'' # s) p = bracket_round (CHR ''<'' # s) p"
  by (simp add: parse_round_def)

definition stops_text :: "string \<Rightarrow> bool" where
  "stops_text s \<longleftrightarrow> s = [] \<or> starts_with s ''<''"

definition ends_in_text :: "stml_node list \<Rightarrow> bool" where
  "ends_in_text ts \<longleftrightarrow> (case rev ts of StmlText _ # _ \<Rightarrow> True | _ \<Rightarrow> False)"

lemma push_text_new:
  assumes "represents p z" and "\<not> ends_in_text (inner z)" and "t \<noteq> []" and "harmless t"
    and "length (pa_arena p) < max_nodes (pa_limits p)"
  shows "\<exists>q. push_text t p = Some q \<and> represents q (add_inner (StmlText t) z) \<and> same_outside p q
    \<and> length (pa_arena q) = Suc (length (pa_arena p))"
proof -
  have t: "sanitize t = t" using assms(4) by (simp add: sanitize_def sanitize_harmless_id)
  note kids = kids_of_parser [OF assms(1)]
  from attach_ok [OF assms(1) forest_leaf_Text] assms(5)
  have new: "\<exists>q. push_new_text t p = Some q \<and> represents q (add_inner (StmlText t) z) \<and> same_outside p q
    \<and> length (pa_arena q) = Suc (length (pa_arena p))"
    by (fastforce simp: push_new_text_def reserve_node_def)
  show ?thesis
  proof (cases "inner z" rule: rev_cases)
    case Nil
    with represents_inner [OF assms(1)] have "kids (pa_arena p) (pa_roots p) (pa_stack p) = []"
      by (auto elim: forest_NilE)
    with kids t assms(3) new show ?thesis by (simp add: push_text_def)
  next
    case (snoc ts u)
    with assms(2) obtain tag at cs where u: "u = StmlElement tag at cs"
      by (cases u) (auto simp: ends_in_text_def)
    from represents_inner [OF assms(1)] snoc
    obtain ys k where k: "kids (pa_arena p) (pa_roots p) (pa_stack p) = ys @ [k]"
      "forest (pa_arena p) [k] k (length (pa_arena p)) [u]" by (metis forest_snocD)
    from k(2) u obtain cs' where "get (pa_arena p) k = Some (ArenaElement tag at cs')" by (auto elim!: forest_ElementE)
    with kids k(1) t assms(3) new show ?thesis by (simp add: push_text_def)
  qed
qed

lemma loop_text:
  assumes "represents p z" and "\<not> ends_in_text (inner z)" and "well_formed (SText t)"
    and "length (pa_arena p) < max_nodes (pa_limits p)" and "\<not> pa_node_limit_reported p" and "stops_text rest"
  shows "\<exists>q. parse_loop (t @ rest) p = parse_loop rest q \<and> represents q (add_inner (StmlText t) z) \<and> same_outside p q
    \<and> length (pa_arena q) = Suc (length (pa_arena p))"
proof -
  have t: "t \<noteq> []" "harmless t" "CHR ''<'' \<notin> set t" using assms(3) by simp_all
  from push_text_new [OF assms(1,2) t(1,2) assms(4)] obtain q where q: "push_text t p = Some q"
    "represents q (add_inner (StmlText t) z)" "same_outside p q" "length (pa_arena q) = Suc (length (pa_arena p))" by blast
  have go: "\<not> pa_node_limit_reported q" using q(3) assms(5) by (simp add: same_outside_def)
  have "parse_loop (t @ rest) p = parse_loop rest q"
  proof (cases "rest = []")
    case True
    have "position (\<lambda>c. c = CHR ''<'') t = None" using t(3) by (auto simp: position_None_iff)
    with True t(1) q(1) assms(5) go show ?thesis
      by (subst (1 2) parse_loop.simps) (simp add: parse_round_def)
  next
    case False
    with assms(6) obtain r where r: "rest = CHR ''<'' # r" by (auto simp: stops_text_def starts_with_iff)
    have "position (\<lambda>c. c = CHR ''<'') (t @ CHR ''<'' # r) = Some (length t)"
      using t(3) by (auto simp: position_Some_iff nth_append in_set_conv_nth)
    with r t(1) q(1) go have "parse_round (t @ rest) p = parse_round rest q"
      by (simp add: parse_round_def)
    with r t(1) go assms(5) show ?thesis by (subst (1 2) parse_loop.simps) simp
  qed
  with q show ?thesis by blast
qed

lemma push_element_room:
  assumes "represents p z" and "length (pa_arena p) < max_nodes (pa_limits p)"
  shows "\<exists>q. push_element t at p = Some (Some (length (pa_arena p)), q) \<and> represents q (add_inner (StmlElement t at []) z)
    \<and> same_outside p q \<and> length (pa_arena q) = Suc (length (pa_arena p))
    \<and> get (pa_arena q) (length (pa_arena p)) = Some (ArenaElement t at [])"
  using attach_ok [OF assms(1), of "ArenaElement t at []", OF forest_leaf_Element] assms(2)
  by (fastforce simp: push_element_def reserve_node_def Let_def)

lemma loop_open_tag:
  assumes "represents p z" and "tag_ok tag" and "list_all attr_ok kvs"
    and "length (pa_arena p) < max_nodes (pa_limits p)" and "length (pa_stack p) < max_depth (pa_limits p)"
    and "\<not> pa_node_limit_reported p"
  shows "\<exists>q. parse_round (''<'' @ tag @ concat (map write_attr kvs) @ ''>'' @ s) p
      = (if is_void tag then Some (Continue s q)
         else if is_raw tag then raw_element tag (length (pa_arena p)) s q
         else Some (Continue s (q\<lparr>pa_stack := pa_stack q @ [length (pa_arena p)]\<rparr>)))
    \<and> represents q (add_inner (StmlElement tag (collect_map kvs) []) z)
    \<and> same_outside p q \<and> length (pa_arena q) = Suc (length (pa_arena p))
    \<and> get (pa_arena q) (length (pa_arena p)) = Some (ArenaElement tag (collect_map kvs) [])"
proof -
  obtain c tag' where c: "tag = c # tag'" "is_ascii_alphabetic c" using assms(2) by (cases tag) (auto simp: tag_ok_def name_ok_def)
  have nc: "c \<noteq> CHR ''!''" "c \<noteq> CHR ''/''" using c(2) by (auto simp: is_ascii_alphabetic_def)
  from push_element_room [OF assms(1,4), of tag "collect_map kvs"] obtain q where q:
    "push_element tag (collect_map kvs) p = Some (Some (length (pa_arena p)), q)"
    "represents q (add_inner (StmlElement tag (collect_map kvs) []) z)"
    "same_outside p q" "length (pa_arena q) = Suc (length (pa_arena p))"
    "get (pa_arena q) (length (pa_arena p)) = Some (ArenaElement tag (collect_map kvs) [])" by blast
  let ?s = "''<'' @ tag @ concat (map write_attr kvs) @ ''>'' @ s"
  have "parse_round ?s p = bracket_round ?s p" using parse_round_bracket [OF assms(6)] by simp
  also have "\<dots> = element_round \<lparr>ot_tag = tag, ot_attrs = collect_map kvs, ot_self_closing = False, ot_next = s\<rparr> p"
    using read_open_tag_written [OF assms(2,3), of s] c nc by (simp add: bracket_round_def get_def)
  also have "\<dots> = (if is_void tag then Some (Continue s q)
         else if is_raw tag then raw_element tag (length (pa_arena p)) s q
         else Some (Continue s (q\<lparr>pa_stack := pa_stack q @ [length (pa_arena p)]\<rparr>)))"
    using assms(5) q(1) by (simp add: element_round_def)
  finally show ?thesis using q by blast
qed

lemma find_sub_first:
  assumes "\<not> contains a (x # p)" and "x \<notin> set p"
  shows "find_sub (x # p) (a @ (x # p) @ b) = Some (length a)"
  using assms(1)
proof (induction a)
  case Nil
  show ?case by (subst find_sub.simps) simp
next
  case (Cons c a)
  have "\<not> contains a (x # p)" using Cons.prems by (subst (asm) contains_def, subst (asm) find_sub.simps) (auto simp: contains_def split: if_splits)
  moreover have "\<not> starts_with ((c # a) @ (x # p) @ b) (x # p)"
  proof
    assume "starts_with ((c # a) @ (x # p) @ b) (x # p)"
    then have eq: "take (length (x # p)) ((c # a) @ (x # p) @ b) = x # p" by (simp only: starts_with_def)
    show False
    proof (cases "length (x # p) \<le> length (c # a)")
      case True
      with eq have "starts_with (c # a) (x # p)" by (simp only: starts_with_def) simp
      then have "contains (c # a) (x # p)" by (metis append_Nil contains_iff starts_with_iff)
      with Cons.prems show False ..
    next
      case False
      then have lt: "length a < length p" by simp
      then have "take (length (x # p)) ((c # a) @ (x # p) @ b) ! length (c # a) = x" by (simp add: nth_append)
      with eq lt have "p ! length a = x" by simp
      with lt assms(2) show False by (metis nth_mem)
    qed
  qed
  ultimately show ?case using Cons.IH by (subst find_sub.simps) simp
qed

lemma contains_single: "contains s [c] \<longleftrightarrow> c \<in> set s"
  by (simp add: contains_iff in_set_conv_decomp)

lemma raw_okD:
  "raw_ok tag cs \<Longrightarrow> cs = [] \<or>
     (\<exists>t. cs = [SText t] \<and> t \<noteq> [] \<and> harmless t \<and> \<not> contains (to_ascii_lowercase t) (''</'' @ tag))"
  by (cases cs; cases "hd cs"; cases "tl cs"; simp add: raw_ok_def)

lemma loop_raw:
  assumes "represents q (add_inner (StmlElement tag at []) z)" and "get (pa_arena q) k = Some (ArenaElement tag at [])"
    and "length (pa_arena q) = Suc k" and "raw_ok tag cs" and "length (pa_arena q) + length cs \<le> max_nodes (pa_limits q)"
    and "tag_ok tag"
  shows "\<exists>r. raw_element tag k (concat (map write_node cs) @ ''</'' @ tag @ ''>'' @ s) q = Some (Continue s r)
    \<and> represents r (add_inner (StmlElement tag at (map tree_of cs)) z) \<and> same_outside q r
    \<and> length (pa_arena r) = length (pa_arena q) + length cs"
proof -
  have tag: "list_all is_name_byte tag" "to_ascii_lowercase tag = tag" using assms(6) by (auto simp: tag_ok_def name_ok_def)
  have slash: "CHR ''<'' \<notin> set (CHR ''/'' # tag)" using tag(1) by (auto simp: list_all_iff dest: name_byte_not)
  have low: "to_ascii_lowercase (''</'' @ tag) = ''</'' @ tag" "to_ascii_lowercase (u @ v) = to_ascii_lowercase u @ to_ascii_lowercase v" for u v
    using tag(2) by (simp_all add: to_ascii_lowercase_def ascii_lower_def)
  have find: "find_case_insensitive (t @ ''</'' @ tag @ ''>'' @ s) (''</'' @ tag) = Some (length t)"
    if "\<not> contains (to_ascii_lowercase t) (''</'' @ tag)" for t
  proof -
    have "find_sub (''</'' @ tag) (to_ascii_lowercase t @ (''</'' @ tag) @ to_ascii_lowercase (''>'' @ s)) = Some (length (to_ascii_lowercase t))"
      using find_sub_first [OF _ slash, of "to_ascii_lowercase t"] that by simp
    moreover have "ascii_lower (CHR ''<'') = CHR ''<''" "ascii_lower (CHR ''/'') = CHR ''/''" "map ascii_lower tag = tag"
      using tag(2) by (simp_all add: ascii_lower_def to_ascii_lowercase_def)
    ultimately show ?thesis
      by (simp only: find_case_insensitive_def to_ascii_lowercase_def map_append append_assoc append.simps length_map list.map)
  qed
  have rest: "after_sub ''>'' (''</'' @ tag @ ''>'' @ s) = s"
  proof -
    have "\<not> contains (''</'' @ tag) ''>''"
      using tag(1) by (auto simp: contains_single list_all_iff dest: name_byte_not)
    from find_sub_first [OF this, of s] show ?thesis by (simp add: after_sub_def)
  qed
  show ?thesis
  proof (cases cs)
    case Nil
    have "\<not> contains [] (''</'' @ tag)" by (simp add: contains_iff)
    with find [of "[]"] rest assms(1) Nil show ?thesis
      by (simp add: raw_element_def push_text_child_def sanitize_def sanitize_harmless_id same_outside_def to_ascii_lowercase_def)
  next
    case (Cons c cs')
    with raw_okD [OF assms(4)] obtain t where
      c: "cs = [SText t]" "t \<noteq> []" "harmless t" "\<not> contains (to_ascii_lowercase t) (''</'' @ tag)" by blast
    from child_text_ok [OF assms(1,2) assms(3) [symmetric], of t] obtain r where
      "add_child_at k (Suc k) (push_node (ArenaText t) q) = Some r"
      "represents r (add_inner (StmlElement tag at [StmlText t]) z)" "same_outside q r"
      "length (pa_arena r) = Suc (length (pa_arena q))" by blast
    with find [OF c(4)] rest c assms(3,5) show ?thesis
      by (simp add: raw_element_def push_text_child_def sanitize_def sanitize_harmless_id reserve_node_def)
  qed
qed

definition reads :: "stml_source \<Rightarrow> bool" where
  "reads n \<longleftrightarrow> (\<forall>p z rest.
     represents p z \<longrightarrow> well_formed n \<longrightarrow> \<not> pa_node_limit_reported p \<longrightarrow>
     (is_text n \<longrightarrow> \<not> ends_in_text (inner z) \<and> stops_text rest) \<longrightarrow>
     length (pa_arena p) + node_count (tree_of n) \<le> max_nodes (pa_limits p) \<longrightarrow>
     length (pa_stack p) + element_depth (tree_of n) \<le> max_depth (pa_limits p) \<longrightarrow>
     (\<exists>q. parse_loop (write_node n @ rest) p = parse_loop rest q \<and> represents q (add_inner (tree_of n) z)
        \<and> same_outside p q \<and> length (pa_arena q) = length (pa_arena p) + node_count (tree_of n)))"

lemma node_count_pos: "0 < node_count n"
  by (cases n) auto

lemma write_element_starts: "\<not> is_text n \<Longrightarrow> starts_with (write_node n @ rest) ''<''"
  by (cases n) (auto simp: is_text_def)

lemma tree_not_text: "\<not> is_text n \<Longrightarrow> \<not> ends_in_text (ts @ [tree_of n])"
  by (cases n) (auto simp: is_text_def ends_in_text_def)

lemma same_outside_trans: "same_outside p q \<Longrightarrow> same_outside q r \<Longrightarrow> same_outside p r"
  by (simp add: same_outside_def)

lemma reads_list:
  assumes "\<forall>n \<in> set ns. reads n" and "list_all well_formed ns" and "separated ns"
    and "represents p z" and "ns \<noteq> [] \<and> is_text (hd ns) \<longrightarrow> \<not> ends_in_text (inner z)" and "stops_text rest"
    and "\<not> pa_node_limit_reported p"
    and "length (pa_arena p) + node_total (map tree_of ns) \<le> max_nodes (pa_limits p)"
    and "\<forall>n \<in> set ns. length (pa_stack p) + element_depth (tree_of n) \<le> max_depth (pa_limits p)"
  shows "\<exists>q. parse_loop (concat (map write_node ns) @ rest) p = parse_loop rest q
    \<and> represents q (set_inner (inner z @ map tree_of ns) z)
    \<and> same_outside p q \<and> length (pa_arena q) = length (pa_arena p) + node_total (map tree_of ns)"
  using assms
proof (induction ns arbitrary: p z)
  case Nil
  then show ?case by (auto simp: same_outside_def node_total_def)
next
  case (Cons n ns)
  let ?rest = "concat (map write_node ns) @ rest"
  have stop: "stops_text ?rest" if "is_text n"
  proof (cases ns)
    case (Cons m ms)
    with Cons.prems(3) that have "\<not> is_text m" by simp
    with write_element_starts [OF this] Cons show ?thesis by (auto simp: stops_text_def)
  qed (use Cons.prems(6) in simp)
  have n: "well_formed n" "length (pa_arena p) + node_count (tree_of n) \<le> max_nodes (pa_limits p)"
    "length (pa_stack p) + element_depth (tree_of n) \<le> max_depth (pa_limits p)"
    "is_text n \<longrightarrow> \<not> ends_in_text (inner z) \<and> stops_text ?rest" "reads n"
    using Cons.prems stop by (auto simp: node_total_def)
  from n(5) [unfolded reads_def, rule_format, OF Cons.prems(4) n(1) Cons.prems(7) _ n(2,3), of ?rest] n(4)
  obtain q where q: "parse_loop (write_node n @ ?rest) p = parse_loop ?rest q"
    "represents q (add_inner (tree_of n) z)" "same_outside p q" "length (pa_arena q) = length (pa_arena p) + node_count (tree_of n)"
    by blast
  have sep: "separated ns" using Cons.prems(3) by (cases ns) auto
  have hd: "ns \<noteq> [] \<and> is_text (hd ns) \<longrightarrow> \<not> ends_in_text (inner (add_inner (tree_of n) z))"
    using Cons.prems(3) by (cases ns) (auto dest: tree_not_text)
  from Cons.IH [OF _ _ sep q(2) hd Cons.prems(6)] Cons.prems q obtain r where
    "parse_loop ?rest q = parse_loop rest r" "represents r (set_inner (inner z @ map tree_of (n # ns)) z)"
    "same_outside q r" "length (pa_arena r) = length (pa_arena q) + node_total (map tree_of ns)"
    by (auto simp: same_outside_def node_total_def)
  with q same_outside_trans [OF q(3)] show ?case by (auto simp: node_total_def)
qed

lemma close_tag_written:
  assumes "represents p (set_inner us (enter tag at z))" and "tag_ok tag" and "pa_stack p = st @ [k]"
  shows "close_tag (''</'' @ tag @ ''>'' @ s) p = Some (s, p\<lparr>pa_stack := st\<rparr>)
    \<and> represents (p\<lparr>pa_stack := st\<rparr>) (add_inner (StmlElement tag at us) z)"
proof -
  have tag: "list_all is_name_byte tag" "to_ascii_lowercase tag = tag" using assms(2) by (auto simp: tag_ok_def name_ok_def)
  have "\<not> is_name_byte (CHR ''>'')" by (simp add: is_name_byte_def is_ascii_alphanumeric_def)
  note name = take_name [OF tag(1) this, of s]
  have rest: "after_sub ''>'' (''>'' @ s) = s"
    using find_sub_first [of "[]" "CHR ''>''" "[]" s] by (simp add: after_sub_def contains_iff)
  from opened_stack_nodes [OF assms(1) [unfolded represents_def]] obtain ns where
    ns: "stack_nodes p = Some ns" "map node_tag ns = map Some (open_tags z @ [tag])"
    by (auto simp: stack_nodes_def)
  have len: "length ns = Suc (length st)" "length (open_tags z) = length st"
    using arg_cong [OF ns(2), of length] represents_length [OF assms(1)] assms(3) by simp_all
  then have "ns \<noteq> []" by auto
  then have "node_tag (last ns) = Some tag" using ns(2) by (metis last_map last_snoc list.map_disc_iff)
  with \<open>ns \<noteq> []\<close> len have r: "rposition (\<lambda>n. node_tag n = Some tag) ns = Some (length st)"
    by (cases ns rule: rev_cases) (auto simp: rposition_def)
  have "close_tag (''</'' @ tag @ ''>'' @ s) p = Some (s, p\<lparr>pa_stack := st\<rparr>)"
    using name rest ns(1) r assms(3) tag(2)
    by (simp add: close_tag_def Let_def del: takeWhile.simps dropWhile.simps)
  moreover have "represents (p\<lparr>pa_stack := st\<rparr>) (add_inner (StmlElement tag at us) z)"
    using opened_close [OF assms(1) [unfolded represents_def], of "length st"] assms(3) len(2)
    by (simp add: represents_def close_enter)
  ultimately show ?thesis ..
qed

lemma reads_all: "reads n"
proof (induction n)
  case (SText t)
  show ?case unfolding reads_def
  proof (intro allI impI)
    fix p :: stml_parser and z rest
    assume "represents p z" "well_formed (SText t)" "\<not> pa_node_limit_reported p"
      "is_text (SText t) \<longrightarrow> \<not> ends_in_text (inner z) \<and> stops_text rest"
      "length (pa_arena p) + node_count (tree_of (SText t)) \<le> max_nodes (pa_limits p)"
    with loop_text [of p z t rest] show "\<exists>q. parse_loop (write_node (SText t) @ rest) p = parse_loop rest q
      \<and> represents q (add_inner (tree_of (SText t)) z) \<and> same_outside p q
      \<and> length (pa_arena q) = length (pa_arena p) + node_count (tree_of (SText t))"
      by (simp add: is_text_def)
  qed
next
  case (SElement tag kvs cs)
  show ?case unfolding reads_def
  proof (intro allI impI)
    fix p :: stml_parser and z rest
    let ?n = "SElement tag kvs cs" and ?k = "length (pa_arena p)"
    assume z: "represents p z" and wf: "well_formed ?n" and go: "\<not> pa_node_limit_reported p"
      and room: "length (pa_arena p) + node_count (tree_of ?n) \<le> max_nodes (pa_limits p)"
      and deep: "length (pa_stack p) + element_depth (tree_of ?n) \<le> max_depth (pa_limits p)"
    let ?at = "collect_map kvs"
    let ?body = "if is_void tag then [] else concat (map write_node cs) @ ''</'' @ tag @ ''>''"
    have ok: "tag_ok tag" "list_all attr_ok kvs" using wf by simp_all
    from loop_open_tag [OF z ok _ _ go, of "?body @ rest"] room deep obtain q where q:
      "parse_round (write_node ?n @ rest) p
        = (if is_void tag then Some (Continue (?body @ rest) q)
           else if is_raw tag then raw_element tag ?k (?body @ rest) q
           else Some (Continue (?body @ rest) (q\<lparr>pa_stack := pa_stack q @ [?k]\<rparr>)))"
      "represents q (add_inner (StmlElement tag ?at []) z)" "same_outside p q" "length (pa_arena q) = Suc ?k"
      "get (pa_arena q) ?k = Some (ArenaElement tag ?at [])" by auto
    have same: "pa_limits q = pa_limits p" "pa_stack q = pa_stack p" "\<not> pa_node_limit_reported q"
      using q(3) go by (simp_all add: same_outside_def)
    show "\<exists>q. parse_loop (write_node ?n @ rest) p = parse_loop rest q \<and> represents q (add_inner (tree_of ?n) z)
      \<and> same_outside p q \<and> length (pa_arena q) = length (pa_arena p) + node_count (tree_of ?n)"
    proof (cases "is_void tag")
      case True
      with wf q have "cs = []" "parse_round (write_node ?n @ rest) p = Some (Continue rest q)" by simp_all
      with parse_loop_Continue [OF this(2) go] q show ?thesis by (auto simp del: write_node.simps)
    next
      case void: False
      show ?thesis
      proof (cases "is_raw tag")
        case True
        with void wf have raw: "raw_ok tag cs" by simp
        have "node_total (map tree_of cs) = length cs"
          using raw_okD [OF raw] by (auto simp: node_total_def)
        then have count: "node_count (tree_of ?n) = Suc (length cs)" by (simp add: node_total_def)
        from loop_raw [OF q(2,5,4) raw _ ok(1), of rest] room count same q(4) obtain r where r:
          "raw_element tag ?k (concat (map write_node cs) @ ''</'' @ tag @ ''>'' @ rest) q = Some (Continue rest r)"
          "represents r (add_inner (StmlElement tag ?at (map tree_of cs)) z)" "same_outside q r"
          "length (pa_arena r) = length (pa_arena q) + length cs" by auto
        with True void q(1) have "parse_round (write_node ?n @ rest) p = Some (Continue rest r)" by simp
        with parse_loop_Continue [OF this go] r q(4) count same_outside_trans [OF q(3) r(3)]
        show ?thesis by (auto simp del: write_node.simps node_count.simps)
      next
        case False
        let ?q = "q\<lparr>pa_stack := pa_stack q @ [?k]\<rparr>"
        have enter: "represents ?q (enter tag ?at z)"
          using opened_enter [OF q(2) [unfolded represents_def] refl q(5,4)] by (simp add: represents_def)
        have wfs: "separated cs" "list_all well_formed cs" using wf void False by simp_all
        have depth: "\<forall>c \<in> set cs. element_depth (tree_of c) < element_depth (tree_of ?n)"
          using fold_max_le [of "map element_depth (map tree_of cs)" 0 "fold max (map element_depth (map tree_of cs)) 0"] by auto
        have "\<exists>r. parse_loop (concat (map write_node cs) @ ''</'' @ tag @ ''>'' @ rest) ?q = parse_loop (''</'' @ tag @ ''>'' @ rest) r
          \<and> represents r (set_inner (map tree_of cs) (enter tag ?at z)) \<and> same_outside ?q r
          \<and> length (pa_arena r) = length (pa_arena ?q) + node_total (map tree_of cs)"
          using reads_list [OF _ wfs(2,1) enter, of "''</'' @ tag @ ''>'' @ rest"] SElement.IH room deep depth same q(4)
          by (fastforce simp: stops_text_def ends_in_text_def node_total_def simp del: write_node.simps)
        then obtain r where r:
          "parse_loop (concat (map write_node cs) @ ''</'' @ tag @ ''>'' @ rest) ?q = parse_loop (''</'' @ tag @ ''>'' @ rest) r"
          "represents r (set_inner (map tree_of cs) (enter tag ?at z))" "same_outside ?q r"
          "length (pa_arena r) = length (pa_arena ?q) + node_total (map tree_of cs)" by blast
        have stack: "pa_stack r = pa_stack p @ [?k]" using r(3) same by (simp add: same_outside_def)
        have gor: "\<not> pa_node_limit_reported r" using r(3) same by (simp add: same_outside_def)
        note close = close_tag_written [OF r(2) ok(1) stack, of rest]
        have "parse_round (''</'' @ tag @ ''>'' @ rest) r = bracket_round (''</'' @ tag @ ''>'' @ rest) r"
          using parse_round_bracket [OF gor] by simp
        also have "\<dots> = Some (Continue rest (r\<lparr>pa_stack := pa_stack p\<rparr>))"
          using close by (simp add: bracket_round_def get_def)
        finally have last: "parse_loop (''</'' @ tag @ ''>'' @ rest) r = parse_loop rest (r\<lparr>pa_stack := pa_stack p\<rparr>)"
          using parse_loop_Continue gor by blast
        have "parse_round (write_node ?n @ rest) p = Some (Continue (concat (map write_node cs) @ ''</'' @ tag @ ''>'' @ rest) ?q)"
          using q(1) void False by simp
        from parse_loop_Continue [OF this go] last r(1)
        have "parse_loop (write_node ?n @ rest) p = parse_loop rest (r\<lparr>pa_stack := pa_stack p\<rparr>)" by simp
        moreover have "same_outside p (r\<lparr>pa_stack := pa_stack p\<rparr>)"
          using q(3) r(3) by (simp add: same_outside_def)
        moreover have "length (pa_arena (r\<lparr>pa_stack := pa_stack p\<rparr>)) = length (pa_arena p) + node_count (tree_of ?n)"
          using r(4) q(4) by (simp add: node_total_def)
        ultimately show ?thesis using close by (auto simp del: write_node.simps)
      qed
    qed
  qed
qed

section \<open>Properties\<close>

text \<open>
  C6. Reading back a document: a well-formed document (nested elements with attributes, empty
  and raw elements, texts) that fits the limits parses without a message to exactly the tree
  that was written.
\<close>

theorem markup_round_trip:
  assumes "list_all well_formed ns" and "separated ns"
    and "length (concat (map write_node ns)) \<le> max_input_bytes limits"
    and "node_total (map tree_of ns) \<le> max_nodes limits"
    and "\<forall>n \<in> set ns. element_depth (tree_of n) \<le> max_depth limits"
  shows "parse_stml (concat (map write_node ns)) limits = Some \<lparr>sp_nodes = map tree_of ns, sp_errors = []\<rparr>"
proof -
  let ?p = "parser_start limits"
  have start: "represents ?p (Closed [])"
    by (auto simp: parser_start_def represents_def intro!: opened_Nil forest_Nil)
  have "\<exists>q. parse_loop (concat (map write_node ns) @ []) ?p = parse_loop [] q
      \<and> represents q (set_inner (inner (Closed []) @ map tree_of ns) (Closed [])) \<and> same_outside ?p q
      \<and> length (pa_arena q) = length (pa_arena ?p) + node_total (map tree_of ns)"
    using reads_list [OF _ assms(1,2) start, of "[]"] assms(4,5) reads_all
    by (simp add: parser_start_def stops_text_def ends_in_text_def)
  then obtain q where q: "parse_loop (concat (map write_node ns)) ?p = parse_loop [] q"
    "represents q (Closed (map tree_of ns))" "same_outside ?p q" by auto
  then have q': "parse_loop (concat (map write_node ns)) ?p = Some q" "pa_stack q = []" "pa_errors q = []"
    by (simp_all add: parse_loop.simps [of "[]"] same_outside_def parser_start_def)
  from forest_collapse [OF q(2) [unfolded represents_def]]
  have "forest (pa_arena q) (pa_roots q) 0 (length (pa_arena q)) (map tree_of ns)" by simp
  from materialize_forest [OF this, of "length (pa_arena q)"] q' assms(3) show ?thesis
    by (simp add: parse_stml_def truncate_utf8_def run_parser_def report_unclosed_def)
qed

definition sample_document :: "stml_source list" where
  "sample_document =
     [SText ''Flow: '',
      SElement ''box'' [(''title'', ''Auth > login''), (''border'', [])]
        [SElement ''b'' [] [SText ''a'' ], SElement ''br'' [] [],
         SElement ''code'' [] [SText (''if a < b {'' @ [NL] @ ''}'')]]]"

theorem markup_round_trip_witness:
  "length (concat (map write_node sample_document)) \<le> 65536
   \<and> parse_stml (concat (map write_node sample_document)) stml_parse_limits_default
     = Some \<lparr>sp_nodes = map tree_of sample_document, sp_errors = []\<rparr>"
proof
  show len: "length (concat (map write_node sample_document)) \<le> 65536" by code_simp
  show "parse_stml (concat (map write_node sample_document)) stml_parse_limits_default
     = Some \<lparr>sp_nodes = map tree_of sample_document, sp_errors = []\<rparr>"
  proof (rule markup_round_trip)
    show "list_all well_formed sample_document" by code_simp
    show "separated sample_document" by code_simp
    show "length (concat (map write_node sample_document)) \<le> max_input_bytes stml_parse_limits_default"
      using len by (simp add: stml_parse_limits_default_def)
    show "node_total (map tree_of sample_document) \<le> max_nodes stml_parse_limits_default"
      by (simp add: sample_document_def node_total_def stml_parse_limits_default_def)
    show "\<forall>n \<in> set sample_document. element_depth (tree_of n) \<le> max_depth stml_parse_limits_default"
      by (simp add: sample_document_def stml_parse_limits_default_def)
  qed
qed

end
