(* ===== verification/Map_Cache.thy ===== *)
theory Map_Cache
  imports Enrichment "HOL-Library.Product_Lexorder" "HOL-Library.Multiset"
begin

text \<open>
  The cache of enriched review maps: the key of a map
  (\<open>crates/ramo-core/src/review_map/cache_key.rs\<close>) and the directory of entries
  (\<open>crates/ramo-server/src/cache.rs\<close>). What lies outside is a record: the SHA-256 digest in
  hexadecimal, the size of an entry as JSON, and the order in which the file system lists a
  directory. Errors of the file system are not modelled. The clock is an argument.
\<close>

section \<open>The key\<close>

record cache_identity =
  ci_repository :: string
  ci_pull_request :: u64
  ci_head_sha :: string
  ci_model :: string
  ci_model_digest :: string
  ci_prompt_version :: u32
  ci_schema_version :: u16
  ci_classifier_version :: u32
  ci_generation_parameters :: "(string \<times> string) list"

text \<open>\<open>n.to_be_bytes()\<close> of an integer of \<open>k\<close> bytes\<close>

fun be_bytes :: "nat \<Rightarrow> nat \<Rightarrow> string" where
  "be_bytes 0 n = []"
| "be_bytes (Suc k) n = be_bytes k (n div 256) @ [char_of (n mod 256)]"

definition hash_field :: "string \<Rightarrow> string" where
  "hash_field bytes = be_bytes 8 (length bytes) @ bytes"

text \<open>The fields in the order they are hashed, and the bytes the hasher is fed with.\<close>

definition key_fields :: "cache_identity \<Rightarrow> string list" where
  "key_fields i =
     (let parameters = sort (ci_generation_parameters i)
      in [ci_repository i, be_bytes 8 (ci_pull_request i), ci_head_sha i, ci_model i, ci_model_digest i,
          be_bytes 4 (ci_prompt_version i), be_bytes 2 (ci_schema_version i), be_bytes 4 (ci_classifier_version i),
          be_bytes 8 (length parameters)]
         @ concat (map (\<lambda>(name, v). [name, v]) parameters))"

definition key_bytes :: "cache_identity \<Rightarrow> string" where
  "key_bytes i = concat (map hash_field (key_fields i))"

definition review_map_cache_key :: "(string \<Rightarrow> string) \<Rightarrow> cache_identity \<Rightarrow> string" where
  "review_map_cache_key digest i = digest (key_bytes i)"

section \<open>The directory\<close>

record cache_limits =
  cl_max_bytes :: u64
  cl_max_age :: u64

record cache_entry =
  ce_identity :: cache_identity
  ce_map :: review_map
  ce_created_at :: u64
  ce_last_accessed_at :: u64

text \<open>The contents of a file: an entry, or bytes that are not the JSON of one.\<close>

datatype stored = Entry cache_entry | Unreadable string

type_synonym directory = "(string \<times> stored) list"

record cache_world =
  cw_digest :: "string \<Rightarrow> string"
  cw_size :: "stored \<Rightarrow> u64"
  cw_read_dir :: "directory \<Rightarrow> directory"
  cw_pick :: "string list \<Rightarrow> string"

definition entry_path :: "cache_world \<Rightarrow> cache_identity \<Rightarrow> string" where
  "entry_path w i = review_map_cache_key (cw_digest w) i @ ''.json''"

definition remove_if_present :: "string \<Rightarrow> directory \<Rightarrow> directory" where
  "remove_if_present path dir = filter (\<lambda>(p, _). p \<noteq> path) dir"

definition atomic_write :: "string \<Rightarrow> stored \<Rightarrow> directory \<Rightarrow> directory" where
  "atomic_write path contents dir = (path, contents) # remove_if_present path dir"

definition identity_matches_map :: "cache_identity \<Rightarrow> review_map \<Rightarrow> bool" where
  "identity_matches_map i m \<longleftrightarrow>
     ci_repository i = ri_repository (rm_identity m) \<and> ci_pull_request i = ri_pull_request (rm_identity m)
     \<and> ci_head_sha i = ri_head_sha (rm_identity m) \<and> ci_schema_version i = rm_schema_version m"

definition is_exact :: "cache_world \<Rightarrow> review_map \<Rightarrow> bool" where
  "is_exact w m \<longleftrightarrow> validate_exact_map (cw_pick w) m = Inr ()"

definition valid_entry :: "cache_world \<Rightarrow> cache_identity \<Rightarrow> cache_entry \<Rightarrow> bool" where
  "valid_entry w i e \<longleftrightarrow> ce_identity e = i \<and> identity_matches_map i (ce_map e) \<and> is_exact w (ce_map e)"

definition expired :: "cache_limits \<Rightarrow> u64 \<Rightarrow> cache_entry \<Rightarrow> bool" where
  "expired limits now e \<longleftrightarrow> cl_max_age limits < now - ce_last_accessed_at e"

text \<open>The first loop of \<open>evict_locked\<close> removes what cannot be read or has expired, the second removes
  the entries used longest ago until the rest fits.\<close>

definition fresh_file :: "cache_limits \<Rightarrow> u64 \<Rightarrow> string \<times> stored \<Rightarrow> bool" where
  "fresh_file limits now entry =
     (case snd entry of Unreadable _ \<Rightarrow> False | Entry e \<Rightarrow> \<not> expired limits now e)"

definition accessed :: "string \<times> stored \<Rightarrow> u64" where
  "accessed entry = (case snd entry of Unreadable _ \<Rightarrow> 0 | Entry e \<Rightarrow> ce_last_accessed_at e)"

fun evict_oldest :: "cache_world \<Rightarrow> u64 \<Rightarrow> nat \<Rightarrow> (string \<times> stored) list \<Rightarrow> directory \<Rightarrow> directory" where
  "evict_oldest w max_bytes bytes [] dir = dir"
| "evict_oldest w max_bytes bytes (entry # entries) dir =
     (if bytes \<le> max_bytes then dir
      else evict_oldest w max_bytes (bytes - cw_size w (snd entry)) entries (remove_if_present (fst entry) dir))"

definition evict_locked :: "cache_world \<Rightarrow> cache_limits \<Rightarrow> u64 \<Rightarrow> directory \<Rightarrow> directory" where
  "evict_locked w limits now dir =
     (let entries = filter (fresh_file limits now) (cw_read_dir w dir);
          dir = filter (fresh_file limits now) dir;
          entries = sort_key accessed entries
      in evict_oldest w (cl_max_bytes limits) (sum_list (map (cw_size w \<circ> snd) entries)) entries dir)"

definition cache_get ::
  "cache_world \<Rightarrow> cache_limits \<Rightarrow> u64 \<Rightarrow> cache_identity \<Rightarrow> directory \<Rightarrow> directory \<times> review_map option" where
  "cache_get w limits now i dir =
     (let path = entry_path w i
      in case map_of dir path of
           None \<Rightarrow> (dir, None)
         | Some (Unreadable _) \<Rightarrow> (remove_if_present path dir, None)
         | Some (Entry e) \<Rightarrow>
             if \<not> valid_entry w i e then (remove_if_present path dir, None)
             else if expired limits now e then (remove_if_present path dir, None)
             else (evict_locked w limits now (atomic_write path (Entry (e\<lparr>ce_last_accessed_at := now\<rparr>)) dir),
                   Some (ce_map e)))"

text \<open>\<open>put\<close>: refused when the map is not the map of the identity or is not exact.\<close>

definition cache_put ::
  "cache_world \<Rightarrow> cache_limits \<Rightarrow> u64 \<Rightarrow> cache_identity \<Rightarrow> review_map \<Rightarrow> directory \<Rightarrow> directory option" where
  "cache_put w limits now i m dir =
     (if \<not> identity_matches_map i m \<or> \<not> is_exact w m then None
      else Some (evict_locked w limits now
             (atomic_write (entry_path w i)
                (Entry \<lparr>ce_identity = i, ce_map = m, ce_created_at = now, ce_last_accessed_at = now\<rparr>) dir)))"

definition cache_list :: "cache_world \<Rightarrow> directory \<Rightarrow> (string \<times> u64) list" where
  "cache_list w dir = sort_key fst (map (\<lambda>(p, s). (p, cw_size w s)) (cw_read_dir w dir))"

definition cache_clear :: "directory \<Rightarrow> directory \<times> nat" where
  "cache_clear dir = ([], length dir)"

section \<open>The key separates identities\<close>

lemma length_be_bytes [simp]: "length (be_bytes k n) = k"
  by (induction k arbitrary: n) auto

lemma be_bytes_inj: "n < 256 ^ k \<Longrightarrow> m < 256 ^ k \<Longrightarrow> be_bytes k n = be_bytes k m \<Longrightarrow> n = m"
proof (induction k arbitrary: n m)
  case (Suc k)
  from Suc.prems(3) have "be_bytes k (n div 256) = be_bytes k (m div 256)"
    and "(char_of (n mod 256) :: char) = char_of (m mod 256)" by auto
  moreover from this(2) have "n mod 256 = m mod 256"
    by (metis mod_mod_trivial of_char_of)
  moreover have "n div 256 < 256 ^ k" "m div 256 < 256 ^ k"
    using Suc.prems(1,2) by (simp_all add: less_mult_imp_div_less mult.commute)
  ultimately show ?case using Suc.IH [of "n div 256" "m div 256"] by (metis div_mult_mod_eq)
qed simp

lemma length_hash_field [simp]: "length (hash_field x) = 8 + length x"
  by (simp add: hash_field_def)

lemma hash_field_not_Nil [simp]: "hash_field x \<noteq> []"
  by (metis length_hash_field add_is_0 list.size(3) zero_neq_numeral)

text \<open>Fields can be told apart in what is hashed.\<close>

lemma hash_fields_inj:
  assumes "\<forall>x \<in> set xs. length x < 256 ^ 8" and "\<forall>y \<in> set ys. length y < 256 ^ 8"
    and "concat (map hash_field xs) = concat (map hash_field ys)"
  shows "xs = ys"
  using assms
proof (induction xs arbitrary: ys)
  case Nil
  then show ?case by (cases ys) auto
next
  case (Cons x xs)
  have "ys \<noteq> []"
  proof
    assume "ys = []"
    with Cons.prems(3) show False by simp
  qed
  then obtain y ys' where ys: "ys = y # ys'" by (metis list.exhaust)
  from Cons.prems(3) have eq: "be_bytes 8 (length x) @ x @ concat (map hash_field xs)
      = be_bytes 8 (length y) @ y @ concat (map hash_field ys')"
    by (simp add: ys hash_field_def [of x] hash_field_def [of y])
  then have "be_bytes 8 (length x) = be_bytes 8 (length y)" by simp
  then have "length x = length y" using be_bytes_inj [of "length x" 8 "length y"] Cons.prems(1,2) by (simp add: ys)
  with eq have "x = y" "concat (map hash_field xs) = concat (map hash_field ys')" by simp_all
  with Cons.IH [of ys'] Cons.prems(1,2) show ?case by (simp add: ys)
qed

text \<open>The integers have their width and the texts are shorter than the address space.\<close>

definition identity_ok :: "cache_identity \<Rightarrow> bool" where
  "identity_ok i \<longleftrightarrow>
     ci_pull_request i < 256 ^ 8 \<and> ci_prompt_version i < 256 ^ 4 \<and> ci_schema_version i < 256 ^ 2
     \<and> ci_classifier_version i < 256 ^ 4 \<and> length (ci_generation_parameters i) < 256 ^ 8
     \<and> (\<forall>x \<in> set (key_fields i). length x < 256 ^ 8)"

lemma pairs_inj: "concat (map (\<lambda>(name, v). [name, v]) ps) = concat (map (\<lambda>(name, v). [name, v]) qs) \<Longrightarrow> ps = qs"
proof (induction ps arbitrary: qs)
  case Nil
  then show ?case by (cases qs) (auto simp: split_beta)
next
  case (Cons p ps)
  then show ?case by (cases qs; cases p) (auto simp: split_beta)
qed

section \<open>The directory\<close>

lemma mem_remove [simp]: "x \<in> set (remove_if_present p dir) \<longleftrightarrow> x \<in> set dir \<and> fst x \<noteq> p"
  by (auto simp: remove_if_present_def)

lemma remove_distinct [simp]: "distinct (map fst dir) \<Longrightarrow> distinct (map fst (remove_if_present p dir))"
  by (simp add: remove_if_present_def distinct_map_filter)

lemma write_distinct [simp]: "distinct (map fst dir) \<Longrightarrow> distinct (map fst (atomic_write p s dir))"
  by (auto simp: atomic_write_def)

lemma evict_oldest_subset: "set (evict_oldest w n b es dir) \<subseteq> set dir"
proof (induction w n b es dir rule: evict_oldest.induct)
  case (2 w n b e es dir)
  have "set (remove_if_present (fst e) dir) \<subseteq> set dir" by auto
  with 2 show ?case by (simp) (blast)
qed simp

lemma evict_oldest_distinct: "distinct (map fst dir) \<Longrightarrow> distinct (map fst (evict_oldest w n b es dir))"
  by (induction w n b es dir rule: evict_oldest.induct) auto

lemma evict_distinct: "distinct (map fst dir) \<Longrightarrow> distinct (map fst (evict_locked w limits now dir))"
  by (simp add: evict_locked_def Let_def evict_oldest_distinct distinct_map_filter)

lemma evict_subset: "set (evict_locked w limits now dir) \<subseteq> set dir"
  using evict_oldest_subset by (fastforce simp: evict_locked_def Let_def)

definition dir_bytes :: "cache_world \<Rightarrow> directory \<Rightarrow> nat" where
  "dir_bytes w dir = sum_list (map (cw_size w \<circ> snd) dir)"

lemma dir_bytes_mset: "mset a = mset b \<Longrightarrow> dir_bytes w a = dir_bytes w b"
  unfolding dir_bytes_def by (metis mset_map sum_mset_sum_list)

lemma remove_first: "distinct (map fst (f # fs)) \<Longrightarrow> remove_if_present (fst f) (f # fs) = fs"
  by (auto simp: remove_if_present_def filter_id_conv image_iff split_beta)

lemma mset_remove:
  assumes "distinct (map fst dir)" and "mset dir = mset (f # fs)"
  shows "mset (remove_if_present (fst f) dir) = mset fs"
proof -
  have "distinct (map fst (f # fs))" using assms by (metis mset_eq_imp_distinct_iff mset_map)
  then have "mset (remove_if_present (fst f) (f # fs)) = mset fs" by (simp only: remove_first)
  moreover have "mset (remove_if_present (fst f) dir) = mset (remove_if_present (fst f) (f # fs))"
    unfolding remove_if_present_def using assms(2) by (metis mset_filter)
  ultimately show ?thesis by simp
qed

text \<open>Eviction ends within the bound.\<close>

lemma evict_oldest_bound:
  "distinct (map fst dir) \<Longrightarrow> mset dir = mset es \<Longrightarrow> dir_bytes w (evict_oldest w n (dir_bytes w dir) es dir) \<le> n"
proof (induction es arbitrary: dir)
  case Nil
  then show ?case by (simp add: dir_bytes_def)
next
  case (Cons e es)
  have "dir_bytes w dir = cw_size w (snd e) + dir_bytes w es"
    using dir_bytes_mset [OF Cons.prems(2), of w] by (simp add: dir_bytes_def)
  moreover have "dir_bytes w (remove_if_present (fst e) dir) = dir_bytes w es"
    using mset_remove [OF Cons.prems] by (rule dir_bytes_mset)
  ultimately show ?case
    using Cons.IH [of "remove_if_present (fst e) dir"] mset_remove [OF Cons.prems] Cons.prems(1) by simp
qed

definition lists_all :: "cache_world \<Rightarrow> bool" where
  "lists_all w \<longleftrightarrow> (\<forall>dir. mset (cw_read_dir w dir) = mset dir)"

lemma evict_bound:
  assumes "lists_all w" and "distinct (map fst dir)"
  shows "dir_bytes w (evict_locked w limits now dir) \<le> cl_max_bytes limits"
proof -
  define kept where "kept = filter (fresh_file limits now) dir"
  define es where "es = sort_key accessed (filter (fresh_file limits now) (cw_read_dir w dir))"
  have "mset kept = mset es"
    using assms(1) by (simp add: kept_def es_def lists_all_def)
  moreover from dir_bytes_mset [OF this] have "sum_list (map (cw_size w \<circ> snd) es) = dir_bytes w kept"
    by (simp add: dir_bytes_def)
  ultimately show ?thesis
    using evict_oldest_bound [of kept es w "cl_max_bytes limits"] assms(2)
    by (simp add: evict_locked_def Let_def kept_def es_def distinct_map_filter)
qed

text \<open>The entry used last is evicted last, and stays if it fits on its own.\<close>

lemma evict_oldest_keeps_last:
  "distinct (map fst dir) \<Longrightarrow> mset dir = mset (es @ [f]) \<Longrightarrow> cw_size w (snd f) \<le> n \<Longrightarrow>
   f \<in> set (evict_oldest w n (dir_bytes w dir) (es @ [f]) dir)"
proof (induction es arbitrary: dir)
  case Nil
  have "dir = [f]" using Nil.prems(2) by simp
  with Nil.prems(3) show ?case by (simp add: dir_bytes_def)
next
  case (Cons e es)
  have m: "mset dir = mset (e # (es @ [f]))" using Cons.prems(2) by simp
  have "dir_bytes w dir = cw_size w (snd e) + dir_bytes w (es @ [f])"
    using dir_bytes_mset [OF m, of w] by (simp add: dir_bytes_def)
  moreover have "dir_bytes w (remove_if_present (fst e) dir) = dir_bytes w (es @ [f])"
    using mset_remove [OF Cons.prems(1) m] by (rule dir_bytes_mset)
  moreover have "f \<in> set dir" using mset_eq_setD [OF m] by simp
  ultimately show ?case
    using Cons.IH [of "remove_if_present (fst e) dir"] mset_remove [OF Cons.prems(1) m] Cons.prems(1,3) by simp
qed

lemma sort_key_last:
  assumes "f \<in> set xs" and "distinct xs" and "\<forall>x \<in> set xs. x \<noteq> f \<longrightarrow> key x < (key f :: nat)"
  shows "\<exists>es. sort_key key xs = es @ [f]"
proof -
  define ys where "ys = sort_key key xs"
  have "f \<in> set ys" using assms(1) by (simp add: ys_def)
  then have ys: "ys = butlast ys @ [last ys]" by (metis append_butlast_last_id empty_iff list.set(1))
  have "sorted (map key ys)" by (simp add: ys_def)
  then have "sorted (map key (butlast ys) @ [key (last ys)])" by (metis ys list.simps(8,9) map_append)
  then have le: "\<forall>x \<in> set (butlast ys). key x \<le> key (last ys)" by (simp add: sorted_append)
  have "last ys \<in> set xs" using ys by (metis in_set_conv_decomp set_sort ys_def)
  have "last ys = f"
  proof (rule ccontr)
    assume "last ys \<noteq> f"
    then have "key (last ys) < key f" using assms(3) \<open>last ys \<in> set xs\<close> by blast
    moreover have "f \<in> set (butlast ys)" using \<open>f \<in> set ys\<close> \<open>last ys \<noteq> f\<close> ys
      by (metis Un_iff empty_iff insert_iff list.set(1,2) set_append)
    ultimately show False using le by fastforce
  qed
  then show ?thesis using ys by (auto simp: ys_def)
qed

lemma evict_keeps_latest:
  assumes "lists_all w" and "distinct (map fst dir)" and "f \<in> set dir" and "fresh_file limits now f"
    and "\<forall>x \<in> set dir. x \<noteq> f \<longrightarrow> accessed x < accessed f" and "cw_size w (snd f) \<le> cl_max_bytes limits"
  shows "f \<in> set (evict_locked w limits now dir)"
proof -
  define kept where "kept = filter (fresh_file limits now) dir"
  define listed where "listed = filter (fresh_file limits now) (cw_read_dir w dir)"
  have m: "mset listed = mset kept" using assms(1) by (simp add: kept_def listed_def lists_all_def)
  have d: "distinct (map fst kept)" using assms(2) by (simp add: kept_def distinct_map_filter)
  have "set listed = set kept" using m by (rule mset_eq_setD)
  moreover have "distinct listed" using m d by (metis distinct_map mset_eq_imp_distinct_iff)
  ultimately obtain es where es: "sort_key accessed listed = es @ [f]"
    using sort_key_last [of f listed accessed] assms(3-5) by (auto simp: kept_def)
  then have "mset kept = mset (es @ [f])" by (metis m mset_sort)
  moreover from dir_bytes_mset [OF this] have "sum_list (map (cw_size w \<circ> snd) (es @ [f])) = dir_bytes w kept"
    by (simp add: dir_bytes_def)
  ultimately show ?thesis
    using evict_oldest_keeps_last [OF d, of es f w "cl_max_bytes limits"] assms(6)
    by (simp add: evict_locked_def Let_def kept_def [symmetric] listed_def [symmetric] es)
qed

section \<open>Histories\<close>

datatype cache_event =
    Get u64 cache_identity
  | Put u64 cache_identity review_map
  | Clear

definition cache_perform :: "cache_world \<Rightarrow> cache_limits \<Rightarrow> cache_event \<Rightarrow> directory \<Rightarrow> directory" where
  "cache_perform w limits event dir =
     (case event of
        Get now i \<Rightarrow> fst (cache_get w limits now i dir)
      | Put now i m \<Rightarrow> (case cache_put w limits now i m dir of None \<Rightarrow> dir | Some dir \<Rightarrow> dir)
      | Clear \<Rightarrow> fst (cache_clear dir))"

text \<open>Every file is an entry that was put; together they fit.\<close>

definition holds_puts :: "(cache_identity \<times> review_map) set \<Rightarrow> directory \<Rightarrow> bool" where
  "holds_puts puts dir \<longleftrightarrow>
     distinct (map fst dir)
     \<and> (\<forall>(p, s) \<in> set dir. \<exists>e. s = Entry e \<and> (ce_identity e, ce_map e) \<in> puts)"

lemma holds_puts_mono: "holds_puts puts dir \<Longrightarrow> puts \<subseteq> puts' \<Longrightarrow> holds_puts puts' dir"
  unfolding holds_puts_def by blast

lemma holds_puts_evict: "holds_puts puts dir \<Longrightarrow> holds_puts puts (evict_locked w limits now dir)"
  using evict_subset [of w limits now dir] by (auto simp: holds_puts_def evict_distinct)

lemma holds_puts_remove: "holds_puts puts dir \<Longrightarrow> holds_puts puts (remove_if_present p dir)"
  by (auto simp: holds_puts_def)

lemma holds_puts_write:
  "holds_puts puts dir \<Longrightarrow> (ce_identity e, ce_map e) \<in> puts \<Longrightarrow> holds_puts puts (atomic_write p (Entry e) dir)"
  by (auto simp: holds_puts_def atomic_write_def)

lemma get_holds:
  assumes "holds_puts puts dir"
  shows "holds_puts puts (fst (cache_get w limits now i dir))"
proof (cases "map_of dir (entry_path w i)")
  case (Some s)
  then obtain e where "s = Entry e" "(ce_identity e, ce_map e) \<in> puts"
    using assms by (fastforce simp: holds_puts_def dest: map_of_SomeD)
  with assms Some show ?thesis
    by (simp add: cache_get_def Let_def holds_puts_remove holds_puts_evict holds_puts_write)
qed (simp add: cache_get_def assms)

text \<open>What is put by a list of events.\<close>

definition puts_of :: "cache_event list \<Rightarrow> (cache_identity \<times> review_map) set" where
  "puts_of events = {(i, m). \<exists>now. Put now i m \<in> set events}"

lemma perform_holds:
  "holds_puts (puts_of events) dir \<Longrightarrow>
   holds_puts (puts_of (events @ [event])) (cache_perform w limits event dir)"
proof (cases event)
  case (Get now i)
  moreover assume "holds_puts (puts_of events) dir"
  then have "holds_puts (puts_of (events @ [event])) dir" by (rule holds_puts_mono) (auto simp: puts_of_def)
  ultimately show ?thesis by (simp add: cache_perform_def get_holds)
next
  case (Put now i m)
  moreover assume "holds_puts (puts_of events) dir"
  then have "holds_puts (puts_of (events @ [event])) dir" by (rule holds_puts_mono) (auto simp: puts_of_def)
  moreover have "(i, m) \<in> puts_of (events @ [event])" using Put by (auto simp: puts_of_def)
  ultimately show ?thesis
    by (auto simp: cache_perform_def cache_put_def intro!: holds_puts_evict holds_puts_write split: option.split)
next
  case Clear
  then show ?thesis by (simp add: cache_perform_def cache_clear_def holds_puts_def)
qed

lemma run_holds: "holds_puts (puts_of events) (fold (cache_perform w limits) events [])"
proof (induction events rule: rev_induct)
  case Nil
  then show ?case by (simp add: holds_puts_def)
next
  case (snoc event events)
  from perform_holds [OF this] show ?case by simp
qed

text \<open>Every event leaves the directory within the bound.\<close>

lemma remove_bytes: "dir_bytes w (remove_if_present p dir) \<le> dir_bytes w dir"
  by (induction dir) (auto simp: dir_bytes_def remove_if_present_def)

lemma perform_bound:
  assumes "lists_all w" and "distinct (map fst dir)" and "dir_bytes w dir \<le> cl_max_bytes limits"
  shows "dir_bytes w (cache_perform w limits event dir) \<le> cl_max_bytes limits"
  using assms(3) evict_bound [OF assms(1) write_distinct [OF assms(2)]] le_trans [OF remove_bytes assms(3)]
  by (auto simp: cache_perform_def cache_get_def cache_put_def cache_clear_def Let_def dir_bytes_def [of w "[]"]
      split: cache_event.split option.split stored.split)

lemma run_bound: "lists_all w \<Longrightarrow> dir_bytes w (fold (cache_perform w limits) events []) \<le> cl_max_bytes limits"
proof (induction events rule: rev_induct)
  case Nil
  then show ?case by (simp add: dir_bytes_def)
next
  case (snoc event events)
  moreover have "distinct (map fst (fold (cache_perform w limits) events []))"
    using run_holds [of events w limits] by (simp add: holds_puts_def)
  ultimately show ?case by (simp add: perform_bound)
qed

section \<open>Properties\<close>

text \<open>
  C28. The key separates identities: two identities are hashed from the same bytes exactly when all
  their fields agree, but for the order of the generation parameters.
\<close>

theorem cache_key_separates:
  assumes "identity_ok i" and "identity_ok j"
  shows "key_bytes i = key_bytes j \<longleftrightarrow>
    mset (ci_generation_parameters i) = mset (ci_generation_parameters j)
    \<and> i\<lparr>ci_generation_parameters := []\<rparr> = j\<lparr>ci_generation_parameters := []\<rparr>"
proof
  assume "key_bytes i = key_bytes j"
  then have fields: "key_fields i = key_fields j"
    using hash_fields_inj [of "key_fields i" "key_fields j"] assms by (simp add: key_bytes_def identity_ok_def)
  then have "sort (ci_generation_parameters i) = sort (ci_generation_parameters j)"
    by (auto simp: key_fields_def Let_def dest!: pairs_inj)
  moreover have same: "ci_repository i = ci_repository j" "ci_head_sha i = ci_head_sha j" "ci_model i = ci_model j"
      "ci_model_digest i = ci_model_digest j"
    using fields by (simp_all add: key_fields_def Let_def)
  moreover have "ci_pull_request i = ci_pull_request j"
    using fields assms be_bytes_inj [of "ci_pull_request i" 8 "ci_pull_request j"]
    by (simp add: key_fields_def Let_def identity_ok_def)
  moreover have "ci_prompt_version i = ci_prompt_version j"
    using fields assms be_bytes_inj [of "ci_prompt_version i" 4 "ci_prompt_version j"]
    by (simp add: key_fields_def Let_def identity_ok_def)
  moreover have "ci_schema_version i = ci_schema_version j"
    using fields assms be_bytes_inj [of "ci_schema_version i" 2 "ci_schema_version j"]
    by (simp add: key_fields_def Let_def identity_ok_def)
  moreover have "ci_classifier_version i = ci_classifier_version j"
    using fields assms be_bytes_inj [of "ci_classifier_version i" 4 "ci_classifier_version j"]
    by (simp add: key_fields_def Let_def identity_ok_def)
  ultimately show "mset (ci_generation_parameters i) = mset (ci_generation_parameters j)
      \<and> i\<lparr>ci_generation_parameters := []\<rparr> = j\<lparr>ci_generation_parameters := []\<rparr>"
    by (cases i; cases j) (simp, metis mset_sort)
next
  assume same: "mset (ci_generation_parameters i) = mset (ci_generation_parameters j)
      \<and> i\<lparr>ci_generation_parameters := []\<rparr> = j\<lparr>ci_generation_parameters := []\<rparr>"
  then have "sort (ci_generation_parameters i) = sort (ci_generation_parameters j)"
    by (metis mset_sort properties_for_sort sorted_sort)
  with same show "key_bytes i = key_bytes j"
    by (cases i; cases j) (simp add: key_bytes_def key_fields_def Let_def)
qed

definition sample_identity :: "(string \<times> string) list \<Rightarrow> cache_identity" where
  "sample_identity parameters =
     \<lparr>ci_repository = ''o/r'', ci_pull_request = 7, ci_head_sha = ''h'', ci_model = ''m'', ci_model_digest = ''d'',
      ci_prompt_version = 1, ci_schema_version = 1, ci_classifier_version = 1, ci_generation_parameters = parameters\<rparr>"

lemma sample_identity_ok: "identity_ok (sample_identity [(''a'', ''b''), (''c'', ''d'')])"
  "identity_ok (sample_identity [(''a'', ''bc''), ([], ''d'')])"
  by (auto simp: identity_ok_def sample_identity_def key_fields_def Let_def)

theorem cache_key_separates_witness:
  "key_bytes (sample_identity [(''a'', ''b''), (''c'', ''d'')]) \<noteq> key_bytes (sample_identity [(''a'', ''bc''), ([], ''d'')])"
proof
  assume "key_bytes (sample_identity [(''a'', ''b''), (''c'', ''d'')]) = key_bytes (sample_identity [(''a'', ''bc''), ([], ''d'')])"
  with cache_key_separates [OF sample_identity_ok]
  have "mset [(''a'', ''b''), (''c'', ''d'')] = mset [(''a'', ''bc''), ([], ''d'')]" by (simp add: sample_identity_def)
  then have "set [(''a'', ''b''), (''c'', ''d'')] = set [(''a'', ''bc''), ([], ''d'')]" by (rule mset_eq_setD)
  then show False by (simp add: set_eq_iff) blast
qed

text \<open>
  C13. The cache answers with what was put: after any events on an empty directory its entries fit
  the bound, and an answer for an identity is an exact map of that pull request which was put under
  this very identity, even where two keys collide.
\<close>

theorem cache_answers_are_puts:
  assumes "lists_all w"
  shows "dir_bytes w (fold (cache_perform w limits) events []) \<le> cl_max_bytes limits
    \<and> pred_option (\<lambda>m. identity_matches_map i m \<and> exact_map m \<and> (\<exists>t. Put t i m \<in> set events))
        (snd (cache_get w limits now i (fold (cache_perform w limits) events [])))"
proof -
  define dir where "dir = fold (cache_perform w limits) events []"
  have holds: "holds_puts (puts_of events) dir" unfolding dir_def by (rule run_holds)
  have "dir_bytes w dir \<le> cl_max_bytes limits"
    unfolding dir_def using run_bound [OF assms] .
  moreover have "pred_option (\<lambda>m. identity_matches_map i m \<and> exact_map m \<and> (\<exists>t. Put t i m \<in> set events))
      (snd (cache_get w limits now i dir))"
  proof (cases "snd (cache_get w limits now i dir)")
    case (Some m)
    then obtain e where e: "map_of dir (entry_path w i) = Some (Entry e)" "valid_entry w i e" "m = ce_map e"
      by (auto simp: cache_get_def Let_def split: option.splits stored.splits if_splits)
    then have "(ce_identity e, ce_map e) \<in> puts_of events"
      using holds by (fastforce simp: holds_puts_def dest: map_of_SomeD)
    then show ?thesis using e(2,3) Some
      by (auto simp: valid_entry_def is_exact_def validate_iff puts_of_def)
  qed simp
  ultimately show ?thesis by (simp add: dir_def)
qed

text \<open>
  A hit: a map that was put is the answer for its identity until it expires, if it fits the bound
  and every other entry was used before it.
\<close>

lemma cache_put_get:
  assumes "lists_all w" and "identity_matches_map i m" and "exact_map m"
    and "\<forall>f \<in> set dir. fst f \<noteq> entry_path w i \<longrightarrow> accessed f < now"
    and "distinct (map fst dir)"
    and "cw_size w (Entry \<lparr>ce_identity = i, ce_map = m, ce_created_at = now, ce_last_accessed_at = now\<rparr>)
           \<le> cl_max_bytes limits"
    and "later \<le> now + cl_max_age limits"
  shows "map_option (\<lambda>dir'. snd (cache_get w limits later i dir')) (cache_put w limits now i m dir) = Some (Some m)"
proof -
  define e where "e = \<lparr>ce_identity = i, ce_map = m, ce_created_at = now, ce_last_accessed_at = now\<rparr>"
  define written where "written = atomic_write (entry_path w i) (Entry e) dir"
  have put: "cache_put w limits now i m dir = Some (evict_locked w limits now written)"
    using assms(2,3) by (simp add: cache_put_def written_def e_def is_exact_def validate_iff)
  have d: "distinct (map fst written)" using assms(5) by (simp add: written_def)
  have latest: "accessed (entry_path w i, Entry e) = now" by (simp add: accessed_def e_def)
  have "(entry_path w i, Entry e) \<in> set (evict_locked w limits now written)"
  proof (rule evict_keeps_latest [OF assms(1) d])
    show "(entry_path w i, Entry e) \<in> set written" by (simp add: written_def atomic_write_def)
    show "fresh_file limits now (entry_path w i, Entry e)" by (simp add: fresh_file_def expired_def e_def)
    show "\<forall>x \<in> set written. x \<noteq> (entry_path w i, Entry e) \<longrightarrow> accessed x < accessed (entry_path w i, Entry e)"
      using assms(4) latest by (auto simp: written_def atomic_write_def)
    show "cw_size w (snd (entry_path w i, Entry e)) \<le> cl_max_bytes limits" using assms(6) by (simp add: e_def)
  qed
  then have "map_of (evict_locked w limits now written) (entry_path w i) = Some (Entry e)"
    by (simp add: map_of_is_SomeI evict_distinct d)
  moreover have "valid_entry w i e" using assms(2,3) by (simp add: valid_entry_def e_def is_exact_def validate_iff)
  moreover have "\<not> expired limits later e" using assms(7) by (auto simp: expired_def e_def)
  ultimately show ?thesis by (simp add: put cache_get_def Let_def) (simp add: e_def)
qed

definition plain_world :: cache_world where
  "plain_world = \<lparr>cw_digest = (\<lambda>_. ''k''), cw_size = (\<lambda>_. 1), cw_read_dir = rev, cw_pick = hd\<rparr>"

definition sample_key :: cache_identity where
  "sample_key = \<lparr>ci_repository = ri_repository (rm_identity sample_map),
     ci_pull_request = ri_pull_request (rm_identity sample_map), ci_head_sha = ri_head_sha (rm_identity sample_map),
     ci_model = ''m'', ci_model_digest = ''d'', ci_prompt_version = 1, ci_schema_version = rm_schema_version sample_map,
     ci_classifier_version = 1, ci_generation_parameters = []\<rparr>"

definition sample_limits :: cache_limits where
  "sample_limits = \<lparr>cl_max_bytes = 1, cl_max_age = 10\<rparr>"

lemma plain_world_lists: "lists_all plain_world"
  by (simp add: lists_all_def plain_world_def)

lemma sample_map_exact: "exact_map sample_map"
proof -
  have "validate_exact_map hd sample_map = Inr ()" by code_simp
  then show ?thesis by (simp add: validate_iff)
qed

lemma cache_put_get_instance:
  "map_option (\<lambda>dir'. snd (cache_get plain_world sample_limits 12 sample_key dir'))
     (cache_put plain_world sample_limits 5 sample_key sample_map [(''old.json'', Unreadable [])]) = Some (Some sample_map)"
proof (rule cache_put_get [OF plain_world_lists _ sample_map_exact])
  show "identity_matches_map sample_key sample_map" by (simp add: identity_matches_map_def sample_key_def)
qed (simp_all add: accessed_def plain_world_def sample_limits_def)

theorem cache_answers_are_puts_witness:
  "dir_bytes plain_world (fold (cache_perform plain_world sample_limits) [Put 5 sample_key sample_map] [])
     \<le> cl_max_bytes sample_limits
   \<and> pred_option (\<lambda>m. identity_matches_map sample_key m \<and> exact_map m
        \<and> (\<exists>t. Put t sample_key m \<in> set [Put 5 sample_key sample_map]))
      (snd (cache_get plain_world sample_limits 6 sample_key
         (fold (cache_perform plain_world sample_limits) [Put 5 sample_key sample_map] [])))"
  by (rule cache_answers_are_puts [OF plain_world_lists])

end
