(* ===== verification/Batches.thy ===== *)
theory Batches
  imports Enrichment
begin

text \<open>
  Cutting a large pull request into prompts for the local model,
  \<open>crates/ramo-server/src/analysis/budget.rs\<close>. The estimate of the size of a prompt is a parameter,
  as it is in the code.
\<close>

section \<open>Data\<close>

definition OLLAMA_CONTEXT_TOKENS :: usize where "OLLAMA_CONTEXT_TOKENS = 32768"
definition OLLAMA_OUTPUT_TOKENS :: usize where "OLLAMA_OUTPUT_TOKENS = 6144"
definition OLLAMA_SAFETY_TOKENS :: usize where "OLLAMA_SAFETY_TOKENS = 2048"

definition MAX_PROMPT_TOKENS :: usize where
  "MAX_PROMPT_TOKENS = OLLAMA_CONTEXT_TOKENS - OLLAMA_OUTPUT_TOKENS - OLLAMA_SAFETY_TOKENS"

definition estimate_tokens :: "usize \<Rightarrow> usize" where
  "estimate_tokens bytes = (bytes + 2) div 3"

record analysis_budget =
  ab_max_prompt_tokens :: usize
  ab_max_files_per_batch :: usize

definition analysis_budget_default :: analysis_budget where
  "analysis_budget_default = \<lparr>ab_max_prompt_tokens = MAX_PROMPT_TOKENS, ab_max_files_per_batch = 16\<rparr>"

section \<open>Operations\<close>

fun file_priority :: "review_file_kind \<Rightarrow> nat" where
  "file_priority Migration = 0"
| "file_priority Authored = 1"
| "file_priority Documentation = 2"
| "file_priority Other = 3"
| "file_priority Test = 4"
| "file_priority Generated = 5"

definition cover_file :: "enrichment_input_file \<Rightarrow> enrichment_coverage \<Rightarrow> enrichment_coverage" where
  "cover_file f c =
     (case ef_coverage f of
        Full \<Rightarrow> c\<lparr>ec_analyzed_paths := ec_analyzed_paths c @ [ef_path f]\<rparr>
      | Truncated \<Rightarrow> c\<lparr>ec_truncated_paths := ec_truncated_paths c @ [ef_path f]\<rparr>
      | MetadataOnly \<Rightarrow> c\<lparr>ec_metadata_only_paths := ec_metadata_only_paths c @ [ef_path f]\<rparr>
      | Binary \<Rightarrow> c\<lparr>ec_binary_paths := ec_binary_paths c @ [ef_path f]\<rparr>)"

definition coverage_for :: "enrichment_input_file list \<Rightarrow> enrichment_coverage" where
  "coverage_for fs =
     fold cover_file fs \<lparr>ec_analyzed_paths = [], ec_truncated_paths = [], ec_metadata_only_paths = [], ec_binary_paths = []\<rparr>"

definition batch_group :: "string set \<Rightarrow> enrichment_exact_group \<Rightarrow> enrichment_exact_group option" where
  "batch_group paths g =
     (let group_paths = filter (\<lambda>p. p \<in> paths) (eg_paths g)
      in if group_paths = [] then None else Some (g\<lparr>eg_paths := group_paths\<rparr>))"

definition build_batch :: "enrichment_request \<Rightarrow> enrichment_input_file list \<Rightarrow> enrichment_request" where
  "build_batch request files =
     \<lparr>er_schema_version = er_schema_version request, er_identity = er_identity request,
      er_groups = List.map_filter (batch_group (set (map ef_path files))) (er_groups request),
      er_files = files, er_coverage = coverage_for files\<rparr>"

definition prepare_patch :: "enrichment_input_file \<Rightarrow> enrichment_input_file" where
  "prepare_patch f =
     (if ef_kind f = Generated then f\<lparr>ef_patch := None, ef_coverage := MetadataOnly\<rparr>
      else if ef_coverage f = Binary \<or> ef_patch f = None then f\<lparr>ef_patch := None\<rparr>
      else f)"

text \<open>The loop of \<open>floor_char_boundary\<close>; the start of a text is always a boundary.\<close>

fun boundary_below :: "string \<Rightarrow> nat \<Rightarrow> nat" where
  "boundary_below s 0 = 0"
| "boundary_below s (Suc i) = (if char_boundary s (Suc i) then Suc i else boundary_below s i)"

definition floor_char_boundary :: "string \<Rightarrow> usize \<Rightarrow> usize" where
  "floor_char_boundary s requested = boundary_below s (min requested (length s))"

definition cut_patch :: "enrichment_input_file \<Rightarrow> string \<Rightarrow> usize \<Rightarrow> enrichment_input_file" where
  "cut_patch f original n =
     f\<lparr>ef_patch := Some (take (floor_char_boundary original n) original), ef_coverage := Truncated\<rparr>"

text \<open>The bisection for the greatest length that fits.\<close>

function fit_length :: "(usize \<Rightarrow> bool) \<Rightarrow> usize \<Rightarrow> usize \<Rightarrow> usize" where
  "fit_length fits low high =
     (if low < high
      then let requested = low + (high - low + 1) div 2
           in if fits requested then fit_length fits requested high else fit_length fits low (requested - 1)
      else low)"
  by auto
termination by (relation "measure (\<lambda>(fits, low, high). high - low)") auto

declare fit_length.simps [simp del]

definition truncate_to_prompt_budget ::
  "enrichment_request \<Rightarrow> enrichment_input_file \<Rightarrow> usize \<Rightarrow> (enrichment_request \<Rightarrow> usize) \<Rightarrow> enrichment_input_file" where
  "truncate_to_prompt_budget request f max_prompt_tokens estimate_prompt =
     (case ef_patch f of
        None \<Rightarrow> f
      | Some original \<Rightarrow>
          if estimate_prompt (build_batch request [f]) \<le> max_prompt_tokens then f
          else cut_patch f original
                 (fit_length (\<lambda>n. estimate_prompt (build_batch request [cut_patch f original n]) \<le> max_prompt_tokens)
                    0 (length original)))"

definition batch_step ::
  "enrichment_request \<Rightarrow> analysis_budget \<Rightarrow> (enrichment_request \<Rightarrow> usize) \<Rightarrow> enrichment_input_file
     \<Rightarrow> enrichment_request list \<times> enrichment_input_file list
     \<Rightarrow> enrichment_request list \<times> enrichment_input_file list" where
  "batch_step request budget estimate_prompt f state =
     (let (batches, current) = state;
          f = prepare_patch f;
          candidate = build_batch request (current @ [f]);
          (batches, current) =
            (if current \<noteq> [] \<and> (max (ab_max_files_per_batch budget) 1 \<le> length current
                 \<or> ab_max_prompt_tokens budget < estimate_prompt candidate)
             then (batches @ [build_batch request current], []) else (batches, current));
          f = (if current = [] then truncate_to_prompt_budget request f (ab_max_prompt_tokens budget) estimate_prompt
               else f)
      in (batches, current @ [f]))"

definition budget_batches ::
  "enrichment_request \<Rightarrow> analysis_budget \<Rightarrow> (enrichment_request \<Rightarrow> usize) \<Rightarrow> enrichment_request list" where
  "budget_batches request budget estimate_prompt =
     (let (batches, current) =
            fold (batch_step request budget estimate_prompt)
              (sort_key (\<lambda>f. file_priority (ef_kind f)) (er_files request)) ([], []);
          batches = (if current \<noteq> [] then batches @ [build_batch request current] else batches)
      in if batches = [] then [build_batch request []] else batches)"

section \<open>Cutting\<close>

lemma boundary_below_le: "boundary_below s n \<le> n"
  by (induction n) auto

lemma boundary_below_boundary: "boundary_below s n = 0 \<or> char_boundary s (boundary_below s n)"
  by (induction n) auto

lemma boundary_below_greatest: "char_boundary s k \<Longrightarrow> k \<le> n \<Longrightarrow> k \<le> boundary_below s n"
  by (induction n) (auto simp: le_Suc_eq)

lemma floor_char_boundary:
  "floor_char_boundary s n = 0 \<or> char_boundary s (floor_char_boundary s n)"
  "floor_char_boundary s n \<le> n" "floor_char_boundary s n \<le> length s"
  using boundary_below_boundary boundary_below_le [of s "min n (length s)"]
  by (auto simp: floor_char_boundary_def)

lemma floor_char_boundary_fixed: "char_boundary s k \<Longrightarrow> k \<le> length s \<Longrightarrow> floor_char_boundary s k = k"
  using boundary_below_greatest [of s k k] boundary_below_le [of s k]
  by (simp add: floor_char_boundary_def min_absorb1)

text \<open>Cutting at a boundary leaves text.\<close>

lemma encoded_floor: "encoded s \<Longrightarrow> encoded (take (floor_char_boundary s n) s)"
  using floor_char_boundary(1) [of s n] encoded_cut(1) [of s "floor_char_boundary s n"]
  by (auto simp: char_boundary_def)

lemma floor_char_boundary_mono: "m \<le> n \<Longrightarrow> floor_char_boundary s m \<le> floor_char_boundary s n"
  using boundary_below_boundary [of s "min m (length s)"] boundary_below_le [of s "min m (length s)"]
    boundary_below_greatest [of s "boundary_below s (min m (length s))" "min n (length s)"]
  by (auto simp: floor_char_boundary_def)

lemma fit_length_step:
  assumes "low < high"
  defines "requested \<equiv> low + (high - low + 1) div 2"
  shows "fit_length fits low high
      = (if fits requested then fit_length fits requested high else fit_length fits low (requested - 1))"
    and "low < requested" "requested \<le> high"
  using assms by (simp_all add: fit_length.simps [of fits low high] Let_def)

lemma fit_length_stop [simp]: "\<not> low < high \<Longrightarrow> fit_length fits low high = low"
  by (simp add: fit_length.simps)

lemma fit_length_bounds: "low \<le> high \<Longrightarrow> low \<le> fit_length fits low high \<and> fit_length fits low high \<le> high"
proof (induction "high - low" arbitrary: low high rule: less_induct)
  case less
  show ?case
  proof (cases "low < high")
    case True
    define requested where "requested = low + (high - low + 1) div 2"
    note step = fit_length_step [OF True, folded requested_def]
    have smaller: "high - requested < high - low" "requested - 1 - low < high - low" "low \<le> requested - 1"
      using step(2,3) by auto
    show ?thesis
      using less(1) [OF smaller(1) step(3)] less(1) [OF smaller(2,3)] step(1) [of fits] step(2,3) by auto
  qed (use less in simp)
qed

text \<open>The result was tried and fits, unless nothing did.\<close>

lemma fit_length_fits: "fit_length fits low high = low \<or> fits (fit_length fits low high)"
proof (induction "high - low" arbitrary: low high rule: less_induct)
  case less
  show ?case
  proof (cases "low < high")
    case True
    define requested where "requested = low + (high - low + 1) div 2"
    note step = fit_length_step [OF True, folded requested_def]
    show ?thesis
      using less [of high requested] less [of "requested - 1" low] step by (auto split: if_splits)
  qed simp
qed

text \<open>If what is shorter than a fitting length fits as well, the result is the greatest that does.\<close>

lemma fit_length_greatest:
  assumes mono: "\<And>m n. m \<le> n \<Longrightarrow> fits n \<Longrightarrow> fits m" and "fits k"
  shows "k \<le> high \<Longrightarrow> low \<le> high \<Longrightarrow> k \<le> fit_length fits low high"
proof (induction "high - low" arbitrary: low high rule: less_induct)
  case less
  show ?case
  proof (cases "low < high")
    case True
    define requested where "requested = low + (high - low + 1) div 2"
    note step = fit_length_step [OF True, folded requested_def]
    have "\<not> fits requested \<Longrightarrow> k \<le> requested - 1" using mono [of requested k] \<open>fits k\<close> by linarith
    then show ?thesis
      using less(1) [of high requested] less(1) [of "requested - 1" low] step less(2) by (auto split: if_splits)
  qed (use less in simp)
qed

section \<open>Batches\<close>

text \<open>What may become of a file: its patch is left out as \<open>prepare_patch\<close> does it, or cut.\<close>

definition analysed_as :: "enrichment_input_file \<Rightarrow> enrichment_input_file \<Rightarrow> bool" where
  "analysed_as f g \<longleftrightarrow>
     g = prepare_patch f
     \<or> (\<exists>original n. ef_patch (prepare_patch f) = Some original \<and> g = cut_patch (prepare_patch f) original n)"

definition batch_fits :: "analysis_budget \<Rightarrow> (enrichment_request \<Rightarrow> usize) \<Rightarrow> enrichment_request \<Rightarrow> bool" where
  "batch_fits budget estimate_prompt b \<longleftrightarrow>
     length (er_files b) \<le> max (ab_max_files_per_batch budget) 1
     \<and> (estimate_prompt b \<le> ab_max_prompt_tokens budget
        \<or> (\<exists>f. er_files b = [f] \<and> (ef_patch f = None \<or> ef_patch f = Some [])))"

lemma build_batch_files [simp]: "er_files (build_batch request fs) = fs"
  by (simp add: build_batch_def)

lemma truncated_fits:
  fixes request budget est
  defines "b f \<equiv> build_batch request [truncate_to_prompt_budget request f (ab_max_prompt_tokens budget) est]"
  shows "batch_fits budget est (b f)"
proof (cases "ef_patch f")
  case None
  then show ?thesis by (simp add: b_def truncate_to_prompt_budget_def batch_fits_def)
next
  case (Some original)
  define fits where "fits n \<longleftrightarrow> est (build_batch request [cut_patch f original n]) \<le> ab_max_prompt_tokens budget" for n
  show ?thesis
  proof (cases "est (build_batch request [f]) \<le> ab_max_prompt_tokens budget")
    case True
    then show ?thesis by (simp add: b_def truncate_to_prompt_budget_def batch_fits_def Some)
  next
    case False
    then have b: "b f = build_batch request [cut_patch f original (fit_length fits 0 (length original))]"
      by (simp add: b_def truncate_to_prompt_budget_def Some fits_def [abs_def])
    from fit_length_fits [of fits 0 "length original"]
    have "fit_length fits 0 (length original) = 0 \<or> fits (fit_length fits 0 (length original))" .
    then show ?thesis
    proof
      assume "fit_length fits 0 (length original) = 0"
      then show ?thesis using floor_char_boundary(2) [of original 0]
        by (simp add: b batch_fits_def cut_patch_def)
    next
      assume "fits (fit_length fits 0 (length original))"
      then show ?thesis by (simp add: b batch_fits_def fits_def)
    qed
  qed
qed

lemma truncate_analysed: "analysed_as f (truncate_to_prompt_budget request (prepare_patch f) n est)"
  by (auto simp: truncate_to_prompt_budget_def analysed_as_def split: option.splits)

text \<open>The state of the loop: full batches, and the batch that is being filled.\<close>

definition batches_ok ::
  "enrichment_request \<Rightarrow> analysis_budget \<Rightarrow> (enrichment_request \<Rightarrow> usize) \<Rightarrow> enrichment_input_file list
     \<Rightarrow> enrichment_request list \<times> enrichment_input_file list \<Rightarrow> bool" where
  "batches_ok request budget est fs state \<longleftrightarrow>
     (\<forall>b \<in> set (fst state). b = build_batch request (er_files b) \<and> er_files b \<noteq> [] \<and> batch_fits budget est b)
     \<and> (snd state \<noteq> [] \<longrightarrow> batch_fits budget est (build_batch request (snd state)))
     \<and> list_all2 analysed_as fs (concat (map er_files (fst state)) @ snd state)"

lemma batch_step_ok:
  assumes "batches_ok request budget est fs state"
  shows "batches_ok request budget est (fs @ [f]) (batch_step request budget est f state)"
proof -
  obtain batches current where state: "state = (batches, current)" by (cases state)
  define g where "g = truncate_to_prompt_budget request (prepare_patch f) (ab_max_prompt_tokens budget) est"
  have g: "analysed_as f g" "batch_fits budget est (build_batch request [g])"
    using truncate_analysed truncated_fits by (simp_all add: g_def)
  have same: "analysed_as f (prepare_patch f)" by (simp add: analysed_as_def)
  define full where "full \<longleftrightarrow> max (ab_max_files_per_batch budget) 1 \<le> length current
    \<or> ab_max_prompt_tokens budget < est (build_batch request (current @ [prepare_patch f]))"
  have step: "batch_step request budget est f state =
      (if current = [] then (batches, [g])
       else if full then (batches @ [build_batch request current], [g])
       else (batches, current @ [prepare_patch f]))"
    by (simp add: batch_step_def state g_def full_def Let_def)
  have more: "list_all2 analysed_as (fs @ [f]) (xs @ [h])" if "list_all2 analysed_as fs xs" "analysed_as f h" for xs h
    using that by (simp add: list_all2_appendI)
  have "\<not> full \<Longrightarrow> batch_fits budget est (build_batch request (current @ [prepare_patch f]))"
    by (auto simp: full_def batch_fits_def)
  then show ?thesis
    using assms g same more [of "concat (map er_files batches) @ current"]
    unfolding step [unfolded state] batches_ok_def state by auto
qed

lemma batch_steps_ok:
  "batches_ok request budget est fs state \<Longrightarrow>
   batches_ok request budget est (fs @ gs) (fold (batch_step request budget est) gs state)"
proof (induction gs arbitrary: fs state)
  case (Cons g gs)
  from Cons.IH [OF batch_step_ok [OF Cons.prems, of g]] show ?case by simp
qed simp

section \<open>Properties\<close>

text \<open>
  C14. Batches: every file of the request is in exactly one batch, in the order of its priority and
  with its patch as it was, left out or cut; every batch has at most as many files as allowed and
  its prompt is in the budget, unless a single file without any patch is already beyond it; and
  each batch carries the groups and the coverage of its own files.
\<close>

theorem budget_batches_exact:
  shows "list_all2 analysed_as (sort_key (\<lambda>f. file_priority (ef_kind f)) (er_files request))
           (concat (map er_files (budget_batches request budget estimate_prompt)))
    \<and> list_all (\<lambda>b. b = build_batch request (er_files b)) (budget_batches request budget estimate_prompt)
    \<and> (er_files request = [] \<and> budget_batches request budget estimate_prompt = [build_batch request []]
       \<or> list_all (\<lambda>b. er_files b \<noteq> [] \<and> batch_fits budget estimate_prompt b)
           (budget_batches request budget estimate_prompt))"
proof -
  define fs where "fs = sort_key (\<lambda>f. file_priority (ef_kind f)) (er_files request)"
  obtain batches current where run: "fold (batch_step request budget estimate_prompt) fs ([], []) = (batches, current)"
    by fastforce
  have "batches_ok request budget estimate_prompt [] ([], [])" by (simp add: batches_ok_def)
  from batch_steps_ok [OF this, of fs] have ok: "batches_ok request budget estimate_prompt fs (batches, current)"
    by (simp add: run)
  have result: "budget_batches request budget estimate_prompt =
      (let bs = (if current \<noteq> [] then batches @ [build_batch request current] else batches)
       in if bs = [] then [build_batch request []] else bs)"
    by (simp add: budget_batches_def run [unfolded fs_def] Let_def)
  have empty: "fs = [] \<longleftrightarrow> er_files request = []"
    by (metis fs_def set_empty set_sort)
  show ?thesis
  proof (cases "batches = [] \<and> current = []")
    case True
    then have "fs = []" using ok by (simp add: batches_ok_def)
    with True empty show ?thesis by (simp add: result fs_def [symmetric])
  next
    case False
    then show ?thesis using ok unfolding result fs_def [symmetric]
      by (auto simp: batches_ok_def Let_def list_all_iff)
  qed
qed

text \<open>
  C40. The longest cut: where a shorter patch never makes a longer prompt, a patch that is cut is cut
  at the last character boundary at which its prompt is in the budget, and the cut leaves text.
\<close>

theorem truncation_maximal:
  assumes "ef_patch f = Some original" and "encoded original"
    and "max_prompt_tokens < estimate_prompt (build_batch request [f])"
    and shorter: "\<And>m n. m \<le> n \<Longrightarrow> estimate_prompt (build_batch request [cut_patch f original m])
                    \<le> estimate_prompt (build_batch request [cut_patch f original n])"
    and "char_boundary original k"
    and fits: "estimate_prompt (build_batch request [f\<lparr>ef_patch := Some (take k original), ef_coverage := Truncated\<rparr>])
      \<le> max_prompt_tokens"
  shows "\<exists>cut. truncate_to_prompt_budget request f max_prompt_tokens estimate_prompt
             = f\<lparr>ef_patch := Some (take cut original), ef_coverage := Truncated\<rparr>
           \<and> k \<le> cut \<and> cut \<le> length original \<and> encoded (take cut original)
           \<and> estimate_prompt (build_batch request [f\<lparr>ef_patch := Some (take cut original), ef_coverage := Truncated\<rparr>])
               \<le> max_prompt_tokens"
proof -
  define ok where "ok n \<longleftrightarrow> estimate_prompt (build_batch request [cut_patch f original n]) \<le> max_prompt_tokens" for n
  have k: "k \<le> length original" using assms(5) by (auto simp: char_boundary_def)
  have at_k: "cut_patch f original k = f\<lparr>ef_patch := Some (take k original), ef_coverage := Truncated\<rparr>"
    using floor_char_boundary_fixed [OF assms(5) k] by (simp add: cut_patch_def)
  have mono: "ok m" if "m \<le> n" "ok n" for m n using shorter [OF that(1)] that(2) by (simp add: ok_def)
  have "ok k" using fits by (simp add: ok_def at_k)
  define n where "n = fit_length ok 0 (length original)"
  have "k \<le> n" unfolding n_def by (rule fit_length_greatest [of ok k "length original" 0]) (use mono \<open>ok k\<close> k in auto)
  have "ok n" using fit_length_fits [of ok 0 "length original"] \<open>k \<le> n\<close> \<open>ok k\<close> by (auto simp: n_def)
  have cut: "truncate_to_prompt_budget request f max_prompt_tokens estimate_prompt = cut_patch f original n"
    using assms(1,3) by (simp add: truncate_to_prompt_budget_def n_def ok_def [abs_def])
  have "k \<le> floor_char_boundary original n"
    using boundary_below_greatest [OF assms(5)] \<open>k \<le> n\<close> k by (simp add: floor_char_boundary_def)
  then show ?thesis
    using cut \<open>ok n\<close> floor_char_boundary(3) [of original n] encoded_floor [OF assms(2)]
    by (auto simp: cut_patch_def ok_def)
qed

text \<open>Six letters against a budget of three: the prompt is measured by its patches.\<close>

definition patch_bytes :: "enrichment_request \<Rightarrow> usize" where
  "patch_bytes b = sum_list (map (\<lambda>f. case ef_patch f of None \<Rightarrow> 0 | Some p \<Rightarrow> length p) (er_files b))"

definition long_file :: enrichment_input_file where
  "long_file = \<lparr>ef_path = ''a.rs'', ef_kind = Authored, ef_additions = 1, ef_deletions = 0,
     ef_coverage = Full, ef_patch = Some ''abcdef''\<rparr>"

definition long_request :: enrichment_request where
  "long_request = \<lparr>er_schema_version = 1,
     er_identity = \<lparr>ri_repository = ''o/r'', ri_pull_request = 1, ri_base_sha = ''b'', ri_head_sha = ''h''\<rparr>,
     er_groups = [], er_files = [long_file], er_coverage = coverage_for [long_file]\<rparr>"

lemma patch_bytes_cut: "patch_bytes (build_batch request [cut_patch f original n]) = floor_char_boundary original n"
  using floor_char_boundary(3) [of original n] by (simp add: patch_bytes_def cut_patch_def)

theorem truncation_maximal_witness:
  "\<exists>cut. truncate_to_prompt_budget long_request long_file 3 patch_bytes
             = long_file\<lparr>ef_patch := Some (take cut ''abcdef''), ef_coverage := Truncated\<rparr>
           \<and> 2 \<le> cut \<and> cut \<le> length ''abcdef'' \<and> encoded (take cut ''abcdef'')
           \<and> patch_bytes (build_batch long_request
                [long_file\<lparr>ef_patch := Some (take cut ''abcdef''), ef_coverage := Truncated\<rparr>]) \<le> 3"
proof (rule truncation_maximal)
  show "ef_patch long_file = Some ''abcdef''" by (simp add: long_file_def)
  show "encoded ''abcdef''" by (simp add: encoded_Cons)
  show "3 < patch_bytes (build_batch long_request [long_file])" by (simp add: patch_bytes_def long_file_def)
  show "patch_bytes (build_batch long_request [cut_patch long_file ''abcdef'' m])
      \<le> patch_bytes (build_batch long_request [cut_patch long_file ''abcdef'' n])" if "m \<le> n" for m n
    using floor_char_boundary_mono [OF that] by (simp add: patch_bytes_cut)
  show "char_boundary ''abcdef'' 2" by code_simp
  show "patch_bytes (build_batch long_request
      [long_file\<lparr>ef_patch := Some (take 2 ''abcdef''), ef_coverage := Truncated\<rparr>]) \<le> 3"
    by (simp add: patch_bytes_def)
qed

end
