(* ===== verification/Coordinator.thy ===== *)
theory Coordinator
  imports Map_Cache Batches "HOL-Library.AList"
begin

text \<open>
  The analysis of pull requests, \<open>crates/ramo-server/src/analysis/coordinator.rs\<close>: any number of
  \<open>resolve\<close> calls run beside one worker, and they share the jobs behind a mutex, a channel and the
  cache. What happens between two awaits is one step here; the answers of GitHub and of the model
  and the clock are arguments of the steps. A job that panics is \<open>None\<close>. Sending waits while the
  channel is full; it cannot fail, because the worker holds the coordinator and never ends.
\<close>

section \<open>Data\<close>

record review_map_failure =
  fl_code :: review_map_failure_code
  fl_message :: string

datatype job_state =
    JobQueued
  | JobAnalyzing
  | JobEnriched
  | JobUnavailable review_map_failure
  | JobFailed review_map_failure

record job_snapshot =
  js_job_id :: string
  js_state :: job_state
  js_map :: review_map

record pull_request_key =
  pk_repository :: string
  pk_number :: u64

record resolve_request =
  rq_key :: pull_request_key
  rq_expected_head_sha :: "string option"

record analyzer_identity =
  ai_model :: string
  ai_model_digest :: string
  ai_prompt_version :: u32
  ai_generation_parameters :: "(string \<times> string) list"

record analysis_result =
  ar_proposal :: enrichment_proposal
  ar_model :: string
  ar_model_digest :: string

record coordinator_config =
  cc_classifier :: classifier_config
  cc_classifier_version :: u32
  cc_schema_version :: u16

record job_record =
  jr_snapshot :: job_snapshot
  jr_cache_key :: "string option"
  jr_repository :: string
  jr_pull_request :: u64
  jr_head_sha :: string

record analysis_work =
  wk_job_id :: string
  wk_cache_identity :: cache_identity
  wk_exact_map :: review_map
  wk_request :: enrichment_request

text \<open>The outcome of an analysis: the state and the status of a job that failed, or its map.\<close>

type_synonym analysis_outcome = "(job_state \<times> review_map_status) + review_map"

text \<open>A \<open>resolve\<close> call after its lookups: it has a finished job to record, an analysis to enqueue, or
  work to send. The worker waits, analyzes, or has its outcome to record.\<close>

datatype resolve_task =
    Recording review_map job_state
  | Enqueuing review_map cache_identity enrichment_request
  | Sending analysis_work job_snapshot

datatype worker_state = Idle | Working analysis_work | Finishing analysis_work analysis_outcome

record coordinator =
  co_jobs :: "(string \<times> job_record) list"
  co_in_flight :: "(string \<times> string) list"
  co_queue :: "analysis_work list"
  co_tasks :: "resolve_task list"
  co_worker :: worker_state
  co_next_id :: u64
  co_cache :: directory

record coordinator_world =
  xw_cache :: cache_world
  xw_limits :: cache_limits
  xw_glob :: globset
  xw_config :: coordinator_config

definition CHANNEL_CAPACITY :: nat where "CHANNEL_CAPACITY = 64"

definition coordinator_new :: "directory \<Rightarrow> coordinator" where
  "coordinator_new dir =
     \<lparr>co_jobs = [], co_in_flight = [], co_queue = [], co_tasks = [], co_worker = Idle, co_next_id = 1, co_cache = dir\<rparr>"

section \<open>Helpers\<close>

definition new_failure :: "review_map_failure_code \<Rightarrow> string \<Rightarrow> review_map_failure" where
  "new_failure failure_code message = \<lparr>fl_code = failure_code, fl_message = message\<rparr>"

definition stale_failure :: review_map_failure where
  "stale_failure = new_failure ResultStale ''A newer pull request revision superseded this analysis''"

fun status_for :: "job_state \<Rightarrow> review_map_status" where
  "status_for JobQueued = Analyzing"
| "status_for JobAnalyzing = Analyzing"
| "status_for JobEnriched = Enriched"
| "status_for (JobUnavailable f) = Unavailable"
| "status_for (JobFailed f) = Failed"

definition failure_outcome :: "review_map_failure \<Rightarrow> analysis_outcome" where
  "failure_outcome failure =
     (if fl_code failure = OllamaUnavailable \<or> fl_code failure = ModelMissing \<or> fl_code failure = AnalysisTimedOut
      then Inl (JobUnavailable failure, Unavailable)
      else Inl (JobFailed failure, Failed))"

definition job_id :: "u64 \<Rightarrow> u64 \<Rightarrow> string" where
  "job_id seconds n = ''job-'' @ nat_str seconds @ ''-'' @ nat_str n"

definition exact_group_of :: "(string \<rightharpoonup> review_map_file) \<Rightarrow> review_map_group \<Rightarrow> enrichment_exact_group option" where
  "exact_group_of files_by_id g =
     map_option (\<lambda>fs. \<lparr>eg_id = mg_id g, eg_label = mg_label g, eg_kind = mg_kind g, eg_paths = map mf_path fs\<rparr>)
       (those (map files_by_id (mg_file_ids g)))"

definition enrichment_request_of :: "review_map_input \<Rightarrow> review_map \<Rightarrow> enrichment_request option" where
  "enrichment_request_of input m =
     (let input_by_path = collect_map (map (\<lambda>f. (mi_path f, f)) (in_files input));
          files_by_id = collect_map (map (\<lambda>f. (mf_id f, f)) (rm_files m));
          files = map (\<lambda>f. \<lparr>ef_path = mf_path f, ef_kind = mf_kind f, ef_additions = mf_additions f,
                             ef_deletions = mf_deletions f, ef_coverage = mf_coverage f,
                             ef_patch = Option.bind (input_by_path (mf_path f)) mi_patch\<rparr>) (rm_files m)
      in map_option
           (\<lambda>groups. \<lparr>er_schema_version = rm_schema_version m, er_identity = rm_identity m, er_groups = groups,
                      er_files = files, er_coverage = coverage_for files\<rparr>)
           (those (map (exact_group_of files_by_id) (rm_groups m))))"

definition cache_identity_of :: "review_map \<Rightarrow> analyzer_identity \<Rightarrow> coordinator_config \<Rightarrow> cache_identity" where
  "cache_identity_of m analyzer config =
     \<lparr>ci_repository = ri_repository (rm_identity m), ci_pull_request = ri_pull_request (rm_identity m),
      ci_head_sha = ri_head_sha (rm_identity m), ci_model = ai_model analyzer, ci_model_digest = ai_model_digest analyzer,
      ci_prompt_version = ai_prompt_version analyzer, ci_schema_version = cc_schema_version config,
      ci_classifier_version = cc_classifier_version config,
      ci_generation_parameters = ai_generation_parameters analyzer\<rparr>"

definition job_record_of :: "job_snapshot \<Rightarrow> string option \<Rightarrow> job_record" where
  "job_record_of snapshot key =
     \<lparr>jr_snapshot = snapshot, jr_cache_key = key, jr_repository = ri_repository (rm_identity (js_map snapshot)),
      jr_pull_request = ri_pull_request (rm_identity (js_map snapshot)),
      jr_head_sha = ri_head_sha (rm_identity (js_map snapshot))\<rparr>"

definition with_outcome :: "job_state \<Rightarrow> review_map_status \<Rightarrow> job_record \<Rightarrow> job_record" where
  "with_outcome state status r =
     r\<lparr>jr_snapshot := (jr_snapshot r)\<lparr>js_state := state, js_map := (js_map (jr_snapshot r))\<lparr>rm_status := status\<rparr>\<rparr>\<rparr>"

definition superseded :: "review_map \<Rightarrow> job_record \<Rightarrow> bool" where
  "superseded m r \<longleftrightarrow>
     jr_repository r = ri_repository (rm_identity m) \<and> jr_pull_request r = ri_pull_request (rm_identity m)
     \<and> jr_head_sha r \<noteq> ri_head_sha (rm_identity m) \<and> js_state (jr_snapshot r) = JobQueued"

definition cancel_stale_queued :: "review_map \<Rightarrow> coordinator \<Rightarrow> coordinator" where
  "cancel_stale_queued m c =
     (let stale = map snd (filter (\<lambda>(i, r). superseded m r) (co_jobs c));
          keys = List.map_filter jr_cache_key stale
      in c\<lparr>co_jobs := map (\<lambda>(i, r). (i, if superseded m r then with_outcome (JobUnavailable stale_failure) Stale r else r))
                        (co_jobs c),
           co_in_flight := filter (\<lambda>(k, i). k \<notin> set keys) (co_in_flight c)\<rparr>)"

section \<open>Resolving\<close>

text \<open>The lookups of \<open>resolve\<close>, up to the lock. They end the call with a failure or leave a task.\<close>

definition resolve_lookup ::
  "coordinator_world \<Rightarrow> u64 \<Rightarrow> resolve_request \<Rightarrow> review_map_failure + review_map_input
     \<Rightarrow> review_map_failure + analyzer_identity \<Rightarrow> coordinator
     \<Rightarrow> (coordinator \<times> (review_map_failure + unit)) option" where
  "resolve_lookup w now request loaded analyzer c =
     (case loaded of
        Inl failure \<Rightarrow> Some (c, Inl failure)
      | Inr input \<Rightarrow>
          (case build_review_map (xw_glob w) (cw_pick (xw_cache w)) input (cc_classifier (xw_config w)) of
             Inl e \<Rightarrow> Some (c, Inl (new_failure AnalysisFailed ''Could not build the exact Review Map''))
           | Inr exact \<Rightarrow>
               if (case rq_expected_head_sha request of
                     None \<Rightarrow> False | Some expected \<Rightarrow> expected \<noteq> ri_head_sha (rm_identity exact))
               then Some (c, Inl stale_failure)
               else do {
                 enrichment \<leftarrow> enrichment_request_of input exact;
                 case analyzer of
                   Inl failure \<Rightarrow>
                     Some (c\<lparr>co_tasks := co_tasks c @ [Recording exact (JobUnavailable failure)]\<rparr>, Inr ())
                 | Inr analyzer \<Rightarrow>
                     let i = cache_identity_of exact analyzer (xw_config w);
                         (cache, found) = cache_get (xw_cache w) (xw_limits w) now i (co_cache c);
                         task = (case found of
                                   Some m \<Rightarrow> Recording m JobEnriched
                                 | None \<Rightarrow> Enqueuing exact i enrichment)
                     in Some (c\<lparr>co_cache := cache, co_tasks := co_tasks c @ [task]\<rparr>, Inr ())
               }))"

definition record_terminal ::
  "u64 \<Rightarrow> review_map \<Rightarrow> job_state \<Rightarrow> string option \<Rightarrow> coordinator \<Rightarrow> coordinator \<times> job_snapshot" where
  "record_terminal seconds m state key c =
     (let i = job_id seconds (co_next_id c);
          snapshot = \<lparr>js_job_id = i, js_state = state, js_map = m\<lparr>rm_status := status_for state\<rparr>\<rparr>
      in (c\<lparr>co_next_id := co_next_id c + 1, co_jobs := AList.update i (job_record_of snapshot key) (co_jobs c)\<rparr>, snapshot))"

text \<open>Under the lock: an analysis of the same key is joined, or the older revisions are cancelled and a
  job is queued, whose work is then to be sent.\<close>

definition enqueue ::
  "coordinator_world \<Rightarrow> u64 \<Rightarrow> review_map \<Rightarrow> cache_identity \<Rightarrow> enrichment_request \<Rightarrow> coordinator
     \<Rightarrow> (coordinator \<times> (job_snapshot + resolve_task)) option" where
  "enqueue w seconds exact i request c =
     (let key = review_map_cache_key (cw_digest (xw_cache w)) i
      in case map_of (co_in_flight c) key of
           Some running \<Rightarrow> map_option (\<lambda>r. (c, Inl (jr_snapshot r))) (map_of (co_jobs c) running)
         | None \<Rightarrow>
             let c = cancel_stale_queued exact c;
                 new_id = job_id seconds (co_next_id c);
                 snapshot = \<lparr>js_job_id = new_id, js_state = JobQueued, js_map = exact\<lparr>rm_status := Analyzing\<rparr>\<rparr>;
                 c = c\<lparr>co_next_id := co_next_id c + 1, co_in_flight := AList.update key new_id (co_in_flight c),
                       co_jobs := AList.update new_id (job_record_of snapshot (Some key)) (co_jobs c)\<rparr>;
                 work = \<lparr>wk_job_id = new_id, wk_cache_identity = i, wk_exact_map = exact, wk_request = request\<rparr>
             in Some (c, Inr (Sending work snapshot)))"

text \<open>One step of the \<open>n\<close>-th call. The snapshot is its answer once it is done.\<close>

definition resolve_advance ::
  "coordinator_world \<Rightarrow> u64 \<Rightarrow> nat \<Rightarrow> coordinator \<Rightarrow> (coordinator \<times> job_snapshot option) option" where
  "resolve_advance w seconds n c =
     (case get (co_tasks c) n of
        None \<Rightarrow> Some (c, None)
      | Some task \<Rightarrow>
          let rest = c\<lparr>co_tasks := take n (co_tasks c) @ drop (Suc n) (co_tasks c)\<rparr>
          in (case task of
               Recording m state \<Rightarrow>
                 let (c', snapshot) = record_terminal seconds m state None rest in Some (c', Some snapshot)
             | Enqueuing exact i request \<Rightarrow>
                 map_option
                   (\<lambda>(c', result). (case result of
                      Inl snapshot \<Rightarrow> (c', Some snapshot)
                    | Inr sending \<Rightarrow> (c'\<lparr>co_tasks := co_tasks c' @ [sending]\<rparr>, None)))
                   (enqueue w seconds exact i request rest)
             | Sending work snapshot \<Rightarrow>
                 if length (co_queue c) < CHANNEL_CAPACITY
                 then Some (rest\<lparr>co_queue := co_queue rest @ [work]\<rparr>, Some snapshot)
                 else Some (c, None)))"

definition job :: "coordinator \<Rightarrow> string \<Rightarrow> job_snapshot option" where
  "job c i = map_option jr_snapshot (map_of (co_jobs c) i)"

definition retry_request :: "coordinator \<Rightarrow> string \<Rightarrow> review_map_failure + resolve_request" where
  "retry_request c i =
     (case map_of (co_jobs c) i of
        None \<Rightarrow> Inl (new_failure PullRequestUnavailable ''The Review Map job was not found'')
      | Some r \<Rightarrow>
          (case js_state (jr_snapshot r) of
             JobUnavailable f \<Rightarrow> Inr \<lparr>rq_key = \<lparr>pk_repository = jr_repository r, pk_number = jr_pull_request r\<rparr>,
                                       rq_expected_head_sha = None\<rparr>
           | JobFailed f \<Rightarrow> Inr \<lparr>rq_key = \<lparr>pk_repository = jr_repository r, pk_number = jr_pull_request r\<rparr>,
                                  rq_expected_head_sha = None\<rparr>
           | _ \<Rightarrow> Inl (new_failure AnalysisFailed ''Only unavailable or failed Review Map jobs can be retried'')))"

section \<open>The worker\<close>

definition worker_take :: "coordinator \<Rightarrow> coordinator" where
  "worker_take c =
     (case (co_worker c, co_queue c) of
        (Idle, work # queue) \<Rightarrow>
          (case map_of (co_jobs c) (wk_job_id work) of
             None \<Rightarrow> c\<lparr>co_queue := queue\<rparr>
           | Some r \<Rightarrow>
               if js_state (jr_snapshot r) \<noteq> JobQueued then c\<lparr>co_queue := queue\<rparr>
               else c\<lparr>co_queue := queue, co_worker := Working work,
                      co_jobs := AList.update (wk_job_id work)
                        (r\<lparr>jr_snapshot := (jr_snapshot r)\<lparr>js_state := JobAnalyzing\<rparr>\<rparr>) (co_jobs c)\<rparr>)
      | _ \<Rightarrow> c)"

text \<open>What the model answers becomes the outcome; a merged map goes to the cache, which may refuse it.\<close>

definition outcome_of ::
  "coordinator_world \<Rightarrow> analysis_work \<Rightarrow> string \<Rightarrow> review_map_failure + analysis_result \<Rightarrow> analysis_outcome" where
  "outcome_of w work completed_at answer =
     (case answer of
        Inl failure \<Rightarrow> failure_outcome failure
      | Inr result \<Rightarrow>
          if ar_model_digest result \<noteq> ci_model_digest (wk_cache_identity work)
          then Inl (JobUnavailable stale_failure, Stale)
          else (case merge_enrichment (cw_pick (xw_cache w)) (wk_exact_map work) (ar_proposal result)
                       \<lparr>ma_model = ar_model result, ma_prompt_version = ci_prompt_version (wk_cache_identity work),
                        ma_completed_at = completed_at\<rparr> of
                  Inl e \<Rightarrow> Inl (JobFailed (new_failure AnalysisInvalid ''Validated analysis could not be merged''), Failed)
                | Inr m \<Rightarrow> Inr m))"

definition worker_answer ::
  "coordinator_world \<Rightarrow> u64 \<Rightarrow> string \<Rightarrow> review_map_failure + analysis_result \<Rightarrow> coordinator \<Rightarrow> coordinator" where
  "worker_answer w now completed_at answer c =
     (case co_worker c of
        Working work \<Rightarrow>
          let outcome = outcome_of w work completed_at answer;
              cache = (case outcome of
                         Inl e \<Rightarrow> co_cache c
                       | Inr m \<Rightarrow> (case cache_put (xw_cache w) (xw_limits w) now (wk_cache_identity work) m (co_cache c) of
                                    None \<Rightarrow> co_cache c | Some dir \<Rightarrow> dir))
          in c\<lparr>co_cache := cache, co_worker := Finishing work outcome\<rparr>
      | _ \<Rightarrow> c)"

definition finished_record :: "analysis_outcome \<Rightarrow> job_record \<Rightarrow> job_record" where
  "finished_record outcome r =
     (case outcome of
        Inr m \<Rightarrow> r\<lparr>jr_snapshot := (jr_snapshot r)\<lparr>js_state := JobEnriched, js_map := m\<rparr>\<rparr>
      | Inl (state, status) \<Rightarrow> with_outcome state status r)"

definition worker_finish :: "coordinator \<Rightarrow> coordinator" where
  "worker_finish c =
     (case co_worker c of
        Finishing work outcome \<Rightarrow>
          (case map_of (co_jobs c) (wk_job_id work) of
             None \<Rightarrow> c\<lparr>co_worker := Idle\<rparr>
           | Some r \<Rightarrow>
               c\<lparr>co_worker := Idle,
                 co_jobs := AList.update (wk_job_id work) (finished_record outcome r) (co_jobs c),
                 co_in_flight := (case jr_cache_key r of
                                    None \<Rightarrow> co_in_flight c | Some key \<Rightarrow> AList.delete key (co_in_flight c))\<rparr>)
      | _ \<Rightarrow> c)"

section \<open>Events\<close>

datatype coordinator_event =
    Resolve u64 resolve_request "review_map_failure + review_map_input" "review_map_failure + analyzer_identity"
  | Retry u64 string "review_map_failure + review_map_input" "review_map_failure + analyzer_identity"
  | Advance u64 nat
  | WorkerTake
  | WorkerAnswer u64 string "review_map_failure + analysis_result"
  | WorkerFinish

definition coordinator_step :: "coordinator_world \<Rightarrow> coordinator_event \<Rightarrow> coordinator \<Rightarrow> coordinator option" where
  "coordinator_step w event c =
     (case event of
        Resolve now request loaded analyzer \<Rightarrow> map_option fst (resolve_lookup w now request loaded analyzer c)
      | Retry now i loaded analyzer \<Rightarrow>
          (case retry_request c i of
             Inl failure \<Rightarrow> Some c
           | Inr request \<Rightarrow> map_option fst (resolve_lookup w now request loaded analyzer c))
      | Advance seconds n \<Rightarrow> map_option fst (resolve_advance w seconds n c)
      | WorkerTake \<Rightarrow> Some (worker_take c)
      | WorkerAnswer now completed_at answer \<Rightarrow> Some (worker_answer w now completed_at answer c)
      | WorkerFinish \<Rightarrow> Some (worker_finish c))"

end
