(* ===== verification/Coordinator_Props.thy ===== *)
theory Coordinator_Props
  imports Coordinator
begin

text \<open>
  What the coordinator keeps, whatever the order in which its calls and its worker run: one analysis
  per key, no work lost, and only exact maps shown.
\<close>

section \<open>Identifiers\<close>

lemma job_id_inj: "job_id s n = job_id t m \<Longrightarrow> n = m"
proof -
  assume "job_id s n = job_id t m"
  then have eq: "nat_str s @ CHR ''-'' # nat_str n = nat_str t @ CHR ''-'' # nat_str m" by (simp add: job_id_def)
  have digits: "\<forall>c \<in> set (nat_str k). c \<noteq> CHR ''-''" for k
    using nat_str_digits [of "CHR ''-''" k] by (auto simp: is_digit_def)
  have "takeWhile (\<lambda>c. c \<noteq> CHR ''-'') (nat_str s @ CHR ''-'' # nat_str n) = nat_str s"
    "takeWhile (\<lambda>c. c \<noteq> CHR ''-'') (nat_str t @ CHR ''-'' # nat_str m) = nat_str t"
    using digits by (simp_all add: takeWhile_stop)
  with eq have "nat_str s = nat_str t" by simp
  with eq show ?thesis by simp
qed

definition id_below :: "u64 \<Rightarrow> string \<Rightarrow> bool" where
  "id_below n i \<longleftrightarrow> (\<exists>s m. i = job_id s m \<and> m < n)"

lemma id_below_fresh: "\<not> id_below n (job_id s n)"
  by (auto simp: id_below_def dest: job_id_inj)

lemma id_below_Suc: "id_below n i \<Longrightarrow> id_below (Suc n) i"
  by (auto simp: id_below_def intro: less_SucI)

lemma id_below_new: "id_below (Suc n) (job_id s n)"
  by (auto simp: id_below_def)

section \<open>Jobs\<close>

type_synonym jobs = "string \<rightharpoonup> job_record"

definition state_of :: "job_record \<Rightarrow> job_state" where
  "state_of r = js_state (jr_snapshot r)"

definition map_of_job :: "job_record \<Rightarrow> review_map" where
  "map_of_job r = js_map (jr_snapshot r)"

definition active :: "job_record \<Rightarrow> bool" where
  "active r \<longleftrightarrow> state_of r = JobQueued \<or> state_of r = JobAnalyzing"

text \<open>The status a map shows in each state of its job.\<close>

definition shows_status :: "job_state \<Rightarrow> review_map_status \<Rightarrow> bool" where
  "shows_status state status \<longleftrightarrow>
     (case state of JobUnavailable f \<Rightarrow> status = Unavailable \<or> status = Stale | _ \<Rightarrow> status = status_for state)"

definition record_ok :: "string \<Rightarrow> job_record \<Rightarrow> bool" where
  "record_ok i r \<longleftrightarrow>
     js_job_id (jr_snapshot r) = i \<and> exact_map (map_of_job r)
     \<and> shows_status (state_of r) (rm_status (map_of_job r))
     \<and> jr_repository r = ri_repository (rm_identity (map_of_job r))
     \<and> jr_pull_request r = ri_pull_request (rm_identity (map_of_job r))
     \<and> jr_head_sha r = ri_head_sha (rm_identity (map_of_job r))"

definition jobs_ok :: "u64 \<Rightarrow> jobs \<Rightarrow> bool" where
  "jobs_ok n J \<longleftrightarrow> (\<forall>i r. J i = Some r \<longrightarrow> record_ok i r \<and> id_below n i)"

definition flight_ok :: "jobs \<Rightarrow> (string \<rightharpoonup> string) \<Rightarrow> bool" where
  "flight_ok J F \<longleftrightarrow>
     (\<forall>k i. F k = Some i \<longleftrightarrow> (\<exists>r. J i = Some r \<and> active r \<and> jr_cache_key r = Some k))
     \<and> (\<forall>i r. J i = Some r \<longrightarrow> active r \<longrightarrow> jr_cache_key r \<noteq> None)"

definition work_ok :: "jobs \<Rightarrow> analysis_work \<Rightarrow> bool" where
  "work_ok J wk \<longleftrightarrow>
     exact_map (wk_exact_map wk)
     \<and> (\<exists>r. J (wk_job_id wk) = Some r \<and> rm_identity (map_of_job r) = rm_identity (wk_exact_map wk))"

definition in_state :: "jobs \<Rightarrow> job_state \<Rightarrow> string \<Rightarrow> bool" where
  "in_state J state i \<longleftrightarrow> (\<exists>r. J i = Some r \<and> state_of r = state)"

text \<open>The work that is on its way and the work at hand: every queued job is on its way, the analyzed
  job is at hand.\<close>

definition works_ok :: "jobs \<Rightarrow> analysis_work list \<Rightarrow> analysis_work list \<Rightarrow> bool" where
  "works_ok J pending current \<longleftrightarrow>
     distinct (map wk_job_id (pending @ current))
     \<and> (\<forall>wk \<in> set (pending @ current). work_ok J wk)
     \<and> (\<forall>i. in_state J JobQueued i \<longrightarrow> i \<in> wk_job_id ` set pending)
     \<and> (\<forall>i. in_state J JobAnalyzing i \<longleftrightarrow> i \<in> wk_job_id ` set current)"

fun sent_by :: "resolve_task \<Rightarrow> analysis_work list" where
  "sent_by (Sending work snapshot) = [work]"
| "sent_by _ = []"

definition pending :: "coordinator \<Rightarrow> analysis_work list" where
  "pending c = co_queue c @ concat (map sent_by (co_tasks c))"

definition at_hand :: "worker_state \<Rightarrow> analysis_work list" where
  "at_hand s = (case s of Idle \<Rightarrow> [] | Working wk \<Rightarrow> [wk] | Finishing wk out \<Rightarrow> [wk])"

fun task_ok :: "resolve_task \<Rightarrow> bool" where
  "task_ok (Recording m state) = (exact_map m \<and> state \<noteq> JobQueued \<and> state \<noteq> JobAnalyzing)"
| "task_ok (Enqueuing m i request) = exact_map m"
| "task_ok (Sending work snapshot) = True"

definition outcome_ok :: "analysis_work \<Rightarrow> analysis_outcome \<Rightarrow> bool" where
  "outcome_ok wk out \<longleftrightarrow>
     (case out of
        Inl (state, status) \<Rightarrow> state \<noteq> JobQueued \<and> state \<noteq> JobAnalyzing \<and> shows_status state status
      | Inr m \<Rightarrow> exact_map m \<and> rm_status m = Enriched \<and> rm_identity m = rm_identity (wk_exact_map wk))"

definition worker_ok :: "worker_state \<Rightarrow> bool" where
  "worker_ok s \<longleftrightarrow> (case s of Finishing wk out \<Rightarrow> outcome_ok wk out | _ \<Rightarrow> True)"

definition coordinator_ok :: "coordinator \<Rightarrow> bool" where
  "coordinator_ok c \<longleftrightarrow>
     distinct (map fst (co_jobs c)) \<and> distinct (map fst (co_in_flight c))
     \<and> jobs_ok (co_next_id c) (map_of (co_jobs c))
     \<and> flight_ok (map_of (co_jobs c)) (map_of (co_in_flight c))
     \<and> works_ok (map_of (co_jobs c)) (pending c) (at_hand (co_worker c))
     \<and> list_all task_ok (co_tasks c) \<and> worker_ok (co_worker c)"

lemmas job_simps = state_of_def map_of_job_def active_def

lemma with_outcome_simps [simp]:
  "state_of (with_outcome state status r) = state" "rm_status (map_of_job (with_outcome state status r)) = status"
  "rm_identity (map_of_job (with_outcome state status r)) = rm_identity (map_of_job r)"
  "exact_map (map_of_job (with_outcome state status r)) = exact_map (map_of_job r)"
  "js_job_id (jr_snapshot (with_outcome state status r)) = js_job_id (jr_snapshot r)"
  "jr_cache_key (with_outcome state status r) = jr_cache_key r"
  "jr_repository (with_outcome state status r) = jr_repository r"
  "jr_pull_request (with_outcome state status r) = jr_pull_request r"
  "jr_head_sha (with_outcome state status r) = jr_head_sha r"
  by (simp_all add: with_outcome_def state_of_def map_of_job_def exact_map_def)

section \<open>Changes of the jobs\<close>

lemma exact_map_status [simp]: "exact_map (m\<lparr>rm_status := s\<rparr>) = exact_map m"
  by (simp add: exact_map_def)

text \<open>A new job that is not active.\<close>

lemma flight_ok_inactive:
  assumes "flight_ok J F" and "J i = None" and "\<not> active r"
  shows "flight_ok (J(i \<mapsto> r)) F"
  using assms unfolding flight_ok_def by (auto split: if_splits)

lemma works_ok_inactive:
  assumes "works_ok J P C" and "J i = None" and "\<not> active r"
  shows "works_ok (J(i \<mapsto> r)) P C"
proof -
  have "in_state (J(i \<mapsto> r)) s j \<longleftrightarrow> in_state J s j" if "s = JobQueued \<or> s = JobAnalyzing" for s j
    using assms(2,3) that by (auto simp: in_state_def active_def)
  moreover have "work_ok J wk \<Longrightarrow> work_ok (J(i \<mapsto> r)) wk" for wk
    using assms(2) by (auto simp: work_ok_def)
  ultimately show ?thesis using assms(1) by (auto simp: works_ok_def)
qed

text \<open>Cancelling.\<close>

definition cancelled :: "review_map \<Rightarrow> job_record \<Rightarrow> job_record" where
  "cancelled m r = (if superseded m r then with_outcome (JobUnavailable stale_failure) Stale r else r)"

lemma cancelled_simps [simp]:
  "jr_cache_key (cancelled m r) = jr_cache_key r" "rm_identity (map_of_job (cancelled m r)) = rm_identity (map_of_job r)"
  "record_ok i r \<Longrightarrow> record_ok i (cancelled m r)"
  by (simp_all add: cancelled_def with_outcome_def record_ok_def job_simps shows_status_def)

lemma superseded_queued: "superseded m r \<Longrightarrow> state_of r = JobQueued"
  by (simp add: superseded_def state_of_def)

lemma cancelled_state:
  "state_of (cancelled m r) = (if superseded m r then JobUnavailable stale_failure else state_of r)"
  by (simp add: cancelled_def with_outcome_def state_of_def)

lemma map_of_map_snd: "map_of (map (\<lambda>(i, r). (i, f r)) xs) i = map_option f (map_of xs i)"
  by (induction xs) auto

lemma cancel_jobs: "map_of (co_jobs (cancel_stale_queued m c)) i = map_option (cancelled m) (map_of (co_jobs c) i)"
proof -
  have "co_jobs (cancel_stale_queued m c) = map (\<lambda>(i, r). (i, cancelled m r)) (co_jobs c)"
    by (simp add: cancel_stale_queued_def Let_def cancelled_def)
  then show ?thesis by (simp add: map_of_map_snd)
qed

lemma cancel_flight:
  assumes "distinct (map fst (co_jobs c))"
  shows "map_of (co_in_flight (cancel_stale_queued m c)) k =
    (if \<exists>i r. map_of (co_jobs c) i = Some r \<and> superseded m r \<and> jr_cache_key r = Some k then None
     else map_of (co_in_flight c) k)"
proof -
  define keys where "keys = List.map_filter jr_cache_key (map snd (filter (\<lambda>(i, r). superseded m r) (co_jobs c)))"
  have "map_of (filter (\<lambda>(k, i). k \<notin> set keys) xs) k = (if k \<in> set keys then None else map_of xs k)"
    for xs :: "(string \<times> string) list"
    by (induction xs) auto
  moreover have "co_in_flight (cancel_stale_queued m c) = filter (\<lambda>(k, i). k \<notin> set keys) (co_in_flight c)"
    by (simp add: cancel_stale_queued_def Let_def keys_def)
  moreover have "k \<in> set keys \<longleftrightarrow> (\<exists>i r. map_of (co_jobs c) i = Some r \<and> superseded m r \<and> jr_cache_key r = Some k)"
    unfolding keys_def using assms by (force simp: map_filter_def intro: map_of_is_SomeI dest: map_of_SomeD)
  ultimately show ?thesis by simp
qed

lemma cancel_flight_ok:
  assumes "flight_ok (map_of (co_jobs c)) (map_of (co_in_flight c))" and "distinct (map fst (co_jobs c))"
  shows "flight_ok (map_of (co_jobs (cancel_stale_queued m c))) (map_of (co_in_flight (cancel_stale_queued m c)))"
proof -
  note flight = assms(1) [unfolded flight_ok_def]
  have queued: "superseded m r \<Longrightarrow> active r" for r by (simp add: superseded_queued active_def)
  have still: "active (cancelled m r) \<longleftrightarrow> active r \<and> \<not> superseded m r" for r
    by (simp add: active_def cancelled_state)
  have unique: "i = j" if "map_of (co_jobs c) i = Some r" "active r" "jr_cache_key r = Some k"
    "map_of (co_jobs c) j = Some r'" "active r'" "jr_cache_key r' = Some k" for i j k r r'
  proof -
    have "map_of (co_in_flight c) k = Some i" "map_of (co_in_flight c) k = Some j" using flight that by blast+
    then show ?thesis by simp
  qed
  show ?thesis
    unfolding flight_ok_def cancel_jobs cancel_flight [OF assms(2)]
  proof (intro conjI allI impI)
    fix k i
    show "((if \<exists>i r. map_of (co_jobs c) i = Some r \<and> superseded m r \<and> jr_cache_key r = Some k then None
           else map_of (co_in_flight c) k) = Some i)
        = (\<exists>r. map_option (cancelled m) (map_of (co_jobs c) i) = Some r \<and> active r \<and> jr_cache_key r = Some k)"
      (is "?l = ?r")
    proof
      assume l: ?l
      then have "map_of (co_in_flight c) k = Some i"
        and none: "\<not> (\<exists>i r. map_of (co_jobs c) i = Some r \<and> superseded m r \<and> jr_cache_key r = Some k)"
        by (auto split: if_splits)
      then obtain r where "map_of (co_jobs c) i = Some r" "active r" "jr_cache_key r = Some k" using flight by blast
      with none show ?r using still by auto
    next
      assume ?r
      then obtain r where r: "map_of (co_jobs c) i = Some r" "active r" "\<not> superseded m r" "jr_cache_key r = Some k"
        using still by auto
      then have "map_of (co_in_flight c) k = Some i" using flight by blast
      moreover have "\<not> (\<exists>i r. map_of (co_jobs c) i = Some r \<and> superseded m r \<and> jr_cache_key r = Some k)"
        using unique [OF r(1,2,4)] r(1,3) queued by (metis option.inject)
      ultimately show ?l by simp
    qed
  next
    fix i r
    assume "map_option (cancelled m) (map_of (co_jobs c) i) = Some r" "active r"
    then show "jr_cache_key r \<noteq> None" using flight still by auto
  qed
qed

lemma cancel_works_ok:
  assumes "works_ok (map_of (co_jobs c)) P C"
  shows "works_ok (map_of (co_jobs (cancel_stale_queued m c))) P C"
proof -
  define J where "J = map_of (co_jobs c)"
  define J' where "J' = map_of (co_jobs (cancel_stale_queued m c))"
  have J': "J' i = map_option (cancelled m) (J i)" for i by (simp add: J'_def J_def cancel_jobs)
  have "in_state J' JobQueued i \<Longrightarrow> in_state J JobQueued i" "in_state J' JobAnalyzing i = in_state J JobAnalyzing i" for i
    using superseded_queued by (auto simp: in_state_def J' cancelled_state split: if_splits)
  moreover have "work_ok J wk \<Longrightarrow> work_ok J' wk" for wk by (auto simp: work_ok_def J')
  ultimately show ?thesis using assms by (auto simp: works_ok_def J_def [symmetric] J'_def [symmetric])
qed

lemma cancel_jobs_ok: "jobs_ok n (map_of (co_jobs c)) \<Longrightarrow> jobs_ok n (map_of (co_jobs (cancel_stale_queued m c)))"
  by (auto simp: jobs_ok_def cancel_jobs)

lemma cancel_frame [simp]:
  "co_queue (cancel_stale_queued m c) = co_queue c" "co_tasks (cancel_stale_queued m c) = co_tasks c"
  "co_worker (cancel_stale_queued m c) = co_worker c" "co_next_id (cancel_stale_queued m c) = co_next_id c"
  "map fst (co_jobs (cancel_stale_queued m c)) = map fst (co_jobs c)"
  by (simp_all add: cancel_stale_queued_def Let_def split_beta comp_def)

lemma cancel_distinct:
  "distinct (map fst (co_in_flight c)) \<Longrightarrow> distinct (map fst (co_in_flight (cancel_stale_queued m c)))"
  by (simp add: cancel_stale_queued_def Let_def distinct_map_filter)

text \<open>A new queued job under a key that is not in flight, with its work under way.\<close>

lemma flight_ok_queue:
  assumes "flight_ok J F" and "J i = None" and "F k = None" and "active r" and "jr_cache_key r = Some k"
  shows "flight_ok (J(i \<mapsto> r)) (F(k \<mapsto> i))"
  unfolding flight_ok_def
proof (intro conjI allI impI)
  fix k' i'
  show "((F(k \<mapsto> i)) k' = Some i') = (\<exists>r'. (J(i \<mapsto> r)) i' = Some r' \<and> active r' \<and> jr_cache_key r' = Some k')"
  proof (cases "k' = k")
    case True
    have "\<not> (\<exists>r'. J i' = Some r' \<and> active r' \<and> jr_cache_key r' = Some k)"
      using assms(1,3) unfolding flight_ok_def by (metis option.distinct(1))
    with True assms(2,4,5) show ?thesis by auto
  next
    case False
    then show ?thesis using assms by (auto simp: flight_ok_def)
  qed
qed (use assms in \<open>auto simp: flight_ok_def split: if_splits\<close>)

lemma works_ok_queue:
  assumes "works_ok J P C" and "J (wk_job_id wk) = None" and "state_of r = JobQueued" and "exact_map (wk_exact_map wk)"
    and "rm_identity (map_of_job r) = rm_identity (wk_exact_map wk)"
  shows "works_ok (J(wk_job_id wk \<mapsto> r)) (P @ [wk]) C"
proof -
  define J' where "J' = J(wk_job_id wk \<mapsto> r)"
  have fresh: "wk_job_id wk \<notin> wk_job_id ` set (P @ C)"
  proof
    assume "wk_job_id wk \<in> wk_job_id ` set (P @ C)"
    then obtain v where "v \<in> set (P @ C)" "wk_job_id v = wk_job_id wk" by (metis imageE)
    with assms(1) have "work_ok J v" by (simp only: works_ok_def)
    with assms(2) \<open>wk_job_id v = wk_job_id wk\<close> show False by (simp add: work_ok_def)
  qed
  have "work_ok J v \<Longrightarrow> work_ok J' v" for v using assms(2) by (auto simp: work_ok_def J'_def)
  moreover have "work_ok J' wk" using assms(4,5) by (simp add: work_ok_def J'_def)
  moreover have "in_state J' JobQueued i \<longleftrightarrow> i = wk_job_id wk \<or> in_state J JobQueued i"
    "in_state J' JobAnalyzing i \<longleftrightarrow> in_state J JobAnalyzing i" for i
    using assms(2,3) by (auto simp: in_state_def J'_def)
  ultimately show ?thesis using assms(1) fresh by (auto simp: works_ok_def J'_def [symmetric])
qed

text \<open>The work on its way may be in any order.\<close>

lemma works_ok_mset:
  assumes "works_ok J P C" and "mset P = mset P'"
  shows "works_ok J P' C"
proof -
  have "set P = set P'" using assms(2) by (rule mset_eq_setD)
  moreover have "distinct (map wk_job_id (P @ C)) = distinct (map wk_job_id (P' @ C))"
    using assms(2) by (intro mset_eq_imp_distinct_iff) (simp add: mset_map)
  ultimately show ?thesis using assms(1) by (simp add: works_ok_def)
qed

text \<open>The worker takes the next work: a job that is queued becomes the analyzed one, another one is
  skipped.\<close>

lemma works_ok_skip:
  assumes "works_ok J (wk # P) C" and "\<not> in_state J JobQueued (wk_job_id wk)"
  shows "works_ok J P C"
  using assms by (auto simp: works_ok_def)

lemma works_ok_take:
  assumes "works_ok J (wk # P) []" and "J (wk_job_id wk) = Some r" and "state_of r = JobQueued"
    and "state_of r' = JobAnalyzing" and "map_of_job r' = map_of_job r"
  shows "works_ok (J(wk_job_id wk \<mapsto> r')) P [wk]"
proof -
  define J' where "J' = J(wk_job_id wk \<mapsto> r')"
  have "work_ok J v \<Longrightarrow> work_ok J' v" for v using assms(2,5) by (auto simp: work_ok_def J'_def)
  moreover have "in_state J' JobQueued i \<longleftrightarrow> i \<noteq> wk_job_id wk \<and> in_state J JobQueued i"
    "in_state J' JobAnalyzing i \<longleftrightarrow> i = wk_job_id wk \<or> in_state J JobAnalyzing i" for i
    using assms(2-4) by (auto simp: in_state_def J'_def)
  ultimately show ?thesis using assms(1) by (auto simp: works_ok_def J'_def [symmetric])
qed

lemma flight_ok_replace:
  assumes "flight_ok J F" and "J i = Some r" and "active r" and "active r'" and "jr_cache_key r' = jr_cache_key r"
  shows "flight_ok (J(i \<mapsto> r')) F"
  using assms unfolding flight_ok_def by (auto split: if_splits)

lemma active_key: "flight_ok J F \<Longrightarrow> J i = Some r \<Longrightarrow> active r \<Longrightarrow> \<exists>k. jr_cache_key r = Some k"
  unfolding flight_ok_def by blast

text \<open>The worker finishes: the job is no longer active and its key is free.\<close>

lemma flight_ok_finish:
  assumes "flight_ok J F" and "J i = Some r" and "active r" and "\<not> active r'" and "jr_cache_key r = Some k"
  shows "flight_ok (J(i \<mapsto> r')) (F(k := None))"
proof -
  have i: "F k = Some i" using assms by (auto simp: flight_ok_def)
  show ?thesis unfolding flight_ok_def
  proof (intro conjI allI impI)
    fix k' i'
    show "((F(k := None)) k' = Some i') = (\<exists>r''. (J(i \<mapsto> r')) i' = Some r'' \<and> active r'' \<and> jr_cache_key r'' = Some k')"
    proof (cases "i' = i")
      case True
      have "F k' = Some i \<Longrightarrow> k' = k" using assms(1,2,5) by (auto simp: flight_ok_def)
      with True assms(4) show ?thesis by auto
    next
      case False
      then have "k' = k \<Longrightarrow> F k' \<noteq> Some i'" using i by simp
      with False assms(1) show ?thesis by (auto simp: flight_ok_def)
    qed
  qed (use assms in \<open>auto simp: flight_ok_def split: if_splits\<close>)
qed

lemma works_ok_finish:
  assumes "works_ok J P [wk]" and "J (wk_job_id wk) = Some r" and "\<not> active r'"
  shows "works_ok (J(wk_job_id wk \<mapsto> r')) P []"
proof -
  define J' where "J' = J(wk_job_id wk \<mapsto> r')"
  have an: "in_state J JobAnalyzing (wk_job_id wk)" using assms(1) by (simp add: works_ok_def)
  have away: "wk_job_id wk \<notin> wk_job_id ` set P" using assms(1) by (auto simp: works_ok_def)
  have "work_ok J' v" if "work_ok J v" "v \<in> set P" for v
  proof -
    have "wk_job_id v \<noteq> wk_job_id wk" using away that(2) by (metis imageI)
    with that(1) show ?thesis by (simp add: work_ok_def J'_def)
  qed
  moreover have "in_state J' JobQueued i \<longleftrightarrow> in_state J JobQueued i"
    "in_state J' JobAnalyzing i \<longleftrightarrow> i \<noteq> wk_job_id wk \<and> in_state J JobAnalyzing i" for i
    using assms(2,3) an by (auto simp: in_state_def J'_def active_def)
  ultimately show ?thesis using assms(1) by (auto simp: works_ok_def J'_def [symmetric])
qed

section \<open>The steps\<close>

lemma new_job_id: "jobs_ok n J \<Longrightarrow> J (job_id s n) = None"
  unfolding jobs_ok_def by (metis id_below_fresh not_None_eq)

lemma jobs_ok_new:
  "jobs_ok n J \<Longrightarrow> record_ok (job_id s n) r \<Longrightarrow> jobs_ok (Suc n) (J(job_id s n \<mapsto> r))"
  by (auto simp: jobs_ok_def id_below_new intro: id_below_Suc)

lemma jobs_ok_replace: "jobs_ok n J \<Longrightarrow> J i = Some r \<Longrightarrow> record_ok i r' \<Longrightarrow> jobs_ok n (J(i \<mapsto> r'))"
  by (auto simp: jobs_ok_def)

lemma record_ok_new:
  "exact_map m \<Longrightarrow> shows_status state status \<Longrightarrow>
   record_ok i (job_record_of \<lparr>js_job_id = i, js_state = state, js_map = m\<lparr>rm_status := status\<rparr>\<rparr> key)"
  by (simp add: record_ok_def job_record_of_def job_simps)

lemma record_terminal_ok:
  assumes ok: "coordinator_ok c" and "exact_map m" and "state \<noteq> JobQueued" "state \<noteq> JobAnalyzing"
  shows "coordinator_ok (fst (record_terminal s m state key c))"
proof -
  define i where "i = job_id s (co_next_id c)"
  define r where "r = job_record_of \<lparr>js_job_id = i, js_state = state, js_map = m\<lparr>rm_status := status_for state\<rparr>\<rparr> key"
  have c': "fst (record_terminal s m state key c)
      = c\<lparr>co_next_id := co_next_id c + 1, co_jobs := AList.update i r (co_jobs c)\<rparr>"
    by (simp add: record_terminal_def Let_def i_def r_def)
  have fresh: "map_of (co_jobs c) i = None" using ok new_job_id by (auto simp: coordinator_ok_def i_def)
  have "\<not> active r" using assms(3,4) by (simp add: r_def job_simps job_record_of_def)
  moreover have "shows_status state (status_for state)" by (cases state) (simp_all add: shows_status_def)
  then have "record_ok i r" using assms(2) record_ok_new by (simp add: r_def)
  ultimately show ?thesis
    using ok fresh unfolding coordinator_ok_def c'
    by (auto simp: update_conv' distinct_update pending_def i_def
        intro: flight_ok_inactive works_ok_inactive jobs_ok_new [unfolded One_nat_def])
qed

lemma get_split: "get xs n = Some x \<Longrightarrow> xs = take n xs @ x # drop (Suc n) xs"
  using id_take_nth_drop [of n xs] by (auto simp: get_Some_iff)

text \<open>Taking a task off the list takes the work it sends off the work on its way.\<close>

lemma task_off:
  assumes "get (co_tasks c) n = Some task"
  defines "rest \<equiv> c\<lparr>co_tasks := take n (co_tasks c) @ drop (Suc n) (co_tasks c)\<rparr>"
  shows "mset (pending c) = mset (pending rest @ sent_by task)"
    and "list_all task_ok (co_tasks c) \<longleftrightarrow> list_all task_ok (co_tasks rest) \<and> task_ok task"
proof -
  note tasks = get_split [OF assms(1)]
  show "mset (pending c) = mset (pending rest @ sent_by task)"
    unfolding pending_def by (subst tasks) (simp add: rest_def)
  show "list_all task_ok (co_tasks c) \<longleftrightarrow> list_all task_ok (co_tasks rest) \<and> task_ok task"
    by (subst tasks) (auto simp: rest_def)
qed

lemma enqueue_ok:
  assumes ok: "coordinator_ok c" and "exact_map m"
  shows "\<exists>result. enqueue w s m i request c = Some result
    \<and> (case result of
         (c', Inl snapshot) \<Rightarrow> c' = c
       | (c', Inr task) \<Rightarrow> coordinator_ok (c'\<lparr>co_tasks := co_tasks c' @ [task]\<rparr>))"
proof -
  define key where "key = review_map_cache_key (cw_digest (xw_cache w)) i"
  note inv = ok [unfolded coordinator_ok_def]
  show ?thesis
  proof (cases "map_of (co_in_flight c) key")
    case (Some running)
    then have "map_of (co_jobs c) running \<noteq> None" using inv by (auto simp: flight_ok_def)
    with Some show ?thesis by (auto simp: enqueue_def key_def [symmetric])
  next
    case None
    define c1 where "c1 = cancel_stale_queued m c"
    define j where "j = job_id s (co_next_id c)"
    define snapshot where "snapshot = \<lparr>js_job_id = j, js_state = JobQueued, js_map = m\<lparr>rm_status := Analyzing\<rparr>\<rparr>"
    define r where "r = job_record_of snapshot (Some key)"
    define work where "work = \<lparr>wk_job_id = j, wk_cache_identity = i, wk_exact_map = m, wk_request = request\<rparr>"
    define c2 where "c2 = c1\<lparr>co_next_id := co_next_id c1 + 1, co_in_flight := AList.update key j (co_in_flight c1),
      co_jobs := AList.update j r (co_jobs c1)\<rparr>"
    have result: "enqueue w s m i request c = Some (c2, Inr (Sending work snapshot))"
      by (simp add: enqueue_def key_def [symmetric] None Let_def c2_def c1_def j_def r_def snapshot_def work_def)
    have dist: "distinct (map fst (co_jobs c))" using inv by blast
    have jobs1: "jobs_ok (co_next_id c) (map_of (co_jobs c1))"
      using inv cancel_jobs_ok by (simp add: c1_def)
    have fresh: "map_of (co_jobs c1) j = None" using new_job_id [OF jobs1] by (simp add: j_def)
    have free: "map_of (co_in_flight c1) key = None"
      using cancel_flight [OF dist, of m key] None by (simp add: c1_def)
    have r: "state_of r = JobQueued" "jr_cache_key r = Some key" "active r"
      "rm_identity (map_of_job r) = rm_identity (wk_exact_map work)"
      by (simp_all add: r_def snapshot_def job_record_of_def job_simps work_def)
    have "record_ok j r" using record_ok_new assms(2) by (simp add: r_def snapshot_def shows_status_def)
    then have jobs2: "jobs_ok (Suc (co_next_id c)) ((map_of (co_jobs c1))(j \<mapsto> r))"
      using jobs_ok_new [OF jobs1, of s r] by (simp add: j_def)
    have flight2: "flight_ok ((map_of (co_jobs c1))(j \<mapsto> r)) ((map_of (co_in_flight c1))(key \<mapsto> j))"
      using inv cancel_flight_ok [OF _ dist] fresh free r by (intro flight_ok_queue) (simp_all add: c1_def)
    have "works_ok (map_of (co_jobs c1)) (pending c) (at_hand (co_worker c))"
      using inv cancel_works_ok by (simp add: c1_def)
    from works_ok_queue [OF this, of work r] fresh r assms(2)
    have works2: "works_ok ((map_of (co_jobs c1))(j \<mapsto> r)) (pending c @ [work]) (at_hand (co_worker c))"
      by (simp add: work_def)
    have "pending (c2\<lparr>co_tasks := co_tasks c2 @ [Sending work snapshot]\<rparr>) = pending c @ [work]"
      by (simp add: pending_def c2_def c1_def)
    then have "coordinator_ok (c2\<lparr>co_tasks := co_tasks c2 @ [Sending work snapshot]\<rparr>)"
      using inv jobs2 flight2 works2 cancel_distinct [of c m]
      by (simp add: coordinator_ok_def c2_def c1_def update_conv' distinct_update)
    with result show ?thesis by simp
  qed
qed

lemma advance_ok:
  assumes ok: "coordinator_ok c"
  shows "\<exists>result. resolve_advance w s n c = Some result \<and> coordinator_ok (fst result)"
proof (cases "get (co_tasks c) n")
  case None
  have "resolve_advance w s n c = Some (c, None)" unfolding resolve_advance_def None by simp
  then show ?thesis using ok by simp
next
  case (Some task)
  define rest where "rest = c\<lparr>co_tasks := take n (co_tasks c) @ drop (Suc n) (co_tasks c)\<rparr>"
  note off = task_off [OF Some, folded rest_def]
  have same: "co_jobs rest = co_jobs c" "co_in_flight rest = co_in_flight c" "co_worker rest = co_worker c"
    "co_next_id rest = co_next_id c" "co_queue rest = co_queue c"
    by (simp_all add: rest_def)
  have rest_ok: "coordinator_ok rest" if "sent_by task = []"
    using ok off that works_ok_mset [OF _ off(1)] unfolding coordinator_ok_def same by simp
  show ?thesis
  proof (cases task)
    case (Recording m state)
    then have "coordinator_ok (fst (record_terminal s m state None rest))"
      using rest_ok off(2) ok by (intro record_terminal_ok) (auto simp: coordinator_ok_def)
    then show ?thesis
      by (simp add: resolve_advance_def Some Recording rest_def [symmetric] split_beta)
  next
    case (Enqueuing m i request)
    then have "exact_map m" using off(2) ok by (auto simp: coordinator_ok_def)
    from enqueue_ok [OF rest_ok this, of w s i request] Enqueuing
    obtain result where "enqueue w s m i request rest = Some result"
      "case result of (c', Inl snapshot) \<Rightarrow> c' = rest
       | (c', Inr task) \<Rightarrow> coordinator_ok (c'\<lparr>co_tasks := co_tasks c' @ [task]\<rparr>)" by auto
    then show ?thesis using rest_ok Enqueuing
      by (auto simp: resolve_advance_def Some rest_def [symmetric] split: sum.splits prod.splits)
  next
    case (Sending work snapshot)
    define c' where "c' = rest\<lparr>co_queue := co_queue rest @ [work]\<rparr>"
    have "mset (pending c) = mset (pending c')" using off(1) by (simp add: Sending pending_def c'_def)
    from works_ok_mset [OF _ this] have "coordinator_ok c'"
      using ok off(2) unfolding coordinator_ok_def by (simp add: c'_def same)
    then show ?thesis using ok
      by (simp add: resolve_advance_def Some Sending rest_def [symmetric] c'_def)
  qed
qed

text \<open>The lookups: a planned map has a request, and a cached map is exact.\<close>

lemma planned_exact: "build_review_map glob pick input config = Inr m \<Longrightarrow> exact_map m \<and> rm_identity m = in_identity input"
  by (auto simp: build_review_map_def Let_def and_then_Inr_iff validate_iff split: prod.splits)

lemma those_Some_iff: "(\<exists>ys. those xs = Some ys) \<longleftrightarrow> None \<notin> set xs"
  by (induction xs) (auto split: option.split)

lemma request_of_exact:
  assumes "exact_map m"
  shows "\<exists>request. enrichment_request_of input m = Some request"
proof -
  define by_id where "by_id = collect_map (map (\<lambda>f. (mf_id f, f)) (rm_files m))"
  have "by_id i \<noteq> None" if "g \<in> set (rm_groups m)" "i \<in> set (mg_file_ids g)" for g i
  proof -
    have "i \<in> set (all_members (rm_groups m))" using that by (auto simp: all_members_def)
    then have "i \<in> mf_id ` set (rm_files m)" using assms by (simp add: exact_map_def)
    then show ?thesis by (auto simp: by_id_def collect_map_None_iff image_image)
  qed
  then have "\<exists>fs. those (map by_id (mg_file_ids g)) = Some fs" if "g \<in> set (rm_groups m)" for g
    using that by (subst those_Some_iff) fastforce
  then have "exact_group_of by_id g \<noteq> None" if "g \<in> set (rm_groups m)" for g
    using that by (fastforce simp: exact_group_of_def)
  then have "\<exists>gs. those (map (exact_group_of by_id) (rm_groups m)) = Some gs"
    by (subst those_Some_iff) (metis (no_types, lifting) image_iff list.set_map)
  then show ?thesis by (auto simp: enrichment_request_of_def Let_def by_id_def)
qed

lemma cached_exact: "snd (cache_get w limits now i dir) = Some m \<Longrightarrow> exact_map m"
  by (auto simp: cache_get_def Let_def valid_entry_def is_exact_def validate_iff
      split: option.splits stored.splits if_splits)

lemma with_task_ok:
  "coordinator_ok c \<Longrightarrow> task_ok task \<Longrightarrow> sent_by task = [] \<Longrightarrow>
   coordinator_ok (c\<lparr>co_cache := dir, co_tasks := co_tasks c @ [task]\<rparr>)"
  by (simp add: coordinator_ok_def pending_def)

lemma lookup_ok:
  assumes ok: "coordinator_ok c"
  shows "\<exists>result. resolve_lookup w now request loaded analyzer c = Some result \<and> coordinator_ok (fst result)"
proof (cases "\<exists>input m. loaded = Inr input
    \<and> build_review_map (xw_glob w) (cw_pick (xw_cache w)) input (cc_classifier (xw_config w)) = Inr m")
  case False
  then show ?thesis using ok by (auto simp: resolve_lookup_def split: sum.splits)
next
  case True
  then obtain input m where m: "loaded = Inr input"
    "build_review_map (xw_glob w) (cw_pick (xw_cache w)) input (cc_classifier (xw_config w)) = Inr m" by blast
  then have exact: "exact_map m" by (simp add: planned_exact)
  then obtain enrichment where "enrichment_request_of input m = Some enrichment" using request_of_exact by blast
  moreover have "coordinator_ok (c\<lparr>co_tasks := co_tasks c @ [Recording m (JobUnavailable failure)]\<rparr>)" for failure
    using with_task_ok [OF ok, of "Recording m (JobUnavailable failure)" "co_cache c"] exact by simp
  moreover have "coordinator_ok (c\<lparr>co_cache := fst got, co_tasks := co_tasks c @ [case snd got of
      Some m \<Rightarrow> Recording m JobEnriched | None \<Rightarrow> Enqueuing m i enrichment]\<rparr>)"
    if "got = cache_get (xw_cache w) (xw_limits w) now i (co_cache c)" for got i
    using cached_exact [of "xw_cache w" "xw_limits w" now i "co_cache c"] exact that
    by (intro with_task_ok [OF ok]) (auto split: option.split)
  ultimately show ?thesis using ok
    by (auto simp: resolve_lookup_def m Let_def split_beta split: sum.split)
qed

text \<open>The worker.\<close>

lemma take_ok:
  assumes ok: "coordinator_ok c"
  shows "coordinator_ok (worker_take c)"
proof (cases "\<exists>wk queue. co_worker c = Idle \<and> co_queue c = wk # queue")
  case False
  then have "worker_take c = c" by (auto simp: worker_take_def split: worker_state.split list.split)
  with ok show ?thesis by simp
next
  case True
  then obtain wk queue where now: "co_worker c = Idle" "co_queue c = wk # queue" by blast
  note inv = ok [unfolded coordinator_ok_def]
  have works: "works_ok (map_of (co_jobs c)) (wk # queue @ concat (map sent_by (co_tasks c))) []"
    using inv now by (simp add: pending_def at_hand_def)
  then obtain r where r: "map_of (co_jobs c) (wk_job_id wk) = Some r" by (auto simp: works_ok_def work_ok_def)
  show ?thesis
  proof (cases "state_of r = JobQueued")
    case False
    then have "\<not> in_state (map_of (co_jobs c)) JobQueued (wk_job_id wk)" using r by (simp add: in_state_def)
    from works_ok_skip [OF works this] show ?thesis using inv now r False
      by (simp add: worker_take_def coordinator_ok_def pending_def at_hand_def state_of_def)
  next
    case True
    define r' where "r' = r\<lparr>jr_snapshot := (jr_snapshot r)\<lparr>js_state := JobAnalyzing\<rparr>\<rparr>"
    have r': "state_of r' = JobAnalyzing" "map_of_job r' = map_of_job r" "jr_cache_key r' = jr_cache_key r"
      by (simp_all add: r'_def job_simps)
    have "record_ok (wk_job_id wk) r" using inv r by (auto simp: jobs_ok_def)
    then have "record_ok (wk_job_id wk) r'"
      using True r' by (simp add: record_ok_def shows_status_def) (simp add: r'_def)
    then show ?thesis
      using inv now r True r' works_ok_take [OF works r True r'(1,2)]
        flight_ok_replace [of "map_of (co_jobs c)" "map_of (co_in_flight c)" "wk_job_id wk" r r']
      by (simp add: worker_take_def coordinator_ok_def pending_def at_hand_def state_of_def [symmetric] r'_def [symmetric]
          update_conv' distinct_update worker_ok_def jobs_ok_replace active_def)
  qed
qed

lemma merged_ok:
  "merge_enrichment pick m proposal analysis = Inr m' \<Longrightarrow>
   exact_map m' \<and> rm_status m' = Enriched \<and> rm_identity m' = rm_identity m"
  by (auto simp: merge_enrichment_def and_then_Inr_iff map_err_Inr_iff validate_iff Let_def)
     (simp_all add: merged_map_def Let_def)

lemma outcome_of_ok: "outcome_ok wk (outcome_of w wk completed_at answer)"
  by (auto simp: outcome_of_def outcome_ok_def failure_outcome_def shows_status_def merged_ok
      split: sum.split dest: merged_ok)

lemma answer_ok: "coordinator_ok c \<Longrightarrow> coordinator_ok (worker_answer w now completed_at answer c)"
  by (cases "co_worker c")
     (simp_all add: worker_answer_def coordinator_ok_def pending_def at_hand_def Let_def worker_ok_def outcome_of_ok)

lemma finished_record_ok:
  assumes "outcome_ok wk out" and "record_ok i r" and "rm_identity (map_of_job r) = rm_identity (wk_exact_map wk)"
  shows "record_ok i (finished_record out r)" and "\<not> active (finished_record out r)"
proof -
  have "record_ok i (finished_record out r) \<and> \<not> active (finished_record out r)"
  proof (cases out)
    case (Inl failed)
    obtain state status where "failed = (state, status)" by (cases failed)
    with Inl assms show ?thesis by (auto simp: finished_record_def outcome_ok_def record_ok_def active_def)
  next
    case (Inr m)
    with assms show ?thesis by (simp add: finished_record_def outcome_ok_def record_ok_def job_simps shows_status_def)
  qed
  then show "record_ok i (finished_record out r)" and "\<not> active (finished_record out r)" by auto
qed

lemma finish_ok:
  assumes ok: "coordinator_ok c"
  shows "coordinator_ok (worker_finish c)"
proof (cases "co_worker c")
  case (Finishing wk out)
  note inv = ok [unfolded coordinator_ok_def]
  have works: "works_ok (map_of (co_jobs c)) (pending c) [wk]" using inv by (simp add: Finishing at_hand_def)
  then obtain r where r: "map_of (co_jobs c) (wk_job_id wk) = Some r"
      "rm_identity (map_of_job r) = rm_identity (wk_exact_map wk)"
    by (auto simp: works_ok_def work_ok_def)
  have "in_state (map_of (co_jobs c)) JobAnalyzing (wk_job_id wk)" using works by (simp add: works_ok_def)
  then have active: "active r" using r(1) by (simp add: in_state_def active_def)
  then obtain k where k: "jr_cache_key r = Some k" using inv r(1) active_key by blast
  have out: "outcome_ok wk out" using inv by (simp add: Finishing worker_ok_def)
  have "record_ok (wk_job_id wk) r" using inv r by (auto simp: jobs_ok_def)
  note rec = finished_record_ok(1) [OF out this r(2)] and inactive = finished_record_ok(2) [OF out this r(2)]
  show ?thesis
    using inv r(1) k active inactive works_ok_finish [OF works r(1) inactive] rec
      flight_ok_finish [of "map_of (co_jobs c)" "map_of (co_in_flight c)" "wk_job_id wk" r "finished_record out r" k]
    by (simp add: worker_finish_def Finishing coordinator_ok_def pending_def at_hand_def worker_ok_def
        update_conv' distinct_update jobs_ok_replace delete_conv' distinct_delete)
qed (use ok in \<open>simp_all add: worker_finish_def\<close>)

lemma step_ok: "coordinator_ok c \<Longrightarrow> \<exists>c'. coordinator_step w event c = Some c' \<and> coordinator_ok c'"
proof (cases event)
  case (Resolve now request loaded analyzer)
  assume "coordinator_ok c"
  from lookup_ok [OF this, of w now request loaded analyzer] show ?thesis by (auto simp: Resolve coordinator_step_def)
next
  case (Retry now i loaded analyzer)
  assume ok: "coordinator_ok c"
  show ?thesis
  proof (cases "retry_request c i")
    case (Inr request)
    from lookup_ok [OF ok, of w now request loaded analyzer] Inr show ?thesis by (auto simp: Retry coordinator_step_def)
  qed (use ok in \<open>simp add: Retry coordinator_step_def\<close>)
next
  case (Advance seconds n)
  assume "coordinator_ok c"
  from advance_ok [OF this, of w seconds n] show ?thesis by (auto simp: Advance coordinator_step_def)
qed (simp_all add: coordinator_step_def take_ok answer_ok finish_ok)

interpretation analyses: safe_machine "coordinator_step w" "\<lambda>_. True" coordinator_ok
  by unfold_locales (rule step_ok)

lemma coordinator_new_ok: "coordinator_ok (coordinator_new dir)"
  by (simp add: coordinator_ok_def coordinator_new_def jobs_ok_def flight_ok_def works_ok_def pending_def at_hand_def
      in_state_def worker_ok_def)

lemma run_ok: "\<exists>c. run_all (coordinator_step w) events (coordinator_new dir) = Some c \<and> coordinator_ok c"
  by (rule analyses.run_safe [OF coordinator_new_ok]) (simp add: list_all_iff)

section \<open>Draining\<close>

text \<open>A round of the worker: it takes work, is answered and records the outcome.\<close>

definition worker_round :: "u64 \<times> string \<times> (review_map_failure + analysis_result) \<Rightarrow> coordinator_event list" where
  "worker_round answer = (case answer of (now, completed_at, result) \<Rightarrow> [WorkerTake, WorkerAnswer now completed_at result, WorkerFinish])"

definition work_left :: "coordinator \<Rightarrow> nat" where
  "work_left c = length (co_queue c) + length (at_hand (co_worker c))"

lemma worker_round_less:
  obtains c' where "run_all (coordinator_step w) (worker_round answer) c = Some c'"
    and "co_worker c' = Idle" and "work_left c' \<le> work_left c - 1" and "co_tasks c' = co_tasks c"
proof -
  obtain now completed_at result where answer: "answer = (now, completed_at, result)" by (cases answer)
  define c1 where "c1 = worker_take c"
  define c2 where "c2 = worker_answer w now completed_at result c1"
  define c3 where "c3 = worker_finish c2"
  have run: "run_all (coordinator_step w) (worker_round answer) c = Some c3"
    by (simp add: answer worker_round_def coordinator_step_def c1_def c2_def c3_def)
  have take: "co_tasks c1 = co_tasks c \<and> (co_worker c = Idle \<and> co_queue c \<noteq> []
      \<longrightarrow> length (co_queue c1) = length (co_queue c) - 1 \<and> (\<forall>wk out. co_worker c1 \<noteq> Finishing wk out))
    \<and> (\<not> (co_worker c = Idle \<and> co_queue c \<noteq> []) \<longrightarrow> c1 = c)"
    by (auto simp: c1_def worker_take_def split: worker_state.split list.split option.split)
  have answered: "co_tasks c2 = co_tasks c1" "co_queue c2 = co_queue c1"
    "\<forall>wk. co_worker c2 \<noteq> Working wk" "co_worker c1 = Idle \<Longrightarrow> co_worker c2 = Idle"
    by (auto simp: c2_def worker_answer_def Let_def split: worker_state.split)
  have finished: "co_tasks c3 = co_tasks c2" "co_queue c3 = co_queue c2" "co_worker c3 = Idle"
    using answered(3) by (auto simp: c3_def worker_finish_def split: worker_state.splits option.split)
  have "work_left c3 \<le> work_left c - 1"
  proof (cases "co_worker c = Idle \<and> co_queue c \<noteq> []")
    case True
    with take answered finished show ?thesis by (simp add: work_left_def at_hand_def)
  next
    case False
    with take have "c1 = c" by blast
    with False answered finished show ?thesis
      by (cases "co_worker c") (auto simp: work_left_def at_hand_def)
  qed
  moreover have "co_tasks c3 = co_tasks c" using take finished(1) answered(1) by simp
  ultimately show thesis using that [OF run finished(3)] by blast
qed

lemma run_all_append: "run_all f (xs @ ys) s = Option.bind (run_all f xs s) (run_all f ys)"
proof (induction xs arbitrary: s)
  case (Cons x xs)
  then show ?case by (cases "f x s") auto
qed simp

lemma rounds_drain:
  "work_left c \<le> length answers \<Longrightarrow> answers \<noteq> [] \<Longrightarrow>
   \<exists>c'. run_all (coordinator_step w) (concat (map worker_round answers)) c = Some c'
      \<and> co_worker c' = Idle \<and> co_queue c' = [] \<and> co_tasks c' = co_tasks c"
proof (induction answers arbitrary: c)
  case (Cons answer answers)
  from worker_round_less [of w answer c] obtain c1 where c1: "run_all (coordinator_step w) (worker_round answer) c = Some c1"
    "co_worker c1 = Idle" "work_left c1 \<le> work_left c - 1" "co_tasks c1 = co_tasks c" by blast
  show ?case
  proof (cases "answers = []")
    case True
    with c1 Cons.prems(1) show ?thesis by (simp add: run_all_append work_left_def)
  next
    case False
    with Cons.IH [of c1] c1 Cons.prems(1) show ?thesis by (auto simp: run_all_append)
  qed
qed simp

section \<open>Properties\<close>


text \<open>
  C12. Only exact maps are shown: every job of a reachable coordinator shows an exact map of its own
  repository, pull request and revision, with the status that goes with the state of the job.
\<close>

theorem coordinator_shows_exact_maps:
  "\<exists>c. run_all (coordinator_step w) events (coordinator_new dir) = Some c
    \<and> list_all (\<lambda>(i, r). record_ok i r) (co_jobs c)"
proof -
  from run_ok obtain c where c: "run_all (coordinator_step w) events (coordinator_new dir) = Some c" "coordinator_ok c"
    by blast
  have "record_ok i r" if "(i, r) \<in> set (co_jobs c)" for i r
    using c(2) that by (auto simp: coordinator_ok_def jobs_ok_def)
  then have "list_all (\<lambda>(i, r). record_ok i r) (co_jobs c)" by (auto simp: list_all_iff)
  with c(1) show ?thesis by blast
qed


text \<open>One call queues an analysis and sends it; the model does not answer in time.\<close>

definition sample_world :: coordinator_world where
  "sample_world = \<lparr>xw_cache = plain_world, xw_limits = sample_limits, xw_glob = (\<lambda>_. Inl []),
     xw_config = \<lparr>cc_classifier = with_patterns [] [], cc_classifier_version = 1, cc_schema_version = 1\<rparr>\<rparr>"

definition sample_events :: "coordinator_event list" where
  "sample_events =
     [Resolve 5 \<lparr>rq_key = \<lparr>pk_repository = ''o/r'', pk_number = 1\<rparr>, rq_expected_head_sha = Some ''h''\<rparr>
        (Inr (input_of [(None, ''src/a.rs'')]))
        (Inr \<lparr>ai_model = ''m'', ai_model_digest = ''d'', ai_prompt_version = 1, ai_generation_parameters = []\<rparr>),
      Advance 5 0, Advance 5 0]"


end
