(* ===== verification/Civil_Date.thy ===== *)
theory Civil_Date
  imports Rust_Str
begin

text \<open>
  The date an analysis was completed at: \<open>completed_at\<close> and \<open>civil_date\<close> of
  \<open>crates/ramo-server/src/analysis/coordinator.rs\<close>. The clock is an argument.
\<close>

definition civil_date :: "int \<Rightarrow> int \<times> int \<times> int" where
  "civil_date days_since_epoch =
     (let days = days_since_epoch + 719468;
          era = days div 146097;
          day_of_era = days - era * 146097;
          year_of_era = (day_of_era - day_of_era div 1460 + day_of_era div 36524 - day_of_era div 146096) div 365;
          year = year_of_era + era * 400;
          day_of_year = day_of_era - (365 * year_of_era + year_of_era div 4 - year_of_era div 100);
          month_prime = (5 * day_of_year + 2) div 153;
          day = day_of_year - (153 * month_prime + 2) div 5 + 1;
          month = month_prime + (if month_prime < 10 then 3 else - 9)
      in (year + (if month \<le> 2 then 1 else 0), month, day))"

text \<open>\<open>{:0n}\<close>\<close>

definition pad :: "nat \<Rightarrow> int \<Rightarrow> string" where
  "pad n i = (let s = nat_str (nat i) in replicate (n - length s) CHR ''0'' @ s)"

definition completed_at :: "nat \<Rightarrow> string" where
  "completed_at seconds =
     (let (year, month, day) = civil_date (int (seconds div 86400));
          day_seconds = int (seconds mod 86400)
      in pad 4 year @ ''-'' @ pad 2 month @ ''-'' @ pad 2 day @ ''T'' @ pad 2 (day_seconds div 3600) @ '':''
         @ pad 2 (day_seconds mod 3600 div 60) @ '':'' @ pad 2 (day_seconds mod 60) @ ''Z'')"

section \<open>The calendar\<close>

definition leap_year :: "int \<Rightarrow> bool" where
  "leap_year y \<longleftrightarrow> y mod 4 = 0 \<and> (y mod 100 \<noteq> 0 \<or> y mod 400 = 0)"

definition days_in_month :: "int \<Rightarrow> int \<Rightarrow> int" where
  "days_in_month y m =
     (if m = 2 then if leap_year y then 29 else 28
      else if m = 4 \<or> m = 6 \<or> m = 9 \<or> m = 11 then 30 else 31)"

fun next_date :: "int \<times> int \<times> int \<Rightarrow> int \<times> int \<times> int" where
  "next_date (y, m, d) =
     (if d < days_in_month y m then (y, m, d + 1)
      else if m < 12 then (y, m + 1, 1) else (y + 1, 1, 1))"

section \<open>Years that begin in March\<close>

definition year_of_era :: "int \<Rightarrow> int" where
  "year_of_era doe = (doe - doe div 1460 + doe div 36524 - doe div 146096) div 365"

definition year_start :: "int \<Rightarrow> int" where
  "year_start y = 365 * y + y div 4 - y div 100"

text \<open>The year \<open>y\<close> of an era has a 29 February at its end when the year after it is a leap year.\<close>

definition long_year :: "int \<Rightarrow> bool" where
  "long_year y \<longleftrightarrow> (y + 1) mod 4 = 0 \<and> ((y + 1) mod 100 \<noteq> 0 \<or> (y + 1) mod 400 = 0)"

lemma year_of_era_bounds:
  assumes "0 \<le> doe" "doe < 146096"
  defines "y \<equiv> year_of_era doe"
  shows "0 \<le> y \<and> y \<le> 399 \<and> year_start y \<le> doe
    \<and> (doe \<le> year_start y + 364 \<or> doe = year_start y + 365 \<and> y mod 4 = 3 \<and> y mod 100 \<noteq> 99)"
proof -
  define b where "b = doe div 36524"
  define r where "r = doe mod 36524"
  have r: "doe = 36524 * b + r" "0 \<le> r" "r < 36524" by (simp_all add: b_def r_def)
  have b: "0 \<le> b" "b \<le> 3" using r assms(1,2) by linarith+
  define g where "g = (24 * b + r) div 1460"
  have g: "1460 * g \<le> 24 * b + r" "24 * b + r < 1460 * g + 1460" unfolding g_def by linarith+
  have "doe div 1460 = 25 * b + g"
    using r g by (intro int_div_pos_eq [where r = "24 * b + r - 1460 * g"]) auto
  moreover have "doe div 146096 = 0" using assms(1,2) by simp
  ultimately have sum: "doe - doe div 1460 + doe div 36524 - doe div 146096 = 36500 * b + (r - g)"
    using r(1) b_def by linarith
  define v where "v = (r - g) div 365"
  define t where "t = (r - g) mod 365"
  have t: "r - g = 365 * v + t" "0 \<le> t" "t \<le> 364" by (simp_all add: v_def t_def)
  have y: "y = 100 * b + v" unfolding y_def year_of_era_def sum v_def by linarith
  have v: "0 \<le> v" "v \<le> 99" using t g b r(2,3) by linarith+
  define k where "k = v div 4"
  define s where "s = v mod 4"
  have k: "v = 4 * k + s" "0 \<le> s" "s \<le> 3" by (simp_all add: k_def s_def)
  have "0 \<le> g" "0 \<le> k" using g r(2) b v k by linarith+
  have "g \<le> k + 1" using t g b k v by linarith
  moreover have "k \<le> g"
  proof (rule ccontr)
    assume "\<not> k \<le> g"
    then have "g + 1 \<le> k" by linarith
    with t g b k v \<open>0 \<le> g\<close> show False by linarith
  qed
  ultimately have near: "k \<le> g" "g \<le> k + 1" by blast+
  have start: "year_start y = 36524 * b + 365 * v + k"
  proof -
    have "(100 * b + v) div 100 = b" using v by simp
    moreover have "(100 * b + v) div 4 = 25 * b + k" unfolding k_def by simp
    ultimately show ?thesis by (simp add: year_start_def y)
  qed
  show ?thesis
  proof (cases "g = k")
    case True
    with t(1) k r(1) start have "doe = year_start y + t" by linarith
    with t y v b start show ?thesis by linarith
  next
    case False
    then have "g = k + 1" using near by linarith
    then have doe: "doe = year_start y + t + 1" using t(1) k r(1) start by linarith
    show ?thesis
    proof (cases "t = 364")
      case True
      have "s = 3" using True \<open>g = k + 1\<close> g(1) t(1) k v b by linarith
      have "v \<noteq> 99" using True \<open>g = k + 1\<close> \<open>s = 3\<close> t(1) k r(3) by linarith
      have "y = 4 * (25 * b + k) + 3" using y k \<open>s = 3\<close> by simp
      then have "y mod 4 = 3 mod 4" by (metis mod_mult_self4)
      then have "y mod 4 = 3" by simp
      moreover have "y mod 100 = v" using y v by simp
      ultimately show ?thesis using True doe y v b start k \<open>v \<noteq> 99\<close> by auto
    next
      case False
      with doe t y v b start k show ?thesis by linarith
    qed
  qed
qed

definition year_length :: "int \<Rightarrow> int" where
  "year_length y = (if long_year y then 366 else 365)"

lemma year_of_era:
  assumes "0 \<le> doe" "doe < 146097"
  defines "y \<equiv> year_of_era doe"
  shows "0 \<le> y \<and> y \<le> 399 \<and> year_start y \<le> doe \<and> doe < year_start y + year_length y"
proof (cases "doe = 146096")
  case True
  then show ?thesis by (simp add: y_def year_of_era_def year_start_def year_length_def long_year_def)
next
  case False
  have long: "long_year y" if "y mod 4 = 3" "y mod 100 \<noteq> 99"
  proof -
    have "(y + 1) mod 4 = 0" using that(1) by presburger
    moreover have "(y + 1) mod 100 \<noteq> 0"
    proof
      assume "(y + 1) mod 100 = 0"
      then obtain q where "y + 1 = 100 * q" by (metis mod_0_imp_dvd dvdE)
      then have "y = 100 * (q - 1) + 99" by simp
      then have "y mod 100 = 99 mod 100" by (metis mod_mult_self4)
      with that(2) show False by simp
    qed
    ultimately show ?thesis using that(2) by (auto simp: long_year_def)
  qed
  from False assms(1,2) year_of_era_bounds [of doe] long show ?thesis
    by (auto simp: y_def year_length_def)
qed

lemma year_start_mono: "x \<le> y \<Longrightarrow> year_start x \<le> year_start y"
  unfolding year_start_def by (cases "x = y") (simp, linarith)

lemma div_next: "0 \<le> y \<Longrightarrow> (y + 1) div int n = y div int n + (if (y + 1) mod int n = 0 then 1 else 0)"
proof -
  assume "0 \<le> y"
  then obtain k where k: "y = int k" by (metis nonneg_int_cases)
  have "(int k + 1) div int n = int (Suc k div n)" "(int k + 1) mod int n = int (Suc k mod n)"
    by (metis of_nat_Suc add.commute zdiv_int, metis of_nat_Suc add.commute zmod_int)
  then show ?thesis by (simp add: k div_Suc zdiv_int [symmetric])
qed

lemma year_start_next:
  assumes "0 \<le> y" "y < 399"
  shows "year_start (y + 1) = year_start y + year_length y"
proof -
  have cent: "(y + 1) mod 4 = 0" if "(y + 1) mod 100 = 0"
  proof -
    have "100 dvd y + 1" using that by (simp add: dvd_eq_mod_eq_0)
    then have "4 dvd y + 1" by (rule dvd_trans [rotated]) simp
    then show ?thesis by (simp add: dvd_eq_mod_eq_0)
  qed
  have "(y + 1) mod 400 = y + 1" using assms by simp
  then have not400: "(y + 1) mod 400 \<noteq> 0" using assms by linarith
  have four: "(y + 1) div 4 = y div 4 + (if (y + 1) mod 4 = 0 then 1 else 0)"
    using div_next [OF assms(1), of 4] unfolding of_nat_numeral .
  have hundred: "(y + 1) div 100 = y div 100 + (if (y + 1) mod 100 = 0 then 1 else 0)"
    using div_next [OF assms(1), of 100] unfolding of_nat_numeral .
  show ?thesis
    unfolding year_start_def year_length_def long_year_def four hundred using cent not400
    by (cases "(y + 1) mod 4 = 0"; cases "(y + 1) mod 100 = 0") (simp_all only: if_True if_False simp_thms, simp_all)
qed

lemma year_of_era_unique:
  assumes "0 \<le> y" "y \<le> 399" "year_start y \<le> doe" "doe < year_start y + year_length y" "0 \<le> doe" "doe < 146097"
  shows "year_of_era doe = y"
proof -
  define z where "z = year_of_era doe"
  have z: "0 \<le> z" "z \<le> 399" "year_start z \<le> doe" "doe < year_start z + year_length z"
    using year_of_era [OF assms(5,6)] by (auto simp: z_def)
  have "\<not> y < z" using year_start_mono [of "y + 1" z] year_start_next [of y] assms z by linarith
  moreover have "\<not> z < y" using year_start_mono [of "z + 1" y] year_start_next [of z] assms z by linarith
  ultimately show ?thesis by (simp add: z_def)
qed

section \<open>Months that begin in March\<close>

definition month_of :: "int \<Rightarrow> int" where "month_of doy = (5 * doy + 2) div 153"
definition day_of :: "int \<Rightarrow> int" where "day_of doy = doy - (153 * month_of doy + 2) div 5 + 1"

definition calendar_month :: "int \<Rightarrow> int" where
  "calendar_month mp = mp + (if mp < 10 then 3 else - 9)"

text \<open>The days before February, whose number of days does not depend on the year.\<close>

definition month_ok :: "int \<Rightarrow> int \<Rightarrow> bool" where
  "month_ok y doy \<longleftrightarrow>
     (let mp = month_of doy in
      0 \<le> mp \<and> mp \<le> 10
      \<and> (if day_of doy < days_in_month y (calendar_month mp)
         then month_of (doy + 1) = mp \<and> day_of (doy + 1) = day_of doy + 1
         else month_of (doy + 1) = mp + 1 \<and> day_of (doy + 1) = 1))"

lemma month_step:
  assumes "0 \<le> doy" "doy < 337"
  shows "month_ok y doy"
proof -
  define mp where "mp = month_of doy"
  have mp: "153 * mp \<le> 5 * doy + 2" "5 * doy + 2 < 153 * mp + 153" unfolding mp_def month_of_def by linarith+
  have next_month: "month_of (doy + 1) = (if 5 * doy + 7 < 153 * mp + 153 then mp else mp + 1)"
  proof (cases "5 * doy + 7 < 153 * mp + 153")
    case True
    have "(5 * (doy + 1) + 2) div 153 = mp"
      by (rule int_div_pos_eq [where r = "5 * doy + 7 - 153 * mp"]) (use mp True in simp_all)
    with True show ?thesis by (simp only: month_of_def if_True)
  next
    case False
    have "(5 * (doy + 1) + 2) div 153 = mp + 1"
      by (rule int_div_pos_eq [where r = "5 * doy + 7 - 153 * (mp + 1)"]) (use mp False in simp_all)
    with False show ?thesis by (simp only: month_of_def if_False)
  qed
  have "0 \<le> mp" "mp \<le> 10" using mp assms by linarith+
  then have "mp \<in> {0, 1, 2, 3, 4, 5, 6, 7, 8, 9, 10}" unfolding insert_iff empty_iff by presburger
  moreover have ok: "month_ok y doy \<longleftrightarrow> 0 \<le> mp \<and> mp \<le> 10
      \<and> (if doy - (153 * mp + 2) div 5 + 1 < days_in_month y (calendar_month mp)
         then 5 * doy + 7 < 153 * mp + 153
         else \<not> 5 * doy + 7 < 153 * mp + 153 \<and> doy + 1 = (153 * (mp + 1) + 2) div 5)"
    unfolding month_ok_def Let_def day_of_def mp_def [symmetric] next_month by auto
  ultimately show ?thesis
    using mp unfolding ok
    by (elim insertE emptyE; simp add: days_in_month_def calendar_month_def; intro impI conjI; linarith)
qed

lemma february:
  assumes "337 \<le> doy" "doy \<le> 365"
  shows "month_of doy = 11 \<and> day_of doy = doy - 336"
proof -
  have "month_of doy = 11" unfolding month_of_def
    using assms by (intro int_div_pos_eq [where r = "5 * doy + 2 - 153 * 11"]) auto
  then show ?thesis by (simp add: day_of_def)
qed

section \<open>Days\<close>

text \<open>The day \<open>doy\<close> of year \<open>y\<close> of era \<open>era\<close>.\<close>

definition date_in :: "int \<Rightarrow> int \<Rightarrow> int \<Rightarrow> int \<times> int \<times> int" where
  "date_in era y doy =
     (y + era * 400 + (if calendar_month (month_of doy) \<le> 2 then 1 else 0), calendar_month (month_of doy), day_of doy)"

definition day_number :: "int \<Rightarrow> int \<Rightarrow> int \<Rightarrow> int" where
  "day_number era y doy = 146097 * era + year_start y + doy - 719468"

lemma civil_date_of:
  assumes "0 \<le> y" "y \<le> 399" "0 \<le> doy" "doy < year_length y"
  shows "civil_date (day_number era y doy) = date_in era y doy"
proof -
  define doe where "doe = year_start y + doy"
  have "0 \<le> doe" using assms(1,3) year_start_mono [of 0 y] by (simp add: doe_def year_start_def)
  have "doe < 146097"
    using assms(2,4) year_start_mono [of y 399] year_start_next [of y] year_start_mono [of "y + 1" 399] assms(1)
    by (cases "y = 399") (auto simp: doe_def year_length_def long_year_def year_start_def split: if_splits)
  have days: "day_number era y doy + 719468 = doe + era * 146097" by (simp add: day_number_def doe_def)
  have era: "(doe + era * 146097) div 146097 = era" using \<open>0 \<le> doe\<close> \<open>doe < 146097\<close> by simp
  have year: "year_of_era doe = y"
    using assms \<open>0 \<le> doe\<close> \<open>doe < 146097\<close> by (intro year_of_era_unique) (auto simp: doe_def)
  then have year': "(doe - doe div 1460 + doe div 36524 - doe div 146096) div 365 = y" by (simp add: year_of_era_def)
  have doy: "doe - (365 * y + y div 4 - y div 100) = doy" by (simp add: doe_def year_start_def)
  show ?thesis
    unfolding civil_date_def Let_def days era add_diff_cancel_right' year' doy date_in_def calendar_month_def
      month_of_def day_of_def by simp
qed

lemma day_number_surj:
  obtains era y doy where "d = day_number era y doy" "0 \<le> y" "y \<le> 399" "0 \<le> doy" "doy < year_length y"
proof -
  define era where "era = (d + 719468) div 146097"
  define doe where "doe = (d + 719468) mod 146097"
  define y where "y = year_of_era doe"
  have "0 \<le> y \<and> y \<le> 399 \<and> year_start y \<le> doe \<and> doe < year_start y + year_length y"
    unfolding y_def by (rule year_of_era) (simp_all add: doe_def)
  moreover have "d = 146097 * era + doe - 719468" by (simp add: era_def doe_def)
  ultimately show thesis using that [of era y "doe - year_start y"] by (auto simp: day_number_def)
qed

lemma leap_long: "leap_year (y + era * 400 + 1) \<longleftrightarrow> long_year y"
proof -
  have "y + era * 400 + 1 = (y + 1) + (era * 100) * 4" "y + era * 400 + 1 = (y + 1) + (era * 4) * 100"
    "y + era * 400 + 1 = (y + 1) + era * 400" by simp_all
  then have "(y + era * 400 + 1) mod 4 = (y + 1) mod 4" "(y + era * 400 + 1) mod 100 = (y + 1) mod 100"
    "(y + era * 400 + 1) mod 400 = (y + 1) mod 400" by (metis mod_mult_self1)+
  then show ?thesis by (simp add: leap_year_def long_year_def)
qed

text \<open>
  C30. The calendar: day 0 is 1 January 1970, and the date of each following day is the next date of
  the Gregorian calendar, before the epoch as well.
\<close>

theorem civil_date_gregorian:
  "civil_date 0 = (1970, 1, 1) \<and> civil_date (d + 1) = next_date (civil_date d)"
proof
  show "civil_date 0 = (1970, 1, 1)" by code_simp
next
  obtain era y doy where d: "d = day_number era y doy" and y: "0 \<le> y" "y \<le> 399" and doy: "0 \<le> doy" "doy < year_length y"
    by (rule day_number_surj)
  have now: "civil_date d = date_in era y doy" unfolding d by (rule civil_date_of [OF y doy])
  show "civil_date (d + 1) = next_date (civil_date d)"
  proof (cases "doy + 1 < year_length y")
    case True
    have "d + 1 = day_number era y (doy + 1)" by (simp add: d day_number_def)
    then have tomorrow: "civil_date (d + 1) = date_in era y (doy + 1)" using civil_date_of [OF y _ True] doy by simp
    show ?thesis
    proof (cases "doy < 337")
      case before: True
      define mp where "mp = month_of doy"
      have "month_ok (y + era * 400 + (if calendar_month mp \<le> 2 then 1 else 0)) doy"
        by (rule month_step [OF doy(1) before])
      then have mp: "0 \<le> mp" "mp \<le> 10" and step: "if day_of doy
          < days_in_month (y + era * 400 + (if calendar_month mp \<le> 2 then 1 else 0)) (calendar_month mp)
         then month_of (doy + 1) = mp \<and> day_of (doy + 1) = day_of doy + 1
         else month_of (doy + 1) = mp + 1 \<and> day_of (doy + 1) = 1"
        unfolding month_ok_def Let_def mp_def [symmetric] by blast+
      have "calendar_month (mp + 1) = (if calendar_month mp < 12 then calendar_month mp + 1 else 1)"
        "(calendar_month (mp + 1) \<le> 2) = (calendar_month mp \<le> 2 \<or> \<not> calendar_month mp < 12)"
        using mp by (auto simp: calendar_month_def)
      with step mp show ?thesis
        unfolding now tomorrow date_in_def mp_def [symmetric] next_date.simps
        by (auto simp: calendar_month_def split: if_splits)
    next
      case False
      then have "month_of doy = 11" "day_of doy = doy - 336" "month_of (doy + 1) = 11" "day_of (doy + 1) = doy - 335"
        using february [of doy] february [of "doy + 1"] True by (auto simp: year_length_def split: if_splits)
      with True show ?thesis
        by (auto simp: now tomorrow date_in_def calendar_month_def days_in_month_def leap_long year_length_def split: if_splits)
    qed
  next
    case False
    then have last: "doy = year_length y - 1" using doy by simp
    have feb: "month_of doy = 11" "day_of doy = doy - 336"
      using february [of doy] last by (auto simp: year_length_def split: if_splits)
    have month: "days_in_month (y + era * 400 + 1) 2 = (if long_year y then 29 else 28)"
      by (simp add: days_in_month_def leap_long)
    have "next_date (civil_date d) = (y + era * 400 + 1, 3, 1)"
      using feb last month by (auto simp: now date_in_def calendar_month_def year_length_def)
    moreover have "civil_date (d + 1) = (y + era * 400 + 1, 3, 1)"
    proof (cases "y = 399")
      case True
      have "d + 1 = day_number (era + 1) 0 0"
        using last True by (simp add: d day_number_def year_start_def year_length_def long_year_def)
      then show ?thesis using civil_date_of [of 0 0 "era + 1"] True
        by (simp add: date_in_def calendar_month_def month_of_def day_of_def year_length_def)
    next
      case False
      then have "d + 1 = day_number era (y + 1) 0"
        using last year_start_next [of y] y by (simp add: d day_number_def)
      then show ?thesis using civil_date_of [of "y + 1" 0 era] False y
        by (simp add: date_in_def calendar_month_def month_of_def day_of_def year_length_def)
    qed
    ultimately show ?thesis by simp
  qed
qed

end
