(* ===== verification/Spec2Isabelle.thy ===== *)
theory Spec2Isabelle
  imports Diff_Round_Trip Drafts Quality Review_Layout Text_Input Watch Map_Controller Review_Safety Markup_Round_Trip Coordinator_Props Civil_Date
begin

text \<open>
  This development verifies the core of \<open>ramo\<close>, a terminal program for reviewing diffs, as it
  stands in \<open>src/\<close> and \<open>crates/\<close>. It models the code as executable functions on data with the
  code's structure and proves what makes each part correct.

  \<^bold>\<open>The program.\<close> A diff is read and parsed into files, hunks and lines (\<open>ramo-core/diff\<close>). The
  review screen turns every file into rows (\<open>review/row.rs\<close>), lays the rows out
  (\<open>review/geometry.rs\<close>), keeps the scroll position across new layouts (\<open>review/anchor.rs\<close>), opens
  collapsed context (\<open>review/context.rs\<close>) and counts what has been seen
  (\<open>review/progress.rs\<close>). For a pull request a server plans a review map
  (\<open>ramo-core/review_map\<close>) that a model may enrich and the terminal shows
  (\<open>review_map/state.rs\<close>). Draft comments follow the code to a new revision
  (\<open>ramo-core/drafts.rs\<close>). A watch coordinator reloads the diff when files change
  (\<open>watch/coordinator.rs\<close>).

  \<^bold>\<open>The model.\<close> A struct is a record whose fields carry a prefix, an enum a datatype; a method is
  a function with the receiver as its last argument that returns the new receiver; an error
  is the left side of a sum; a panic is \<open>None\<close>. A string is its list of UTF-8 bytes. Machine
  integers are natural numbers with wrapping or saturation written out (\<open>Prelude\<close>), 64-bit
  words in the one hash. A loop is a fold or a recursive function with a termination proof;
  nothing needs fuel.

  \<^bold>\<open>Theories.\<close>
  \<^item> \<open>Prelude\<close>, \<open>Rust_Str\<close>, \<open>Ordered_Map\<close>: machine integers, slices, results, binary search,
    strings, ordered maps, and the locale \<open>op_machine\<close> for objects driven by operations.
  \<^item> \<open>Diff_Model\<close>, \<open>Diff_Parser\<close>, \<open>Diff_Parser_Props\<close>, \<open>Diff_Round_Trip\<close>: the data of a review,
    the parser of unified diffs, its totality, consistency and panics, and the round trip with
    a printer of diffs.
  \<^item> \<open>Terminal_Text\<close>: removing control sequences from text that reaches the terminal.
  \<^item> \<open>Drafts\<close>: creating draft comments and moving them to a new revision.
  \<^item> \<open>Review_Map_Model\<close>, \<open>Classify\<close>, \<open>Planner\<close>, \<open>Enrichment\<close>, \<open>Quality\<close>: the review map, its
    planner, the check that it is exact, the merge of a model's proposal and its quality gate.
  \<^item> \<open>Map_Controller\<close>: the map screen, over the maps of \<open>Planner\<close>.
  \<^item> \<open>Note_Target\<close>: which hunk and line a note belongs to, its identifier and its box.
  \<^item> \<open>Context_Gaps\<close>, \<open>Review_Row\<close>, \<open>Progress\<close>, \<open>Row_Plan\<close>: collapsed context, row data and
    emphasis, review progress, and the rows of a file.
  \<^item> \<open>Geometry\<close>, \<open>Anchor\<close>, \<open>Review_Layout\<close>: the layout of a review, the locales \<open>row_column\<close> (an
    ordered column of rows, as binary search needs it) and \<open>keyed_rows\<close> (rows found by position
    and by key, as scrolling needs it), and the composition of plans and layout.
  \<^item> \<open>Selection\<close>, \<open>Threads\<close>, \<open>Note_Cards\<close>, \<open>Note_Plan\<close>: the text a selection copies, where the
    threads of a pull request go, the wrapping of notes and the rows of a file with its notes.
  \<^item> \<open>Review_State\<close>, \<open>Review_Core\<close>, \<open>Review_Rebuild\<close>, \<open>Review_Actions\<close>: the review controller: its
    data, the views computed from it, the rebuild of the layout, and the actions. \<open>Review_Hits\<close>,
    \<open>Review_Notes\<close>: the mouse, selections, context, notes, questions and session requests.
    \<open>Review_Invariant\<close>, \<open>Review_Safety\<close>: no sequence of its operations panics, and what is drawn is
    always the current state; a step that panics is \<open>None\<close>.
  \<^item> \<open>Text_Input\<close>: the edit buffer, a refinement of two character lists, and the locale
    \<open>edit_buffer\<close>.
  \<^item> \<open>Watch\<close>: the watch coordinator as a step relation, with safety and liveness of its runs.

  \<^bold>\<open>Parameters.\<close> Code outside the repository is an argument: \<open>globset\<close> compiles a glob pattern,
  \<open>word_diff\<close> is the differ of the \<open>similar\<close> crate (assumed to list changes that give back both
  texts), \<open>width\<close> is \<open>unicode_width\<close>, \<open>lowercase\<close> and \<open>alphanumeric\<close> are Unicode's tables, and
  \<open>pick\<close> is the order in which a hash set is iterated when an error names one of several.

  \<^bold>\<open>Not modelled.\<close> Rendering, terminal and process input and output, HTTP, files and the event
  loop; PROJECT.json lists every part with the reason.
\<close>

end
